(* ===== verification/Prelude.thy ===== *)
theory Prelude
  imports Complex_Main "HOL-Library.Multiset" "HOL-Library.Sublist"
    "HOL-Library.Char_ord" "HOL-Library.List_Lexorder"
begin

text \<open>
  Shared vocabulary of the development: Go's time values, the parts of Go's
  \<^verbatim>\<open>strings\<close> package that the daemon uses, buffered channels used as counting
  semaphores, and the generic facts on lists, maps and counting that the component
  theories rely on.

  Conventions. A Go \<^verbatim>\<open>time.Time\<close> or \<^verbatim>\<open>time.Duration\<close> is an \<^typ>\<open>int\<close> of
  nanoseconds; the zero \<^verbatim>\<open>time.Time\<close> (\<^verbatim>\<open>IsZero\<close>) is \<open>0\<close>. No duration of the
  program comes near the 292 years at which an \<^verbatim>\<open>int64\<close> of nanoseconds wraps, so the
  integers are unbounded. A clock reading and every outcome of a call out of the
  program (a provider API, containerd, a virtual machine, a random draw) is an argument
  of the definition that makes the call.
\<close>

named_theorems wf_intros \<open>well-formedness is kept by an operation\<close>
named_theorems step_simps \<open>defining equations unfolded when a handler is executed\<close>

subsection \<open>Time\<close>

type_synonym time = int

abbreviation millisecond :: time where "millisecond \<equiv> 1000000"
abbreviation second :: time where "second \<equiv> 1000000000"
abbreviation minute :: time where "minute \<equiv> 60000000000"
abbreviation hour :: time where "hour \<equiv> 3600000000000"

subsection \<open>Strings\<close>

text \<open>
  Go strings are byte sequences; \<^typ>\<open>string\<close> is a list of bytes. \<^verbatim>\<open>strings.ToLower\<close>
  and \<^verbatim>\<open>strings.TrimSpace\<close> are modelled on ASCII, which is what labels, process names
  and the matched error fragments consist of.
\<close>

definition to_lower_char :: "char \<Rightarrow> char" where
  "to_lower_char c =
     (if 65 \<le> (of_char c :: nat) \<and> (of_char c :: nat) \<le> 90
      then char_of ((of_char c :: nat) + 32) else c)"

definition to_lower :: "string \<Rightarrow> string" where
  "to_lower s = map to_lower_char s"

definition is_space :: "char \<Rightarrow> bool" where
  "is_space c \<longleftrightarrow> (of_char c :: nat) \<in> {9, 10, 11, 12, 13, 32}"

definition trim_space :: "string \<Rightarrow> string" where
  "trim_space s = rev (dropWhile is_space (rev (dropWhile is_space s)))"

fun has_prefix :: "string \<Rightarrow> string \<Rightarrow> bool" where
  "has_prefix s [] = True"
| "has_prefix [] (p # ps) = False"
| "has_prefix (c # s) (p # ps) = (c = p \<and> has_prefix s ps)"

definition has_suffix :: "string \<Rightarrow> string \<Rightarrow> bool" where
  "has_suffix s p = has_prefix (rev s) (rev p)"

definition trim_suffix :: "string \<Rightarrow> string \<Rightarrow> string" where
  "trim_suffix s p = (if has_suffix s p then take (length s - length p) s else s)"

fun str_contains :: "string \<Rightarrow> string \<Rightarrow> bool" where
  "str_contains [] p = (p = [])"
| "str_contains (c # s) p = (has_prefix (c # s) p \<or> str_contains s p)"

fun str_join :: "string \<Rightarrow> string list \<Rightarrow> string" where
  "str_join sep [] = []"
| "str_join sep [x] = x"
| "str_join sep (x # y # xs) = x @ sep @ str_join sep (y # xs)"

text \<open>Decimal notation, as \<^verbatim>\<open>fmt.Sprintf("%d", n)\<close> prints it.\<close>

fun nat_to_dec :: "nat \<Rightarrow> string" where
  "nat_to_dec n = (if n < 10 then [char_of (48 + n)] else nat_to_dec (n div 10) @ [char_of (48 + n mod 10)])"

declare nat_to_dec.simps [simp del]

definition int_to_dec :: "int \<Rightarrow> string" where
  "int_to_dec i = (if i < 0 then CHR 0x2D # nat_to_dec (nat (- i)) else nat_to_dec (nat i))"

lemma has_prefix_iff: "has_prefix s p \<longleftrightarrow> prefix p s"
  by (induction s p rule: has_prefix.induct) auto

lemma str_contains_iff: "str_contains s p \<longleftrightarrow> sublist p s"
  by (induction s) (auto simp: has_prefix_iff sublist_Cons_right)

lemma to_lower_char_idem [simp]: "to_lower_char (to_lower_char c) = to_lower_char c"
proof (cases "65 \<le> (of_char c :: nat) \<and> (of_char c :: nat) \<le> 90")
  case True
  then have "(of_char (to_lower_char c) :: nat) = of_char c + 32"
    by (simp add: to_lower_char_def of_char_of)
  with True show ?thesis
    by (simp add: to_lower_char_def [of "to_lower_char c"])
next
  case False
  then have "to_lower_char c = c" unfolding to_lower_char_def by (rule if_not_P)
  then show ?thesis by simp
qed

lemma to_lower_idem [simp]: "to_lower (to_lower s) = to_lower s"
  by (simp add: to_lower_def)

subsection \<open>Buffered channels as semaphores\<close>

text \<open>
  A Go channel of capacity \<open>c\<close> used as a counting semaphore. Only its occupancy
  matters: \<^verbatim>\<open>len(ch)\<close> tokens out of \<^verbatim>\<open>cap(ch)\<close>. \<^const>\<open>None\<close> is "the operation
  blocks".
\<close>

record chan =
  ch_len :: nat
  ch_cap :: nat

definition make_chan :: "nat \<Rightarrow> chan" where
  "make_chan c = \<lparr>ch_len = 0, ch_cap = c\<rparr>"

definition chan_send :: "chan \<Rightarrow> chan option" where
  "chan_send c = (if ch_len c < ch_cap c then Some (c\<lparr>ch_len := ch_len c + 1\<rparr>) else None)"

definition chan_recv :: "chan \<Rightarrow> chan option" where
  "chan_recv c = (if 0 < ch_len c then Some (c\<lparr>ch_len := ch_len c - 1\<rparr>) else None)"

lemma chan_send_SomeD [dest!]:
  "chan_send c = Some c' \<Longrightarrow> ch_len c < ch_cap c \<and> c' = c\<lparr>ch_len := Suc (ch_len c)\<rparr>"
  by (auto simp: chan_send_def split: if_splits)

lemma chan_recv_SomeD [dest!]:
  "chan_recv c = Some c' \<Longrightarrow> 0 < ch_len c \<and> c' = c\<lparr>ch_len := ch_len c - 1\<rparr>"
  by (auto simp: chan_recv_def split: if_splits)

subsection \<open>Counting in lists\<close>

definition count_if :: "('a \<Rightarrow> bool) \<Rightarrow> 'a list \<Rightarrow> nat" where
  "count_if P xs = length (filter P xs)"

lemma count_if_simps [simp]:
  "count_if P [] = 0"
  "count_if P (x # xs) = (if P x then Suc (count_if P xs) else count_if P xs)"
  "count_if P (xs @ ys) = count_if P xs + count_if P ys"
  by (simp_all add: count_if_def)

lemma count_if_pos: "x \<in> set xs \<Longrightarrow> P x \<Longrightarrow> 0 < count_if P xs"
  by (induction xs) auto

lemma count_if_update:
  assumes "i < length xs"
  shows "count_if P (xs[i := y]) + (if P (xs ! i) then 1 else 0)
       = count_if P xs + (if P y then 1 else 0)"
  using assms
proof (induction xs arbitrary: i)
  case Nil
  then show ?case by simp
next
  case (Cons x xs)
  then show ?case by (cases i) auto
qed

lemma count_if_zero: "count_if P xs = 0 \<longleftrightarrow> (\<forall>x\<in>set xs. \<not> P x)"
  by (induction xs) auto

lemma drop_last: "length xs = Suc n \<Longrightarrow> drop n xs = [xs ! n]"
  using Cons_nth_drop_Suc [of n xs] by simp

end
