(* ===== verification/Go_Heap.thy ===== *)
theory Go_Heap
  imports Prelude
begin

text \<open>
  Go's \<^verbatim>\<open>container/heap\<close> (standard library), on which the retry queue of
  \<^verbatim>\<open>pkg/scheduler/retry_queue.go\<close> is built: \<^verbatim>\<open>up\<close>, \<^verbatim>\<open>down\<close>, \<^verbatim>\<open>Push\<close>, \<^verbatim>\<open>Pop\<close>,
  \<^verbatim>\<open>Remove\<close> and \<^verbatim>\<open>Fix\<close>, each a function of the client's \<^verbatim>\<open>Less\<close> and \<^verbatim>\<open>Swap\<close>. The
  locale \<open>heap_interface\<close> states what \<^verbatim>\<open>heap.Interface\<close> asks of a client and derives,
  once, that the operations permute the elements and restore the heap order.
\<close>

subsection \<open>The library's functions\<close>

abbreviation par :: "nat \<Rightarrow> nat" where
  "par j \<equiv> (j - 1) div 2"

function heap_up :: "('h \<Rightarrow> nat \<Rightarrow> nat \<Rightarrow> bool) \<Rightarrow> ('h \<Rightarrow> nat \<Rightarrow> nat \<Rightarrow> 'h) \<Rightarrow> 'h \<Rightarrow> nat \<Rightarrow> 'h" where
  "heap_up lessf swapf h j =
     (if par j = j \<or> \<not> lessf h j (par j) then h
      else heap_up lessf swapf (swapf h (par j) j) (par j))"
  by pat_completeness auto
termination
  by (relation "measure (\<lambda>(_, _, _, j). j)") auto

function heap_down_loop ::
  "('h \<Rightarrow> nat \<Rightarrow> nat \<Rightarrow> bool) \<Rightarrow> ('h \<Rightarrow> nat \<Rightarrow> nat \<Rightarrow> 'h) \<Rightarrow> 'h \<Rightarrow> nat \<Rightarrow> nat \<Rightarrow> 'h \<times> nat" where
  "heap_down_loop lessf swapf h i n =
     (let j1 = 2 * i + 1;
          j = (if j1 + 1 < n \<and> lessf h (j1 + 1) j1 then j1 + 1 else j1)
      in if n \<le> j1 then (h, i)
         else if \<not> lessf h j i then (h, i)
         else heap_down_loop lessf swapf (swapf h i j) j n)"
  by pat_completeness auto
termination
  by (relation "measure (\<lambda>(_, _, _, i, n). n - i)") (auto simp: Let_def split: if_splits)

declare heap_up.simps [simp del] heap_down_loop.simps [simp del]

definition heap_down ::
  "('h \<Rightarrow> nat \<Rightarrow> nat \<Rightarrow> bool) \<Rightarrow> ('h \<Rightarrow> nat \<Rightarrow> nat \<Rightarrow> 'h) \<Rightarrow> 'h \<Rightarrow> nat \<Rightarrow> nat \<Rightarrow> 'h \<times> bool" where
  "heap_down lessf swapf h i0 n =
     (let (h', i) = heap_down_loop lessf swapf h i0 n in (h', i0 < i))"

definition heap_fix_upto ::
  "('h \<Rightarrow> nat \<Rightarrow> nat \<Rightarrow> bool) \<Rightarrow> ('h \<Rightarrow> nat \<Rightarrow> nat \<Rightarrow> 'h) \<Rightarrow> 'h \<Rightarrow> nat \<Rightarrow> nat \<Rightarrow> 'h" where
  "heap_fix_upto lessf swapf h i n =
     (let (h', moved) = heap_down lessf swapf h i n
      in if moved then h' else heap_up lessf swapf h' i)"

subsection \<open>Heap order on the keys\<close>

definition swap_nth :: "'a list \<Rightarrow> nat \<Rightarrow> nat \<Rightarrow> 'a list" where
  "swap_nth xs i j = xs[i := xs ! j, j := xs ! i]"

lemma length_swap_nth [simp]: "length (swap_nth xs i j) = length xs"
  by (simp add: swap_nth_def)

lemma nth_swap_nth:
  "i < length xs \<Longrightarrow> j < length xs \<Longrightarrow> k < length xs \<Longrightarrow>
   swap_nth xs i j ! k = (if k = j then xs ! i else if k = i then xs ! j else xs ! k)"
  by (simp add: swap_nth_def nth_list_update)

lemma mset_swap_nth [simp]:
  "i < length xs \<Longrightarrow> j < length xs \<Longrightarrow> mset (swap_nth xs i j) = mset xs"
  by (simp add: swap_nth_def mset_swap)

lemma map_swap_nth:
  "i < length xs \<Longrightarrow> j < length xs \<Longrightarrow> map f (swap_nth xs i j) = swap_nth (map f xs) i j"
  by (simp add: swap_nth_def map_update)

lemma drop_swap_nth: "i < n \<Longrightarrow> j < n \<Longrightarrow> drop n (swap_nth xs i j) = drop n xs"
  by (simp add: swap_nth_def drop_update_cancel)

text \<open>The first \<open>n\<close> keys are in heap order.\<close>

definition heap_upto :: "'k::linorder list \<Rightarrow> nat \<Rightarrow> bool" where
  "heap_upto ks n \<longleftrightarrow> (\<forall>k. 0 < k \<and> k < n \<longrightarrow> ks ! par k \<le> ks ! k)"

text \<open>In heap order but for position \<open>j\<close> against its parent: what \<^const>\<open>heap_up\<close> repairs.\<close>

definition heap_but_up :: "'k::linorder list \<Rightarrow> nat \<Rightarrow> nat \<Rightarrow> bool" where
  "heap_but_up ks n j \<longleftrightarrow>
     (\<forall>k. 0 < k \<and> k < n \<and> k \<noteq> j \<longrightarrow> ks ! par k \<le> ks ! k) \<and>
     (0 < j \<longrightarrow> (\<forall>c. 0 < c \<and> c < n \<and> par c = j \<longrightarrow> ks ! par j \<le> ks ! c))"

text \<open>In heap order but for the edges that touch position \<open>i\<close>: what \<^verbatim>\<open>Fix\<close> repairs.\<close>

definition heap_but :: "'k::linorder list \<Rightarrow> nat \<Rightarrow> nat \<Rightarrow> bool" where
  "heap_but ks n i \<longleftrightarrow>
     (\<forall>k. 0 < k \<and> k < n \<and> k \<noteq> i \<and> par k \<noteq> i \<longrightarrow> ks ! par k \<le> ks ! k) \<and>
     (0 < i \<longrightarrow> (\<forall>c. 0 < c \<and> c < n \<and> par c = i \<longrightarrow> ks ! par i \<le> ks ! c))"

lemma par_less [simp]: "0 < j \<Longrightarrow> par j < j"
  by auto

lemma par_eq_self [simp]: "par j = j \<longleftrightarrow> j = 0"
  by auto

lemma par_eq_iff: "0 < c \<Longrightarrow> par c = i \<longleftrightarrow> c = 2 * i + 1 \<or> c = 2 * i + 2"
  by auto

lemma heap_but_upD: "heap_but_up ks n j \<Longrightarrow> 0 < k \<Longrightarrow> k < n \<Longrightarrow> k \<noteq> j \<Longrightarrow> ks ! par k \<le> ks ! k"
  by (simp add: heap_but_up_def)

lemma heap_but_up_gp: "heap_but_up ks n j \<Longrightarrow> 0 < j \<Longrightarrow> 0 < c \<Longrightarrow> c < n \<Longrightarrow> par c = j \<Longrightarrow> ks ! par j \<le> ks ! c"
  by (simp add: heap_but_up_def)

lemma heap_up_step:
  assumes H: "heap_but_up ks n j" and j: "0 < j" "j < n" "n \<le> length ks"
    and lt: "ks ! j < ks ! par j"
  shows "heap_but_up (swap_nth ks (par j) j) n (par j)"
proof -
  let ?i = "par j" and ?ks = "swap_nth ks (par j) j"
  have ij: "?i < j" using j by simp
  have nth: "?ks ! k = (if k = j then ks ! ?i else if k = ?i then ks ! j else ks ! k)"
    if "k < n" for k
    using that j ij by (intro nth_swap_nth) auto
  have edge: "?ks ! par k \<le> ?ks ! k" if k: "0 < k" "k < n" "k \<noteq> ?i" for k
  proof -
    have pk: "par k < n" "par k < k" using k by auto
    consider "k = j" | "k \<noteq> j" "par k = j" | "k \<noteq> j" "par k = ?i" | "k \<noteq> j" "par k \<noteq> j" "par k \<noteq> ?i"
      by blast
    then show ?thesis
    proof cases
      case 1
      then show ?thesis using nth k pk lt by simp
    next
      case 2
      then have "ks ! ?i \<le> ks ! k" using heap_but_up_gp [OF H j(1), of k] k by simp
      with 2 show ?thesis using nth k pk by simp
    next
      case 3
      then have "ks ! ?i \<le> ks ! k" using heap_but_upD [OF H, of k] k by simp
      with 3 show ?thesis using nth k pk lt ij by auto
    next
      case 4
      then have "ks ! par k \<le> ks ! k" using heap_but_upD [OF H, of k] k by simp
      with 4 show ?thesis using nth k pk by simp
    qed
  qed
  have gp: "?ks ! par ?i \<le> ?ks ! c" if i: "0 < ?i" and c: "0 < c" "c < n" "par c = ?i" for c
  proof -
    have pi: "par ?i < ?i" using i by simp
    have up: "ks ! par ?i \<le> ks ! ?i" using heap_but_upD [OF H, of ?i] i ij j by simp
    have l: "?ks ! par ?i = ks ! par ?i" using nth [of "par ?i"] pi ij j by auto
    show ?thesis
    proof (cases "c = j")
      case True
      then show ?thesis using l nth c up by simp
    next
      case False
      then have "ks ! ?i \<le> ks ! c" using heap_but_upD [OF H, of c] c by simp
      moreover have "c \<noteq> ?i" using c by auto
      ultimately show ?thesis using l nth c up False by auto
    qed
  qed
  show ?thesis unfolding heap_but_up_def using edge gp by blast
qed

lemma heap_up_done:
  "heap_but_up ks n j \<Longrightarrow> j = 0 \<or> ks ! par j \<le> ks ! j \<Longrightarrow> heap_upto ks n"
  by (auto simp: heap_but_up_def heap_upto_def)

text \<open>One step of \<^verbatim>\<open>down\<close>: swapping with the smaller child moves the hole down.\<close>

lemma heap_down_step:
  assumes H: "heap_but ks n i" and j: "0 < j" "j < n" "par j = i" "n \<le> length ks"
    and lt: "ks ! j < ks ! i"
    and least: "\<And>c. 0 < c \<Longrightarrow> c < n \<Longrightarrow> par c = i \<Longrightarrow> ks ! j \<le> ks ! c"
  shows "heap_but (swap_nth ks i j) n j" and "0 < i \<Longrightarrow> swap_nth ks i j ! par i \<le> swap_nth ks i j ! i"
    and "swap_nth ks i j ! i \<le> swap_nth ks i j ! j"
proof -
  let ?ks = "swap_nth ks i j"
  have ij: "i < j" using j by auto
  have nth: "?ks ! k = (if k = j then ks ! i else if k = i then ks ! j else ks ! k)" if "k < n" for k
    using that j ij by (intro nth_swap_nth) auto
  show "swap_nth ks i j ! i \<le> swap_nth ks i j ! j"
    using nth [of i] nth [of j] j ij lt by simp
  show top: "?ks ! par i \<le> ?ks ! i" if i: "0 < i"
  proof -
    have "ks ! par i \<le> ks ! j" using H i j by (simp add: heap_but_def)
    moreover have "par i < i" using i by simp
    ultimately show ?thesis using nth [of i] nth [of "par i"] ij j by auto
  qed
  have edge: "?ks ! par k \<le> ?ks ! k" if k: "0 < k" "k < n" "k \<noteq> j" "par k \<noteq> j" for k
  proof -
    have pk: "par k < n" using k by auto
    consider "k = i" | "k \<noteq> i" "par k = i" | "k \<noteq> i" "par k \<noteq> i" by blast
    then show ?thesis
    proof cases
      case 1
      then show ?thesis using top k by simp
    next
      case 2
      then show ?thesis using least [of k] nth k pk by auto
    next
      case 3
      then have "ks ! par k \<le> ks ! k" using H k by (simp add: heap_but_def)
      with 3 show ?thesis using nth k pk by simp
    qed
  qed
  have gp: "?ks ! par j \<le> ?ks ! c" if c: "0 < c" "c < n" "par c = j" for c
  proof -
    have "c \<noteq> i" "c \<noteq> j" "par c \<noteq> i" using c ij by auto
    then have "ks ! par c \<le> ks ! c" using H c unfolding heap_but_def by blast
    then show ?thesis using nth [of i] nth c j ij \<open>c \<noteq> i\<close> \<open>c \<noteq> j\<close> by auto
  qed
  show "heap_but ?ks n j" unfolding heap_but_def using edge gp by blast
qed

text \<open>When \<^verbatim>\<open>down\<close> stops, every edge below the hole is in order.\<close>

lemma heap_down_done:
  assumes "heap_but ks n i"
    and "\<And>c. 0 < c \<Longrightarrow> c < n \<Longrightarrow> par c = i \<Longrightarrow> ks ! i \<le> ks ! c"
  shows "heap_but_up ks n i"
  using assms unfolding heap_but_def heap_but_up_def by metis

lemma heap_upto_root:
  assumes "heap_upto ks n" and "k < n"
  shows "ks ! 0 \<le> ks ! k"
  using assms(2)
proof (induction k rule: less_induct)
  case (less k)
  show ?case
  proof (cases "k = 0")
    case False
    then have "ks ! 0 \<le> ks ! par k" using less by auto
    also have "\<dots> \<le> ks ! k" using assms(1) False less.prems by (simp add: heap_upto_def)
    finally show ?thesis .
  qed simp
qed

text \<open>The two ways a client leaves one position out of order: moving the last element there, and changing its key.\<close>

lemma heap_upto_swap_last:
  assumes H: "heap_upto ks (Suc n)" and i: "i \<le> n" and n: "n < length ks"
  shows "heap_but (swap_nth ks i n) n i"
proof -
  have nth: "swap_nth ks i n ! k = ks ! k" if "k < n" "k \<noteq> i" for k
    using that i n by (simp add: nth_swap_nth)
  have edge: "ks ! par k \<le> ks ! k" if "0 < k" "k < Suc n" for k
    using H that by (simp add: heap_upto_def)
  have gp: "ks ! par i \<le> ks ! c" if "0 < i" "0 < c" "c < n" "par c = i" for c
    using edge [of i] edge [of c] that i by (auto intro: order_trans)
  show ?thesis unfolding heap_but_def
    using edge gp nth i by (auto simp: par_less)
qed

lemma heap_upto_update:
  assumes H: "heap_upto ks n" and i: "i < n" and n: "n \<le> length ks"
  shows "heap_but (ks[i := x]) n i"
proof -
  have edge: "ks ! par k \<le> ks ! k" if "0 < k" "k < n" for k
    using H that by (simp add: heap_upto_def)
  have gp: "ks ! par i \<le> ks ! c" if "0 < i" "0 < c" "c < n" "par c = i" for c
    using edge [of i] edge [of c] that i by (auto intro: order_trans)
  show ?thesis unfolding heap_but_def using edge gp by auto
qed

lemma heap_upto_append: "heap_upto ks (length ks) \<Longrightarrow> heap_but_up (ks @ [x]) (Suc (length ks)) (length ks)"
  unfolding heap_upto_def heap_but_up_def
proof (intro conjI allI impI, goal_cases)
  case (1 k)
  then have "k < length ks" "par k < length ks" by auto
  with 1 show ?case by (simp add: nth_append)
next
  case (2 c)
  then have "par c < c" "par c = length ks" "c \<le> length ks" by auto
  then have False by linarith
  then show ?case ..
qed

lemma heap_upto_mono: "heap_upto ks n \<Longrightarrow> m \<le> n \<Longrightarrow> heap_upto ks m"
  by (auto simp: heap_upto_def)

lemma heap_upto_take: "heap_upto ks n \<Longrightarrow> heap_upto (take n ks) n"
  by (auto simp: heap_upto_def)

subsection \<open>What a client of the heap provides, and what it gets\<close>

locale heap_interface =
  fixes lessf :: "'h \<Rightarrow> nat \<Rightarrow> nat \<Rightarrow> bool"
    and swapf :: "'h \<Rightarrow> nat \<Rightarrow> nat \<Rightarrow> 'h"
    and elems :: "'h \<Rightarrow> 'r list"
    and key :: "'h \<Rightarrow> 'r \<Rightarrow> 'k::linorder"
    and ok :: "'h \<Rightarrow> bool"
  assumes less_key: "i < length (elems h) \<Longrightarrow> j < length (elems h) \<Longrightarrow>
      lessf h i j \<longleftrightarrow> key h (elems h ! i) < key h (elems h ! j)"
    and elems_swap: "i < length (elems h) \<Longrightarrow> j < length (elems h) \<Longrightarrow>
      elems (swapf h i j) = swap_nth (elems h) i j"
    and key_swap: "i < length (elems h) \<Longrightarrow> j < length (elems h) \<Longrightarrow> key (swapf h i j) = key h"
    and ok_swap: "ok h \<Longrightarrow> i < length (elems h) \<Longrightarrow> j < length (elems h) \<Longrightarrow> ok (swapf h i j)"
begin

definition keys :: "'h \<Rightarrow> 'k list" where
  "keys h = map (key h) (elems h)"

text \<open>\<open>h'\<close> is \<open>h\<close> with its first \<open>n\<close> elements permuted.\<close>

definition perm_upto :: "nat \<Rightarrow> 'h \<Rightarrow> 'h \<Rightarrow> bool" where
  "perm_upto n h h' \<longleftrightarrow>
     key h' = key h \<and> mset (elems h') = mset (elems h) \<and>
     drop n (elems h') = drop n (elems h) \<and> (ok h \<longrightarrow> ok h')"

lemma perm_upto_refl [simp]: "perm_upto n h h"
  by (simp add: perm_upto_def)

lemma perm_upto_trans: "perm_upto n h1 h2 \<Longrightarrow> perm_upto n h2 h3 \<Longrightarrow> perm_upto n h1 h3"
  by (simp add: perm_upto_def)

lemma perm_upto_length: "perm_upto n h h' \<Longrightarrow> length (elems h') = length (elems h)"
  unfolding perm_upto_def by (metis mset_eq_length)

lemma perm_upto_swap:
  "i < n \<Longrightarrow> j < n \<Longrightarrow> n \<le> length (elems h) \<Longrightarrow> perm_upto n h (swapf h i j)"
  by (simp add: perm_upto_def key_swap elems_swap drop_swap_nth ok_swap)

lemma keys_swap:
  "i < length (elems h) \<Longrightarrow> j < length (elems h) \<Longrightarrow> keys (swapf h i j) = swap_nth (keys h) i j"
  by (simp add: keys_def key_swap elems_swap map_swap_nth)

lemma less_keys:
  "i < length (elems h) \<Longrightarrow> j < length (elems h) \<Longrightarrow> lessf h i j \<longleftrightarrow> keys h ! i < keys h ! j"
  by (simp add: keys_def less_key)

lemma length_keys [simp]: "length (keys h) = length (elems h)"
  by (simp add: keys_def)

lemma up_correct:
  assumes "heap_but_up (keys h) n j" and "j < n" and "n \<le> length (elems h)"
  shows "heap_upto (keys (heap_up lessf swapf h j)) n \<and> perm_upto n h (heap_up lessf swapf h j)"
  using assms
proof (induction j arbitrary: h rule: less_induct)
  case (less j)
  have len: "j < length (elems h)" "par j < length (elems h)" using less.prems by auto
  show ?case
  proof (cases "par j = j \<or> \<not> lessf h j (par j)")
    case True
    then have "j = 0 \<or> keys h ! par j \<le> keys h ! j"
      using less_keys [OF len] by auto
    then show ?thesis
      using True heap_up_done [OF less.prems(1)] by (simp add: heap_up.simps [of lessf swapf h j])
  next
    case False
    then have j: "0 < j" "keys h ! j < keys h ! par j"
      using less_keys [OF len] by auto
    let ?h = "swapf h (par j) j"
    have perm: "perm_upto n h ?h" using perm_upto_swap j less.prems by auto
    have "heap_but_up (keys ?h) n (par j)"
      unfolding keys_swap [OF len(2) len(1)]
      using heap_up_step [OF less.prems(1) j(1) less.prems(2)] j less.prems by simp
    then have "heap_upto (keys (heap_up lessf swapf ?h (par j))) n
        \<and> perm_upto n ?h (heap_up lessf swapf ?h (par j))"
      using less.IH [of "par j" ?h] j less.prems perm_upto_length [OF perm] by auto
    with False perm show ?thesis
      by (auto simp: heap_up.simps [of lessf swapf h j] intro: perm_upto_trans)
  qed
qed

text \<open>
  The invariant of the \<^verbatim>\<open>down\<close> loop started at \<open>i0\<close>: only edges at the hole may be out of
  order and, once the hole has moved, the hole is in order with its parent.
\<close>

lemma down_loop_correct:
  assumes "heap_but (keys h) n i" and "n \<le> length (elems h)" and "i0 \<le> i" and "i < n"
    and "i \<noteq> i0 \<Longrightarrow> 0 < i \<and> keys h ! par i \<le> keys h ! i"
  shows "\<exists>h' i'. heap_down_loop lessf swapf h i n = (h', i') \<and> perm_upto n h h' \<and> i0 \<le> i' \<and>
     heap_but_up (keys h') n i' \<and> (i' \<noteq> i0 \<longrightarrow> heap_upto (keys h') n)"
  using assms
proof (induction "n - i" arbitrary: h i rule: less_induct)
  case less
  let ?j1 = "2 * i + 1"
  let ?j = "if ?j1 + 1 < n \<and> lessf h (?j1 + 1) ?j1 then ?j1 + 1 else ?j1"
  have unf: "heap_down_loop lessf swapf h i n =
      (if n \<le> ?j1 then (h, i) else if \<not> lessf h ?j i then (h, i)
       else heap_down_loop lessf swapf (swapf h i ?j) ?j n)"
    by (subst heap_down_loop.simps) (simp only: Let_def)
  have stop: "?case" if "heap_down_loop lessf swapf h i n = (h, i)"
    and "\<And>c. 0 < c \<Longrightarrow> c < n \<Longrightarrow> par c = i \<Longrightarrow> keys h ! i \<le> keys h ! c"
  proof -
    have "heap_but_up (keys h) n i"
      by (rule heap_down_done [OF less.prems(1)]) (rule that(2))
    moreover from this have "heap_upto (keys h) n" if "i \<noteq> i0"
      using heap_up_done less.prems(5) [OF that] by blast
    ultimately show ?thesis using that less.prems(3) by simp
  qed
  show ?case
  proof (cases "n \<le> ?j1")
    case True
    then have "heap_down_loop lessf swapf h i n = (h, i)"
      unfolding unf by (simp only: if_True)
    then show ?thesis by (rule stop) (use True in \<open>auto simp: par_eq_iff\<close>)
  next
    case False
    have j: "0 < ?j" "?j < n" "par ?j = i" using False by auto
    have lj: "?j < length (elems h)" "i < length (elems h)" using j less.prems by auto
    have least: "keys h ! ?j \<le> keys h ! c" if "0 < c" "c < n" "par c = i" for c
    proof -
      have "c = ?j1 \<or> c = ?j1 + 1" using that by auto
      then show ?thesis using that less.prems(2) less_keys [of "?j1 + 1" h ?j1] by auto
    qed
    show ?thesis
    proof (cases "lessf h ?j i")
      case False
      then have "heap_down_loop lessf swapf h i n = (h, i)"
        unfolding unf using \<open>\<not> n \<le> ?j1\<close> by (simp only: if_True if_False simp_thms)
      moreover have "keys h ! i \<le> keys h ! ?j" using False less_keys [OF lj] by simp
      ultimately show ?thesis using least by (intro stop) (auto intro: order_trans)
    next
      case True
      then have lt: "keys h ! ?j < keys h ! i" using less_keys [OF lj] by simp
      let ?h = "swapf h i ?j"
      have perm: "perm_upto n h ?h" using perm_upto_swap j less.prems by blast
      have ks: "keys ?h = swap_nth (keys h) i ?j" by (rule keys_swap [OF lj(2) lj(1)])
      note st = heap_down_step [OF less.prems(1) j _ lt least]
      have "\<exists>h' i'. heap_down_loop lessf swapf ?h ?j n = (h', i') \<and> perm_upto n ?h h' \<and> i0 \<le> i' \<and>
          heap_but_up (keys h') n i' \<and> (i' \<noteq> i0 \<longrightarrow> heap_upto (keys h') n)"
      proof (rule less.hyps)
        show "n - ?j < n - i" using j by auto
        show "heap_but (keys ?h) n ?j" using st(1) less.prems(2) ks by simp
        show "n \<le> length (elems ?h)" using perm_upto_length [OF perm] less.prems(2) by simp
        show "i0 \<le> ?j" using less.prems(3) by auto
        show "?j < n" by (rule j(2))
        show "0 < ?j \<and> keys ?h ! par ?j \<le> keys ?h ! ?j"
          using st(3) less.prems(2) ks j by simp
      qed
      moreover have "heap_down_loop lessf swapf h i n = heap_down_loop lessf swapf ?h ?j n"
        unfolding unf using True \<open>\<not> n \<le> ?j1\<close> by (simp only: if_True if_False simp_thms)
      ultimately show ?thesis using perm perm_upto_trans by metis
    qed
  qed
qed

lemma fix_upto_correct:
  assumes "heap_but (keys h) n i" and "n \<le> length (elems h)" and "i < n"
  shows "heap_upto (keys (heap_fix_upto lessf swapf h i n)) n"
    and "perm_upto n h (heap_fix_upto lessf swapf h i n)"
proof -
  obtain h' i' where d: "heap_down_loop lessf swapf h i n = (h', i')" "perm_upto n h h'" "i \<le> i'"
      "heap_but_up (keys h') n i'" "i' \<noteq> i \<longrightarrow> heap_upto (keys h') n"
    using down_loop_correct [OF assms(1,2) order_refl assms(3)] by blast
  have "heap_upto (keys (heap_fix_upto lessf swapf h i n)) n \<and>
        perm_upto n h (heap_fix_upto lessf swapf h i n)"
  proof (cases "i < i'")
    case True
    then show ?thesis using d by (simp add: heap_fix_upto_def heap_down_def)
  next
    case False
    then have "i' = i" using d by simp
    moreover from this have "heap_upto (keys (heap_up lessf swapf h' i)) n
        \<and> perm_upto n h' (heap_up lessf swapf h' i)"
      using d perm_upto_length [OF d(2)] assms by (intro up_correct) auto
    ultimately show ?thesis using d False
      by (auto simp: heap_fix_upto_def heap_down_def intro: perm_upto_trans)
  qed
  then show "heap_upto (keys (heap_fix_upto lessf swapf h i n)) n"
    and "perm_upto n h (heap_fix_upto lessf swapf h i n)" by auto
qed

lemma down_root_correct:
  assumes "heap_but (keys h) n 0" and "n \<le> length (elems h)"
  shows "heap_upto (keys (fst (heap_down lessf swapf h 0 n))) n"
    and "perm_upto n h (fst (heap_down lessf swapf h 0 n))"
proof -
  have "heap_upto (keys (fst (heap_down lessf swapf h 0 n))) n \<and>
        perm_upto n h (fst (heap_down lessf swapf h 0 n))"
  proof (cases "n = 0")
    case True
    then show ?thesis
      by (simp add: heap_down_def heap_down_loop.simps [of lessf swapf h 0 0] heap_upto_def Let_def)
  next
    case False
    then obtain h' i' where d: "heap_down_loop lessf swapf h 0 n = (h', i')" "perm_upto n h h'"
        "heap_but_up (keys h') n i'" "i' \<noteq> 0 \<longrightarrow> heap_upto (keys h') n"
      using down_loop_correct [OF assms(1,2) order_refl] by auto
    then show ?thesis using heap_up_done [of "keys h'" n 0]
      by (cases "i' = 0") (auto simp: heap_down_def)
  qed
  then show "heap_upto (keys (fst (heap_down lessf swapf h 0 n))) n"
    and "perm_upto n h (fst (heap_down lessf swapf h 0 n))" by auto
qed

end

end
