(* ===== verification/Providers.thy ===== *)
theory Providers
  imports Prelude
begin

text \<open>
  The vocabulary of \<^verbatim>\<open>pkg/providers/provider.go\<close>: job events, claims and the view the
  scheduler has of a provider, plus the view it has of a Go \<^verbatim>\<open>error\<close> value.

  A provider is an interface value. What the scheduler reads from it without leaving the
  process is a field of \<open>provider\<close>: its name, its per-OS default image, and which of the
  optional interfaces it implements (\<^verbatim>\<open>RunnerNameReporter\<close>, \<^verbatim>\<open>JobStateReporter\<close>,
  \<^verbatim>\<open>RunnerBusyReporter\<close>, \<^verbatim>\<open>CacheScoper\<close>, \<^verbatim>\<open>Webhook\<close>, \<^verbatim>\<open>Owner()\<close>). Its API calls are outcomes handed to
  the definitions that make them.
\<close>

record provider =
  p_name :: string
  p_defaultImageFor :: "string \<Rightarrow> string"
  p_reportsRunnerNames :: "bool option"
  p_jobStateReporter :: bool
  p_runnerBusyReporter :: bool
  p_cacheScoper :: bool
  p_webhook :: bool
  p_owner :: "string option"

record JobEvent =
  ev_provider :: "provider option"
  ev_action :: string
  ev_repo :: string
  ev_jobID :: int
  ev_runID :: int
  ev_labels :: "string list"
  ev_conclusion :: string
  ev_runnerName :: string

record Claim =
  cl_runnerID :: int
  cl_runnerName :: string
  cl_repo :: string
  cl_runnerConfig :: string
  cl_env :: "(string \<times> string) list"
  cl_entrypoint :: "string list"

text \<open>
  A Go error as the program inspects it: does the chain contain the cordon sentinel, a
  GitHub rate-limit or abuse error, a GitHub \<^verbatim>\<open>ErrorResponse\<close> (with the status of its
  response, if it has one), a \<^verbatim>\<open>net.Error\<close>; and the text of \<^verbatim>\<open>Error()\<close>. The nil error is
  \<^const>\<open>None\<close> of type \<open>goerr option\<close>.
\<close>

record goerr =
  e_cordoned :: bool
  e_rateLimit :: bool
  e_abuse :: bool
  e_ghResponse :: "int option option"
  e_net :: bool
  e_msg :: string

definition plain_err :: "string \<Rightarrow> goerr" where
  "plain_err m = \<lparr>e_cordoned = False, e_rateLimit = False, e_abuse = False,
     e_ghResponse = None, e_net = False, e_msg = m\<rparr>"

text \<open>A job's identity across providers: \<^verbatim>\<open>jobKey\<close> and \<^verbatim>\<open>keyFor\<close> of \<^verbatim>\<open>scheduler.go\<close>.\<close>

record jobKey =
  jk_provider :: string
  jk_jobID :: int

definition providerName :: "JobEvent \<Rightarrow> string" where
  "providerName ev = (case ev_provider ev of None \<Rightarrow> [] | Some p \<Rightarrow> p_name p)"

definition keyFor :: "JobEvent \<Rightarrow> jobKey" where
  "keyFor ev =
     (let name = (case ev_provider ev of None \<Rightarrow> [] | Some p \<Rightarrow> p_name p)
      in \<lparr>jk_provider = name, jk_jobID = ev_jobID ev\<rparr>)"

lemma keyFor_eq_iff:
  "keyFor e = keyFor e' \<longleftrightarrow> providerName e = providerName e' \<and> ev_jobID e = ev_jobID e'"
  by (simp add: keyFor_def providerName_def)

end
