(* ===== verification/Float64.thy ===== *)
theory Float64
  imports Complex_Main "HOL-Library.Log_Nat"
begin

text \<open>
  Go's \<^verbatim>\<open>float64\<close> arithmetic on the finite values that the disk watermarks and the retry delays use.
  A \<^verbatim>\<open>float64\<close> is a rational; every operation is the exact one followed by \<open>fl64\<close>, rounding to
  a 53 bit significand, to nearest and ties to even (IEEE 754). Exponents stay far from the
  range limits here (from \<open>2 ^ -64\<close> to \<open>2 ^ 71\<close>), so subnormals and infinities do not arise.
  \<open>fl64\<close> is for non-negative values; \<open>fl64s\<close> adds the sign.
\<close>

definition round_half_even :: "rat \<Rightarrow> int" where
  "round_half_even x =
     (let f = \<lfloor>x\<rfloor>; d = x - of_int f in
      if d < 1 / 2 \<or> d = 1 / 2 \<and> even f then f else f + 1)"

definition pow2 :: "int \<Rightarrow> rat" where
  "pow2 e = (if 0 \<le> e then 2 ^ nat e else 1 / 2 ^ nat (- e))"

text \<open>The exponent of a positive rational \<open>p / q\<close>, from the bit lengths of \<open>p\<close> and \<open>q\<close>.\<close>

definition exponent :: "rat \<Rightarrow> int" where
  "exponent x =
     (case quotient_of x of (p, q) \<Rightarrow>
        let k = bitlen p - bitlen q in
        if pow2 k \<le> x then k else k - 1)"

definition fl64 :: "rat \<Rightarrow> rat" where
  "fl64 x =
     (if x \<le> 0 then 0
      else let e = exponent x - 52 in of_int (round_half_even (x / pow2 e)) * pow2 e)"

lemma pow2_pos [simp]: "0 < pow2 e"
  by (simp add: pow2_def)

lemma pow2_powi: "pow2 e = 2 powi e"
  unfolding pow2_def power_int_def by (simp only: inverse_eq_divide power_one_over)

lemma pow2_add: "pow2 (a + b) = pow2 a * pow2 b"
  by (simp add: pow2_powi power_int_add)

lemma round_half_even_error: "\<bar>of_int (round_half_even x) - x\<bar> \<le> 1 / 2"
proof -
  have "0 \<le> x - of_int \<lfloor>x\<rfloor>" "x - of_int \<lfloor>x\<rfloor> < 1" by linarith+
  then show ?thesis unfolding round_half_even_def Let_def by (simp split: if_split)
qed

lemma bitlen_bounds_pow2:
  assumes "0 < p"
  shows "pow2 (bitlen p - 1) \<le> of_int p \<and> of_int p < pow2 (bitlen p)"
proof -
  have "1 \<le> bitlen p" using assms by (simp add: bitlen_alt_def)
  moreover have "(2 :: rat) ^ nat (bitlen p - 1) \<le> of_int p \<and> of_int p < (2 :: rat) ^ nat (bitlen p)"
    using bitlen_bounds [OF assms] by (metis of_int_le_iff of_int_less_iff of_int_numeral of_int_power)
  ultimately show ?thesis by (simp add: pow2_def)
qed

text \<open>\<open>exponent\<close> is the binary exponent, so the significand has 53 bits.\<close>

lemma exponent_bounds:
  assumes "0 < x"
  shows "pow2 (exponent x) \<le> x \<and> x < pow2 (exponent x + 1)"
proof -
  obtain p q where pq: "quotient_of x = (p, q)" by (cases "quotient_of x")
  then have x: "x = of_int p / of_int q" and q: "0 < q"
    by (simp_all add: quotient_of_div quotient_of_denom_pos)
  with assms have p: "0 < p" by (simp add: zero_less_divide_iff)
  define k where "k = bitlen p - bitlen q"
  note bounds = bitlen_bounds_pow2 [OF p] bitlen_bounds_pow2 [OF q]
  have "x < pow2 (bitlen p) / pow2 (bitlen q - 1)"
    unfolding x using bounds q by (intro frac_less) (simp_all add: p less_imp_le)
  also have "\<dots> = pow2 (k + 1)"
    using pow2_add [of "k + 1" "bitlen q - 1"] by (simp add: k_def divide_eq_eq less_imp_neq [OF pow2_pos, symmetric])
  finally have up: "x < pow2 (k + 1)" .
  have "pow2 (bitlen p - 1) / pow2 (bitlen q) \<le> x"
    unfolding x using bounds q by (intro frac_le) (simp_all add: p less_imp_le)
  moreover have "pow2 (bitlen p - 1) / pow2 (bitlen q) = pow2 (k - 1)"
    using pow2_add [of "k - 1" "bitlen q"] by (simp add: k_def divide_eq_eq less_imp_neq [OF pow2_pos, symmetric])
  ultimately have "pow2 (k - 1) \<le> x" by simp
  with up show ?thesis
    by (simp add: exponent_def pq k_def [symmetric] Let_def)
qed

text \<open>Rounding changes a positive value by at most one part in \<open>2 ^ 53\<close>.\<close>

lemma fl64_error:
  assumes "0 < x"
  shows "\<bar>fl64 x - x\<bar> \<le> x / 2 ^ 53"
proof -
  define e where "e = exponent x - 52"
  have x: "pow2 e * 2 ^ 52 \<le> x"
    using exponent_bounds [OF assms] pow2_add [of e 52] by (simp add: e_def pow2_def)
  have "fl64 x - x = (of_int (round_half_even (x / pow2 e)) - x / pow2 e) * pow2 e"
    using assms less_imp_neq [OF pow2_pos, of e]
    by (simp add: fl64_def Let_def e_def [symmetric] left_diff_distrib)
  then have "\<bar>fl64 x - x\<bar> = \<bar>of_int (round_half_even (x / pow2 e)) - x / pow2 e\<bar> * pow2 e"
    by (simp only: abs_mult abs_of_pos [OF pow2_pos])
  also have "\<dots> \<le> 1 / 2 * pow2 e"
    by (intro mult_right_mono round_half_even_error less_imp_le pow2_pos)
  finally show ?thesis using x by simp
qed

lemma fl64_le: "0 < x \<Longrightarrow> fl64 x \<le> x * (1 + 1 / 2 ^ 53)"
  using abs_le_D1 [OF fl64_error [of x]] by (simp add: distrib_left)

lemma fl64_ge: "0 < x \<Longrightarrow> x * (1 - 1 / 2 ^ 53) \<le> fl64 x"
  using abs_le_D2 [OF fl64_error [of x]] by (simp add: right_diff_distrib)

lemma fl64_zero [simp]: "fl64 0 = 0"
  by (simp add: fl64_def)

lemma fl64_pos: "0 < x \<Longrightarrow> 0 < fl64 x"
  using fl64_ge [of x] mult_pos_pos [of x "1 - 1 / 2 ^ 53"] by simp

lemma fl64_nonneg [simp]: "0 \<le> fl64 x"
  using fl64_pos [of x] by (cases "0 < x") (auto simp: fl64_def)

text \<open>Rounding is monotone.\<close>

lemma round_half_even_mono:
  assumes "x \<le> y"
  shows "round_half_even x \<le> round_half_even y"
proof (cases "\<lfloor>x\<rfloor> = \<lfloor>y\<rfloor>")
  case True
  with assms show ?thesis by (auto simp: round_half_even_def Let_def)
next
  case False
  then have "\<lfloor>x\<rfloor> + 1 \<le> \<lfloor>y\<rfloor>" using floor_mono [OF assms] by linarith
  moreover have "round_half_even x \<le> \<lfloor>x\<rfloor> + 1" "\<lfloor>y\<rfloor> \<le> round_half_even y"
    by (auto simp: round_half_even_def Let_def)
  ultimately show ?thesis by linarith
qed

lemma round_half_even_of_int [simp]: "round_half_even (of_int i) = i"
  by (simp add: round_half_even_def)

lemma pow2_mono: "a \<le> b \<Longrightarrow> pow2 a \<le> pow2 b"
  unfolding pow2_powi by (rule power_int_increasing) auto

lemma pow2_52: "pow2 e / pow2 (e - 52) = of_int (2 ^ 52)" "pow2 (e + 1) / pow2 (e - 52) = of_int (2 ^ 53)"
  using pow2_add [of "e - 52" 52] pow2_add [of "e - 52" 53] less_imp_neq [OF pow2_pos, of "e - 52"]
  by (simp_all add: pow2_def [of 52] pow2_def [of 53] divide_eq_eq add.commute)

lemma fl64_binade:
  assumes "0 < x"
  shows "pow2 (exponent x) \<le> fl64 x \<and> fl64 x \<le> pow2 (exponent x + 1)"
proof -
  let ?e = "exponent x" and ?u = "pow2 (exponent x - 52)"
  have "pow2 ?e / ?u \<le> x / ?u" "x / ?u \<le> pow2 (?e + 1) / ?u"
    using exponent_bounds [OF assms] by (simp_all add: divide_right_mono less_imp_le)
  then have "2 ^ 52 \<le> round_half_even (x / ?u) \<and> round_half_even (x / ?u) \<le> 2 ^ 53"
    unfolding pow2_52 by (metis round_half_even_mono round_half_even_of_int)
  then have "of_int (2 ^ 52) * ?u \<le> of_int (round_half_even (x / ?u)) * ?u"
    "of_int (round_half_even (x / ?u)) * ?u \<le> of_int (2 ^ 53) * ?u"
    by (simp_all only: mult_le_cancel_right_pos [OF pow2_pos] of_int_le_iff)
  with assms show ?thesis
    unfolding pow2_52 [of ?e, symmetric] by (simp add: fl64_def Let_def less_imp_neq [OF pow2_pos, symmetric])
qed

lemma fl64_mono:
  assumes "x \<le> y"
  shows "fl64 x \<le> fl64 y"
proof (cases "0 < x")
  case True
  with assms have y: "0 < y" by simp
  consider "exponent x = exponent y" | "exponent x < exponent y" | "exponent y < exponent x" by linarith
  then show ?thesis
  proof cases
    case 1
    have "round_half_even (x / pow2 (exponent y - 52)) \<le> round_half_even (y / pow2 (exponent y - 52))"
      using assms by (intro round_half_even_mono divide_right_mono) (simp_all add: less_imp_le)
    with 1 True y show ?thesis by (simp add: fl64_def Let_def mult_right_mono less_imp_le)
  next
    case 2
    then have "pow2 (exponent x + 1) \<le> pow2 (exponent y)" by (intro pow2_mono) simp
    with fl64_binade [OF True] fl64_binade [OF y] show ?thesis by linarith
  next
    case 3
    then have "pow2 (exponent y + 1) \<le> pow2 (exponent x)" by (intro pow2_mono) simp
    with exponent_bounds [OF True] exponent_bounds [OF y] assms show ?thesis by linarith
  qed
next
  case False
  then show ?thesis by (simp add: fl64_def [of x])
qed

text \<open>A value with at most 53 significant bits is not changed.\<close>

lemma fl64_exact:
  assumes "0 \<le> m" and "m < 2 ^ 53"
  shows "fl64 (of_int m * pow2 e) = of_int m * pow2 e"
proof (cases "m = 0")
  case False
  define x where "x = of_int m * pow2 e"
  define d where "d = exponent x - 52"
  have x: "0 < x" using assms(1) False by (simp add: x_def)
  have "d \<le> e"
  proof (rule ccontr)
    assume "\<not> d \<le> e"
    then have "pow2 (e + 53) \<le> pow2 (exponent x)" by (intro pow2_mono) (simp add: d_def)
    also have "\<dots> \<le> x" using exponent_bounds [OF x] by simp
    finally have "pow2 53 * pow2 e \<le> of_int m * pow2 e" by (simp add: x_def pow2_add mult.commute)
    then have "(2 :: rat) ^ 53 \<le> of_int m" by (simp only: mult_le_cancel_right_pos [OF pow2_pos]) (simp add: pow2_def)
    then show False using assms(2) by (metis not_le of_int_le_iff of_int_numeral of_int_power)
  qed
  then obtain k where k: "e = d + int k" using zle_iff_zadd by blast
  then have "x / pow2 d = of_int (m * 2 ^ k)"
    by (simp add: x_def pow2_add pow2_def [of "int k"] less_imp_neq [OF pow2_pos, symmetric])
  then have "fl64 x = of_int (m * 2 ^ k) * pow2 d"
    using x unfolding fl64_def Let_def d_def [symmetric] by (simp only: round_half_even_of_int) simp
  then show ?thesis by (simp add: k pow2_add pow2_def [of "int k"] flip: x_def) (simp add: x_def k pow2_add pow2_def [of "int k"])
qed simp

lemma fl64_exact_eq: "x = of_int m * pow2 e \<Longrightarrow> 0 \<le> m \<Longrightarrow> m < 2 ^ 53 \<Longrightarrow> fl64 x = x"
  by (simp only: fl64_exact)

subsection \<open>Signed values\<close>

definition fl64s :: "rat \<Rightarrow> rat" where
  "fl64s x = (if x < 0 then - fl64 (- x) else fl64 x)"

lemma fl64s_nonneg [simp]: "0 \<le> x \<Longrightarrow> fl64s x = fl64 x"
  by (simp add: fl64s_def)

lemma fl64s_mono: "x \<le> y \<Longrightarrow> fl64s x \<le> fl64s y"
  using fl64_mono [of "- y" "- x"] fl64_mono [of x y]
  by (auto simp: fl64s_def intro: order_trans [of _ 0])

lemma fl64_one [simp]: "fl64 1 = 1"
  using fl64_exact [of 1 0] by (simp add: pow2_def)

lemma fl64s_minus_one [simp]: "fl64s (- 1) = - 1"
  by (simp add: fl64s_def)

lemma fl64_le_0: "0 \<le> x \<Longrightarrow> fl64 x \<le> x * (1 + 1 / 2 ^ 53)"
  using fl64_le [of x] by (cases "x = 0") simp_all

lemma fl64_ge_0: "0 \<le> x \<Longrightarrow> x * (1 - 1 / 2 ^ 53) \<le> fl64 x"
  using fl64_ge [of x] by (cases "x = 0") simp_all

text \<open>Rounding a product whose other factor is at most one does not leave its range.\<close>

lemma fl64_idem [simp]: "fl64 (fl64 x) = fl64 x"
proof (cases "0 < x")
  case True
  let ?e = "exponent x - 52"
  define k where "k = round_half_even (x / pow2 ?e)"
  have f: "fl64 x = of_int k * pow2 ?e" using True by (simp add: fl64_def Let_def k_def)
  have "0 \<le> k"
    using fl64_nonneg [of x] pow2_pos [of ?e] unfolding f zero_le_mult_iff by (auto dest: leD)
  moreover have "k \<le> 2 ^ 53"
  proof -
    have "of_int k * pow2 ?e \<le> of_int (2 ^ 53) * pow2 ?e"
      using fl64_binade [OF True] pow2_52(2) [of "exponent x"] less_imp_neq [OF pow2_pos, of ?e]
      unfolding f by (simp add: divide_eq_eq)
    then show ?thesis by (simp only: mult_le_cancel_right_pos [OF pow2_pos] of_int_le_iff)
  qed
  moreover have "fl64 (of_int (2 ^ 53) * pow2 ?e) = of_int (2 ^ 53) * pow2 ?e"
  proof -
    have e: "of_int (2 ^ 53) * pow2 ?e = of_int 1 * pow2 (?e + 53)"
      unfolding pow2_add [of ?e 53] by (simp add: pow2_def [of 53])
    show ?thesis unfolding e by (rule fl64_exact) simp_all
  qed
  ultimately show ?thesis
    unfolding f using fl64_exact [of k ?e] by (cases "k = 2 ^ 53") simp_all
next
  case False
  then show ?thesis by (simp add: fl64_def [of x])
qed

end
