(* ===== verification/Retry_Queue.thy ===== *)
theory Retry_Queue
  imports Go_Heap Providers Float64
begin

text \<open>
  \<^verbatim>\<open>pkg/scheduler/retry_queue.go\<close>: the in-memory queue that re-attempts failed claims.

  The Go code shares \<^verbatim>\<open>*retryItem\<close> pointers between a binary heap, ordered by next attempt,
  and an index by job key, and keeps in every item its position in the heap. The model
  keeps that aliasing: items live in a store \<open>rq_mem\<close>, the heap is a list of references,
  the index maps a key to a reference, and a popped item stays in the index with
  position \<open>-1\<close> until its attempt has been decided.
\<close>

subsection \<open>Error classes\<close>

datatype errClass =
    errNonRetryable
  | errRateLimit
  | errServerSide
  | errNetwork
  | errUnknownRetryable

fun errClass_String :: "errClass \<Rightarrow> string" where
  "errClass_String errNonRetryable = ''non_retryable''"
| "errClass_String errRateLimit = ''rate_limit''"
| "errClass_String errServerSide = ''server_side''"
| "errClass_String errNetwork = ''network''"
| "errClass_String errUnknownRetryable = ''unknown_retryable''"

text \<open>The fallback on the text of the error (the final \<^verbatim>\<open>switch\<close> of \<^verbatim>\<open>classifyErr\<close>).\<close>

definition classifyMsg :: "string \<Rightarrow> errClass" where
  "classifyMsg text =
     (let msg = to_lower text;
          has = (\<lambda>p. str_contains msg p)
      in if has ''429'' \<or> has ''rate limit'' \<or> has ''secondary rate limit'' \<or> has ''abuse''
         then errRateLimit
         else if has ''404'' \<or> has ''not found'' \<or> has ''422'' \<or> has ''validation'' \<or>
                 has ''401'' \<or> has ''unauthorized'' \<or> has ''permission denied''
         then errNonRetryable
         else if has ''500'' \<or> has ''502'' \<or> has ''503'' \<or> has ''504'' \<or>
                 has ''bad gateway'' \<or> has ''gateway timeout''
         then errServerSide
         else if has ''timeout'' \<or> has ''no such host'' \<or> has ''connection refused'' \<or> has ''eof''
         then errNetwork
         else errUnknownRetryable)"

text \<open>The status-driven part: \<^const>\<open>None\<close> when the status decides nothing.\<close>

definition classifyStatus :: "int \<Rightarrow> errClass option" where
  "classifyStatus code =
     (if code \<in> {404, 422, 401, 400, 403} then Some errNonRetryable
      else if code = 429 then Some errRateLimit
      else if 500 \<le> code then Some errServerSide
      else None)"

definition classifyErr :: "goerr option \<Rightarrow> errClass" where
  "classifyErr err =
     (case err of
        None \<Rightarrow> errNonRetryable
      | Some e \<Rightarrow>
          if e_cordoned e then errNonRetryable
          else if e_rateLimit e then errRateLimit
          else if e_abuse e then errRateLimit
          else (case Option.bind (Option.bind (e_ghResponse e) (\<lambda>r. r)) classifyStatus of
                  Some c \<Rightarrow> c
                | None \<Rightarrow> if e_net e then errNetwork else classifyMsg (e_msg e)))"

subsection \<open>Configuration\<close>

record RetryConfig =
  rc_Enabled :: bool
  rc_Schedule :: "time list"
  rc_MaxAge :: time
  rc_Jitter :: rat
  rc_RateHint :: "(time \<Rightarrow> int \<times> time \<times> time) option"

definition defaultRetrySchedule :: "time list" where
  "defaultRetrySchedule = [30 * second, 1 * minute, 2 * minute, 5 * minute, 10 * minute]"

definition applyDefaults :: "RetryConfig \<Rightarrow> RetryConfig" where
  "applyDefaults c =
     (let c1 = (if length (rc_Schedule c) = 0 then c\<lparr>rc_Schedule := defaultRetrySchedule\<rparr> else c);
          c2 = (if rc_MaxAge c1 \<le> 0 then c1\<lparr>rc_MaxAge := 90 * minute\<rparr> else c1)
      in if rc_Jitter c2 < 0 then c2\<lparr>rc_Jitter := fl64 (1 / 5)\<rparr>
         else if rc_Jitter c2 > 1 then c2\<lparr>rc_Jitter := fl64 (1 / 5)\<rparr>
         else c2)"

subsection \<open>Items, heap and queue\<close>

type_synonym ref = nat

text \<open>The callback of an item; the scheduler registers exactly one, its \<^verbatim>\<open>retryHandler\<close>.\<close>

datatype retryHandlerFn = SchedulerRetryHandler | OtherHandler nat

record retryItem =
  it_key :: jobKey
  it_event :: JobEvent
  it_handler :: retryHandlerFn
  it_attempts :: nat
  it_firstFailure :: time
  it_nextAttempt :: time
  it_index :: int

record retryQueue =
  rq_cfg :: RetryConfig
  rq_mem :: "ref \<Rightarrow> retryItem"
  rq_fresh :: ref
  rq_heap :: "ref list"
  rq_index :: "jobKey \<rightharpoonup> ref"
  rq_wake :: bool

definition nilItem :: retryItem where
  "nilItem = \<lparr>it_key = \<lparr>jk_provider = [], jk_jobID = 0\<rparr>,
     it_event = \<lparr>ev_provider = None, ev_action = [], ev_repo = [], ev_jobID = 0, ev_runID = 0,
       ev_labels = [], ev_conclusion = [], ev_runnerName = []\<rparr>,
     it_handler = SchedulerRetryHandler, it_attempts = 0, it_firstFailure = 0,
     it_nextAttempt = 0, it_index = 0\<rparr>"

definition newRetryQueue :: "RetryConfig \<Rightarrow> retryQueue" where
  "newRetryQueue cfg =
     \<lparr>rq_cfg = applyDefaults cfg, rq_mem = (\<lambda>_. nilItem), rq_fresh = 0, rq_heap = [],
      rq_index = Map.empty, rq_wake = False\<rparr>"

definition rq_setIndex :: "retryQueue \<Rightarrow> ref \<Rightarrow> int \<Rightarrow> retryQueue" where
  "rq_setIndex q r k = q\<lparr>rq_mem := (rq_mem q)(r := (rq_mem q r)\<lparr>it_index := k\<rparr>)\<rparr>"

definition retryHeap_Less :: "retryQueue \<Rightarrow> nat \<Rightarrow> nat \<Rightarrow> bool" where
  "retryHeap_Less q i j \<longleftrightarrow>
     it_nextAttempt (rq_mem q (rq_heap q ! i)) < it_nextAttempt (rq_mem q (rq_heap q ! j))"

definition retryHeap_Swap :: "retryQueue \<Rightarrow> nat \<Rightarrow> nat \<Rightarrow> retryQueue" where
  "retryHeap_Swap q i j =
     (let h = swap_nth (rq_heap q) i j;
          q1 = q\<lparr>rq_heap := h\<rparr>;
          q2 = rq_setIndex q1 (h ! i) (int i)
      in rq_setIndex q2 (h ! j) (int j))"

definition retryHeap_Push :: "retryQueue \<Rightarrow> ref \<Rightarrow> retryQueue" where
  "retryHeap_Push q r =
     (let q1 = rq_setIndex q r (int (length (rq_heap q)))
      in q1\<lparr>rq_heap := rq_heap q1 @ [r]\<rparr>)"

definition retryHeap_Pop :: "retryQueue \<Rightarrow> ref \<times> retryQueue" where
  "retryHeap_Pop q =
     (let n = length (rq_heap q);
          r = rq_heap q ! (n - 1);
          q1 = rq_setIndex q r (-1)
      in (r, q1\<lparr>rq_heap := take (n - 1) (rq_heap q1)\<rparr>))"

text \<open>\<^verbatim>\<open>heap.Push\<close>, \<^verbatim>\<open>heap.Pop\<close>, \<^verbatim>\<open>heap.Remove\<close>, \<^verbatim>\<open>heap.Fix\<close> at this client.\<close>

definition rq_heapPush :: "retryQueue \<Rightarrow> ref \<Rightarrow> retryQueue" where
  "rq_heapPush q r =
     (let q1 = retryHeap_Push q r
      in heap_up retryHeap_Less retryHeap_Swap q1 (length (rq_heap q1) - 1))"

definition rq_heapPop :: "retryQueue \<Rightarrow> ref \<times> retryQueue" where
  "rq_heapPop q =
     (let n = length (rq_heap q) - 1;
          q1 = retryHeap_Swap q 0 n;
          q2 = fst (heap_down retryHeap_Less retryHeap_Swap q1 0 n)
      in retryHeap_Pop q2)"

definition rq_heapRemove :: "retryQueue \<Rightarrow> nat \<Rightarrow> ref \<times> retryQueue" where
  "rq_heapRemove q i =
     (let n = length (rq_heap q) - 1
      in retryHeap_Pop
           (if n \<noteq> i
            then heap_fix_upto retryHeap_Less retryHeap_Swap (retryHeap_Swap q i n) i n
            else q))"

definition rq_heapFix :: "retryQueue \<Rightarrow> nat \<Rightarrow> retryQueue" where
  "rq_heapFix q i = heap_fix_upto retryHeap_Less retryHeap_Swap q i (length (rq_heap q))"

subsection \<open>The queue's operations\<close>

definition retryQueue_Enabled :: "retryQueue option \<Rightarrow> bool" where
  "retryQueue_Enabled q \<longleftrightarrow> (case q of None \<Rightarrow> False | Some q \<Rightarrow> rc_Enabled (rq_cfg q))"

definition retryQueue_signal :: "retryQueue \<Rightarrow> retryQueue" where
  "retryQueue_signal q = q\<lparr>rq_wake := True\<rparr>"

definition retryQueue_Len :: "retryQueue option \<Rightarrow> nat" where
  "retryQueue_Len q = (case q of None \<Rightarrow> 0 | Some q \<Rightarrow> length (rq_heap q))"

definition removeLocked :: "retryQueue \<Rightarrow> ref \<Rightarrow> retryQueue" where
  "removeLocked q r =
     (let q1 = (if 0 \<le> it_index (rq_mem q r) then snd (rq_heapRemove q (nat (it_index (rq_mem q r)))) else q)
      in q1\<lparr>rq_index := (rq_index q1)(it_key (rq_mem q1 r) := None)\<rparr>)"

definition retryQueue_Drop :: "retryQueue \<Rightarrow> jobKey \<Rightarrow> retryQueue" where
  "retryQueue_Drop q key = (case rq_index q key of Some r \<Rightarrow> removeLocked q r | None \<Rightarrow> q)"

text \<open>
  Random draws of one scheduling decision: \<^verbatim>\<open>rand.Int64N(20000)\<close> and \<^verbatim>\<open>rand.Float64()\<close>.
\<close>

record draws =
  dr_ms :: int
  dr_float :: rat

definition trunc_rat :: "rat \<Rightarrow> int" where
  "trunc_rat x = (if 0 \<le> x then \<lfloor>x\<rfloor> else \<lceil>x\<rceil>)"

text \<open>
  \<^verbatim>\<open>jittered\<close>: every operation rounds to a \<^verbatim>\<open>float64\<close>; the conversion to \<^verbatim>\<open>time.Duration\<close>
  truncates toward zero.
\<close>

definition jittered :: "time \<Rightarrow> rat \<Rightarrow> rat \<Rightarrow> time" where
  "jittered base fr u =
     (if fr \<le> 0 then base
      else let span = fl64s (fl64s (of_int base) * fr);
               off = fl64s (fl64s (fl64s (u * 2) - 1) * span);
               d = trunc_rat (fl64s (fl64s (of_int base) + off))
           in if d < 0 then 0 else d)"

text \<open>
  \<^verbatim>\<open>nextDelayLocked\<close> reads nothing of the queue but its configuration, and nothing of the
  item but its number of attempts.
\<close>

definition nextDelayLocked :: "RetryConfig \<Rightarrow> nat \<Rightarrow> errClass \<Rightarrow> time \<Rightarrow> draws \<Rightarrow> time" where
  "nextDelayLocked cfg attempts class now dr =
     (let ladder =
            (let idx = attempts - 1;
                 idx' = (if length (rc_Schedule cfg) \<le> idx then length (rc_Schedule cfg) - 1 else idx)
             in jittered (rc_Schedule cfg ! idx') (rc_Jitter cfg) (dr_float dr))
      in case rc_RateHint cfg of
           None \<Rightarrow> ladder
         | Some hint \<Rightarrow>
             if class = errRateLimit
             then (let (remaining, reset, updated) = hint now
                   in if remaining = 0 \<and> reset \<noteq> 0 \<and> now < reset \<and>
                         updated \<noteq> 0 \<and> now - updated < 5 * minute
                      then (reset - now) + 5 * second + dr_ms dr * millisecond
                      else ladder)
             else ladder)"

text \<open>
  \<^verbatim>\<open>Add\<close>. The clock is read twice, once on entry (\<open>now\<close>) and once inside
  \<^verbatim>\<open>nextDelayLocked\<close> (\<open>now'\<close>).
\<close>

definition retryQueue_lookupOrNew ::
  "retryQueue \<Rightarrow> JobEvent \<Rightarrow> retryHandlerFn \<Rightarrow> time \<Rightarrow> ref \<times> retryQueue" where
  "retryQueue_lookupOrNew q event handler now =
     (let key = keyFor event
      in case rq_index q key of
           Some r \<Rightarrow> (r, q)
         | None \<Rightarrow>
             (rq_fresh q,
              q\<lparr>rq_mem := (rq_mem q)(rq_fresh q :=
                   \<lparr>it_key = key, it_event = event, it_handler = handler, it_attempts = 0,
                    it_firstFailure = now, it_nextAttempt = 0, it_index = -1\<rparr>),
                rq_index := (rq_index q)(key \<mapsto> rq_fresh q),
                rq_fresh := Suc (rq_fresh q)\<rparr>))"

definition rq_bump :: "retryQueue \<Rightarrow> ref \<Rightarrow> retryQueue" where
  "rq_bump q r = q\<lparr>rq_mem := (rq_mem q)(r := (rq_mem q r)\<lparr>it_attempts := Suc (it_attempts (rq_mem q r))\<rparr>)\<rparr>"

definition rq_setNext :: "retryQueue \<Rightarrow> ref \<Rightarrow> time \<Rightarrow> retryQueue" where
  "rq_setNext q r t = q\<lparr>rq_mem := (rq_mem q)(r := (rq_mem q r)\<lparr>it_nextAttempt := t\<rparr>)\<rparr>"

definition rq_place :: "retryQueue \<Rightarrow> ref \<Rightarrow> retryQueue" where
  "rq_place q r =
     (if it_index (rq_mem q r) < 0 then rq_heapPush q r
      else rq_heapFix q (nat (it_index (rq_mem q r))))"

definition retryQueue_Add ::
  "retryQueue \<Rightarrow> JobEvent \<Rightarrow> retryHandlerFn \<Rightarrow> goerr option \<Rightarrow> time \<Rightarrow> time \<Rightarrow> draws \<Rightarrow> retryQueue" where
  "retryQueue_Add q event handler err now now' dr =
     (if \<not> rc_Enabled (rq_cfg q) then q
      else let class = classifyErr err
           in if class = errNonRetryable then q
              else let (r, q1) = retryQueue_lookupOrNew q event handler now;
                       q2 = rq_bump q1 r
                   in if now - it_firstFailure (rq_mem q2 r) > rc_MaxAge (rq_cfg q2)
                      then removeLocked q2 r
                      else let delay = nextDelayLocked (rq_cfg q2) (it_attempts (rq_mem q2 r)) class now' dr;
                               q3 = rq_setNext q2 r (now + delay)
                           in retryQueue_signal (rq_place q3 r))"

text \<open>The sleep of the drain loop of \<^verbatim>\<open>Run\<close>: \<^const>\<open>None\<close> when no timer is armed.\<close>

definition retryQueue_sleep :: "retryQueue \<Rightarrow> time \<Rightarrow> time option" where
  "retryQueue_sleep q now =
     (case rq_heap q of
        [] \<Rightarrow> None
      | r # _ \<Rightarrow> (let d = it_nextAttempt (rq_mem q r) - now in Some (if d < 0 then 0 else d)))"

lemma swap_length [simp]: "length (rq_heap (retryHeap_Swap q i j)) = length (rq_heap q)"
  by (simp add: retryHeap_Swap_def rq_setIndex_def Let_def)

lemma down_loop_length [simp]:
  "length (rq_heap (fst (heap_down_loop retryHeap_Less retryHeap_Swap q i n))) = length (rq_heap q)"
proof (induction "n - i" arbitrary: q i rule: less_induct)
  case less
  show ?case
    by (subst heap_down_loop.simps) (auto simp: Let_def less)
qed

lemma down_length [simp]:
  "length (rq_heap (fst (heap_down retryHeap_Less retryHeap_Swap q i n))) = length (rq_heap q)"
  by (simp add: heap_down_def split_beta Let_def)

lemma heapPop_length: "rq_heap q \<noteq> [] \<Longrightarrow> length (rq_heap (snd (rq_heapPop q))) < length (rq_heap q)"
  by (simp add: rq_heapPop_def retryHeap_Pop_def rq_setIndex_def Let_def)

text \<open>The pop loop of \<^verbatim>\<open>fireDue\<close>: the due items, in the order they are popped.\<close>

function fireDue :: "retryQueue \<Rightarrow> time \<Rightarrow> ref list \<times> retryQueue" where
  "fireDue q now =
     (case rq_heap q of
        [] \<Rightarrow> ([], q)
      | r # _ \<Rightarrow>
          if now < it_nextAttempt (rq_mem q r) then ([], q)
          else let (r', q1) = rq_heapPop q;
                   (rs, q2) = fireDue q1 now
               in (r' # rs, q2))"
  by pat_completeness auto
termination
proof (relation "measure (\<lambda>(q, now). length (rq_heap q))", goal_cases)
  case (2 q now r rest x r' q1)
  have "length (rq_heap (snd (rq_heapPop q))) < length (rq_heap q)"
    using 2 by (intro heapPop_length) simp
  with 2(3,4) show ?case by (metis in_measure case_prod_conv snd_conv)
qed simp

declare fireDue.simps [simp del]

text \<open>\<^verbatim>\<open>runOne\<close> once the handler has returned \<open>err\<close>.\<close>

definition runOne ::
  "retryQueue \<Rightarrow> ref \<Rightarrow> goerr option \<Rightarrow> time \<Rightarrow> time \<Rightarrow> draws \<Rightarrow> retryQueue" where
  "runOne q r err now now' dr =
     (case err of
        None \<Rightarrow> retryQueue_Drop q (it_key (rq_mem q r))
      | Some e \<Rightarrow> retryQueue_Add q (it_event (rq_mem q r)) (it_handler (rq_mem q r)) (Some e) now now' dr)"


subsection \<open>The representation invariant\<close>

text \<open>
  Positions recorded in the items agree with the heap, every heap element is registered in
  the index under its own key, and an index entry that is not in the heap has position \<open>-1\<close>.
\<close>

definition rq_linked :: "retryQueue \<Rightarrow> bool" where
  "rq_linked q \<longleftrightarrow>
     (\<forall>i < length (rq_heap q). it_index (rq_mem q (rq_heap q ! i)) = int i) \<and>
     (\<forall>r \<in> set (rq_heap q). rq_index q (it_key (rq_mem q r)) = Some r) \<and>
     (\<forall>k r. rq_index q k = Some r \<longrightarrow>
        it_key (rq_mem q r) = k \<and> r < rq_fresh q \<and>
        (r \<in> set (rq_heap q) \<or> it_index (rq_mem q r) = -1))"

definition rq_keys :: "retryQueue \<Rightarrow> time list" where
  "rq_keys q = map (\<lambda>r. it_nextAttempt (rq_mem q r)) (rq_heap q)"

definition rq_wf :: "retryQueue \<Rightarrow> bool" where
  "rq_wf q \<longleftrightarrow> rq_linked q \<and> heap_upto (rq_keys q) (length (rq_heap q))"

text \<open>Two queues that differ in heap order and recorded positions only.\<close>

definition rq_frame :: "retryQueue \<Rightarrow> retryQueue \<Rightarrow> bool" where
  "rq_frame q q' \<longleftrightarrow>
     rq_cfg q' = rq_cfg q \<and> rq_fresh q' = rq_fresh q \<and> rq_index q' = rq_index q \<and> rq_wake q' = rq_wake q \<and>
     (\<forall>r. (rq_mem q' r)\<lparr>it_index := 0\<rparr> = (rq_mem q r)\<lparr>it_index := 0\<rparr>)"

lemma rq_frame_refl [simp]: "rq_frame q q"
  by (simp add: rq_frame_def)

lemma rq_frame_trans: "rq_frame q1 q2 \<Longrightarrow> rq_frame q2 q3 \<Longrightarrow> rq_frame q1 q3"
  by (simp add: rq_frame_def)

lemma rq_frameD:
  assumes "rq_frame q q'"
  shows "rq_cfg q' = rq_cfg q" "rq_fresh q' = rq_fresh q" "rq_index q' = rq_index q"
    "it_key (rq_mem q' r) = it_key (rq_mem q r)" "it_event (rq_mem q' r) = it_event (rq_mem q r)"
    "it_handler (rq_mem q' r) = it_handler (rq_mem q r)"
    "it_attempts (rq_mem q' r) = it_attempts (rq_mem q r)"
    "it_firstFailure (rq_mem q' r) = it_firstFailure (rq_mem q r)"
    "it_nextAttempt (rq_mem q' r) = it_nextAttempt (rq_mem q r)"
proof -
  have e: "(rq_mem q' r)\<lparr>it_index := 0\<rparr> = (rq_mem q r)\<lparr>it_index := 0\<rparr>"
    using assms by (simp add: rq_frame_def)
  show "it_key (rq_mem q' r) = it_key (rq_mem q r)" "it_event (rq_mem q' r) = it_event (rq_mem q r)"
    "it_handler (rq_mem q' r) = it_handler (rq_mem q r)"
    "it_attempts (rq_mem q' r) = it_attempts (rq_mem q r)"
    "it_firstFailure (rq_mem q' r) = it_firstFailure (rq_mem q r)"
    "it_nextAttempt (rq_mem q' r) = it_nextAttempt (rq_mem q r)"
    using arg_cong [OF e, of it_key] arg_cong [OF e, of it_event] arg_cong [OF e, of it_handler]
      arg_cong [OF e, of it_attempts] arg_cong [OF e, of it_firstFailure] arg_cong [OF e, of it_nextAttempt]
    by simp_all
  show "rq_cfg q' = rq_cfg q" "rq_fresh q' = rq_fresh q" "rq_index q' = rq_index q"
    using assms by (simp_all add: rq_frame_def)
qed

lemma rq_frame_setIndex [simp]: "rq_frame q (rq_setIndex q r k)"
  by (simp add: rq_frame_def rq_setIndex_def)

lemma rq_frame_heap [simp]: "rq_frame q (q\<lparr>rq_heap := h\<rparr>)"
  by (simp add: rq_frame_def)

lemma rq_linked_distinct: "rq_linked q \<Longrightarrow> distinct (rq_heap q)"
  unfolding rq_linked_def distinct_conv_nth by (metis of_nat_eq_iff)

lemma swap_frame: "rq_frame q (retryHeap_Swap q i j)"
  by (simp add: retryHeap_Swap_def Let_def rq_frame_def rq_setIndex_def)

lemma rq_index_setIndex [simp]:
  "it_index (rq_mem (rq_setIndex q r k) r') = (if r' = r then k else it_index (rq_mem q r'))"
  "rq_heap (rq_setIndex q r k) = rq_heap q"
  by (simp_all add: rq_setIndex_def)

lemma swap_heap [simp]: "rq_heap (retryHeap_Swap q i j) = swap_nth (rq_heap q) i j"
  by (simp add: retryHeap_Swap_def Let_def)

lemma swap_index:
  "it_index (rq_mem (retryHeap_Swap q i j) r) =
     (let h = swap_nth (rq_heap q) i j
      in if r = h ! j then int j else if r = h ! i then int i else it_index (rq_mem q r))"
  by (simp add: retryHeap_Swap_def Let_def)

lemma set_swap_nth [simp]: "i < length xs \<Longrightarrow> j < length xs \<Longrightarrow> set (swap_nth xs i j) = set xs"
  using mset_swap_nth [of i xs j] by (metis set_mset_mset)

lemma distinct_swap_nth [simp]: "i < length xs \<Longrightarrow> j < length xs \<Longrightarrow> distinct (swap_nth xs i j) = distinct xs"
  using mset_swap_nth [of i xs j] mset_eq_imp_distinct_iff by blast

lemma rq_linkedI:
  assumes "rq_frame q q'" and "rq_linked q"
    and "\<And>k. k < length (rq_heap q') \<Longrightarrow> it_index (rq_mem q' (rq_heap q' ! k)) = int k"
    and "\<And>r. r \<in> set (rq_heap q') \<Longrightarrow> rq_index q (it_key (rq_mem q r)) = Some r"
    and "\<And>r. r \<in> set (rq_heap q) \<or> it_index (rq_mem q r) = -1 \<Longrightarrow>
           r \<in> set (rq_heap q') \<or> it_index (rq_mem q' r) = -1"
  shows "rq_linked q'"
  unfolding rq_linked_def rq_frameD [OF assms(1)]
  using assms(2-5) unfolding rq_linked_def by blast

lemma swap_linked:
  assumes "rq_linked q" and i: "i < length (rq_heap q)" and j: "j < length (rq_heap q)"
  shows "rq_linked (retryHeap_Swap q i j)"
proof -
  let ?q = "retryHeap_Swap q i j" and ?h = "swap_nth (rq_heap q) i j"
  note fr = rq_frameD [OF swap_frame [of q i j]]
  have dist: "distinct ?h" using rq_linked_distinct [OF assms(1)] i j by simp
  have "it_index (rq_mem ?q (?h ! k)) = int k" if k: "k < length (rq_heap q)" for k
  proof (cases "k = i \<or> k = j")
    case True
    then show ?thesis using dist i j by (auto simp: swap_index Let_def nth_eq_iff_index_eq)
  next
    case False
    then have "?h ! k = rq_heap q ! k" "?h ! k \<noteq> ?h ! i" "?h ! k \<noteq> ?h ! j"
      using dist i j k by (auto simp: nth_eq_iff_index_eq nth_swap_nth)
    then show ?thesis using assms(1) k by (simp add: swap_index Let_def rq_linked_def)
  qed
  moreover have "r \<in> set (rq_heap q) \<or> it_index (rq_mem ?q r) = -1"
    if "r \<in> set (rq_heap q) \<or> it_index (rq_mem q r) = -1" for r
  proof -
    have "?h ! i \<in> set ?h" "?h ! j \<in> set ?h" using i j by (auto simp del: set_swap_nth)
    then show ?thesis using that i j by (auto simp: swap_index Let_def)
  qed
  ultimately show ?thesis
    using assms(1) i j unfolding rq_linked_def by (auto simp: fr)
qed

interpretation rh: heap_interface retryHeap_Less retryHeap_Swap rq_heap
    "\<lambda>q r. it_nextAttempt (rq_mem q r)" "\<lambda>q. rq_linked q \<and> rq_frame q0 q"
  for q0
proof (unfold_locales, goal_cases)
  case (3 i h j)
  show ?case by (rule ext) (simp add: rq_frameD(9) [OF swap_frame])
next
  case (4 h i j)
  then show ?case using swap_linked swap_frame rq_frame_trans by blast
qed (simp_all add: retryHeap_Less_def)

lemma rh_keys [simp]: "rh.keys = rq_keys"
  by (rule ext) (simp add: rh.keys_def rq_keys_def)

text \<open>What a permutation by the heap operations means for the queue.\<close>

lemma perm_upto_queue:
  assumes "rh.perm_upto q n q q'" and "rq_linked q"
  shows "rq_linked q'" "rq_frame q q'" "mset (rq_heap q') = mset (rq_heap q)"
    "set (rq_heap q') = set (rq_heap q)" "drop n (rq_heap q') = drop n (rq_heap q)"
    "length (rq_heap q') = length (rq_heap q)"
  using assms unfolding rh.perm_upto_def
  by (auto dest: mset_eq_setD mset_eq_length)

subsection \<open>Push, Pop, Remove and Fix\<close>

lemma Push_frame: "rq_frame q (retryHeap_Push q r)"
  by (simp add: retryHeap_Push_def Let_def rq_frame_def rq_setIndex_def)

lemma Push_linked:
  assumes "rq_linked q" and "rq_index q (it_key (rq_mem q r)) = Some r" and "r \<notin> set (rq_heap q)"
  shows "rq_linked (retryHeap_Push q r)"
proof (rule rq_linkedI [OF Push_frame assms(1)])
  have h: "rq_heap (retryHeap_Push q r) = rq_heap q @ [r]"
    and m: "\<And>x. it_index (rq_mem (retryHeap_Push q r) x) =
      (if x = r then int (length (rq_heap q)) else it_index (rq_mem q x))"
    by (simp_all add: retryHeap_Push_def Let_def)
  show "it_index (rq_mem (retryHeap_Push q r) (rq_heap (retryHeap_Push q r) ! k)) = int k"
    if "k < length (rq_heap (retryHeap_Push q r))" for k
    using that assms(1,3) by (auto simp: h m nth_append rq_linked_def less_Suc_eq)
  show "rq_index q (it_key (rq_mem q x)) = Some x" if "x \<in> set (rq_heap (retryHeap_Push q r))" for x
    using that assms by (auto simp: h rq_linked_def)
  show "x \<in> set (rq_heap (retryHeap_Push q r)) \<or> it_index (rq_mem (retryHeap_Push q r) x) = -1"
    if "x \<in> set (rq_heap q) \<or> it_index (rq_mem q x) = -1" for x
    using that by (auto simp: h m)
qed

lemma Push_keys: "rq_keys (retryHeap_Push q r) = rq_keys q @ [it_nextAttempt (rq_mem q r)]"
  by (simp add: rq_keys_def retryHeap_Push_def Let_def rq_setIndex_def)

lemma heapPush_correct:
  assumes wf: "rq_wf q" and idx: "rq_index q (it_key (rq_mem q r)) = Some r" and fresh: "r \<notin> set (rq_heap q)"
  shows "rq_wf (rq_heapPush q r)" and "rq_frame q (rq_heapPush q r)"
    and "mset (rq_heap (rq_heapPush q r)) = add_mset r (mset (rq_heap q))"
proof -
  let ?q1 = "retryHeap_Push q r" and ?n = "length (rq_heap q)"
  have heap1: "rq_heap ?q1 = rq_heap q @ [r]"
    by (simp add: retryHeap_Push_def Let_def)
  have l1: "rq_linked ?q1"
    using Push_linked [OF _ idx fresh] wf by (simp add: rq_wf_def)
  have "heap_but_up (rq_keys ?q1) (Suc ?n) ?n"
    using wf heap_upto_append [of "rq_keys q"] unfolding Push_keys by (simp add: rq_wf_def rq_keys_def)
  then have up: "heap_upto (rq_keys (rq_heapPush q r)) (Suc ?n)" "rh.perm_upto ?q1 (Suc ?n) ?q1 (rq_heapPush q r)"
    using rh.up_correct [of ?q1 "Suc ?n" ?n ?q1] by (simp_all add: heap1 rq_heapPush_def Let_def)
  note p = perm_upto_queue [OF up(2) l1]
  show "rq_wf (rq_heapPush q r)" using p up by (simp add: rq_wf_def heap1)
  show "rq_frame q (rq_heapPush q r)" using p(2) Push_frame rq_frame_trans by blast
  show "mset (rq_heap (rq_heapPush q r)) = add_mset r (mset (rq_heap q))" using p(3) by (simp add: heap1)
qed

lemma heapFix_correct:
  assumes l: "rq_linked q" and i: "i < length (rq_heap q)"
    and H: "heap_but (rq_keys q) (length (rq_heap q)) i"
  shows "rq_wf (rq_heapFix q i)" and "rq_frame q (rq_heapFix q i)"
    and "mset (rq_heap (rq_heapFix q i)) = mset (rq_heap q)"
proof -
  have c: "heap_upto (rq_keys (rq_heapFix q i)) (length (rq_heap q))"
      "rh.perm_upto q (length (rq_heap q)) q (rq_heapFix q i)"
    using rh.fix_upto_correct(1) [of q "length (rq_heap q)" i]
      rh.fix_upto_correct(2) [of q "length (rq_heap q)" i q] i H
    by (simp_all add: rq_heapFix_def)
  note p = perm_upto_queue [OF c(2) l]
  show "rq_wf (rq_heapFix q i)" and "rq_frame q (rq_heapFix q i)"
    and "mset (rq_heap (rq_heapFix q i)) = mset (rq_heap q)"
    using p c(1) by (simp_all add: rq_wf_def)
qed

text \<open>Dropping the last element, after the others are back in heap order.\<close>

lemma Pop_correct:
  assumes l: "rq_linked q" and n: "length (rq_heap q) = Suc n" and H: "heap_upto (rq_keys q) n"
    and x: "rq_heap q ! n = x"
  shows "fst (retryHeap_Pop q) = x" and "rq_wf (snd (retryHeap_Pop q))"
    and "rq_frame q (snd (retryHeap_Pop q))"
    and "mset (rq_heap (snd (retryHeap_Pop q))) = mset (rq_heap q) - {#x#}"
    and "it_index (rq_mem (snd (retryHeap_Pop q)) x) = -1"
proof -
  let ?q = "snd (retryHeap_Pop q)"
  have q: "?q = (rq_setIndex q x (-1))\<lparr>rq_heap := take n (rq_heap q)\<rparr>"
    using n x by (simp add: retryHeap_Pop_def Let_def)
  have split: "rq_heap q = take n (rq_heap q) @ [x]"
    using n x by (metis lessI take_Suc_conv_app_nth take_all_iff order_refl)
  have notin: "x \<notin> set (take n (rq_heap q))"
    using rq_linked_distinct [OF l] split by (metis distinct_append disjoint_iff list.set_intros(1))
  show "fst (retryHeap_Pop q) = x" using n x by (simp add: retryHeap_Pop_def Let_def)
  show fr: "rq_frame q ?q" unfolding q by (simp add: rq_frame_def rq_setIndex_def)
  show "mset (rq_heap ?q) = mset (rq_heap q) - {#x#}"
    using arg_cong [OF split, of mset] by (simp add: q)
  show "it_index (rq_mem ?q x) = -1" unfolding q by (simp add: rq_setIndex_def)
  have "rq_linked ?q"
  proof (rule rq_linkedI [OF fr l])
    show "it_index (rq_mem ?q (rq_heap ?q ! k)) = int k" if k: "k < length (rq_heap ?q)" for k
    proof -
      have "rq_heap q ! k \<in> set (take n (rq_heap q))" using k n by (auto simp: q in_set_conv_nth)
      then have "rq_heap q ! k \<noteq> x" using notin by auto
      then show ?thesis using k l n unfolding rq_linked_def by (simp add: q)
    qed
    show "rq_index q (it_key (rq_mem q r)) = Some r" if "r \<in> set (rq_heap ?q)" for r
      using that l unfolding rq_linked_def by (auto simp: q dest: in_set_takeD)
    show "r \<in> set (rq_heap ?q) \<or> it_index (rq_mem ?q r) = -1"
      if "r \<in> set (rq_heap q) \<or> it_index (rq_mem q r) = -1" for r
      using that arg_cong [OF split, of set] by (auto simp: q)
  qed
  moreover have "rq_keys ?q = take n (rq_keys q)"
    by (simp add: q rq_keys_def rq_setIndex_def take_map)
  ultimately show "rq_wf ?q"
    using heap_upto_take [OF H] n by (simp add: rq_wf_def q)
qed

text \<open>Moving the last element to position \<open>i\<close> and repairing the rest.\<close>

lemma swap_last_correct:
  assumes wf: "rq_wf q" and n: "length (rq_heap q) = Suc n" and i: "i \<le> n"
  shows "rq_linked (retryHeap_Swap q i n)" "heap_but (rq_keys (retryHeap_Swap q i n)) n i"
    "length (rq_heap (retryHeap_Swap q i n)) = Suc n"
    "rq_heap (retryHeap_Swap q i n) ! n = rq_heap q ! i"
    "mset (rq_heap (retryHeap_Swap q i n)) = mset (rq_heap q)"
proof -
  show "rq_linked (retryHeap_Swap q i n)" using swap_linked wf n i by (simp add: rq_wf_def)
  have "rq_keys (retryHeap_Swap q i n) = swap_nth (rq_keys q) i n"
    using rh.keys_swap [of i q n] n i by simp
  then show "heap_but (rq_keys (retryHeap_Swap q i n)) n i"
    using heap_upto_swap_last [of "rq_keys q" n i] wf n i by (simp add: rq_wf_def rq_keys_def)
qed (use n i in \<open>auto simp: nth_swap_nth\<close>)

lemma heapRemove_correct:
  assumes wf: "rq_wf q" and i: "i < length (rq_heap q)" and x: "rq_heap q ! i = x"
  shows "fst (rq_heapRemove q i) = x" and "rq_wf (snd (rq_heapRemove q i))"
    and "rq_frame q (snd (rq_heapRemove q i))"
    and "mset (rq_heap (snd (rq_heapRemove q i))) = mset (rq_heap q) - {#x#}"
    and "it_index (rq_mem (snd (rq_heapRemove q i)) x) = -1"
proof -
  obtain n where n: "length (rq_heap q) = Suc n" using i by (cases "length (rq_heap q)") auto
  define q2 where "q2 = (if n \<noteq> i
      then heap_fix_upto retryHeap_Less retryHeap_Swap (retryHeap_Swap q i n) i n else q)"
  have rm: "rq_heapRemove q i = retryHeap_Pop q2" by (simp add: rq_heapRemove_def Let_def n q2_def)
  have q2: "rq_linked q2" "rq_frame q q2" "mset (rq_heap q2) = mset (rq_heap q)"
      "length (rq_heap q2) = Suc n" "rq_heap q2 ! n = x" "heap_upto (rq_keys q2) n"
  proof -
    have "rq_linked q2 \<and> rq_frame q q2 \<and> mset (rq_heap q2) = mset (rq_heap q) \<and>
        length (rq_heap q2) = Suc n \<and> rq_heap q2 ! n = x \<and> heap_upto (rq_keys q2) n"
    proof (cases "n = i")
      case True
      then show ?thesis using wf n x by (auto simp: q2_def rq_wf_def intro: heap_upto_mono)
    next
      case False
      then have i': "i < n" using i n by simp
      let ?q1 = "retryHeap_Swap q i n"
      note s = swap_last_correct [OF wf n less_imp_le [OF i']]
      have c: "heap_upto (rq_keys q2) n" "rh.perm_upto ?q1 n ?q1 q2"
        using rh.fix_upto_correct(1) [of ?q1 n i] rh.fix_upto_correct(2) [of ?q1 n i ?q1] s i' False
        by (simp_all add: q2_def n)
      note p = perm_upto_queue [OF c(2) s(1)]
      have "drop n (rq_heap q2) = [rq_heap q ! i]"
        using p(5) s(3,4) drop_last by metis
      then have "rq_heap q2 ! n = x" using p(6) s(3) x drop_last [of "rq_heap q2" n] by simp
      then show ?thesis using p c(1) s rq_frame_trans [OF swap_frame p(2)] by simp
    qed
    then show "rq_linked q2" "rq_frame q q2" "mset (rq_heap q2) = mset (rq_heap q)"
      "length (rq_heap q2) = Suc n" "rq_heap q2 ! n = x" "heap_upto (rq_keys q2) n" by auto
  qed
  note pc = Pop_correct [OF q2(1,4,6,5)]
  show "fst (rq_heapRemove q i) = x" "rq_wf (snd (rq_heapRemove q i))"
    "mset (rq_heap (snd (rq_heapRemove q i))) = mset (rq_heap q) - {#x#}"
    "it_index (rq_mem (snd (rq_heapRemove q i)) x) = -1"
    using pc q2(3) by (simp_all add: rm)
  show "rq_frame q (snd (rq_heapRemove q i))"
    using rq_frame_trans [OF q2(2) pc(3)] by (simp add: rm)
qed

lemma heapPop_correct:
  assumes wf: "rq_wf q" and ne: "rq_heap q = x # xs"
  shows "fst (rq_heapPop q) = x" and "rq_wf (snd (rq_heapPop q))"
    and "rq_frame q (snd (rq_heapPop q))"
    and "mset (rq_heap (snd (rq_heapPop q))) = mset xs"
    and "it_index (rq_mem (snd (rq_heapPop q)) x) = -1"
proof -
  define n where "n = length xs"
  have n: "length (rq_heap q) = Suc n" using ne by (simp add: n_def)
  let ?q1 = "retryHeap_Swap q 0 n"
  let ?q2 = "fst (heap_down retryHeap_Less retryHeap_Swap ?q1 0 n)"
  have pop: "rq_heapPop q = retryHeap_Pop ?q2" by (simp add: rq_heapPop_def Let_def n)
  note s = swap_last_correct [OF wf n le0]
  have c: "heap_upto (rq_keys ?q2) n" "rh.perm_upto ?q1 n ?q1 ?q2"
    using rh.down_root_correct(1) [of ?q1 n] rh.down_root_correct(2) [of ?q1 n ?q1] s by simp_all
  note p = perm_upto_queue [OF c(2) s(1)]
  have "drop n (rq_heap ?q2) = [x]"
    using p(5) s(3,4) ne drop_last by (metis nth_Cons_0)
  then have x: "rq_heap ?q2 ! n = x" using p(6) s(3) drop_last [of "rq_heap ?q2" n] by simp
  have len: "length (rq_heap ?q2) = Suc n" using p(6) s(3) by simp
  note pc = Pop_correct [OF p(1) len c(1) x]
  show "fst (rq_heapPop q) = x" "rq_wf (snd (rq_heapPop q))"
    "mset (rq_heap (snd (rq_heapPop q))) = mset xs"
    "it_index (rq_mem (snd (rq_heapPop q)) x) = -1"
    using pc p(3) s(5) ne by (simp_all add: pop)
  show "rq_frame q (snd (rq_heapPop q))"
    using rq_frame_trans [OF swap_frame rq_frame_trans [OF p(2) pc(3)]] by (simp add: pop)
qed

end
