(* ===== verification/Retry_Spec.thy ===== *)
theory Retry_Spec
  imports Retry_Queue
begin

text \<open>
  The contract of the retry queue of \<^verbatim>\<open>pkg/scheduler/retry_queue.go\<close>, without heap and
  references, and the proof that every operation of \<^verbatim>\<open>Retry_Queue\<close> implements it: adding a
  failed claim, dropping a job, firing what is due. The delays are bounded here as well.
\<close>

subsection \<open>The queue as a map from jobs to retry state\<close>

text \<open>
  What the queue promises, without heap or references: per job the number of failed
  attempts, the time of the first failure, and the time of the next attempt;
  \<^const>\<open>None\<close> there while an attempt is running.
\<close>

type_synonym retryState = "nat \<times> time \<times> time option"

definition rq_abs :: "retryQueue \<Rightarrow> jobKey \<rightharpoonup> retryState" where
  "rq_abs q k =
     map_option (\<lambda>r. (it_attempts (rq_mem q r), it_firstFailure (rq_mem q r),
       if r \<in> set (rq_heap q) then Some (it_nextAttempt (rq_mem q r)) else None)) (rq_index q k)"

lemma rq_abs_frame:
  assumes "rq_frame q q'" and "set (rq_heap q') = set (rq_heap q)"
  shows "rq_abs q' = rq_abs q"
  by (rule ext) (simp add: rq_abs_def rq_frameD [OF assms(1)] assms(2) cong: if_cong)

lemma rq_linked_index:
  assumes "rq_linked q" and "rq_index q k = Some r"
  shows "it_key (rq_mem q r) = k" and "r < rq_fresh q"
    and "0 \<le> it_index (rq_mem q r) \<longleftrightarrow> r \<in> set (rq_heap q)"
    and "r \<in> set (rq_heap q) \<Longrightarrow> nat (it_index (rq_mem q r)) < length (rq_heap q) \<and>
           rq_heap q ! nat (it_index (rq_mem q r)) = r"
proof -
  have inheap: "\<exists>i < length (rq_heap q). rq_heap q ! i = r \<and> it_index (rq_mem q r) = int i"
    if "r \<in> set (rq_heap q)" using that assms(1) unfolding rq_linked_def in_set_conv_nth by blast
  show "it_key (rq_mem q r) = k" "r < rq_fresh q"
    using assms unfolding rq_linked_def by auto
  show "0 \<le> it_index (rq_mem q r) \<longleftrightarrow> r \<in> set (rq_heap q)"
    using inheap assms unfolding rq_linked_def by force
  show "nat (it_index (rq_mem q r)) < length (rq_heap q) \<and> rq_heap q ! nat (it_index (rq_mem q r)) = r"
    if "r \<in> set (rq_heap q)" using inheap [OF that] by auto
qed

lemma rq_index_inj: "rq_linked q \<Longrightarrow> rq_index q k = Some r \<Longrightarrow> rq_index q k' = Some r \<Longrightarrow> k' = k"
  by (auto dest: rq_linked_index(1))

lemma set_mset_remove: "mset xs' = mset xs - {#x#} \<Longrightarrow> distinct xs \<Longrightarrow> set xs' = set xs - {x}"
  by (metis mset_remove1 set_mset_mset set_remove1_eq)

lemma heap_upto_frame:
  assumes "rq_heap q' = rq_heap q" and "\<And>r. r \<in> set (rq_heap q) \<Longrightarrow> it_nextAttempt (rq_mem q' r) = it_nextAttempt (rq_mem q r)"
  shows "rq_keys q' = rq_keys q"
  using assms by (simp add: rq_keys_def)

text \<open>Deleting an index entry whose item is out of the heap.\<close>

lemma del_index_wf:
  assumes "rq_wf q" and "rq_index q k = Some r" and "r \<notin> set (rq_heap q)"
  shows "rq_wf (q\<lparr>rq_index := (rq_index q)(k := None)\<rparr>)"
    and "rq_abs (q\<lparr>rq_index := (rq_index q)(k := None)\<rparr>) = (rq_abs q)(k := None)"
proof -
  have l: "rq_linked q" using assms(1) by (simp add: rq_wf_def)
  have "it_key (rq_mem q x) \<noteq> k" if "x \<in> set (rq_heap q)" for x
  proof
    assume "it_key (rq_mem q x) = k"
    then have "rq_index q k = Some x" using l that unfolding rq_linked_def by blast
    then show False using assms(2,3) that by simp
  qed
  then have "rq_linked (q\<lparr>rq_index := (rq_index q)(k := None)\<rparr>)"
    using l unfolding rq_linked_def by auto
  then show "rq_wf (q\<lparr>rq_index := (rq_index q)(k := None)\<rparr>)"
    using assms(1) by (simp add: rq_wf_def rq_keys_def)
  show "rq_abs (q\<lparr>rq_index := (rq_index q)(k := None)\<rparr>) = (rq_abs q)(k := None)"
    by (rule ext) (simp add: rq_abs_def cong: if_cong)
qed

lemma removeLocked_correct:
  assumes wf: "rq_wf q" and idx: "rq_index q k = Some r"
  shows "rq_wf (removeLocked q r)" and "rq_abs (removeLocked q r) = (rq_abs q)(k := None)"
    and "rq_cfg (removeLocked q r) = rq_cfg q"
proof -
  have l: "rq_linked q" using wf by (simp add: rq_wf_def)
  note li = rq_linked_index [OF l idx]
  define q1 where "q1 = (if 0 \<le> it_index (rq_mem q r)
      then snd (rq_heapRemove q (nat (it_index (rq_mem q r)))) else q)"
  have q1: "rq_wf q1 \<and> rq_frame q q1 \<and> set (rq_heap q1) = set (rq_heap q) - {r}"
  proof (cases "r \<in> set (rq_heap q)")
    case True
    then have b: "nat (it_index (rq_mem q r)) < length (rq_heap q)"
      and x: "rq_heap q ! nat (it_index (rq_mem q r)) = r" using li(4) by auto
    have "q1 = snd (rq_heapRemove q (nat (it_index (rq_mem q r))))"
      using True li(3) by (simp add: q1_def)
    then show ?thesis
      using heapRemove_correct [OF wf b x] rq_linked_distinct [OF l] by (auto dest: set_mset_remove)
  next
    case False
    then show ?thesis using wf li(3) by (auto simp: q1_def)
  qed
  note fr = rq_frameD [OF conjunct1 [OF conjunct2 [OF q1]]]
  have rm: "removeLocked q r = q1\<lparr>rq_index := (rq_index q1)(k := None)\<rparr>"
    using li(1) fr(4) [of r] by (simp add: removeLocked_def q1_def Let_def)
  have d: "rq_index q1 k = Some r" "r \<notin> set (rq_heap q1)" using idx fr(3) q1 by auto
  have w1: "rq_wf q1" using q1 by simp
  show "rq_wf (removeLocked q r)" unfolding rm by (rule del_index_wf(1) [OF w1 d])
  have "(rq_abs q1)(k := None) = (rq_abs q)(k := None)"
  proof (rule ext)
    fix k'
    show "((rq_abs q1)(k := None)) k' = ((rq_abs q)(k := None)) k'"
      using rq_index_inj [OF l idx] q1 by (cases "rq_index q k'") (auto simp: rq_abs_def fr)
  qed
  then show "rq_abs (removeLocked q r) = (rq_abs q)(k := None)"
    unfolding rm using del_index_wf(2) [OF w1 d] by simp
  show "rq_cfg (removeLocked q r) = rq_cfg q" unfolding rm by (simp add: fr)
qed

lemma Drop_correct:
  assumes "rq_wf q"
  shows "rq_wf (retryQueue_Drop q k)" and "rq_abs (retryQueue_Drop q k) = (rq_abs q)(k := None)"
proof -
  have n: "(rq_abs q)(k := None) = rq_abs q" if "rq_index q k = None"
    using that by (intro ext) (simp add: rq_abs_def)
  show "rq_wf (retryQueue_Drop q k)" and "rq_abs (retryQueue_Drop q k) = (rq_abs q)(k := None)"
    using removeLocked_correct [OF assms] assms n
    by (auto simp: retryQueue_Drop_def split: option.splits)
qed

text \<open>What one \<^verbatim>\<open>Add\<close> with a retryable error does to that map.\<close>

definition add_spec ::
  "RetryConfig \<Rightarrow> (jobKey \<rightharpoonup> retryState) \<Rightarrow> jobKey \<Rightarrow> errClass \<Rightarrow> time \<Rightarrow> time \<Rightarrow> draws \<Rightarrow> (jobKey \<rightharpoonup> retryState)" where
  "add_spec cfg a k class now now' dr =
     (let (n, first) = (case a k of Some (n, first, _) \<Rightarrow> (Suc n, first) | None \<Rightarrow> (1, now))
      in if now - first > rc_MaxAge cfg then a(k := None)
         else a(k \<mapsto> (n, first, Some (now + nextDelayLocked cfg n class now' dr))))"

lemma lookupOrNew_correct:
  assumes "rq_wf q" and "retryQueue_lookupOrNew q ev hdl now = (r, q1)"
  shows "rq_wf q1" "rq_index q1 (keyFor ev) = Some r" "rq_cfg q1 = rq_cfg q"
    "rq_abs q1 = (case rq_abs q (keyFor ev) of
       None \<Rightarrow> (rq_abs q)(keyFor ev \<mapsto> (0, now, None)) | Some _ \<Rightarrow> rq_abs q)"
proof -
  have l: "rq_linked q" using assms(1) by (simp add: rq_wf_def)
  have "rq_wf q1 \<and> rq_index q1 (keyFor ev) = Some r \<and> rq_cfg q1 = rq_cfg q \<and>
    rq_abs q1 = (case rq_abs q (keyFor ev) of
       None \<Rightarrow> (rq_abs q)(keyFor ev \<mapsto> (0, now, None)) | Some _ \<Rightarrow> rq_abs q)"
  proof (cases "rq_index q (keyFor ev)")
    case (Some r')
    then show ?thesis using assms by (simp add: retryQueue_lookupOrNew_def Let_def rq_abs_def)
  next
    case None
    have notin: "rq_fresh q \<notin> set (rq_heap q)"
    proof
      assume x: "rq_fresh q \<in> set (rq_heap q)"
      then have "rq_index q (it_key (rq_mem q (rq_fresh q))) = Some (rq_fresh q)"
        using l unfolding rq_linked_def by blast
      then show False using rq_linked_index(2) [OF l] by blast
    qed
    have old: "r' \<noteq> rq_fresh q" if "rq_index q k = Some r'" for k r'
      using rq_linked_index(2) [OF l that] by auto
    have k: "it_key (rq_mem q x) \<noteq> keyFor ev" if "x \<in> set (rq_heap q)" for x
    proof
      assume e: "it_key (rq_mem q x) = keyFor ev"
      have "rq_index q (it_key (rq_mem q x)) = Some x" using l that unfolding rq_linked_def by blast
      then show False using e None by simp
    qed
    have q1: "r = rq_fresh q" "q1 = q\<lparr>rq_mem := (rq_mem q)(rq_fresh q :=
                   \<lparr>it_key = keyFor ev, it_event = ev, it_handler = hdl, it_attempts = 0,
                    it_firstFailure = now, it_nextAttempt = 0, it_index = -1\<rparr>),
                rq_index := (rq_index q)(keyFor ev \<mapsto> rq_fresh q),
                rq_fresh := Suc (rq_fresh q)\<rparr>"
      using assms(2) None by (auto simp: retryQueue_lookupOrNew_def Let_def)
    have nh: "rq_heap q ! i \<noteq> rq_fresh q" if "i < length (rq_heap q)" for i
      using that notin by (metis nth_mem)
    have "rq_linked q1"
    proof -
      have m: "rq_mem q1 x = rq_mem q x" if "x \<noteq> rq_fresh q" for x using that by (simp add: q1)
      have h: "rq_heap q1 = rq_heap q" and ix: "rq_index q1 = (rq_index q)(keyFor ev \<mapsto> rq_fresh q)"
        and f: "rq_fresh q1 = Suc (rq_fresh q)"
        and new: "it_key (rq_mem q1 (rq_fresh q)) = keyFor ev" "it_index (rq_mem q1 (rq_fresh q)) = -1"
        by (simp_all add: q1)
      have "it_index (rq_mem q1 (rq_heap q ! i)) = int i" if "i < length (rq_heap q)" for i
        using that l nh [OF that] unfolding rq_linked_def by (simp add: m)
      moreover have "rq_index q1 (it_key (rq_mem q1 x)) = Some x" if x: "x \<in> set (rq_heap q)" for x
      proof -
        have "x \<noteq> rq_fresh q" using x notin by auto
        then show ?thesis using x k [OF x] l unfolding rq_linked_def by (simp add: m ix)
      qed
      moreover have "it_key (rq_mem q1 x) = k' \<and> x < rq_fresh q1 \<and>
          (x \<in> set (rq_heap q) \<or> it_index (rq_mem q1 x) = -1)" if x: "rq_index q1 k' = Some x" for k' x
      proof (cases "k' = keyFor ev")
        case True
        then show ?thesis using x new f by (simp add: ix)
      next
        case False
        then have "rq_index q k' = Some x" using x by (simp add: ix)
        then show ?thesis using old [of k' x] l f unfolding rq_linked_def by (simp add: m less_SucI)
      qed
      ultimately show ?thesis unfolding rq_linked_def h by blast
    qed
    moreover have "rq_keys q1 = rq_keys q"
      by (rule heap_upto_frame) (use notin in \<open>auto simp: q1\<close>)
    ultimately have "rq_wf q1" using assms(1) by (simp add: rq_wf_def q1)
    moreover have "rq_abs q1 = (rq_abs q)(keyFor ev \<mapsto> (0, now, None))"
      by (rule ext) (use old notin in \<open>auto simp: rq_abs_def q1 map_option_case split: option.splits\<close>)
    ultimately show ?thesis using None by (simp add: q1 rq_abs_def)
  qed
  then show "rq_wf q1" "rq_index q1 (keyFor ev) = Some r" "rq_cfg q1 = rq_cfg q"
    "rq_abs q1 = (case rq_abs q (keyFor ev) of
       None \<Rightarrow> (rq_abs q)(keyFor ev \<mapsto> (0, now, None)) | Some _ \<Rightarrow> rq_abs q)" by auto
qed

lemma bump_correct:
  assumes "rq_wf q" and "rq_index q k = Some r"
  shows "rq_wf (rq_bump q r)" "rq_index (rq_bump q r) = rq_index q" "rq_cfg (rq_bump q r) = rq_cfg q"
    "rq_abs (rq_bump q r) = (rq_abs q)(k := map_option (\<lambda>(n, f, t). (Suc n, f, t)) (rq_abs q k))"
proof -
  have m: "it_index (rq_mem (rq_bump q r) x) = it_index (rq_mem q x)"
      "it_key (rq_mem (rq_bump q r) x) = it_key (rq_mem q x)"
      "it_nextAttempt (rq_mem (rq_bump q r) x) = it_nextAttempt (rq_mem q x)"
      "it_firstFailure (rq_mem (rq_bump q r) x) = it_firstFailure (rq_mem q x)"
      "it_attempts (rq_mem (rq_bump q r) x) = (if x = r then Suc (it_attempts (rq_mem q x)) else it_attempts (rq_mem q x))"
    for x by (simp_all add: rq_bump_def)
  have o: "rq_heap (rq_bump q r) = rq_heap q" "rq_index (rq_bump q r) = rq_index q"
      "rq_fresh (rq_bump q r) = rq_fresh q" "rq_cfg (rq_bump q r) = rq_cfg q"
    by (simp_all add: rq_bump_def)
  have l: "rq_linked q" using assms(1) by (simp add: rq_wf_def)
  show "rq_index (rq_bump q r) = rq_index q" "rq_cfg (rq_bump q r) = rq_cfg q" by (rule o)+
  show "rq_wf (rq_bump q r)"
    using assms(1) by (simp add: rq_wf_def rq_linked_def rq_keys_def o m)
  show "rq_abs (rq_bump q r) = (rq_abs q)(k := map_option (\<lambda>(n, f, t). (Suc n, f, t)) (rq_abs q k))"
  proof (rule ext)
    fix k'
    show "rq_abs (rq_bump q r) k' = ((rq_abs q)(k := map_option (\<lambda>(n, f, t). (Suc n, f, t)) (rq_abs q k))) k'"
      using rq_index_inj [OF l assms(2), of k'] assms(2)
      by (cases "rq_index q k'") (auto simp: rq_abs_def o m)
  qed
qed

text \<open>Setting the next attempt and putting the item where it belongs in the heap.\<close>

lemma place_correct:
  fixes t :: time
  assumes wf: "rq_wf q" and idx: "rq_index q k = Some r"
  defines "q' \<equiv> rq_place (rq_setNext q r t) r"
  shows "rq_wf q'" "rq_index q' = rq_index q" "rq_cfg q' = rq_cfg q"
    "rq_abs q' = (rq_abs q)(k := map_option (\<lambda>(n, f, _). (n, f, Some t)) (rq_abs q k))"
proof -
  let ?q = "rq_setNext q r t"
  have m: "it_index (rq_mem ?q x) = it_index (rq_mem q x)" "it_key (rq_mem ?q x) = it_key (rq_mem q x)"
      "it_nextAttempt (rq_mem ?q x) = (if x = r then t else it_nextAttempt (rq_mem q x))"
      "it_firstFailure (rq_mem ?q x) = it_firstFailure (rq_mem q x)"
      "it_attempts (rq_mem ?q x) = it_attempts (rq_mem q x)"
    for x by (simp_all add: rq_setNext_def)
  have o: "rq_heap ?q = rq_heap q" "rq_index ?q = rq_index q" "rq_fresh ?q = rq_fresh q" "rq_cfg ?q = rq_cfg q"
    by (simp_all add: rq_setNext_def)
  have l: "rq_linked q" using wf by (simp add: rq_wf_def)
  have l1: "rq_linked ?q" using l by (simp add: rq_linked_def o m)
  note li = rq_linked_index [OF l idx]
  have c: "rq_wf q' \<and> rq_frame ?q q' \<and> set (rq_heap q') = insert r (set (rq_heap q))"
  proof (cases "r \<in> set (rq_heap q)")
    case False
    then have "rq_keys ?q = rq_keys q" by (intro heap_upto_frame) (auto simp: o m)
    then have "rq_wf ?q" using wf l1 by (simp add: rq_wf_def o)
    moreover have "q' = rq_heapPush ?q r" using False li(3) by (simp add: q'_def rq_place_def m)
    moreover have "rq_index ?q (it_key (rq_mem ?q r)) = Some r" "r \<notin> set (rq_heap ?q)"
      using idx li(1) False by (simp_all add: o m)
    ultimately have "rq_wf q'" "rq_frame ?q q'" "set_mset (mset (rq_heap q')) = set_mset (add_mset r (mset (rq_heap q)))"
      using heapPush_correct [of ?q r] by (simp_all add: o)
    then show ?thesis by simp
  next
    case True
    let ?i = "nat (it_index (rq_mem q r))"
    have i: "?i < length (rq_heap q)" "rq_heap q ! ?i = r" using li(4) [OF True] by auto
    have "rq_keys ?q = (rq_keys q)[?i := t]"
      unfolding rq_keys_def o
    proof (rule nth_equalityI)
      fix j assume "j < length (map (\<lambda>x. it_nextAttempt (rq_mem ?q x)) (rq_heap q))"
      then show "map (\<lambda>x. it_nextAttempt (rq_mem ?q x)) (rq_heap q) ! j =
          (map (\<lambda>x. it_nextAttempt (rq_mem q x)) (rq_heap q))[?i := t] ! j"
        using i rq_linked_distinct [OF l] by (auto simp: m nth_list_update nth_eq_iff_index_eq)
    qed simp
    then have "heap_but (rq_keys ?q) (length (rq_heap ?q)) ?i"
      using heap_upto_update [of "rq_keys q" "length (rq_heap q)" ?i t] wf i(1)
      by (simp add: rq_wf_def o rq_keys_def)
    moreover have "q' = rq_heapFix ?q ?i" using True li(3) by (simp add: q'_def rq_place_def m)
    ultimately have "rq_wf q'" "rq_frame ?q q'" "mset (rq_heap q') = mset (rq_heap q)"
      using heapFix_correct [of ?q ?i] l1 i(1) by (simp_all add: o)
    then show ?thesis using True mset_eq_setD [of "rq_heap q'" "rq_heap q"] by auto
  qed
  note fr = rq_frameD [OF conjunct1 [OF conjunct2 [OF c]]]
  show "rq_wf q'" "rq_index q' = rq_index q" "rq_cfg q' = rq_cfg q" using c by (simp_all add: fr o)
  show "rq_abs q' = (rq_abs q)(k := map_option (\<lambda>(n, f, _). (n, f, Some t)) (rq_abs q k))"
  proof (rule ext)
    fix k'
    have h: "set (rq_heap q') = insert r (set (rq_heap q))" using c by simp
    show "rq_abs q' k' = ((rq_abs q)(k := map_option (\<lambda>(n, f, _). (n, f, Some t)) (rq_abs q k))) k'"
    proof (cases "k' = k")
      case True
      then show ?thesis using idx by (simp add: rq_abs_def fr o m h)
    next
      case False
      then have "rq_index q k' \<noteq> Some r" using rq_index_inj [OF l idx, of k'] by blast
      with False show ?thesis by (cases "rq_index q k'") (simp_all add: rq_abs_def fr o m h)
    qed
  qed
qed

lemma signal_simps [simp]:
  "rq_abs (retryQueue_signal q) = rq_abs q" "rq_cfg (retryQueue_signal q) = rq_cfg q"
  "rq_wf (retryQueue_signal q) = rq_wf q"
  by (simp_all add: retryQueue_signal_def rq_abs_def rq_wf_def rq_linked_def rq_keys_def fun_eq_iff cong: if_cong)

lemma Add_correct:
  assumes wf: "rq_wf q" and en: "rc_Enabled (rq_cfg q)" and cls: "classifyErr err \<noteq> errNonRetryable"
  shows "rq_wf (retryQueue_Add q ev h err now now' dr)"
    and "rq_cfg (retryQueue_Add q ev h err now now' dr) = rq_cfg q"
    and "rq_abs (retryQueue_Add q ev h err now now' dr) =
         add_spec (rq_cfg q) (rq_abs q) (keyFor ev) (classifyErr err) now now' dr"
proof -
  obtain r q1 where new: "retryQueue_lookupOrNew q ev h now = (r, q1)" by fastforce
  note n = lookupOrNew_correct [OF wf new]
  define q2 where "q2 = rq_bump q1 r"
  note b = bump_correct [OF n(1,2), folded q2_def]
  have i2: "rq_index q2 (keyFor ev) = Some r" using b(2) n(2) by simp
  define q3 where "q3 = rq_place (rq_setNext q2 r
      (now + nextDelayLocked (rq_cfg q2) (it_attempts (rq_mem q2 r)) (classifyErr err) now' dr)) r"
  note p = place_correct [OF b(1) i2, where t = "now + nextDelayLocked (rq_cfg q2)
      (it_attempts (rq_mem q2 r)) (classifyErr err) now' dr", folded q3_def]
  note rm = removeLocked_correct [OF b(1) i2]
  have add: "retryQueue_Add q ev h err now now' dr =
      (if now - it_firstFailure (rq_mem q2 r) > rc_MaxAge (rq_cfg q2) then removeLocked q2 r
       else retryQueue_signal q3)"
    using en cls new by (simp add: retryQueue_Add_def Let_def q2_def q3_def)
  show "rq_wf (retryQueue_Add q ev h err now now' dr)" using add p(1) rm(1) by simp
  show "rq_cfg (retryQueue_Add q ev h err now now' dr) = rq_cfg q"
    using add p(3) rm(3) b(3) n(3) by simp
  define nf where "nf = (case rq_abs q (keyFor ev) of Some (n, first, _) \<Rightarrow> (Suc n, first) | None \<Rightarrow> (1, now))"
  have a2: "rq_abs q2 = (rq_abs q)(keyFor ev \<mapsto> (fst nf, snd nf,
      case rq_abs q (keyFor ev) of Some (_, _, s) \<Rightarrow> s | None \<Rightarrow> None))"
    using b(4) n(4) by (auto simp: nf_def fun_eq_iff split: option.splits)
  have att: "it_attempts (rq_mem q2 r) = fst nf" "it_firstFailure (rq_mem q2 r) = snd nf"
    using fun_cong [OF a2, of "keyFor ev"] i2 by (simp_all add: rq_abs_def)
  have c2: "rq_cfg q2 = rq_cfg q" using b(3) n(3) by simp
  show "rq_abs (retryQueue_Add q ev h err now now' dr) =
         add_spec (rq_cfg q) (rq_abs q) (keyFor ev) (classifyErr err) now now' dr"
    using add p(4) rm(2) a2
    by (simp add: add_spec_def nf_def [symmetric] att c2 split_beta)
qed

text \<open>A disabled queue and a non-retryable error leave the queue alone.\<close>

lemma Add_ignored:
  "\<not> rc_Enabled (rq_cfg q) \<or> classifyErr err = errNonRetryable \<Longrightarrow>
   retryQueue_Add q ev h err now now' dr = q"
  by (auto simp: retryQueue_Add_def Let_def)

lemma newRetryQueue_wf: "rq_wf (newRetryQueue cfg)"
  by (simp add: rq_wf_def rq_linked_def newRetryQueue_def heap_upto_def)

lemma Add_wf [wf_intros]: "rq_wf q \<Longrightarrow> rq_wf (retryQueue_Add q ev h err now now' dr)"
  using Add_correct(1) Add_ignored by metis

lemma Drop_wf [wf_intros]: "rq_wf q \<Longrightarrow> rq_wf (retryQueue_Drop q k)"
  by (rule Drop_correct(1))

lemma runOne_wf [wf_intros]: "rq_wf q \<Longrightarrow> rq_wf (runOne q r err now now' dr)"
  by (auto simp: runOne_def intro: wf_intros split: option.splits)

subsection \<open>Firing\<close>

lemma rq_head_least:
  assumes "rq_wf q" and "rq_heap q = x # xs" and "r \<in> set (rq_heap q)"
  shows "it_nextAttempt (rq_mem q x) \<le> it_nextAttempt (rq_mem q r)"
proof -
  obtain i where i: "i < length (rq_heap q)" "rq_heap q ! i = r" using assms(3) by (auto simp: in_set_conv_nth)
  have "rq_keys q ! 0 \<le> rq_keys q ! i"
    using heap_upto_root [of "rq_keys q" "length (rq_heap q)" i] assms(1) i by (simp add: rq_wf_def)
  moreover have "rq_keys q ! i = it_nextAttempt (rq_mem q r)" using i by (simp add: rq_keys_def)
  moreover have "rq_keys q ! 0 = it_nextAttempt (rq_mem q x)" using assms(2) by (simp add: rq_keys_def)
  ultimately show ?thesis by simp
qed

lemma fireDue_correct:
  assumes "rq_wf q" and "fireDue q now = (rs, q')"
  shows "rq_wf q' \<and> rq_frame q q' \<and> distinct rs \<and>
    sorted (map (\<lambda>r. it_nextAttempt (rq_mem q r)) rs) \<and>
    set rs = {r \<in> set (rq_heap q). it_nextAttempt (rq_mem q r) \<le> now} \<and>
    set (rq_heap q') = {r \<in> set (rq_heap q). now < it_nextAttempt (rq_mem q r)}"
  using assms
proof (induction "length (rq_heap q)" arbitrary: q rs rule: less_induct)
  case less
  show ?case
  proof (cases "rq_heap q")
    case Nil
    then show ?thesis using less.prems by (simp add: fireDue.simps [of q now])
  next
    case (Cons x xs)
    note least = rq_head_least [OF less.prems(1) Cons]
    show ?thesis
    proof (cases "now < it_nextAttempt (rq_mem q x)")
      case True
      then have "now < it_nextAttempt (rq_mem q r)" if "r \<in> set (rq_heap q)" for r
        using least [OF that] by linarith
      moreover have "rs = []" "q' = q" using less.prems(2) True Cons by (simp_all add: fireDue.simps [of q now])
      ultimately show ?thesis using less.prems(1) by force
    next
      case False
      note pop = heapPop_correct [OF less.prems(1) Cons]
      let ?q1 = "snd (rq_heapPop q)"
      obtain rs' where rs': "fireDue ?q1 now = (rs', q')" "rs = x # rs'"
        using less.prems(2) False Cons pop(1)
        by (auto simp: fireDue.simps [of q now] split_beta Let_def prod_eq_iff)
      have "length (rq_heap ?q1) < length (rq_heap q)" using pop(4) Cons by (metis length_Cons lessI mset_eq_length)
      note IH = less.hyps [OF this pop(2) rs'(1)]
      note fr = rq_frameD [OF pop(3)]
      have s1: "set (rq_heap ?q1) = set xs" using pop(4) by (rule mset_eq_setD)
      have dist: "x \<notin> set xs" using rq_linked_distinct [of q] less.prems(1) Cons by (simp add: rq_wf_def)
      have set': "set rs' = {r \<in> set xs. it_nextAttempt (rq_mem q r) \<le> now}"
        "set (rq_heap q') = {r \<in> set xs. now < it_nextAttempt (rq_mem q r)}"
        using IH s1 by (simp_all add: fr)
      then show ?thesis
        using IH False least Cons dist rs'(2) rq_frame_trans [OF pop(3)] by (auto simp: fr)
    qed
  qed
qed

subsection \<open>Delays\<close>

lemma trunc_rat_bounds:
  "0 \<le> x \<Longrightarrow> of_int (trunc_rat x) \<le> x" "0 \<le> x \<Longrightarrow> x - 1 < of_int (trunc_rat x)" "0 \<le> x \<Longrightarrow> 0 \<le> trunc_rat x"
  unfolding trunc_rat_def by (simp_all add: floor_less_iff less_floor_iff) linarith

text \<open>
  With the rounding the delay may leave the band of width \<open>fr\<close> around the schedule entry, by less
  than one part in \<open>2 ^ 50\<close>.
\<close>

lemma jittered_bounds:
  assumes "0 \<le> base" and "0 \<le> u" and "u < 1" and "0 \<le> fr" and "fr \<le> 1"
  shows "0 \<le> jittered base fr u"
    and "(of_int base * (1 - fr) :: rat) - of_int base / 2 ^ 50 - 1 < of_int (jittered base fr u)"
    and "of_int (jittered base fr u) \<le> (of_int base * (1 + fr) + of_int base / 2 ^ 50 :: rat)"
proof -
  let ?d = "1 / 2 ^ 53 :: rat"
  define b where "b = (of_int base :: rat)"
  define c where "c = fl64 b"
  define span where "span = fl64 (c * fr)"
  define v where "v = fl64s (fl64 (u * 2) - 1)"
  define off where "off = fl64s (v * span)"
  define x where "x = fl64 (c + off)"
  have b: "0 \<le> b" using assms(1) by (simp add: b_def)
  have c: "0 \<le> c" "b * (1 - ?d) \<le> c" "c \<le> b * (1 + ?d)"
    using fl64_ge_0 [OF b] fl64_le_0 [OF b] by (simp_all add: c_def)
  have cf: "0 \<le> c * fr" "c * fr \<le> c" using c(1) assms(4,5) mult_left_mono [of fr 1 c] by simp_all
  have s: "0 \<le> span" "span \<le> c" "span \<le> c * fr * (1 + ?d)"
    using fl64_mono [OF cf(2)] fl64_le_0 [OF cf(1)] by (simp_all add: span_def c_def)
  have "fl64 (u * 2) \<le> fl64 2" using assms(3) by (intro fl64_mono) simp
  also have "fl64 2 = 2" using fl64_exact [of 2 0] by (simp add: pow2_def)
  finally have v: "- 1 \<le> v" "v \<le> 1"
    using fl64s_mono [of "- 1" "fl64 (u * 2) - 1"] fl64s_mono [of "fl64 (u * 2) - 1" 1] by (simp_all add: v_def)
  have sp: "fl64 span = span" by (simp add: span_def)
  have "- span \<le> v * span" "v * span \<le> span" using mult_right_mono [OF v(1) s(1)] mult_right_mono [OF v(2) s(1)] by simp_all
  then have "fl64s (- span) \<le> off" "off \<le> fl64s span" unfolding off_def by (blast intro: fl64s_mono)+
  then have off: "- span \<le> off" "off \<le> span" using s(1) sp by (auto simp: fl64s_def split: if_splits)
  have co: "0 \<le> c + off" using off(1) s(2) by linarith
  have x: "0 \<le> x" "x \<le> (c + off) * (1 + ?d)" "(c + off) * (1 - ?d) \<le> x"
    using fl64_le_0 [OF co] fl64_ge_0 [OF co] by (simp_all add: x_def)
  have j: "jittered base fr u = (if fr \<le> 0 then base else trunc_rat x)"
    using trunc_rat_bounds(3) [OF x(1)] c(1) cf(1) co assms(2) b
    by (simp add: jittered_def Let_def x_def off_def v_def span_def c_def b_def)
  have bf: "0 \<le> b * fr" "b * fr \<le> b" using b assms(4,5) mult_left_mono [of fr 1 b] by simp_all
  have cfb: "c * fr \<le> b * fr * (1 + ?d)" using mult_right_mono [OF c(3) assms(4)] by (simp add: algebra_simps)
  have hi: "x \<le> b * (1 + fr) + b / 2 ^ 50"
  proof -
    have "span \<le> b * fr * (1 + ?d) * (1 + ?d)"
      using order_trans [OF s(3) mult_right_mono [OF cfb, of "1 + ?d"]] by simp
    then have "c + off \<le> b * (1 + ?d) + b * fr * (1 + ?d) * (1 + ?d)" using c(3) off(2) by linarith
    then have "(c + off) * (1 + ?d) \<le> (b * (1 + ?d) + b * fr * (1 + ?d) * (1 + ?d)) * (1 + ?d)"
      by (rule mult_right_mono) simp
    with x(2) have "x \<le> (b * (1 + ?d) + b * fr * (1 + ?d) * (1 + ?d)) * (1 + ?d)" by (rule order_trans)
    then show ?thesis using bf b by (simp add: algebra_simps)
  qed
  have lo: "b * (1 - fr) - b / 2 ^ 50 \<le> x"
  proof -
    have "span \<le> c * fr + c * ?d" using s(3) cf by (simp add: algebra_simps)
    then have "c + off \<ge> c - c * fr - c * ?d" using off(1) by linarith
    moreover have "c * fr \<le> b * fr + b * fr * ?d" using cfb by (simp add: algebra_simps)
    moreover have "b * fr * ?d \<le> b * ?d" using bf by simp
    moreover have "c * ?d \<le> b * ?d * (1 + ?d)" using c(3) by (simp add: algebra_simps)
    ultimately have "c + off \<ge> b - b * fr - 4 * (b * ?d)" using c(2) b by (simp add: algebra_simps)
    moreover have "(c + off) * ?d \<le> 3 * b * ?d"
      using off(2) s(2) c(3) b by simp
    ultimately show ?thesis using x(3) b by (simp add: algebra_simps)
  qed
  have f0: "b * (1 - fr) - b / 2 ^ 50 \<le> b" "b \<le> b * (1 + fr) + b / 2 ^ 50"
    using bf b by (simp_all add: algebra_simps)
  show "0 \<le> jittered base fr u" using trunc_rat_bounds(3) [OF x(1)] assms(1) j by simp
  show "of_int base * (1 - fr) - of_int base / 2 ^ 50 - 1 < (of_int (jittered base fr u) :: rat)"
    unfolding b_def [symmetric] using trunc_rat_bounds(2) [OF x(1)] lo f0(1) unfolding j by (auto simp: b_def)
  show "(of_int (jittered base fr u) :: rat) \<le> of_int base * (1 + fr) + of_int base / 2 ^ 50"
    unfolding b_def [symmetric] using trunc_rat_bounds(1) [OF x(1)] hi f0(2) unfolding j by (auto simp: b_def)
qed

end
