(* ===== verification/Slots.thy ===== *)
theory Slots
  imports Prelude
begin

text \<open>
  \<^verbatim>\<open>pkg/scheduler/slots.go\<close>: concurrency slots and the registry of abandoned macOS virtual
  machines. A pool of slots is a buffered channel; a \<^verbatim>\<open>slotToken\<close> is a one-shot handle on one
  of its entries. What needs the whole scheduler (\<^verbatim>\<open>trackedInPool\<close>, \<^verbatim>\<open>SlotUsage\<close>) is in
  \<^verbatim>\<open>Sched_State\<close>.
\<close>

subsection \<open>Pools and tokens\<close>

datatype pool = PoolLocal | PoolLinux | PoolMacOS

fun pool_name :: "pool \<Rightarrow> string" where
  "pool_name PoolLocal = ''local''"
| "pool_name PoolLinux = ''linux''"
| "pool_name PoolMacOS = ''macos''"

definition slotWaitLogAfter :: time where "slotWaitLogAfter = 30 * second"
definition slotWaitLogEvery :: time where "slotWaitLogEvery = 5 * minute"
definition slotLeakSuspectAfter :: time where "slotLeakSuspectAfter = 15 * minute"
definition maxSlotWait :: time where "maxSlotWait = 6 * hour"

text \<open>\<open>tk_once\<close> is the state of the token's \<^verbatim>\<open>sync.Once\<close>: true once it has fired.\<close>

record slotToken =
  tk_pool :: pool
  tk_once :: bool
  tk_waited :: time

text \<open>
  \<^verbatim>\<open>release\<close> on the channel the token was taken from. The receive of a second call is
  skipped by the \<^verbatim>\<open>sync.Once\<close>; a first call would block on an empty channel
  (\<^const>\<open>None\<close>). A nil token is the absent token: releasing it does nothing.
\<close>

definition slotToken_release :: "chan \<Rightarrow> slotToken option \<Rightarrow> (chan \<times> slotToken option) option" where
  "slotToken_release sem t =
     (case t of
        None \<Rightarrow> Some (sem, None)
      | Some tk \<Rightarrow>
          if tk_once tk then Some (sem, Some tk)
          else map_option (\<lambda>sem'. (sem', Some (tk\<lparr>tk_once := True\<rparr>))) (chan_recv sem))"

definition token_holds :: "pool \<Rightarrow> slotToken option \<Rightarrow> bool" where
  "token_holds p t = (case t of None \<Rightarrow> False | Some tk \<Rightarrow> tk_pool tk = p \<and> \<not> tk_once tk)"

text \<open>
  \<^verbatim>\<open>acquireSlot\<close>. The first \<^verbatim>\<open>select\<close> has a default arm, so it never blocks; the second one
  waits in a loop for a free slot, the context, the give-up timer or the log timer. Which
  arm fires is an input; an arm that is not ready cannot be chosen (\<^const>\<open>None\<close>).
\<close>

datatype selectArm = ArmSend | ArmDone | ArmDefault | ArmGiveUp | ArmTimer

datatype acquireResult = AcqGot slotToken | AcqNil | AcqBlocked time

definition acquireSlot_fast :: "chan \<Rightarrow> pool \<Rightarrow> selectArm \<Rightarrow> time \<Rightarrow> (chan \<times> acquireResult) option" where
  "acquireSlot_fast sem p arm now =
     (case arm of
        ArmSend \<Rightarrow> map_option (\<lambda>sem'. (sem', AcqGot \<lparr>tk_pool = p, tk_once = False, tk_waited = 0\<rparr>)) (chan_send sem)
      | ArmDone \<Rightarrow> Some (sem, AcqNil)
      | ArmDefault \<Rightarrow> if chan_send sem = None then Some (sem, AcqBlocked now) else None
      | _ \<Rightarrow> None)"

definition acquireSlot_wait :: "chan \<Rightarrow> pool \<Rightarrow> time \<Rightarrow> selectArm \<Rightarrow> time \<Rightarrow> (chan \<times> acquireResult) option" where
  "acquireSlot_wait sem p start arm now =
     (case arm of
        ArmSend \<Rightarrow> map_option (\<lambda>sem'. (sem', AcqGot \<lparr>tk_pool = p, tk_once = False, tk_waited = now - start\<rparr>)) (chan_send sem)
      | ArmDone \<Rightarrow> Some (sem, AcqNil)
      | ArmGiveUp \<Rightarrow> if maxSlotWait \<le> now - start then Some (sem, AcqNil) else None
      | ArmTimer \<Rightarrow> if slotWaitLogAfter \<le> now - start then Some (sem, AcqBlocked start) else None
      | ArmDefault \<Rightarrow> None)"

datatype logLevel = LevelWarn | LevelError

definition slotWaitSeverity :: "time \<Rightarrow> nat \<Rightarrow> nat \<Rightarrow> logLevel \<times> string" where
  "slotWaitSeverity waited held poolTrackedJobs =
     (if 0 < held \<and> poolTrackedJobs = 0 \<and> slotLeakSuspectAfter \<le> waited
      then (LevelError, ''blocked on a concurrency slot that no tracked job accounts for '' @
            [CHR 0xE2, CHR 0x80, CHR 0x94] @ '' suspected slot leak'')
      else (LevelWarn, ''waiting for a free concurrency slot''))"

subsection \<open>Abandoned macOS VMs\<close>

definition defaultMacAbandonedVMCap :: int where "defaultMacAbandonedVMCap = 2"

record macVMRef =
  mr_jobID :: int
  mr_vmID :: string

record AbandonedMacVM =
  av_jobID :: int
  av_vmID :: string
  av_reason :: string
  av_heldFor :: time

record abandonedEntry =
  ae_ref :: macVMRef
  ae_reason :: string
  ae_since :: time

text \<open>The live map is an association list in insertion order; ids are never reused.\<close>

record abandonedMacVMs =
  ab_next :: nat
  ab_live :: "(nat \<times> abandonedEntry) list"

definition abandoned_charge :: "abandonedMacVMs \<Rightarrow> macVMRef \<Rightarrow> string \<Rightarrow> time \<Rightarrow> (nat \<times> nat) \<times> abandonedMacVMs" where
  "abandoned_charge a r reason now =
     (let vid = ab_next a + 1;
          live = ab_live a @ [(vid, \<lparr>ae_ref = r, ae_reason = reason, ae_since = now\<rparr>)]
      in ((vid, length live), \<lparr>ab_next = vid, ab_live = live\<rparr>))"

definition abandoned_discharge :: "abandonedMacVMs \<Rightarrow> nat \<Rightarrow> time \<Rightarrow> (time \<times> nat) \<times> abandonedMacVMs" where
  "abandoned_discharge a vid now =
     (let e = map_of (ab_live a) vid;
          live = filter (\<lambda>(i, _). i \<noteq> vid) (ab_live a)
      in ((case e of None \<Rightarrow> 0 | Some e \<Rightarrow> now - ae_since e, length live), a\<lparr>ab_live := live\<rparr>))"

definition abandoned_count :: "abandonedMacVMs \<Rightarrow> nat" where
  "abandoned_count a = length (ab_live a)"

definition abandoned_snapshot :: "abandonedMacVMs \<Rightarrow> time \<Rightarrow> AbandonedMacVM list" where
  "abandoned_snapshot a now =
     sort_key av_vmID
       (map (\<lambda>(_, e). \<lparr>av_jobID = mr_jobID (ae_ref e), av_vmID = mr_vmID (ae_ref e),
                       av_reason = ae_reason e, av_heldFor = now - ae_since e\<rparr>) (ab_live a))"

text \<open>The registry's invariant: its ids are distinct and were issued by the counter.\<close>

definition abandoned_wf :: "abandonedMacVMs \<Rightarrow> bool" where
  "abandoned_wf a \<longleftrightarrow> distinct (map fst (ab_live a)) \<and> (\<forall>i \<in> set (map fst (ab_live a)). i \<le> ab_next a)"

lemma abandoned_charge_wf [wf_intros]: "abandoned_wf a \<Longrightarrow> abandoned_wf (snd (abandoned_charge a r reason now))"
  by (auto simp: abandoned_wf_def abandoned_charge_def Let_def)

lemma distinct_map_fst_filter: "distinct (map fst xs) \<Longrightarrow> distinct (map fst (filter P xs))"
  by (induction xs) auto

lemma abandoned_discharge_wf [wf_intros]: "abandoned_wf a \<Longrightarrow> abandoned_wf (snd (abandoned_discharge a vid now))"
  by (auto simp: abandoned_wf_def abandoned_discharge_def Let_def distinct_map_fst_filter)

text \<open>A charge that is discharged leaves the registry's live set as it was.\<close>

lemma abandoned_charge_discharge:
  assumes "abandoned_wf a" and "abandoned_charge a r reason t0 = ((vid, n), a')"
  shows "ab_live (snd (abandoned_discharge a' vid t1)) = ab_live a"
    and "fst (fst (abandoned_discharge a' vid t1)) = t1 - t0"
proof -
  have a': "vid = ab_next a + 1" "ab_live a' = ab_live a @ [(vid, \<lparr>ae_ref = r, ae_reason = reason, ae_since = t0\<rparr>)]"
    using assms(2) by (auto simp: abandoned_charge_def Let_def)
  have fresh: "vid \<notin> fst ` set (ab_live a)" using assms(1) a'(1) by (auto simp: abandoned_wf_def)
  have "filter (\<lambda>(i, _). i \<noteq> vid) (ab_live a) = ab_live a"
    using fresh by (intro filter_True) force
  then show "ab_live (snd (abandoned_discharge a' vid t1)) = ab_live a"
    by (simp add: abandoned_discharge_def Let_def a'(2))
  have "map_of (ab_live a') vid = Some \<lparr>ae_ref = r, ae_reason = reason, ae_since = t0\<rparr>"
    using fresh by (simp add: a'(2) map_add_def map_of_eq_None_iff [THEN iffD2])
  then show "fst (fst (abandoned_discharge a' vid t1)) = t1 - t0"
    by (simp add: abandoned_discharge_def Let_def)
qed

subsection \<open>Waiting for an abandoned attempt to unwind\<close>

text \<open>
  \<^verbatim>\<open>awaitUnwind\<close>: the loop over its two signals, given the wake-ups in the order its selects
  take them. A signal that was received is set to nil and never fires again. \<^const>\<open>None\<close> is
  "still waiting".
\<close>

datatype wake = WakeStopped | WakeUnwound | WakeTimer

fun awaitUnwind :: "bool \<Rightarrow> bool \<Rightarrow> wake list \<Rightarrow> bool option" where
  "awaitUnwind False False ws = Some True"
| "awaitUnwind st un [] = None"
| "awaitUnwind st un (WakeStopped # ws) = awaitUnwind False un ws"
| "awaitUnwind st un (WakeUnwound # ws) = awaitUnwind st False ws"
| "awaitUnwind st un (WakeTimer # ws) = Some False"

lemma awaitUnwind_returns: "WakeTimer \<in> set ws \<Longrightarrow> awaitUnwind st un ws \<noteq> None"
  by (induction st un ws rule: awaitUnwind.induct) auto

lemma awaitUnwind_True:
  "awaitUnwind st un ws = Some True \<longleftrightarrow>
     (st \<longrightarrow> WakeStopped \<in> set (takeWhile (\<lambda>w. w \<noteq> WakeTimer) ws)) \<and>
     (un \<longrightarrow> WakeUnwound \<in> set (takeWhile (\<lambda>w. w \<noteq> WakeTimer) ws))"
  by (induction st un ws rule: awaitUnwind.induct) auto

subsection \<open>Facts about tokens\<close>

lemma release_SomeD:
  assumes "slotToken_release sem t = Some (sem', t')"
  shows "ch_cap sem' = ch_cap sem"
    and "ch_len sem' + (if \<exists>p. token_holds p t then 1 else 0) = ch_len sem"
    and "\<not> token_holds p t'"
  using assms
  by (auto simp: slotToken_release_def token_holds_def split: option.splits if_splits)

lemma release_idem:
  assumes "slotToken_release sem t = Some (sem', t')"
  shows "slotToken_release sem' t' = Some (sem', t')"
  using assms by (auto simp: slotToken_release_def split: option.splits if_splits)

lemma release_enabled:
  assumes "token_holds p t \<Longrightarrow> 0 < ch_len sem" and "\<And>tk. t = Some tk \<Longrightarrow> tk_pool tk = p"
  shows "slotToken_release sem t \<noteq> None"
  using assms by (auto simp: slotToken_release_def token_holds_def chan_recv_def split: option.splits)

end
