(* ===== verification/Sched_State.thy ===== *)
theory Sched_State
  imports Retry_Spec Slots "HOL-Library.AList_Mapping"
begin

text \<open>
  The scheduler's state (\<^verbatim>\<open>type Scheduler\<close> of \<^verbatim>\<open>pkg/scheduler/scheduler.go\<close>), its
  construction and the operations every handler shares: job keys and label classes,
  platform and label checks, image resolution, tracking of running jobs, cordon, slot
  accounting, the dispatch gate's locked section and the retry hook.

  A Go map is a partial function, except \<^verbatim>\<open>running\<close>, whose size is read and which is a mapping; \<^verbatim>\<open>attempts\<close>, whose missing entries read as zero, is total.
  \<^verbatim>\<open>GOOS\<close> and \<^verbatim>\<open>GOARCH\<close>, fixed when the daemon is built, are fields of the configuration.
\<close>

subsection \<open>Configuration\<close>

record Config =
  cfg_GOOS :: string
  cfg_GOARCH :: string
  cfg_NumCPU :: int
  cfg_LinuxDispatcher :: bool
  cfg_LinuxJobsDisabled :: bool
  cfg_MacOSVMConfig :: "int option"
  cfg_Artifacts :: bool
  cfg_DataDir :: string
  cfg_MaxConcurrent :: int
  cfg_MaxMacOSVMs :: int
  cfg_Labels :: "string list"
  cfg_JobTimeout :: time
  cfg_ShutdownTimeout :: time
  cfg_MacOSProvisionTimeout :: time
  cfg_Retry :: RetryConfig
  cfg_OrphanEnabled :: bool
  cfg_OrphanGrace :: time
  cfg_RunnerImageForRepo :: "(string \<Rightarrow> string \<Rightarrow> string) option"
  cfg_ActionsCache :: bool

definition seenTTL :: time where "seenTTL = 10 * minute"
definition maxProvisionAttempts :: nat where "maxProvisionAttempts = 5"
definition defaultOrphanGrace :: time where "defaultOrphanGrace = 10 * minute"
definition defaultMacOSProvisionTimeout :: time where "defaultMacOSProvisionTimeout = 5 * minute"
definition macProvisionUnwindGrace :: time where "macProvisionUnwindGrace = 30 * second"
definition macTeardownGrace :: time where "macTeardownGrace = 30 * second"

subsection \<open>Running jobs and runner bindings\<close>

text \<open>
  \<^verbatim>\<open>runningJob\<close>. The environment is named by its container ID; the VM handle is a flag, its
  identity is \<^verbatim>\<open>macVMID\<close>; the cancel function is the context of this runner.
\<close>

record runningJob =
  rj_env :: "string option"
  rj_provider :: "provider option"
  rj_claim :: "Claim option"
  rj_repo :: string
  rj_image :: string
  rj_artifactsDir :: string
  rj_dispatched :: string
  rj_macosVM :: bool
  rj_macVMID :: string
  rj_startedAt :: time

definition runnerName :: "runningJob \<Rightarrow> string" where
  "runnerName rj =
     (if rj_dispatched rj \<noteq> [] then rj_dispatched rj
      else case rj_claim rj of Some c \<Rightarrow> cl_runnerName c | None \<Rightarrow> [])"

definition macRef :: "runningJob \<Rightarrow> jobKey \<Rightarrow> macVMRef" where
  "macRef rj key = \<lparr>mr_jobID = jk_jobID key, mr_vmID = rj_macVMID rj\<rparr>"

text \<open>
  \<^verbatim>\<open>runnerBinding\<close>. The code compares bindings by pointer (\<^verbatim>\<open>cur != rb\<close>); \<open>rb_addr\<close> is that
  address, fresh for every allocation.
\<close>

record runnerBinding =
  rb_addr :: nat
  rb_intentKey :: jobKey
  rb_boundKey :: jobKey
  rb_bound :: bool
  rb_dispatchedAt :: time
  rb_observable :: bool
  rb_labelSet :: string

record scheduler =
  s_cfg :: Config
  s_running :: "(jobKey, runningJob) mapping"
  s_seen :: "jobKey \<rightharpoonup> time"
  s_started :: "jobKey \<rightharpoonup> time"
  s_pending :: "jobKey set"
  s_attempts :: "jobKey \<Rightarrow> nat"
  s_jobLabels :: "jobKey \<rightharpoonup> string"
  s_runners :: "string \<rightharpoonup> runnerBinding"
  s_nextAddr :: nat
  s_webhookMode :: bool
  s_draining :: bool
  s_sem :: chan
  s_linuxSem :: chan
  s_macSem :: chan
  s_retry :: "retryQueue option"
  s_macAbandoned :: abandonedMacVMs
  s_macAbandonedCap :: int
  s_failureCounts :: "string \<Rightarrow> nat"

abbreviation running_of :: "scheduler \<Rightarrow> jobKey \<Rightarrow> runningJob option" where
  "running_of s \<equiv> Mapping.lookup (s_running s)"

definition zeroKey :: jobKey where
  "zeroKey = \<lparr>jk_provider = [], jk_jobID = 0\<rparr>"

subsection \<open>Labels\<close>

definition labelSetKey :: "string list \<Rightarrow> string" where
  "labelSetKey labels =
     (let norm = filter (\<lambda>l. l \<noteq> []) (map (\<lambda>l. to_lower (trim_space l)) labels);
          uniq = remdups_adj (sort norm)
      in str_join [CHR 0x1F] uniq)"

definition osLabelOK :: "Config \<Rightarrow> string \<Rightarrow> bool \<Rightarrow> bool" where
  "osLabelOK cfg label ok =
     (let l = to_lower label
      in if l = ''linux'' then
           (cfg_GOOS cfg = ''linux'' \<or> cfg_GOOS cfg = ''darwin'' \<or> cfg_LinuxDispatcher cfg) \<and>
           \<not> cfg_LinuxJobsDisabled cfg
         else if l = ''windows'' then cfg_GOOS cfg = ''windows''
         else if l = ''macos'' \<or> l = ''macosx'' then
           cfg_GOOS cfg = ''darwin'' \<and> cfg_MacOSVMConfig cfg \<noteq> None
         else ok)"

definition archLabelOK :: "Config \<Rightarrow> string \<Rightarrow> bool" where
  "archLabelOK cfg label =
     (let l = to_lower label
      in if l = ''x64'' \<or> l = ''amd64'' then cfg_GOARCH cfg = ''amd64''
         else if l = ''arm64'' \<or> l = ''aarch64'' then cfg_GOARCH cfg = ''arm64''
         else True)"

definition canHandleJob :: "Config \<Rightarrow> string list \<Rightarrow> bool" where
  "canHandleJob cfg labels =
     (fold (osLabelOK cfg) labels True \<and> list_all (archLabelOK cfg) labels)"

definition isLinuxJob :: "string list \<Rightarrow> bool" where
  "isLinuxJob labels = list_ex (\<lambda>l. to_lower l = ''linux'') labels"

definition isMacOSJob :: "string list \<Rightarrow> bool" where
  "isMacOSJob labels =
     list_ex (\<lambda>l. to_lower l = ''macos'' \<or> to_lower l = ''macosx'' \<or> has_prefix (to_lower l) ''macos-'') labels"

definition buildLabelsForOS :: "Config \<Rightarrow> string \<Rightarrow> string list \<Rightarrow> string list" where
  "buildLabelsForOS cfg targetOS extraLabels =
     [''self-hosted''] @
     (if targetOS = ''windows'' then [''windows'']
      else if targetOS = ''darwin'' then [''macos''] else [''linux'']) @
     (if cfg_GOARCH cfg = ''arm64'' then [''arm64''] else [''x64'']) @
     extraLabels"

text \<open>\<^verbatim>\<open>resolveImage\<close>; \<open>fetched\<close> is what the provider's \<^verbatim>\<open>FetchJobImage\<close> returned.\<close>

definition resolveImage :: "Config \<Rightarrow> JobEvent option \<Rightarrow> string \<Rightarrow> string \<Rightarrow> string" where
  "resolveImage cfg event os fetched =
     (case event of
        None \<Rightarrow> []
      | Some ev \<Rightarrow>
          (case ev_provider ev of
             None \<Rightarrow> []
           | Some p \<Rightarrow>
               if fetched \<noteq> [] then fetched
               else (case cfg_RunnerImageForRepo cfg of
                       Some f \<Rightarrow> if f (ev_repo ev) os \<noteq> [] then f (ev_repo ev) os
                                  else p_defaultImageFor p os
                     | None \<Rightarrow> p_defaultImageFor p os)))"

subsection \<open>Construction\<close>

definition New_macVMs :: "Config \<Rightarrow> int" where
  "New_macVMs cfg =
     (if cfg_MaxMacOSVMs cfg \<le> 0
      then let cpusPerVM = (case cfg_MacOSVMConfig cfg of Some c \<Rightarrow> if 0 < c then c else 4 | None \<Rightarrow> 4);
               n = cfg_NumCPU cfg div cpusPerVM - 1
           in if n < 1 then 1 else n
      else cfg_MaxMacOSVMs cfg)"

definition New :: "Config \<Rightarrow> scheduler" where
  "New cfg0 =
     (let cfg = (if cfg_MaxConcurrent cfg0 \<le> 0 then cfg0\<lparr>cfg_MaxConcurrent := 4\<rparr> else cfg0)
      in \<lparr>s_cfg = cfg, s_running = Mapping.empty, s_seen = Map.empty, s_started = Map.empty,
          s_pending = {}, s_attempts = (\<lambda>_. 0), s_jobLabels = Map.empty, s_runners = Map.empty,
          s_nextAddr = 0, s_webhookMode = False, s_draining = False,
          s_sem = make_chan (nat (cfg_MaxConcurrent cfg)),
          s_linuxSem = make_chan (nat (cfg_MaxConcurrent cfg)),
          s_macSem = make_chan (nat (New_macVMs cfg)),
          s_retry = (if rc_Enabled (cfg_Retry cfg) then Some (newRetryQueue (cfg_Retry cfg)) else None),
          s_macAbandoned = \<lparr>ab_next = 0, ab_live = []\<rparr>, s_macAbandonedCap = 0,
          s_failureCounts = (\<lambda>_. 0)\<rparr>)"

definition SetMacOSVMConfig :: "scheduler \<Rightarrow> int option \<Rightarrow> scheduler" where
  "SetMacOSVMConfig s c = s\<lparr>s_cfg := (s_cfg s)\<lparr>cfg_MacOSVMConfig := c\<rparr>\<rparr>"

subsection \<open>Per-repo backoff\<close>

definition backoffDuration :: "scheduler \<Rightarrow> string \<Rightarrow> time \<times> scheduler" where
  "backoffDuration s repo =
     (let n = s_failureCounts s repo + 1;
          d = 2 ^ (min n 6) * second
      in (if d > 60 * second then 60 * second else d,
          s\<lparr>s_failureCounts := (s_failureCounts s)(repo := n)\<rparr>))"

definition resetBackoff :: "scheduler \<Rightarrow> string \<Rightarrow> scheduler" where
  "resetBackoff s repo = s\<lparr>s_failureCounts := (s_failureCounts s)(repo := 0)\<rparr>"

subsection \<open>Tracking\<close>

definition trackRunning :: "scheduler \<Rightarrow> jobKey \<Rightarrow> runningJob \<Rightarrow> provider option \<Rightarrow> string \<Rightarrow> time \<Rightarrow> scheduler" where
  "trackRunning s key rj prov labelSet now =
     (let observable = (case Option.bind prov p_reportsRunnerNames of Some b \<Rightarrow> b | None \<Rightarrow> False);
          s1 = s\<lparr>s_running := Mapping.update key rj (s_running s)\<rparr>
      in if runnerName rj \<noteq> []
         then s1\<lparr>s_runners := (s_runners s1)(runnerName rj \<mapsto>
                   \<lparr>rb_addr = s_nextAddr s, rb_intentKey = key, rb_boundKey = zeroKey, rb_bound = False,
                    rb_dispatchedAt = now, rb_observable = observable, rb_labelSet = labelSet\<rparr>),
                 s_nextAddr := Suc (s_nextAddr s)\<rparr>
         else s1)"

definition untrackRunningLocked :: "scheduler \<Rightarrow> jobKey \<Rightarrow> runningJob \<Rightarrow> scheduler" where
  "untrackRunningLocked s key rj =
     (let s1 = s\<lparr>s_running := Mapping.delete key (s_running s)\<rparr>
      in if runnerName rj \<noteq> [] then s1\<lparr>s_runners := (s_runners s1)(runnerName rj := None)\<rparr> else s1)"

definition poolOf :: "runningJob \<Rightarrow> pool" where
  "poolOf rj =
     (if rj_macosVM rj then PoolMacOS
      else if rj_dispatched rj \<noteq> [] then PoolLinux
      else PoolLocal)"

definition trackedInPool :: "scheduler \<Rightarrow> pool \<Rightarrow> nat" where
  "trackedInPool s p = card (Set.filter (\<lambda>k. map_option poolOf (running_of s k) = Some p) (Mapping.keys (s_running s)))"

definition ActiveJobs :: "scheduler \<Rightarrow> nat" where
  "ActiveJobs s = Mapping.size (s_running s)"

definition Cordon :: "scheduler \<Rightarrow> nat \<times> scheduler" where
  "Cordon s = (Mapping.size (s_running s), s\<lparr>s_draining := True\<rparr>)"

definition Uncordon :: "scheduler \<Rightarrow> nat \<times> scheduler" where
  "Uncordon s = (Mapping.size (s_running s), s\<lparr>s_draining := False\<rparr>)"

definition isDraining :: "scheduler \<Rightarrow> bool" where
  "isDraining s = s_draining s"

subsection \<open>Slot accounting\<close>

fun semOf :: "scheduler \<Rightarrow> pool \<Rightarrow> chan" where
  "semOf s PoolLocal = s_sem s"
| "semOf s PoolLinux = s_linuxSem s"
| "semOf s PoolMacOS = s_macSem s"

fun setSem :: "scheduler \<Rightarrow> pool \<Rightarrow> chan \<Rightarrow> scheduler" where
  "setSem s PoolLocal c = s\<lparr>s_sem := c\<rparr>"
| "setSem s PoolLinux c = s\<lparr>s_linuxSem := c\<rparr>"
| "setSem s PoolMacOS c = s\<lparr>s_macSem := c\<rparr>"

record SlotStats =
  ss_pool :: string
  ss_held :: nat
  ss_capacity :: nat

definition SlotUsage :: "scheduler \<Rightarrow> SlotStats list" where
  "SlotUsage s =
     [\<lparr>ss_pool = ''local'', ss_held = ch_len (s_sem s), ss_capacity = ch_cap (s_sem s)\<rparr>,
      \<lparr>ss_pool = ''linux'', ss_held = ch_len (s_linuxSem s), ss_capacity = ch_cap (s_linuxSem s)\<rparr>,
      \<lparr>ss_pool = ''macos'', ss_held = ch_len (s_macSem s), ss_capacity = ch_cap (s_macSem s)\<rparr>]"

definition HeldSlots :: "scheduler \<Rightarrow> nat" where
  "HeldSlots s = fold (\<lambda>p total. total + ss_held p) (SlotUsage s) 0"

definition SlotCapacity :: "scheduler \<Rightarrow> nat" where
  "SlotCapacity s = fold (\<lambda>p total. total + ss_capacity p) (SlotUsage s) 0"

lemma semOf_setSem [simp]: "semOf (setSem s p c) p' = (if p' = p then c else semOf s p')"
  by (cases p; cases p') auto

definition abandonedMacVMCap :: "scheduler \<Rightarrow> int" where
  "abandonedMacVMCap s = (if 0 < s_macAbandonedCap s then s_macAbandonedCap s else defaultMacAbandonedVMCap)"

definition macPoolCordoned :: "scheduler \<Rightarrow> nat \<times> int \<times> bool" where
  "macPoolCordoned s =
     (let n = abandoned_count (s_macAbandoned s); limit = abandonedMacVMCap s
      in (n, limit, limit \<le> int n))"

text \<open>
  \<^verbatim>\<open>abandonVM\<close>; \<open>landed\<close> says whether the stop's channel was already closed. The goroutine
  that waits for the stop is the registered entry itself: \<open>dischargeVM\<close> is its body.
\<close>

definition abandonVM :: "scheduler \<Rightarrow> bool \<Rightarrow> macVMRef \<Rightarrow> string \<Rightarrow> time \<Rightarrow> scheduler" where
  "abandonVM s landed vmref reason now =
     (if landed then s
      else s\<lparr>s_macAbandoned := snd (abandoned_charge (s_macAbandoned s) vmref reason now)\<rparr>)"

definition dischargeVM :: "scheduler \<Rightarrow> nat \<Rightarrow> time \<Rightarrow> scheduler" where
  "dischargeVM s vid now = s\<lparr>s_macAbandoned := snd (abandoned_discharge (s_macAbandoned s) vid now)\<rparr>"

subsection \<open>The dispatch gate\<close>

datatype dispatchVerdict =
    dispatchAdmit
  | dispatchAbandonSatisfied
  | dispatchAbandonCordoned
  | dispatchAbandonGone

text \<open>
  \<^verbatim>\<open>admitDispatch\<close> up to its second unlock; \<^const>\<open>None\<close> means it goes on to ask the
  platform, which it does when the dispatch had to wait for its slot.
\<close>

definition admitDispatch_locked :: "scheduler \<Rightarrow> jobKey \<Rightarrow> time \<Rightarrow> dispatchVerdict option \<times> scheduler" where
  "admitDispatch_locked s key waited =
     (let s1 = s\<lparr>s_pending := s_pending s - {key}\<rparr>
      in if s_draining s1 then (Some dispatchAbandonCordoned, s1)
         else if s_started s1 key \<noteq> None \<and> s_webhookMode s1 then (Some dispatchAbandonSatisfied, s1)
         else if 0 < waited then (None, s1)
         else (Some dispatchAdmit, s1))"

text \<open>
  \<^verbatim>\<open>jobStillWanted\<close> once the provider has answered: \<open>answer = None\<close> is an API error, on which
  the check fails open, as it does for a provider that cannot answer.
\<close>

definition jobStillWanted :: "scheduler \<Rightarrow> JobEvent \<Rightarrow> bool option \<Rightarrow> time \<Rightarrow> bool \<times> scheduler" where
  "jobStillWanted s ev answer now =
     (if \<not> (case ev_provider ev of None \<Rightarrow> False | Some p \<Rightarrow> p_jobStateReporter p) then (True, s)
      else case answer of
             None \<Rightarrow> (True, s)
           | Some wanted \<Rightarrow>
               (wanted, if wanted then s else s\<lparr>s_started := (s_started s)(keyFor ev \<mapsto> now)\<rparr>))"

definition unsee :: "scheduler \<Rightarrow> jobKey \<Rightarrow> scheduler" where
  "unsee s key = s\<lparr>s_seen := (s_seen s)(key := None), s_pending := s_pending s - {key}\<rparr>"

subsection \<open>Claiming\<close>

definition errCordoned :: goerr where
  "errCordoned = (plain_err ''scheduler is cordoned; not claiming new jobs'')\<lparr>e_cordoned := True\<rparr>"

text \<open>\<^verbatim>\<open>isConflict\<close>; \<^const>\<open>None\<close> is the nil dereference of a response that is not there.\<close>

definition isConflict :: "goerr \<Rightarrow> bool option" where
  "isConflict e =
     (case e_ghResponse e of
        Some None \<Rightarrow> None
      | Some (Some code) \<Rightarrow> Some (code = 409)
      | None \<Rightarrow> Some (str_contains (e_msg e) ''409''))"

definition claimName :: "JobEvent \<Rightarrow> string \<Rightarrow> string" where
  "claimName ev sfx = ''ephemerd-'' @ providerName ev @ ''-'' @ ev_repo ev @ ''-'' @ sfx"

definition enqueueRetryIfEligible ::
  "scheduler \<Rightarrow> JobEvent \<Rightarrow> goerr \<Rightarrow> time \<Rightarrow> time \<Rightarrow> draws \<Rightarrow> scheduler" where
  "enqueueRetryIfEligible s ev err now now' dr =
     (case s_retry s of
        None \<Rightarrow> s
      | Some q \<Rightarrow>
          if s_draining s then s
          else s\<lparr>s_retry := Some (retryQueue_Add q ev SchedulerRetryHandler (Some err) now now' dr)\<rparr>)"

definition dropRetry :: "scheduler \<Rightarrow> jobKey \<Rightarrow> scheduler" where
  "dropRetry s key = (case s_retry s of None \<Rightarrow> s | Some q \<Rightarrow> s\<lparr>s_retry := Some (retryQueue_Drop q key)\<rparr>)"

subsection \<open>Webhook paths\<close>

definition webhookPathOf :: "provider list \<Rightarrow> provider \<Rightarrow> string" where
  "webhookPathOf all p =
     (let count = length (filter (\<lambda>x. p_webhook x \<and> p_name x = p_name p) all);
          base = ''/webhook/'' @ p_name p
      in if 1 < count
         then (case p_owner p of Some ow \<Rightarrow> if ow \<noteq> [] then base @ ''/'' @ ow else base | None \<Rightarrow> base)
         else base)"

end
