(* ===== verification/Dispatch.thy ===== *)
theory Dispatch
  imports Sched_State
begin

text \<open>
  The dispatch pipeline of \<^verbatim>\<open>pkg/scheduler/scheduler.go\<close>: \<^verbatim>\<open>handleQueued\<close>, the three
  provisioning paths (\<^verbatim>\<open>handleLinuxJob\<close>, \<^verbatim>\<open>handleMacOSJob\<close>, \<^verbatim>\<open>handleLocalJob\<close>), the
  goroutine each of them leaves behind to wait for its runner, \<^verbatim>\<open>claimJob\<close>,
  \<^verbatim>\<open>retryHandler\<close> and \<^verbatim>\<open>reprovisionIfStranded\<close>.

  Every handler runs as a goroutine and blocks in the middle (on a slot, on a platform
  call, on a virtual machine), so a handler is a thread with a program counter and a step
  is what it does between two points at which another goroutine may run: one section under
  \<^verbatim>\<open>s.mu\<close>, one call out of the program, or one cleanup action. The tails of the handlers,
  straight-line cleanup code, are lists of cleanup actions in source order.

  A step answers \<^const>\<open>None\<close> when it is blocked.
\<close>

subsection \<open>Threads\<close>

datatype microop =
    MUnsee
  | MClearPending
  | MRelease
  | MCancel
  | MEnqueueRetry goerr
  | MReleaseJob Claim
  | MCleanup string
  | MStopVM macVMRef
  | MForgetCache string
  | MDestroyEnv string
  | MDispatchDestroy string
  | MReprovision
  | MPanic

datatype pc =
    PRetry
  | PReprovAsk
  | PCheck
  | PDedup
  | PRoute
  | PMacGate
  | PAcquire
  | PWaitSlot time
  | PAdmit
  | PAskWanted
  | PMacRecheck
  | PImage
  | PClaimGate
  | PClaim nat
  | PCreate
  | PCreateEnv nat
  | PBackoff nat goerr
  | PWriteJIT
  | PStart
  | PWaitRunner
  | PUnwind goerr
  | PTrack
  | PWaitJob
  | PUntrack
  | PSeq "microop list"
  | PReturn
  | PRunOne
  | PDone
  | PPanicked

text \<open>
  \<open>th_slot\<close> is the slot this goroutine is responsible for: the handler's hand-off to the
  wait-goroutine (\<^verbatim>\<open>handedOff = true\<close>, after which its deferred release does nothing) moves
  it there. \<open>th_retry\<close> is the retry item this dispatch was fired for, the presence of
  \<^verbatim>\<open>retryAttemptCtxKey\<close> in its context; \<open>th_claimErr\<close> is the error cell that key points to.
\<close>

record thread =
  th_pc :: pc
  th_event :: JobEvent
  th_pool :: pool
  th_slot :: "slotToken option"
  th_retry :: "ref option"
  th_claimErr :: "goerr option"
  th_vmID :: string
  th_image :: string
  th_artifacts :: string
  th_claim :: Claim
  th_env :: string

definition nilClaim :: Claim where
  "nilClaim = \<lparr>cl_runnerID = 0, cl_runnerName = [], cl_repo = [], cl_runnerConfig = [], cl_env = [], cl_entrypoint = []\<rparr>"

definition new_thread :: "pc \<Rightarrow> JobEvent \<Rightarrow> ref option \<Rightarrow> thread" where
  "new_thread c ev r =
     \<lparr>th_pc = c, th_event = ev, th_pool = PoolLocal, th_slot = None, th_retry = r, th_claimErr = None,
      th_vmID = [], th_image = [], th_artifacts = [], th_claim = nilClaim, th_env = []\<rparr>"

text \<open>
  What the world answers to a step: clock readings, the arm a \<^verbatim>\<open>select\<close> takes, the result of
  the call the step makes, random draws. A step reads only the fields of its own call.
\<close>

datatype provisionWake = PwResult "goerr option" | PwDeadline | PwCtx goerr

record answer =
  a_now :: time
  a_later :: time
  a_arm :: selectArm
  a_wanted :: "bool option"
  a_fetched :: string
  a_extractErr :: bool
  a_suffix :: string
  a_claim :: "goerr + Claim"
  a_err :: "goerr option"
  a_env :: string
  a_cacheHealthy :: bool
  a_timer :: bool
  a_wake :: provisionWake
  a_wakes :: "wake list"
  a_stopped :: bool
  a_landed :: bool
  a_draws :: draws

text \<open>
  The trace: the calls out of the program, in the order they are made, and (\<open>AAdmit\<close>) the
  queued events that \<^verbatim>\<open>handleQueued\<close> lets through to a provisioning path.
\<close>

datatype action =
    AAdmit jobKey
  | AClaim jobKey string "string list"
  | ARegister jobKey Claim
  | AReleaseJob Claim
  | ACreate string
  | AWriteJIT string
  | AStartVM string
  | ADestroyEnv string
  | ADispatchDestroy string
  | AStopVM macVMRef
  | ACleanup string
  | ATrackCache string
  | AForgetCache string
  | ABindCache string string
  | ACancel string
  | ACancelJobs

type_synonym result = "(scheduler \<times> thread \<times> thread list \<times> action list) option"

definition goto :: "scheduler \<Rightarrow> thread \<Rightarrow> pc \<Rightarrow> result" where
  "goto s t c = Some (s, t\<lparr>th_pc := c\<rparr>, [], [])"

definition emit :: "action list \<Rightarrow> result \<Rightarrow> result" where
  "emit as res = map_option (\<lambda>(s, t, ts, as'). (s, t, ts, as @ as')) res"

definition th_key :: "thread \<Rightarrow> jobKey" where
  "th_key t = keyFor (th_event t)"

definition th_ref :: "thread \<Rightarrow> macVMRef" where
  "th_ref t = \<lparr>mr_jobID = ev_jobID (th_event t), mr_vmID = th_vmID t\<rparr>"

subsection \<open>Entering the pipeline: \<^verbatim>\<open>handleQueued\<close>\<close>

text \<open>The locked section; the boolean says whether the event goes on to a provisioning path.\<close>

definition handleQueued_locked :: "scheduler \<Rightarrow> JobEvent \<Rightarrow> time \<Rightarrow> bool \<times> scheduler" where
  "handleQueued_locked s ev now =
     (let key = keyFor ev
      in if running_of s key \<noteq> None then (False, s)
         else if key \<in> s_pending s then (False, s)
         else if (case s_seen s key of Some t \<Rightarrow> now - t < seenTTL | None \<Rightarrow> False) then (False, s)
         else
           let s1 = s\<lparr>s_pending := insert key (s_pending s),
                      s_seen := (s_seen s)(key \<mapsto> now),
                      s_jobLabels := (s_jobLabels s)(key \<mapsto> labelSetKey (ev_labels ev))\<rparr>
           in if s_draining s1 then (False, s1\<lparr>s_pending := s_pending s1 - {key}\<rparr>)
              else
                let s2 = s1\<lparr>s_attempts := (s_attempts s1)(key := s_attempts s1 key + 1)\<rparr>
                in if maxProvisionAttempts < s_attempts s2 key
                   then (False, s2\<lparr>s_pending := s_pending s2 - {key}\<rparr>)
                   else (True, s2))"

text \<open>The per-attempt VM identity; its suffix (random, or the clock when that fails) is an answer.\<close>

definition macVMInstanceID :: "int \<Rightarrow> string \<Rightarrow> string" where
  "macVMInstanceID jobID sfx = int_to_dec jobID @ ''-'' @ sfx"

definition handleQueued_step :: "answer \<Rightarrow> scheduler \<Rightarrow> thread \<Rightarrow> result" where
  "handleQueued_step a s t =
     (let ev = th_event t
      in case th_pc t of
           PCheck \<Rightarrow>
             if ev_labels ev \<noteq> [] \<and> \<not> canHandleJob (s_cfg s) (ev_labels ev)
             then goto s t PReturn else goto s t PDedup
         | PDedup \<Rightarrow>
             (case handleQueued_locked s ev (a_now a) of
                (ok, s') \<Rightarrow> if ok then emit [AAdmit (keyFor ev)] (goto s' t PRoute) else goto s' t PReturn)
         | PRoute \<Rightarrow>
             if cfg_LinuxDispatcher (s_cfg s) \<and> isLinuxJob (ev_labels ev)
             then goto s (t\<lparr>th_pool := PoolLinux\<rparr>) PAcquire
             else if isMacOSJob (ev_labels ev)
             then (if cfg_MacOSVMConfig (s_cfg s) \<noteq> None
                   then goto s (t\<lparr>th_pool := PoolMacOS,
                                  th_vmID := macVMInstanceID (ev_jobID ev) (a_suffix a)\<rparr>) PMacGate
                   else goto s t (PSeq [MUnsee]))
             else goto s (t\<lparr>th_pool := PoolLocal\<rparr>) PAcquire
         | _ \<Rightarrow> None)"

subsection \<open>The slot and the gate in front of every claim\<close>

definition acquire_done :: "scheduler \<Rightarrow> thread \<Rightarrow> (chan \<times> acquireResult) option \<Rightarrow> result" where
  "acquire_done s t res =
     (case res of
        None \<Rightarrow> None
      | Some (sem, AcqGot tk) \<Rightarrow> goto (setSem s (th_pool t) sem) (t\<lparr>th_slot := Some tk\<rparr>) PAdmit
      | Some (sem, AcqNil) \<Rightarrow> goto (setSem s (th_pool t) sem) t (PSeq [MUnsee])
      | Some (sem, AcqBlocked start) \<Rightarrow> goto (setSem s (th_pool t) sem) t (PWaitSlot start))"

definition admitted :: "thread \<Rightarrow> pc" where
  "admitted t = (if th_pool t = PoolMacOS then PMacRecheck else PImage)"

definition gate_step :: "answer \<Rightarrow> scheduler \<Rightarrow> thread \<Rightarrow> result" where
  "gate_step a s t =
     (let p = th_pool t
      in case th_pc t of
           PAcquire \<Rightarrow> acquire_done s t (acquireSlot_fast (semOf s p) p (a_arm a) (a_now a))
         | PWaitSlot start \<Rightarrow> acquire_done s t (acquireSlot_wait (semOf s p) p start (a_arm a) (a_now a))
         | PAdmit \<Rightarrow>
             (case admitDispatch_locked s (th_key t) (case th_slot t of Some tk \<Rightarrow> tk_waited tk | None \<Rightarrow> 0) of
                (Some v, s') \<Rightarrow> goto s' t (if v = dispatchAdmit then admitted t else PSeq [MRelease])
              | (None, s') \<Rightarrow> goto s' t PAskWanted)
         | PAskWanted \<Rightarrow>
             (case jobStillWanted s (th_event t) (a_wanted a) (a_now a) of
                (wanted, s') \<Rightarrow> goto s' t (if wanted then admitted t else PSeq [MRelease]))
         | _ \<Rightarrow> None)"

text \<open>
  \<^verbatim>\<open>handleMacOSJob\<close> refuses a dispatch twice when too many macOS VMs have been abandoned:
  before it queues for a slot and again once it has one.
\<close>

definition mac_gate_step :: "answer \<Rightarrow> scheduler \<Rightarrow> thread \<Rightarrow> result" where
  "mac_gate_step a s t =
     (case th_pc t of
        PMacGate \<Rightarrow>
          (case macPoolCordoned s of (n, limit, cordoned) \<Rightarrow>
             goto s t (if cordoned then PSeq [MClearPending] else PAcquire))
      | PMacRecheck \<Rightarrow>
          (case macPoolCordoned s of (n, limit, cordoned) \<Rightarrow>
             goto s t (if cordoned then PSeq [MRelease, MClearPending] else PImage))
      | _ \<Rightarrow> None)"

subsection \<open>Image, artifacts and labels\<close>

definition ArtifactsDir :: "string \<Rightarrow> string \<Rightarrow> string" where
  "ArtifactsDir dataDir jobID = dataDir @ ''/artifacts/'' @ jobID"

definition jobOS :: "Config \<Rightarrow> pool \<Rightarrow> string list \<Rightarrow> string" where
  "jobOS cfg p labels =
     (case p of
        PoolLinux \<Rightarrow> ''linux''
      | PoolMacOS \<Rightarrow> ''darwin''
      | PoolLocal \<Rightarrow>
          if isMacOSJob labels then ''macos''
          else if \<not> isLinuxJob labels \<and> cfg_GOOS cfg = ''windows'' then ''windows''
          else ''linux'')"

definition targetOS :: "Config \<Rightarrow> pool \<Rightarrow> string list \<Rightarrow> string" where
  "targetOS cfg p labels =
     (case p of
        PoolLinux \<Rightarrow> ''linux''
      | PoolMacOS \<Rightarrow> ''darwin''
      | PoolLocal \<Rightarrow>
          if isLinuxJob labels then ''linux''
          else if isMacOSJob labels then ''darwin''
          else cfg_GOOS cfg)"

definition extracts :: "Config \<Rightarrow> pool \<Rightarrow> string \<Rightarrow> bool" where
  "extracts cfg p img =
     (img \<noteq> [] \<and> cfg_Artifacts cfg \<and>
      (case p of PoolLinux \<Rightarrow> False | PoolMacOS \<Rightarrow> True | PoolLocal \<Rightarrow> cfg_GOOS cfg = ''darwin''))"

definition image_step :: "answer \<Rightarrow> scheduler \<Rightarrow> thread \<Rightarrow> result" where
  "image_step a s t =
     (let cfg = s_cfg s; ev = th_event t; p = th_pool t;
          img = resolveImage cfg (Some ev) (jobOS cfg p (ev_labels ev)) (a_fetched a);
          dir = ArtifactsDir (cfg_DataDir cfg) (if p = PoolMacOS then th_vmID t else int_to_dec (ev_jobID ev));
          t1 = t\<lparr>th_image := img, th_artifacts := []\<rparr>
      in if \<not> extracts cfg p img then goto s t1 PClaimGate
         else if a_extractErr a then emit [ACleanup dir] (goto s t1 PClaimGate)
         else goto s (t1\<lparr>th_artifacts := dir\<rparr>) PClaimGate)"

subsection \<open>Claiming\<close>

definition cleanup_artifacts :: "string \<Rightarrow> microop list" where
  "cleanup_artifacts dir = (if dir \<noteq> [] then [MCleanup dir] else [])"

definition maxNameRetries :: nat where "maxNameRetries = 3"

definition claim_failed :: "thread \<Rightarrow> goerr \<Rightarrow> microop list" where
  "claim_failed t e =
     (if th_pool t = PoolLinux then [] else cleanup_artifacts (th_artifacts t)) @
     [MUnsee, MRelease, MEnqueueRetry e]"

definition created_pc :: "pool \<Rightarrow> pc" where
  "created_pc p = (if p = PoolLocal then PCreateEnv 0 else PCreate)"

text \<open>
  \<^verbatim>\<open>actionsCacheFor\<close>: whether the runner of a local job is announced to the LAN Actions cache;
  \<open>healthy\<close> is what the cache reports of itself.
\<close>

definition actionsCacheFor :: "Config \<Rightarrow> provider \<Rightarrow> string \<Rightarrow> bool \<Rightarrow> action list" where
  "actionsCacheFor cfg p runner healthy =
     (if \<not> cfg_ActionsCache cfg \<or> cfg_GOOS cfg \<noteq> ''linux'' \<or> \<not> healthy then []
      else if \<not> p_cacheScoper p then []
      else [ATrackCache runner])"

definition forgetActionsCache :: "Config \<Rightarrow> string \<Rightarrow> action list" where
  "forgetActionsCache cfg runner =
     (if cfg_ActionsCache cfg \<and> runner \<noteq> [] then [AForgetCache runner] else [])"

text \<open>\<^verbatim>\<open>claimJob\<close>: the cordon check, then one \<^verbatim>\<open>ClaimJob\<close> call per step.\<close>

definition claimJob_step :: "answer \<Rightarrow> scheduler \<Rightarrow> thread \<Rightarrow> result" where
  "claimJob_step a s t =
     (let ev = th_event t; cfg = s_cfg s
      in case th_pc t of
           PClaimGate \<Rightarrow>
             if s_draining s then goto s t (PSeq (claim_failed t errCordoned)) else goto s t (PClaim 0)
         | PClaim n \<Rightarrow>
             (case ev_provider ev of
                None \<Rightarrow> goto s t (PSeq [MRelease, MPanic])
              | Some p \<Rightarrow>
                  emit [AClaim (th_key t) (claimName ev (a_suffix a))
                          (buildLabelsForOS cfg (targetOS cfg (th_pool t) (ev_labels ev)) (cfg_Labels cfg))]
                    (case a_claim a of
                       Inr c \<Rightarrow>
                         emit (ARegister (th_key t) c #
                                 (if th_pool t = PoolLocal
                                  then actionsCacheFor cfg p (cl_runnerName c) (a_cacheHealthy a) else []))
                           (goto s (t\<lparr>th_claim := c\<rparr>) (created_pc (th_pool t)))
                     | Inl e \<Rightarrow>
                         (case isConflict e of
                            None \<Rightarrow> goto s t (PSeq [MRelease, MPanic])
                          | Some conflict \<Rightarrow>
                              if conflict \<and> n < maxNameRetries - 1 then goto s t (PClaim (n + 1))
                              else goto s t (PSeq (claim_failed t e)))))
         | _ \<Rightarrow> None)"

subsection \<open>Creating the runner\<close>

definition linux_create_step :: "answer \<Rightarrow> scheduler \<Rightarrow> thread \<Rightarrow> result" where
  "linux_create_step a s t =
     emit [ACreate (cl_runnerName (th_claim t))]
       (case a_err a of
          Some e \<Rightarrow> goto s t (PSeq [MReleaseJob (th_claim t), MUnsee, MCancel, MRelease, MEnqueueRetry e])
        | None \<Rightarrow> goto s t PTrack)"

definition createEnvBackoffs :: "time list" where
  "createEnvBackoffs = [5 * second, 15 * second]"

definition local_create_failed :: "thread \<Rightarrow> goerr \<Rightarrow> microop list" where
  "local_create_failed t e =
     [MForgetCache (cl_runnerName (th_claim t)), MReleaseJob (th_claim t)] @
     cleanup_artifacts (th_artifacts t) @
     [MUnsee, MCancel, MRelease, MEnqueueRetry e]"

text \<open>
  \<^verbatim>\<open>retryEnvCreate\<close> as \<^verbatim>\<open>handleLocalJob\<close> calls it: \<open>PCreateEnv i\<close> is the create call after \<open>i\<close>
  backoffs, \<open>PBackoff i e\<close> the wait that follows its failure.
\<close>

definition retryEnvCreate_step :: "answer \<Rightarrow> scheduler \<Rightarrow> thread \<Rightarrow> result" where
  "retryEnvCreate_step a s t =
     (case th_pc t of
        PCreateEnv i \<Rightarrow>
          emit [ACreate (cl_runnerName (th_claim t))]
            (case a_err a of
               None \<Rightarrow> goto s (t\<lparr>th_env := a_env a\<rparr>) PTrack
             | Some e \<Rightarrow>
                 if i < length createEnvBackoffs \<and> classifyErr (Some e) \<noteq> errNonRetryable \<and> \<not> isDraining s
                 then goto s t (PBackoff i e)
                 else goto s t (PSeq (local_create_failed t e)))
      | PBackoff i e \<Rightarrow>
          if \<not> a_timer a \<or> isDraining s then goto s t (PSeq (local_create_failed t e))
          else goto s t (PCreateEnv (i + 1))
      | _ \<Rightarrow> None)"

text \<open>The failure tails of \<^verbatim>\<open>handleMacOSJob\<close> after the claim.\<close>

definition mac_stop_failed :: "thread \<Rightarrow> bool \<Rightarrow> bool \<Rightarrow> microop list" where
  "mac_stop_failed t started alreadyStopped =
     [MUnsee] @ (if started then [MCancel] else []) @ [MRelease] @
     (if alreadyStopped then [] else [MStopVM (th_ref t)]) @
     [MReleaseJob (th_claim t)] @ cleanup_artifacts (th_artifacts t)"

definition mac_boot_step :: "answer \<Rightarrow> scheduler \<Rightarrow> thread \<Rightarrow> result" where
  "mac_boot_step a s t =
     (case th_pc t of
        PCreate \<Rightarrow>
          emit [ACreate (th_vmID t)]
            (if a_err a \<noteq> None
             then goto s t (PSeq ([MReleaseJob (th_claim t)] @ cleanup_artifacts (th_artifacts t) @ [MUnsee, MRelease]))
             else goto s t PWriteJIT)
      | PWriteJIT \<Rightarrow>
          emit [AWriteJIT (th_vmID t)]
            (if a_err a \<noteq> None then goto s t (PSeq (mac_stop_failed t False False)) else goto s t PStart)
      | PStart \<Rightarrow>
          emit [AStartVM (th_vmID t)]
            (if a_err a \<noteq> None then goto s t (PSeq (mac_stop_failed t True False)) else goto s t PWaitRunner)
      | _ \<Rightarrow> None)"

definition provisionTimeout_err :: goerr where
  "provisionTimeout_err = plain_err ''timed out waiting for macOS VM runner to become reachable''"

text \<open>
  \<^verbatim>\<open>waitForMacRunnerBounded\<close> is \<open>PWaitRunner\<close>, \<^verbatim>\<open>abandonMacProvision\<close> is \<open>PUnwind\<close>.
\<close>

definition waitForMacRunnerBounded_step :: "answer \<Rightarrow> scheduler \<Rightarrow> thread \<Rightarrow> result" where
  "waitForMacRunnerBounded_step a s t =
     (case a_wake a of
        PwResult None \<Rightarrow> goto s t PTrack
      | PwResult (Some e) \<Rightarrow> goto s t (PSeq (mac_stop_failed t True False))
      | PwDeadline \<Rightarrow> emit [AStopVM (th_ref t)] (goto s t (PUnwind provisionTimeout_err))
      | PwCtx e \<Rightarrow> emit [AStopVM (th_ref t)] (goto s t (PUnwind e)))"

definition abandonMacProvision_step :: "answer \<Rightarrow> scheduler \<Rightarrow> thread \<Rightarrow> result" where
  "abandonMacProvision_step a s t =
     (case awaitUnwind True True (a_wakes a) of
        None \<Rightarrow> None
      | Some True \<Rightarrow> goto s t (PSeq (mac_stop_failed t True True))
      | Some False \<Rightarrow>
          goto (abandonVM s (a_landed a) (th_ref t) ''force-stop after the provisioning deadline did not return'' (a_now a))
            t (PSeq (mac_stop_failed t True True)))"

subsection \<open>Tracking the runner and waiting for it\<close>

definition running_job :: "thread \<Rightarrow> time \<Rightarrow> runningJob" where
  "running_job t now =
     \<lparr>rj_env = (if th_pool t = PoolLocal then Some (th_env t) else None),
      rj_provider = ev_provider (th_event t), rj_claim = Some (th_claim t), rj_repo = ev_repo (th_event t),
      rj_image = th_image t,
      rj_artifactsDir = (if th_pool t = PoolLinux then [] else th_artifacts t),
      rj_dispatched = (if th_pool t = PoolLinux then cl_runnerName (th_claim t) else []),
      rj_macosVM = (th_pool t = PoolMacOS),
      rj_macVMID = (if th_pool t = PoolMacOS then th_vmID t else []),
      rj_startedAt = now\<rparr>"

definition track_step :: "answer \<Rightarrow> scheduler \<Rightarrow> thread \<Rightarrow> result" where
  "track_step a s t =
     Some (trackRunning s (th_key t) (running_job t (a_now a)) (ev_provider (th_event t))
             (labelSetKey (ev_labels (th_event t))) (a_later a),
           t\<lparr>th_pc := PReturn, th_slot := None\<rparr>,
           [t\<lparr>th_pc := PWaitJob, th_retry := None, th_claimErr := None\<rparr>],
           [])"

definition deregister :: "runningJob \<Rightarrow> microop list" where
  "deregister rj =
     (case (rj_provider rj, rj_claim rj) of (Some _, Some c) \<Rightarrow> [MReleaseJob c] | _ \<Rightarrow> [])"

text \<open>What each wait-goroutine does once it has looked its entry up under the lock.\<close>

definition linux_wait_tail :: "thread \<Rightarrow> runningJob option \<Rightarrow> microop list" where
  "linux_wait_tail t rj =
     [MRelease, MDispatchDestroy (cl_runnerName (th_claim t))] @
     (case rj of None \<Rightarrow> [] | Some r \<Rightarrow> deregister r) @ [MReprovision]"

definition mac_wait_tail :: "thread \<Rightarrow> runningJob option \<Rightarrow> microop list" where
  "mac_wait_tail t rj =
     [MRelease] @
     (case rj of
        None \<Rightarrow> []
      | Some r \<Rightarrow>
          (if rj_macosVM r then [MStopVM (macRef r (th_key t))] else []) @
          cleanup_artifacts (rj_artifactsDir r) @ deregister r) @ [MReprovision]"

definition local_wait_tail :: "thread \<Rightarrow> runningJob option \<Rightarrow> microop list" where
  "local_wait_tail t rj =
     [MRelease] @
     (case rj of
        None \<Rightarrow> []
      | Some r \<Rightarrow>
          [MDestroyEnv (th_env t), MForgetCache (cl_runnerName (th_claim t))] @
          cleanup_artifacts (rj_artifactsDir r) @ deregister r) @ [MReprovision]"

fun wait_tail :: "pool \<Rightarrow> thread \<Rightarrow> runningJob option \<Rightarrow> microop list" where
  "wait_tail PoolLinux t rj = linux_wait_tail t rj"
| "wait_tail PoolMacOS t rj = mac_wait_tail t rj"
| "wait_tail PoolLocal t rj = local_wait_tail t rj"

definition wait_step :: "answer \<Rightarrow> scheduler \<Rightarrow> thread \<Rightarrow> result" where
  "wait_step a s t =
     (case th_pc t of
        PWaitJob \<Rightarrow> goto s t PUntrack
      | PUntrack \<Rightarrow>
          (let key = th_key t; rj = running_of s key;
               s' = (case rj of None \<Rightarrow> s | Some r \<Rightarrow> untrackRunningLocked s key r)
           in goto s' t (PSeq (wait_tail (th_pool t) t rj)))
      | _ \<Rightarrow> None)"

subsection \<open>Re-provisioning and retries\<close>

definition reprovisionIfStranded_locked :: "scheduler \<Rightarrow> JobEvent \<Rightarrow> bool \<times> scheduler" where
  "reprovisionIfStranded_locked s ev =
     (let key = keyFor ev
      in if \<not> s_webhookMode s \<or> s_draining s then (False, s)
         else if s_started s key \<noteq> None then (False, s)
         else if running_of s key \<noteq> None then (False, s)
         else if key \<in> s_pending s then (False, s)
         else if maxProvisionAttempts < s_attempts s key then (False, s)
         else (True, s\<lparr>s_seen := (s_seen s)(key := None)\<rparr>))"

definition reprovision_step :: "answer \<Rightarrow> scheduler \<Rightarrow> thread \<Rightarrow> result" where
  "reprovision_step a s t =
     (case jobStillWanted s (th_event t) (a_wanted a) (a_now a) of
        (wanted, s') \<Rightarrow> goto s' t (if wanted then PCheck else PDone))"

text \<open>
  \<^verbatim>\<open>retryHandler\<close> up to its call of \<^verbatim>\<open>handleQueued\<close>; when that has returned, \<^verbatim>\<open>runOne\<close> gets
  the error cell.
\<close>

definition retryHandler_step :: "answer \<Rightarrow> scheduler \<Rightarrow> thread \<Rightarrow> result" where
  "retryHandler_step a s t = goto (unsee s (th_key t)) (t\<lparr>th_claimErr := None\<rparr>) PCheck"

definition runOne_step :: "answer \<Rightarrow> scheduler \<Rightarrow> thread \<Rightarrow> result" where
  "runOne_step a s t =
     (case (s_retry s, th_retry t) of
        (Some q, Some r) \<Rightarrow>
          goto (s\<lparr>s_retry := Some (runOne q r (th_claimErr t) (a_now a) (a_later a) (a_draws a))\<rparr>) t PDone
      | _ \<Rightarrow> goto s t PDone)"

subsection \<open>Cleanup actions\<close>

definition release_slot :: "scheduler \<Rightarrow> thread \<Rightarrow> (scheduler \<times> thread) option" where
  "release_slot s t =
     (case th_slot t of
        None \<Rightarrow> Some (s, t)
      | Some tk \<Rightarrow>
          map_option (\<lambda>(sem, slot). (setSem s (tk_pool tk) sem, t\<lparr>th_slot := slot\<rparr>))
            (slotToken_release (semOf s (tk_pool tk)) (th_slot t)))"

definition stopVMBounded :: "answer \<Rightarrow> scheduler \<Rightarrow> macVMRef \<Rightarrow> scheduler" where
  "stopVMBounded a s vmref =
     (if a_stopped a then s
      else abandonVM s (a_landed a) vmref ''teardown did not return within the stop grace'' (a_now a))"

fun exec :: "answer \<Rightarrow> scheduler \<Rightarrow> thread \<Rightarrow> microop \<Rightarrow> result" where
  "exec a s t MUnsee = Some (unsee s (th_key t), t, [], [])"
| "exec a s t MClearPending = Some (s\<lparr>s_pending := s_pending s - {th_key t}\<rparr>, t, [], [])"
| "exec a s t MRelease = map_option (\<lambda>(s', t'). (s', t', [], [])) (release_slot s t)"
| "exec a s t MCancel = Some (s, t, [], [ACancel (cl_runnerName (th_claim t))])"
| "exec a s t (MEnqueueRetry e) =
     (if th_retry t \<noteq> None then Some (s, t\<lparr>th_claimErr := Some e\<rparr>, [], [])
      else Some (enqueueRetryIfEligible s (th_event t) e (a_now a) (a_later a) (a_draws a), t, [], []))"
| "exec a s t (MReleaseJob c) = Some (s, t, [], [AReleaseJob c])"
| "exec a s t (MCleanup d) = Some (s, t, [], [ACleanup d])"
| "exec a s t (MStopVM r) = Some (stopVMBounded a s r, t, [], [AStopVM r])"
| "exec a s t (MForgetCache n) =
     Some (s, t, [], forgetActionsCache (s_cfg s) n)"
| "exec a s t (MDestroyEnv e) = Some (s, t, [], [ADestroyEnv e])"
| "exec a s t (MDispatchDestroy n) = Some (s, t, [], [ADispatchDestroy n])"
| "exec a s t MReprovision =
     (case reprovisionIfStranded_locked s (th_event t) of
        (go, s') \<Rightarrow> Some (s', t, if go then [new_thread PReprovAsk (th_event t) None] else [], []))"
| "exec a s t MPanic = Some (s, t, [], [])"

text \<open>
  A handler's tail runs action by action and ends in the deferred release of
  \<open>PReturn\<close>. A panic ends the process once the deferred calls have run.
\<close>

definition seq_step :: "answer \<Rightarrow> scheduler \<Rightarrow> thread \<Rightarrow> microop list \<Rightarrow> result" where
  "seq_step a s t ms =
     (case ms of
        [] \<Rightarrow> goto s t PReturn
      | m # ms' \<Rightarrow>
          map_option (\<lambda>(s', t', ts, as). (s', t'\<lparr>th_pc := if m = MPanic then PPanicked else PSeq ms'\<rparr>, ts, as))
            (exec a s t m))"

definition return_step :: "answer \<Rightarrow> scheduler \<Rightarrow> thread \<Rightarrow> result" where
  "return_step a s t =
     map_option (\<lambda>(s', t'). (s', t'\<lparr>th_pc := if th_retry t \<noteq> None then PRunOne else PDone\<rparr>, [], []))
       (release_slot s t)"

subsection \<open>One step of a dispatch thread\<close>

fun dispatch_step :: "answer \<Rightarrow> scheduler \<Rightarrow> thread \<Rightarrow> pc \<Rightarrow> result" where
  "dispatch_step a s t PRetry = retryHandler_step a s t"
| "dispatch_step a s t PReprovAsk = reprovision_step a s t"
| "dispatch_step a s t PCheck = handleQueued_step a s t"
| "dispatch_step a s t PDedup = handleQueued_step a s t"
| "dispatch_step a s t PRoute = handleQueued_step a s t"
| "dispatch_step a s t PMacGate = mac_gate_step a s t"
| "dispatch_step a s t PAcquire = gate_step a s t"
| "dispatch_step a s t (PWaitSlot start) = gate_step a s t"
| "dispatch_step a s t PAdmit = gate_step a s t"
| "dispatch_step a s t PAskWanted = gate_step a s t"
| "dispatch_step a s t PMacRecheck = mac_gate_step a s t"
| "dispatch_step a s t PImage = image_step a s t"
| "dispatch_step a s t PClaimGate = claimJob_step a s t"
| "dispatch_step a s t (PClaim n) = claimJob_step a s t"
| "dispatch_step a s t PCreate =
     (if th_pool t = PoolMacOS then mac_boot_step a s t else linux_create_step a s t)"
| "dispatch_step a s t (PCreateEnv i) = retryEnvCreate_step a s t"
| "dispatch_step a s t (PBackoff i e) = retryEnvCreate_step a s t"
| "dispatch_step a s t PWriteJIT = mac_boot_step a s t"
| "dispatch_step a s t PStart = mac_boot_step a s t"
| "dispatch_step a s t PWaitRunner = waitForMacRunnerBounded_step a s t"
| "dispatch_step a s t (PUnwind e) = abandonMacProvision_step a s t"
| "dispatch_step a s t PTrack = track_step a s t"
| "dispatch_step a s t PWaitJob = wait_step a s t"
| "dispatch_step a s t PUntrack = wait_step a s t"
| "dispatch_step a s t (PSeq ms) = seq_step a s t ms"
| "dispatch_step a s t PReturn = return_step a s t"
| "dispatch_step a s t PRunOne = runOne_step a s t"
| "dispatch_step a s t PDone = None"
| "dispatch_step a s t PPanicked = None"

definition thread_step :: "answer \<Rightarrow> scheduler \<Rightarrow> thread \<Rightarrow> result" where
  "thread_step a s t = dispatch_step a s t (th_pc t)"

end
