(* ===== verification/Busy.thy ===== *)
theory Busy
  imports Sched_State
begin

text \<open>
  The busy check in front of every orphan teardown: \<^verbatim>\<open>pkg/runnerbusy\<close> (process listings of
  Linux and Windows containers), \<^verbatim>\<open>busy_macosvm.go\<close> (the SSH probe of a macOS guest) and
  \<^verbatim>\<open>pkg/scheduler/busy.go\<close> (the layered probe and the reap decision).

  What a listing, an SSH call or the provider answered is an argument; a failed call is
  \<^const>\<open>None\<close>.
\<close>

subsection \<open>\<^verbatim>\<open>pkg/runnerbusy\<close>\<close>

datatype State = Unknown | Idle | Busy

fun State_String :: "State \<Rightarrow> string" where
  "State_String Idle = ''idle''"
| "State_String Busy = ''busy''"
| "State_String Unknown = ''unknown''"

definition base_name :: "string \<Rightarrow> string" where
  "base_name s = rev (takeWhile (\<lambda>c. c \<noteq> CHR ''/'' \<and> c \<noteq> CHR 0x5C) (rev s))"

definition IsWorkerProcess :: "string \<Rightarrow> bool" where
  "IsWorkerProcess name =
     (trim_suffix (to_lower (base_name (trim_space name))) ''.exe'' = ''runner.worker'')"

text \<open>
  Linux: the PIDs containerd lists, each with the name read under \<^verbatim>\<open>/proc\<close>, if it could be read.
\<close>

fun ContainerBusy_scan :: "string option list \<Rightarrow> nat \<Rightarrow> State" where
  "ContainerBusy_scan [] read = (if read = 0 then Unknown else Idle)"
| "ContainerBusy_scan (None # ps) read = ContainerBusy_scan ps read"
| "ContainerBusy_scan (Some name # ps) read =
     (if IsWorkerProcess name then Busy else ContainerBusy_scan ps (read + 1))"

definition ContainerBusy :: "string option list option \<Rightarrow> State" where
  "ContainerBusy pids =
     (case pids of
        None \<Rightarrow> Unknown
      | Some ps \<Rightarrow> if ps = [] then Unknown else ContainerBusy_scan ps 0)"

definition processName :: "string option \<Rightarrow> string option \<Rightarrow> string option" where
  "processName cmdline comm =
     (case cmdline of
        Some b \<Rightarrow>
          (let argv0 = takeWhile (\<lambda>c. c \<noteq> CHR 0x00) b
           in if argv0 \<noteq> [] then Some argv0 else map_option trim_space comm)
      | None \<Rightarrow> map_option trim_space comm)"

text \<open>Windows: the compute system's process list, if it could be opened and listed.\<close>

definition containerBusyHCS :: "bool \<Rightarrow> string list option \<Rightarrow> State" where
  "containerBusyHCS opened pl =
     (if \<not> opened then Unknown
      else case pl of
             None \<Rightarrow> Unknown
           | Some ps \<Rightarrow>
               if ps = [] then Unknown
               else if list_ex IsWorkerProcess ps then Busy else Idle)"

definition ContainerBusy_windows :: "(bool \<times> string list option) option \<Rightarrow> State" where
  "ContainerBusy_windows r =
     (case r of Some (opened, pl) \<Rightarrow> containerBusyHCS opened pl | None \<Rightarrow> Unknown)"

subsection \<open>\<^verbatim>\<open>busy_macosvm.go\<close>\<close>

datatype guestRun = RunOK | RunExit int | RunErr

record guest =
  g_ip :: string
  g_signerKey :: bool
  g_signerErr :: bool
  g_dialErr :: bool
  g_sessionErr :: bool
  g_run :: guestRun

definition macOSVMBusy :: "scheduler \<Rightarrow> guest \<Rightarrow> State" where
  "macOSVMBusy s g =
     (if g_ip g = [] then Unknown
      else if cfg_MacOSVMConfig (s_cfg s) = None then Unknown
      else if g_signerKey g \<and> g_signerErr g then Unknown
      else if \<not> g_signerKey g then Unknown
      else if g_dialErr g then Unknown
      else if g_sessionErr g then Unknown
      else case g_run g of
             RunOK \<Rightarrow> Busy
           | RunExit n \<Rightarrow> if n = 1 then Idle else Unknown
           | RunErr \<Rightarrow> Unknown)"

subsection \<open>\<^verbatim>\<open>pkg/scheduler/busy.go\<close>\<close>

definition maxJobRuntime :: time where "maxJobRuntime = 6 * hour"
definition hardBoundMargin :: time where "hardBoundMargin = 30 * minute"

record reapPolicy =
  rp_Grace :: time
  rp_HardBound :: time

definition reapPolicy_of :: "Config \<Rightarrow> reapPolicy" where
  "reapPolicy_of cfg =
     (let grace = (if cfg_OrphanGrace cfg \<le> 0 then defaultOrphanGrace else cfg_OrphanGrace cfg);
          limit = (if cfg_JobTimeout cfg \<le> 0 then maxJobRuntime else cfg_JobTimeout cfg);
          hard = limit + hardBoundMargin
      in \<lparr>rp_Grace = grace, rp_HardBound = (if hard < grace then grace else hard)\<rparr>)"

record reapInput =
  ri_DispatchedAt :: time
  ri_Now :: time
  ri_Busy :: State
  ri_Policy :: reapPolicy

record reapDecision =
  rd_Destroy :: bool
  rd_Escape :: bool
  rd_Outcome :: string
  rd_Reason :: string

definition decideReap :: "reapInput \<Rightarrow> reapDecision" where
  "decideReap i =
     (let age = ri_Now i - ri_DispatchedAt i
      in if rp_HardBound (ri_Policy i) \<le> age \<and> ri_Busy i \<noteq> Idle
         then \<lparr>rd_Destroy = True, rd_Escape = True, rd_Outcome = ''escaped'',
               rd_Reason = ''wedged: still not idle past the hard bound''\<rparr>
         else case ri_Busy i of
                Idle \<Rightarrow> \<lparr>rd_Destroy = True, rd_Escape = False, rd_Outcome = ''reaped'',
                         rd_Reason = ''verified idle: no worker process on the runner''\<rparr>
              | Busy \<Rightarrow> \<lparr>rd_Destroy = False, rd_Escape = False, rd_Outcome = ''vetoed'',
                         rd_Reason = ''vetoed: the runner is executing a job''\<rparr>
              | Unknown \<Rightarrow>
                  if rp_Grace (ri_Policy i) \<le> age
                  then \<lparr>rd_Destroy = True, rd_Escape = True, rd_Outcome = ''escaped'',
                        rd_Reason = ''busy state undeterminable for the whole grace window''\<rparr>
                  else \<lparr>rd_Destroy = False, rd_Escape = False, rd_Outcome = ''vetoed'',
                        rd_Reason = ''vetoed: busy state could not be determined''\<rparr>)"

text \<open>
  One run of the layered probe: whether the environment has a task, what the local probes
  see, and what the provider's \<^verbatim>\<open>RunnerBusy\<close> answers (\<^const>\<open>None\<close> is an error).
\<close>

record probe =
  pb_hasTask :: bool
  pb_container :: State
  pb_guest :: guest
  pb_provider :: "bool option"

definition probeLocalBusy :: "scheduler \<Rightarrow> runningJob \<Rightarrow> probe \<Rightarrow> State \<times> string" where
  "probeLocalBusy s rj pb =
     (if rj_env rj \<noteq> None \<and> pb_hasTask pb then (pb_container pb, ''container'')
      else if rj_macosVM rj then (macOSVMBusy s (pb_guest pb), ''macos-vm'')
      else if rj_dispatched rj \<noteq> [] then (Unknown, ''dispatched'')
      else (Unknown, ''none''))"

definition probeRunnerBusy :: "scheduler \<Rightarrow> runningJob \<Rightarrow> probe \<Rightarrow> State \<times> string" where
  "probeRunnerBusy s rj pb =
     (let (state, source) = probeLocalBusy s rj pb
      in if state \<noteq> Unknown then (state, source)
         else if \<not> (case rj_provider rj of Some p \<Rightarrow> p_runnerBusyReporter p | None \<Rightarrow> False) \<or> rj_claim rj = None
         then (Unknown, source)
         else case pb_provider pb of
                None \<Rightarrow> (Unknown, source)
              | Some busy \<Rightarrow> (if busy then Busy else Idle, ''provider''))"

subsection \<open>What the verdicts mean\<close>

lemma ContainerBusy_scan_Idle:
  "ContainerBusy_scan ps n = Idle \<longleftrightarrow>
     (\<forall>name. Some name \<in> set ps \<longrightarrow> \<not> IsWorkerProcess name) \<and> (0 < n \<or> (\<exists>name. Some name \<in> set ps))"
  by (induction ps n rule: ContainerBusy_scan.induct) auto

lemma ContainerBusy_scan_Busy:
  "ContainerBusy_scan ps n = Busy \<longleftrightarrow> (\<exists>name. Some name \<in> set ps \<and> IsWorkerProcess name)"
  by (induction ps n rule: ContainerBusy_scan.induct) auto

lemma reapPolicy_ordered: "rp_Grace (reapPolicy_of cfg) \<le> rp_HardBound (reapPolicy_of cfg)"
  by (simp add: reapPolicy_of_def Let_def)

end
