(* ===== verification/Events.thy ===== *)
theory Events
  imports Dispatch Busy
begin

text \<open>
  The other half of \<^verbatim>\<open>scheduler.go\<close>: what happens to runners after dispatch. Platform events
  (\<^verbatim>\<open>handleInProgress\<close>, \<^verbatim>\<open>handleCompleted\<close>), the orphan sweep (\<^verbatim>\<open>sweepOrphanRunners\<close>,
  \<^verbatim>\<open>vetoBusyNominations\<close>, \<^verbatim>\<open>reapRunnerLocked\<close>), shutdown (\<^verbatim>\<open>drain\<close>, \<^verbatim>\<open>destroyAll\<close>) and
  the pruning of the dedup maps (\<^verbatim>\<open>cleanSeen\<close>). Each runs as a thread whose steps are its
  critical sections and its calls out of the program; none of them touches a slot.
\<close>

subsection \<open>Teardown of a tracked runner\<close>

definition teardown :: "Config \<Rightarrow> jobKey \<Rightarrow> runningJob \<Rightarrow> action list" where
  "teardown cfg key rj =
     [ACancel (runnerName rj)] @
     (if rj_macosVM rj then [AStopVM (macRef rj key)]
      else if rj_dispatched rj \<noteq> [] \<and> cfg_LinuxDispatcher cfg then [ADispatchDestroy (rj_dispatched rj)]
      else (case rj_env rj of Some e \<Rightarrow> [ADestroyEnv e] | None \<Rightarrow> [])) @
     (if rj_artifactsDir rj \<noteq> [] then [ACleanup (rj_artifactsDir rj)] else [])"

definition releaseJob_of :: "runningJob \<Rightarrow> action list" where
  "releaseJob_of rj =
     (case (rj_provider rj, rj_claim rj) of (Some _, Some c) \<Rightarrow> [AReleaseJob c] | _ \<Rightarrow> [])"

text \<open>The only teardown call that changes the scheduler is a VM stop that outlives its grace.\<close>

definition perform :: "answer \<Rightarrow> scheduler \<Rightarrow> action \<Rightarrow> scheduler" where
  "perform a s act = (case act of AStopVM r \<Rightarrow> stopVMBounded a s r | _ \<Rightarrow> s)"

subsection \<open>\<^verbatim>\<open>handleInProgress\<close>\<close>

definition markStarted :: "scheduler \<Rightarrow> jobKey \<Rightarrow> time \<Rightarrow> scheduler" where
  "markStarted s key now = s\<lparr>s_started := (s_started s)(key \<mapsto> now)\<rparr>"

text \<open>The binding section; the boolean is "owned and not already bound to this job".\<close>

definition handleInProgress_bind :: "scheduler \<Rightarrow> JobEvent \<Rightarrow> bool \<times> scheduler" where
  "handleInProgress_bind s ev =
     (let key = keyFor ev; name = ev_runnerName ev
      in if name = [] then (False, s)
         else case s_runners s name of
                None \<Rightarrow> (False, s)
              | Some rb \<Rightarrow>
                  (\<not> (rb_bound rb \<and> rb_boundKey rb = key),
                   s\<lparr>s_runners := (s_runners s)(name \<mapsto> rb\<lparr>rb_bound := True, rb_boundKey := key\<rparr>)\<rparr>))"

definition bindActionsCache :: "Config \<Rightarrow> JobEvent \<Rightarrow> string \<Rightarrow> string option \<Rightarrow> action list" where
  "bindActionsCache cfg ev runner scope =
     (if \<not> cfg_ActionsCache cfg then []
      else if \<not> (case ev_provider ev of Some p \<Rightarrow> p_cacheScoper p | None \<Rightarrow> False) then []
      else case scope of None \<Rightarrow> [] | Some sc \<Rightarrow> [ABindCache runner sc])"

subsection \<open>\<^verbatim>\<open>handleCompleted\<close>\<close>

text \<open>
  Which tracked runner a completed event tears down, if any: the key it is tracked under
  and its entry. The second component is the ledger after dropping a stale record.
\<close>

definition completed_target ::
  "scheduler \<Rightarrow> JobEvent \<Rightarrow> (jobKey \<times> runningJob) option \<times> scheduler" where
  "completed_target s ev =
     (let key = keyFor ev; name = ev_runnerName ev
      in if name \<noteq> []
         then (case s_runners s name of
                 None \<Rightarrow> (None, s)
               | Some rb \<Rightarrow>
                   (case running_of s (rb_intentKey rb) of
                      Some rj \<Rightarrow>
                        if runnerName rj = name then (Some (rb_intentKey rb, rj), s)
                        else (None, s\<lparr>s_runners := (s_runners s)(name := None)\<rparr>)
                    | None \<Rightarrow> (None, s\<lparr>s_runners := (s_runners s)(name := None)\<rparr>)))
         else (case running_of s key of
                 None \<Rightarrow> (None, s)
               | Some rj \<Rightarrow>
                   (case s_runners s (runnerName rj) of
                      None \<Rightarrow> (Some (key, rj), s)
                    | Some rb \<Rightarrow>
                        if \<not> rb_bound rb \<or> rb_boundKey rb = key then (Some (key, rj), s) else (None, s))))"

definition handleCompleted_locked :: "scheduler \<Rightarrow> JobEvent \<Rightarrow> time \<Rightarrow> action list \<times> scheduler" where
  "handleCompleted_locked s ev now =
     (let (target, s1) = completed_target (markStarted s (keyFor ev) now) ev
      in case target of
           None \<Rightarrow> ([], s1)
         | Some (ownerKey, job) \<Rightarrow>
             (teardown (s_cfg s) ownerKey job,
              resetBackoff (untrackRunningLocked s1 ownerKey job) (ev_repo ev)))"

subsection \<open>The orphan sweep\<close>

record orphanNomination =
  on_name :: string
  on_rb :: runnerBinding
  on_rj :: runningJob
  on_discharged :: bool

record orphanVictim =
  ov_name :: string
  ov_key :: jobKey
  ov_rj :: runningJob
  ov_discharged :: bool
  ov_escaped :: bool
  ov_verdict :: string
  ov_reason :: string

definition nominateRunnerLocked ::
  "scheduler \<Rightarrow> string \<Rightarrow> runnerBinding \<Rightarrow> orphanNomination option \<times> scheduler" where
  "nominateRunnerLocked s name rb =
     (case running_of s (rb_intentKey rb) of
        None \<Rightarrow> (None, s\<lparr>s_runners := (s_runners s)(name := None)\<rparr>)
      | Some rj \<Rightarrow>
          if runnerName rj \<noteq> name then (None, s)
          else (Some \<lparr>on_name = name, on_rb = rb, on_rj = rj, on_discharged = False\<rparr>, s))"

text \<open>
  \<^verbatim>\<open>cur != rb\<close> compares addresses; once it has passed, \<^verbatim>\<open>rb.bound\<close> reads the live record.
\<close>

definition reapRunnerLocked ::
  "scheduler \<Rightarrow> string \<Rightarrow> runnerBinding \<Rightarrow> orphanVictim option \<times> scheduler" where
  "reapRunnerLocked s name rb0 =
     (case s_runners s name of
        None \<Rightarrow> (None, s)
      | Some rb \<Rightarrow>
          if rb_addr rb \<noteq> rb_addr rb0 then (None, s)
          else if rb_bound rb then (None, s)
          else case running_of s (rb_intentKey rb) of
                 None \<Rightarrow> (None, s\<lparr>s_runners := (s_runners s)(name := None)\<rparr>)
               | Some rj \<Rightarrow>
                   if runnerName rj \<noteq> name then (None, s)
                   else (Some \<lparr>ov_name = name, ov_key = rb_intentKey rb, ov_rj = rj, ov_discharged = False,
                               ov_escaped = False, ov_verdict = [], ov_reason = []\<rparr>,
                         untrackRunningLocked s (rb_intentKey rb) rj))"

text \<open>
  Go iterates over its maps in an arbitrary order, which is a parameter: \<open>seenOrder\<close> and
  \<open>runnerOrder\<close> list the keys of \<^verbatim>\<open>s.seen\<close> and \<^verbatim>\<open>s.runners\<close>. Unlisted entries are skipped.
\<close>

definition is_demand :: "scheduler \<Rightarrow> jobKey set \<Rightarrow> jobKey \<Rightarrow> bool" where
  "is_demand s served key =
     (s_started s key = None \<and> key \<notin> served \<and> \<not> maxProvisionAttempts < s_attempts s key)"

definition label_of :: "scheduler \<Rightarrow> jobKey \<Rightarrow> string" where
  "label_of s key = (case s_jobLabels s key of Some l \<Rightarrow> l | None \<Rightarrow> [])"

definition served_keys :: "scheduler \<Rightarrow> string list \<Rightarrow> jobKey set" where
  "served_keys s runnerOrder = set (List.map_filter (\<lambda>n. map_option rb_intentKey (s_runners s n)) runnerOrder)"

definition sweep_demand :: "scheduler \<Rightarrow> jobKey list \<Rightarrow> string list \<Rightarrow> string \<Rightarrow> nat" where
  "sweep_demand s seenOrder runnerOrder lbl =
     count_if (\<lambda>k. s_seen s k \<noteq> None \<and> is_demand s (served_keys s runnerOrder) k \<and> label_of s k = lbl) seenOrder"

fun sweep_scan ::
  "time \<Rightarrow> time \<Rightarrow> string list \<Rightarrow> scheduler \<Rightarrow>
   orphanNomination list \<times> (string \<times> runnerBinding) list \<times> scheduler" where
  "sweep_scan now grace [] s = ([], [], s)"
| "sweep_scan now grace (name # names) s =
     (case s_runners s name of
        None \<Rightarrow> sweep_scan now grace names s
      | Some rb \<Rightarrow>
          if rb_bound rb \<or> \<not> rb_observable rb then sweep_scan now grace names s
          else if grace \<le> now - rb_dispatchedAt rb
          then (let (n, s1) = nominateRunnerLocked s name rb;
                    (noms, spares, s2) = sweep_scan now grace names s1
                in ((case n of Some x \<Rightarrow> x # noms | None \<Rightarrow> noms), spares, s2))
          else (let (noms, spares, s1) = sweep_scan now grace names s
                in (noms, (if s_started s (rb_intentKey rb) \<noteq> None then (name, rb) # spares else spares), s1)))"

text \<open>
  \<^verbatim>\<open>sort.Slice\<close> leaves the order of equal dispatch times open; the stable sort of an
  arbitrary iteration order covers every outcome.
\<close>

fun sweep_allocate ::
  "(string \<Rightarrow> nat) \<Rightarrow> (string \<times> runnerBinding) list \<Rightarrow> scheduler \<Rightarrow> orphanNomination list \<times> scheduler" where
  "sweep_allocate demand [] s = ([], s)"
| "sweep_allocate demand ((name, rb) # sps) s =
     (if 0 < demand (rb_labelSet rb)
      then sweep_allocate (demand(rb_labelSet rb := demand (rb_labelSet rb) - 1)) sps s
      else (let (n, s1) = nominateRunnerLocked s name rb;
                (noms, s2) = sweep_allocate demand sps s1
            in ((case n of Some x \<Rightarrow> x\<lparr>on_discharged := True\<rparr> # noms | None \<Rightarrow> noms), s2)))"

definition sweep_locked ::
  "scheduler \<Rightarrow> jobKey list \<Rightarrow> string list \<Rightarrow> time \<Rightarrow> orphanNomination list \<times> scheduler" where
  "sweep_locked s seenOrder runnerOrder now =
     (if \<not> cfg_OrphanEnabled (s_cfg s) then ([], s)
      else if \<not> s_webhookMode s then ([], s)
      else
        let demand = sweep_demand s seenOrder runnerOrder;
            (noms1, spares, s1) = sweep_scan now (rp_Grace (reapPolicy_of (s_cfg s))) runnerOrder s;
            sorted = sort_key (\<lambda>(_, rb). - rb_dispatchedAt rb) spares;
            (noms2, s2) = sweep_allocate demand sorted s1
        in (noms1 @ noms2, s2))"

definition victim_of :: "orphanVictim \<Rightarrow> orphanNomination \<Rightarrow> reapDecision \<Rightarrow> State \<Rightarrow> orphanVictim" where
  "victim_of v n d st =
     v\<lparr>ov_discharged := on_discharged n, ov_escaped := rd_Escape d,
       ov_verdict := State_String st, ov_reason := rd_Reason d\<rparr>"

definition victim_actions :: "Config \<Rightarrow> orphanVictim \<Rightarrow> action list" where
  "victim_actions cfg v = teardown cfg (ov_key v) (ov_rj v) @ releaseJob_of (ov_rj v)"

subsection \<open>Pruning and shutdown\<close>

definition seen_expired :: "scheduler \<Rightarrow> time \<Rightarrow> jobKey \<Rightarrow> bool" where
  "seen_expired s now k = (case s_seen s k of Some t \<Rightarrow> seenTTL < now - t | None \<Rightarrow> False)"

definition cleanSeen :: "scheduler \<Rightarrow> time \<Rightarrow> scheduler" where
  "cleanSeen s now =
     (let gone = (\<lambda>k. seen_expired s now k \<and> k \<notin> s_pending s \<and> running_of s k = None);
          startedTTL = (if cfg_JobTimeout (s_cfg s) \<le> 0 then 6 * hour else cfg_JobTimeout (s_cfg s) + seenTTL)
      in s\<lparr>s_seen := (\<lambda>k. if seen_expired s now k then None else s_seen s k),
           s_attempts := (\<lambda>k. if gone k then 0 else s_attempts s k),
           s_jobLabels := (\<lambda>k. if gone k then None else s_jobLabels s k),
           s_started := (\<lambda>k. case s_started s k of
                                Some t \<Rightarrow> if startedTTL < now - t then None else Some t
                              | None \<Rightarrow> None)\<rparr>)"

definition destroyAll :: "scheduler \<Rightarrow> jobKey list \<Rightarrow> action list \<times> scheduler" where
  "destroyAll s order =
     (concat (map (\<lambda>k. case running_of s k of
                          Some job \<Rightarrow> teardown (s_cfg s) k job @ releaseJob_of job
                        | None \<Rightarrow> []) order),
      s\<lparr>s_running := Mapping.empty, s_runners := Map.empty\<rparr>)"

subsection \<open>Event threads\<close>

datatype ethread =
    EInProgress JobEvent
  | EStarted JobEvent
  | EBind JobEvent
  | EBindCache JobEvent
  | ECompleted JobEvent
  | ECompletedLocked JobEvent
  | ETear "action list" bool
  | ESweep
  | EVeto "orphanNomination list" "orphanVictim list"
  | EReap orphanNomination reapDecision State "orphanNomination list" "orphanVictim list"
  | EDrain
  | EDrainWait
  | EDone

record eanswer =
  ea_answer :: answer
  ea_scope :: "string option"
  ea_probe :: probe
  ea_seenOrder :: "jobKey list"
  ea_runnerOrder :: "string list"
  ea_runningOrder :: "jobKey list"
  ea_deadline :: bool

type_synonym eresult = "(scheduler \<times> ethread \<times> ethread list \<times> action list) option"

fun vetoBusyNominations_step :: "eanswer \<Rightarrow> scheduler \<Rightarrow> ethread \<Rightarrow> eresult" where
  "vetoBusyNominations_step e s (EVeto [] victims) =
     Some (s, ETear (concat (map (victim_actions (s_cfg s)) victims)) False, [], [])"
| "vetoBusyNominations_step e s (EVeto (n # noms) victims) =
     (let (state, source) = probeRunnerBusy s (on_rj n) (ea_probe e);
          d = decideReap \<lparr>ri_DispatchedAt = rb_dispatchedAt (on_rb n), ri_Now = a_now (ea_answer e),
                          ri_Busy = state, ri_Policy = reapPolicy_of (s_cfg s)\<rparr>
      in if \<not> rd_Destroy d then Some (s, EVeto noms victims, [], [])
         else Some (s, EReap n d state noms victims, [], []))"
| "vetoBusyNominations_step e s (EReap n d state noms victims) =
     (case reapRunnerLocked s (on_name n) (on_rb n) of
        (None, s') \<Rightarrow> Some (s', EVeto noms victims, [], [])
      | (Some v, s') \<Rightarrow> Some (s', EVeto noms (victims @ [victim_of v n d state]), [], []))"
| "vetoBusyNominations_step e s _ = None"

fun drain_step :: "eanswer \<Rightarrow> scheduler \<Rightarrow> ethread \<Rightarrow> eresult" where
  "drain_step e s EDrain =
     (let s' = s\<lparr>s_draining := True\<rparr>
      in if ActiveJobs s = 0 then Some (s', EDone, [], [ACancelJobs]) else Some (s', EDrainWait, [], []))"
| "drain_step e s EDrainWait =
     (if ea_deadline e
      then (let (acts, s') = destroyAll s (ea_runningOrder e)
            in Some (s', ETear (acts @ [ACancelJobs]) False, [], []))
      else if ActiveJobs s = 0 then Some (s, EDone, [], [ACancelJobs])
      else Some (s, EDrainWait, [], []))"
| "drain_step e s _ = None"

fun event_step :: "eanswer \<Rightarrow> scheduler \<Rightarrow> ethread \<Rightarrow> eresult" where
  "event_step e s (EInProgress ev) = Some (dropRetry s (keyFor ev), EStarted ev, [], [])"
| "event_step e s (EStarted ev) = Some (markStarted s (keyFor ev) (a_now (ea_answer e)), EBind ev, [], [])"
| "event_step e s (EBind ev) =
     (case handleInProgress_bind s ev of
        (fresh, s') \<Rightarrow>
          Some (s', EDone, if fresh \<and> cfg_ActionsCache (s_cfg s) then [EBindCache ev] else [], []))"
| "event_step e s (EBindCache ev) =
     Some (s, EDone, [], bindActionsCache (s_cfg s) ev (ev_runnerName ev) (ea_scope e))"
| "event_step e s (ECompleted ev) = Some (dropRetry s (keyFor ev), ECompletedLocked ev, [], [])"
| "event_step e s (ECompletedLocked ev) =
     (case handleCompleted_locked s ev (a_now (ea_answer e)) of (acts, s') \<Rightarrow> Some (s', ETear acts True, [], []))"
| "event_step e s (ETear (act # acts) sweep) = Some (perform (ea_answer e) s act, ETear acts sweep, [], [act])"
| "event_step e s (ETear [] sweep) = Some (s, if sweep then ESweep else EDone, [], [])"
| "event_step e s ESweep =
     (case sweep_locked s (ea_seenOrder e) (ea_runnerOrder e) (a_now (ea_answer e)) of
        (noms, s') \<Rightarrow> Some (s', EVeto noms [], [], []))"
| "event_step e s (EVeto noms victims) = vetoBusyNominations_step e s (EVeto noms victims)"
| "event_step e s (EReap n d state noms victims) = vetoBusyNominations_step e s (EReap n d state noms victims)"
| "event_step e s EDrain = drain_step e s EDrain"
| "event_step e s EDrainWait = drain_step e s EDrainWait"
| "event_step e s EDone = None"

end
