(* ===== verification/Dispatch_Laws.thy ===== *)
theory Dispatch_Laws
  imports Events
begin

text \<open>
  What one step of a dispatch thread or an event thread does to the parts of the scheduler
  that other threads rely on: the slots, the retry queue, the abandoned-VM registry, the
  configuration and the cordon flag.
\<close>

subsection \<open>Shapes of results\<close>

lemma goto_Some [simp]:
  "goto s t c = Some (s', t', ts, as) \<longleftrightarrow> s' = s \<and> t' = t\<lparr>th_pc := c\<rparr> \<and> ts = [] \<and> as = []"
  by (auto simp: goto_def)

lemma goto_not_None [simp]: "goto s t c \<noteq> None" "goto s t c = None \<longleftrightarrow> False"
  by (simp_all add: goto_def)

lemma emit_Some [simp]:
  "emit as r = Some (s', t', ts, as') \<longleftrightarrow> (\<exists>as0. r = Some (s', t', ts, as0) \<and> as' = as @ as0)"
  by (cases r) (auto simp: emit_def)

lemma emit_None [simp]: "emit as r = None \<longleftrightarrow> r = None"
  by (auto simp: emit_def)

lemmas step_defs =
  thread_step_def retryHandler_step_def reprovision_step_def handleQueued_step_def gate_step_def mac_gate_step_def
  image_step_def claimJob_step_def linux_create_step_def retryEnvCreate_step_def mac_boot_step_def
  waitForMacRunnerBounded_step_def abandonMacProvision_step_def track_step_def wait_step_def
  seq_step_def return_step_def runOne_step_def acquire_done_def

lemma setSem_keeps [simp]:
  "s_attempts (setSem s p c) = s_attempts s" "s_draining (setSem s p c) = s_draining s"
  by (cases p; simp)+

lemma release_slot_keeps:
  "release_slot s t = Some (s', t') \<Longrightarrow> s_attempts s' = s_attempts s"
  "release_slot s t = Some (s', t') \<Longrightarrow> s_draining s' = s_draining s"
  by (auto simp: release_slot_def split: option.splits)

text \<open>The part of the state that holds the slots.\<close>

definition sems :: "scheduler \<Rightarrow> chan \<times> chan \<times> chan" where
  "sems s = (s_sem s, s_linuxSem s, s_macSem s)"

lemma semOf_sems: "sems s' = sems s \<Longrightarrow> semOf s' p = semOf s p"
  by (cases p) (auto simp: sems_def)

text \<open>The state functions of the pipeline, by what they leave alone.\<close>

definition same_slots :: "scheduler \<Rightarrow> scheduler \<Rightarrow> bool" where
  "same_slots s s' \<longleftrightarrow> sems s' = sems s \<and> s_cfg s' = s_cfg s \<and> s_webhookMode s' = s_webhookMode s \<and>
     s_macAbandonedCap s' = s_macAbandonedCap s"

lemma same_slots_refl [simp]: "same_slots s s"
  by (simp add: same_slots_def)

lemma same_slots_trans: "same_slots s s' \<Longrightarrow> same_slots s' s'' \<Longrightarrow> same_slots s s''"
  by (simp add: same_slots_def)

named_theorems frame_simps \<open>state functions that do not touch the slots\<close>

lemma same_slots_ops [frame_simps]:
  "same_slots s (unsee s key)"
  "same_slots s (snd (handleQueued_locked s ev now))"
  "same_slots s (snd (admitDispatch_locked s key w))"
  "same_slots s (snd (jobStillWanted s ev ans now))"
  "same_slots s (abandonVM s landed r reason now)"
  "same_slots s (enqueueRetryIfEligible s ev e now now' dr)"
  "same_slots s (snd (reprovisionIfStranded_locked s ev))"
  "same_slots s (trackRunning s key rj prov lbl now)"
  "same_slots s (untrackRunningLocked s key rj)"
  "same_slots s (dropRetry s key)"
  "same_slots s (stopVMBounded a s r)"
  "same_slots s (perform a s act)"
  "same_slots s (markStarted s key now)"
  "same_slots s (snd (handleInProgress_bind s ev))"
  "same_slots s (snd (completed_target s ev))"
  "same_slots s (resetBackoff s repo)"
  "same_slots s (snd (nominateRunnerLocked s name rb))"
  "same_slots s (snd (reapRunnerLocked s name rb))"
  "same_slots s (cleanSeen s now)"
  "same_slots s (snd (destroyAll s order))"
  by (auto simp: same_slots_def sems_def unsee_def handleQueued_locked_def admitDispatch_locked_def
      jobStillWanted_def abandonVM_def enqueueRetryIfEligible_def reprovisionIfStranded_locked_def
      trackRunning_def untrackRunningLocked_def dropRetry_def stopVMBounded_def perform_def markStarted_def
      handleInProgress_bind_def completed_target_def resetBackoff_def nominateRunnerLocked_def
      reapRunnerLocked_def cleanSeen_def destroyAll_def Let_def split: option.splits action.splits)

subsection \<open>Slots across one step of a dispatch thread\<close>

text \<open>Program points before the slot is taken, and those after it was given back for good.\<close>

fun slotless :: "pc \<Rightarrow> bool" where
  "slotless PRetry = True"
| "slotless PReprovAsk = True"
| "slotless PCheck = True"
| "slotless PDedup = True"
| "slotless PRoute = True"
| "slotless PMacGate = True"
| "slotless PAcquire = True"
| "slotless (PWaitSlot _) = True"
| "slotless PRunOne = True"
| "slotless PDone = True"
| "slotless _ = False"

definition thread_ok :: "thread \<Rightarrow> bool" where
  "thread_ok t \<longleftrightarrow> (slotless (th_pc t) \<longrightarrow> (\<forall>p. \<not> token_holds p (th_slot t)))"

definition holds :: "pool \<Rightarrow> thread \<Rightarrow> bool" where
  "holds p t = token_holds p (th_slot t)"

text \<open>The points at which a step changes who holds a slot.\<close>

fun slot_pc :: "pc \<Rightarrow> bool" where
  "slot_pc PAcquire = True"
| "slot_pc (PWaitSlot _) = True"
| "slot_pc PTrack = True"
| "slot_pc PReturn = True"
| "slot_pc (PSeq ms) = (ms \<noteq> [] \<and> List.hd ms = MRelease)"
| "slot_pc _ = False"

lemma token_holds_None [simp]: "\<not> token_holds p None"
  by (simp add: token_holds_def)

lemma new_thread_slot [simp]:
  "th_slot (new_thread c ev r) = None" "th_pc (new_thread c ev r) = c" "th_retry (new_thread c ev r) = r"
  "th_event (new_thread c ev r) = ev"
  by (simp_all add: new_thread_def)

lemma same_slots_pairs:
  "handleQueued_locked s ev now = (b, s') \<Longrightarrow> same_slots s s'"
  "admitDispatch_locked s key w = (v, s') \<Longrightarrow> same_slots s s'"
  "jobStillWanted s ev ans now = (b, s') \<Longrightarrow> same_slots s s'"
  "reprovisionIfStranded_locked s ev = (b, s') \<Longrightarrow> same_slots s s'"
  "handleInProgress_bind s ev = (b, s') \<Longrightarrow> same_slots s s'"
  "reapRunnerLocked s name rb = (ov, s') \<Longrightarrow> same_slots s s'"
  "nominateRunnerLocked s name rb = (n, s') \<Longrightarrow> same_slots s s'"
  "completed_target s ev = (tg, s') \<Longrightarrow> same_slots s s'"
  "destroyAll s order = (acts, s') \<Longrightarrow> same_slots s s'"
  using same_slots_ops by (metis snd_conv)+

lemma quiet_dispatch_step:
  assumes "dispatch_step a s t c = Some (s', t', ts, as)" and "th_pc t = c" and "\<not> slot_pc c"
  shows "same_slots s s' \<and> th_slot t' = th_slot t \<and> (\<forall>u\<in>set ts. th_slot u = None \<and> th_pc u = PReprovAsk)"
  using assms
proof (cases c)
  case (PSeq ms)
  show ?thesis
  proof (cases ms)
    case Nil
    then show ?thesis using assms PSeq by (auto simp: seq_step_def)
  next
    case (Cons m ms')
    then show ?thesis using assms PSeq
      by (cases m) (auto simp: seq_step_def frame_simps dest: same_slots_pairs split: prod.splits if_splits,
        auto simp: same_slots_def sems_def)
  qed
qed (auto simp: step_defs frame_simps Let_def dest: same_slots_pairs
       split: prod.splits if_splits option.splits sum.splits bool.splits provisionWake.splits,
     auto simp: same_slots_def sems_def)

text \<open>
  The slot law: what a thread and the threads it spawns hold after a step, they held before
  or took from the pool; what they no longer hold went back.
\<close>

definition slot_law :: "scheduler \<Rightarrow> thread \<Rightarrow> scheduler \<Rightarrow> thread \<Rightarrow> thread list \<Rightarrow> bool" where
  "slot_law s t s' t' ts \<longleftrightarrow>
     (\<forall>p. ch_cap (semOf s' p) = ch_cap (semOf s p) \<and>
          ch_len (semOf s' p) + (if holds p t then 1 else 0) =
            ch_len (semOf s p) + (if holds p t' then 1 else 0) + count_if (holds p) ts \<and>
          (ch_len (semOf s p) \<le> ch_cap (semOf s p) \<longrightarrow> ch_len (semOf s' p) \<le> ch_cap (semOf s' p)))"

lemma quiet_slot_law:
  assumes "same_slots s s'" and "th_slot t' = th_slot t" and "\<forall>u\<in>set ts. th_slot u = None"
  shows "slot_law s t s' t' ts"
proof -
  have "count_if (holds p) ts = 0" for p using assms(3) by (simp add: count_if_zero holds_def)
  moreover have "semOf s' p = semOf s p" for p using assms(1) by (intro semOf_sems) (simp add: same_slots_def)
  ultimately show ?thesis using assms(2) by (simp add: slot_law_def holds_def)
qed

lemma release_slot_law:
  assumes "release_slot s t = Some (s', t')"
  shows "slot_law s t s' (t'\<lparr>th_pc := c\<rparr>) []" and "\<not> token_holds p (th_slot t')"
    and "th_pc t' = th_pc t" and "th_retry t' = th_retry t" and "th_event t' = th_event t"
    and "th_claimErr t' = th_claimErr t"
  using assms
  by (auto simp: release_slot_def slot_law_def holds_def slotToken_release_def token_holds_def
      split: option.splits if_splits)

lemma acquire_slot_law:
  assumes "acquire_done s t res = Some (s', t', ts, as)" and "\<forall>p. \<not> holds p t"
    and "\<And>sem r. res = Some (sem, r) \<Longrightarrow>
           (case r of AcqGot tk \<Rightarrow> chan_send (semOf s (th_pool t)) = Some sem \<and> tk_pool tk = th_pool t \<and> \<not> tk_once tk
                    | _ \<Rightarrow> sem = semOf s (th_pool t))"
  shows "slot_law s t s' t' ts \<and> (slotless (th_pc t') \<longrightarrow> (\<forall>p. \<not> holds p t')) \<and> ts = []"
  using assms
  by (auto simp: acquire_done_def slot_law_def holds_def token_holds_def
      split: option.splits acquireResult.splits if_splits)

lemma acquireSlot_result:
  assumes "acquireSlot_fast sem p arm now = Some (sem', r) \<or> acquireSlot_wait sem p start arm now = Some (sem', r)"
  shows "case r of AcqGot tk \<Rightarrow> chan_send sem = Some sem' \<and> tk_pool tk = p \<and> \<not> tk_once tk | _ \<Rightarrow> sem' = sem"
  using assms
  by (auto simp: acquireSlot_fast_def acquireSlot_wait_def chan_send_def split: selectArm.splits option.splits if_splits)

lemma reprov_thread_ok: "th_slot u = None \<Longrightarrow> thread_ok u"
  by (simp add: thread_ok_def)

lemma quiet_thread_ok:
  assumes "dispatch_step a s t c = Some (s', t', ts, as)" and "th_pc t = c" and "\<not> slot_pc c" and "thread_ok t"
  shows "thread_ok t'"
proof (cases "slotless c")
  case True
  then show ?thesis using assms quiet_dispatch_step [OF assms(1-3)] by (simp add: thread_ok_def)
next
  case False
  then have "\<not> slotless (th_pc t')" using assms
  proof (cases c)
    case (PSeq ms)
    then show ?thesis using assms
      by (cases ms) (auto simp: seq_step_def split: if_splits)
  qed (auto simp: step_defs admitted_def created_pc_def Let_def
        split: prod.splits if_splits option.splits sum.splits bool.splits provisionWake.splits)
  then show ?thesis by (simp add: thread_ok_def)
qed

lemma slot_pc_step:
  assumes "dispatch_step a s t c = Some (s', t', ts, as)" and "th_pc t = c" and "slot_pc c" and "thread_ok t"
  shows "slot_law s t s' t' ts \<and> thread_ok t' \<and> (\<forall>u\<in>set ts. thread_ok u)"
proof (cases c)
  case PAcquire
  have "acquire_done s t (acquireSlot_fast (semOf s (th_pool t)) (th_pool t) (a_arm a) (a_now a)) = Some (s', t', ts, as)"
    using assms PAcquire by (simp add: gate_step_def Let_def)
  moreover have "\<forall>p. \<not> holds p t" using assms PAcquire by (auto simp: thread_ok_def holds_def)
  ultimately have "slot_law s t s' t' ts \<and> (slotless (th_pc t') \<longrightarrow> (\<forall>p. \<not> holds p t')) \<and> ts = []"
    by (rule acquire_slot_law) (rule acquireSlot_result [OF disjI1])
  then show ?thesis by (auto simp: thread_ok_def holds_def)
next
  case (PWaitSlot start)
  have "acquire_done s t (acquireSlot_wait (semOf s (th_pool t)) (th_pool t) start (a_arm a) (a_now a)) = Some (s', t', ts, as)"
    using assms PWaitSlot by (simp add: gate_step_def Let_def)
  moreover have "\<forall>p. \<not> holds p t" using assms PWaitSlot by (auto simp: thread_ok_def holds_def)
  ultimately have "slot_law s t s' t' ts \<and> (slotless (th_pc t') \<longrightarrow> (\<forall>p. \<not> holds p t')) \<and> ts = []"
    by (rule acquire_slot_law) (rule acquireSlot_result [OF disjI2])
  then show ?thesis by (auto simp: thread_ok_def holds_def)
next
  case PTrack
  have "semOf (trackRunning s k rj pr l n) p = semOf s p" for k rj pr l n p
    using same_slots_ops(8) by (intro semOf_sems) (simp add: same_slots_def)
  then show ?thesis using assms PTrack
    by (auto simp: track_step_def slot_law_def holds_def thread_ok_def)
next
  case PReturn
  then obtain s1 t1 where r: "release_slot s t = Some (s1, t1)" and
    e: "s' = s1" "t' = t1\<lparr>th_pc := if th_retry t \<noteq> None then PRunOne else PDone\<rparr>" "ts = []"
    using assms by (auto simp: return_step_def)
  then show ?thesis using release_slot_law [OF r] by (simp add: thread_ok_def)
next
  case (PSeq ms)
  then obtain ms' where ms: "ms = MRelease # ms'" using assms(3) by (cases ms) auto
  then obtain s1 t1 where r: "release_slot s t = Some (s1, t1)" and
    e: "s' = s1" "t' = t1\<lparr>th_pc := PSeq ms'\<rparr>" "ts = []"
    using assms PSeq by (auto simp: seq_step_def)
  then show ?thesis using release_slot_law [OF r] by (simp add: thread_ok_def)
qed (use assms in auto)

lemma slot_step:
  assumes "thread_step a s t = Some (s', t', ts, as)" and "thread_ok t"
  shows "slot_law s t s' t' ts \<and> thread_ok t' \<and> (\<forall>u\<in>set ts. thread_ok u)"
proof (cases "slot_pc (th_pc t)")
  case True
  then show ?thesis using slot_pc_step assms by (simp add: thread_step_def)
next
  case False
  note q = quiet_dispatch_step [OF assms(1)[unfolded thread_step_def] refl False]
  show ?thesis
    using q quiet_slot_law quiet_thread_ok [OF assms(1)[unfolded thread_step_def] refl False assms(2)] reprov_thread_ok
    by blast
qed

subsection \<open>Who registers a runner\<close>

lemma thread_step_draining:
  assumes "thread_step a s t = Some (s', t', ts, as)"
  shows "s_draining s' = s_draining s"
proof -
  have frame: "s_draining (unsee s k) = s_draining s" for k by (simp add: unsee_def)
  note release = release_slot_keeps(2) [of s t]
  show ?thesis
  proof (cases "th_pc t")
    case (PSeq ms)
    show ?thesis
    proof (cases ms)
      case (Cons m ms')
      then show ?thesis using assms PSeq release
        by (cases m) (auto simp: step_defs frame stopVMBounded_def abandonVM_def enqueueRetryIfEligible_def
            reprovisionIfStranded_locked_def Let_def split: prod.splits if_splits option.splits)
    qed (use assms PSeq in \<open>simp add: step_defs\<close>)
  qed (use assms release in \<open>auto simp: step_defs frame handleQueued_locked_def admitDispatch_locked_def
      jobStillWanted_def abandonVM_def trackRunning_def untrackRunningLocked_def Let_def
      split: prod.splits if_splits option.splits sum.splits bool.splits provisionWake.splits acquireResult.splits\<close>)
qed

fun is_register :: "action \<Rightarrow> bool" where
  "is_register (ARegister k c) = True"
| "is_register _ = False"

fun claiming :: "pc \<Rightarrow> bool" where
  "claiming (PClaim n) = True"
| "claiming _ = False"

text \<open>
  Only a thread inside \<^verbatim>\<open>claimJob\<close>'s loop registers a runner, one per pass and then it leaves
  the loop; and a thread enters that loop only while the scheduler is not cordoned.
\<close>

lemma register_law:
  assumes "thread_step a s t = Some (s', t', ts, as)"
  shows "count_if is_register as + (if claiming (th_pc t') then 1 else 0)
           \<le> (if claiming (th_pc t) then 1 else 0) + (if s_draining s then 0 else 1)"
    and "\<forall>u\<in>set ts. \<not> claiming (th_pc u)"
proof -
  have "(count_if is_register as + (if claiming (th_pc t') then 1 else 0)
           \<le> (if claiming (th_pc t) then 1 else 0) + (if s_draining s then 0 else (1::nat))) \<and>
        (\<forall>u\<in>set ts. \<not> claiming (th_pc u))"
  proof (cases "th_pc t")
    case (PSeq ms)
    show ?thesis
    proof (cases ms)
      case (Cons m ms')
      then show ?thesis using assms PSeq
        by (cases m) (auto simp: step_defs forgetActionsCache_def split: prod.splits if_splits)
    qed (use assms PSeq in \<open>simp add: step_defs\<close>)
  qed (use assms in \<open>auto simp: step_defs admitted_def created_pc_def actionsCacheFor_def Let_def
      split: prod.splits if_splits option.splits sum.splits bool.splits provisionWake.splits acquireResult.splits\<close>)
  then show "count_if is_register as + (if claiming (th_pc t') then 1 else 0)
           \<le> (if claiming (th_pc t) then 1 else 0) + (if s_draining s then 0 else 1)"
    and "\<forall>u\<in>set ts. \<not> claiming (th_pc u)" by simp_all
qed

subsection \<open>Every dispatch ends\<close>

text \<open>
  A bound on the steps a thread has left. The only step that does not lower it is the log
  timer of a slot wait; that wait is bounded by \<^verbatim>\<open>maxSlotWait\<close> instead.
\<close>

fun rank :: "pc \<Rightarrow> nat" where
  "rank PRetry = 60"
| "rank PReprovAsk = 59"
| "rank PCheck = 58"
| "rank PDedup = 57"
| "rank PRoute = 56"
| "rank PMacGate = 55"
| "rank PAcquire = 54"
| "rank (PWaitSlot _) = 53"
| "rank PAdmit = 52"
| "rank PAskWanted = 51"
| "rank PMacRecheck = 50"
| "rank PImage = 49"
| "rank PClaimGate = 48"
| "rank (PClaim n) = 40 + (7 - n)"
| "rank (PCreateEnv i) = 30 + 2 * (4 - i)"
| "rank (PBackoff i e) = 29 + 2 * (4 - i)"
| "rank PCreate = 29"
| "rank PWriteJIT = 28"
| "rank PStart = 27"
| "rank PWaitRunner = 26"
| "rank (PUnwind e) = 25"
| "rank PTrack = 24"
| "rank PWaitJob = 23"
| "rank PUntrack = 22"
| "rank (PSeq ms) = 3 + length ms"
| "rank PReturn = 2"
| "rank PRunOne = 1"
| "rank PDone = 0"
| "rank PPanicked = 0"

fun ticking :: "pc \<Rightarrow> pc \<Rightarrow> bool" where
  "ticking (PWaitSlot start) (PWaitSlot start') = (start = start')"
| "ticking _ _ = False"

fun pc_ok :: "pc \<Rightarrow> bool" where
  "pc_ok (PBackoff i e) = (i < length createEnvBackoffs)"
| "pc_ok (PSeq ms) = (length ms \<le> 8)"
| "pc_ok _ = True"

lemmas tail_defs =
  claim_failed_def cleanup_artifacts_def local_create_failed_def mac_stop_failed_def
  linux_wait_tail_def mac_wait_tail_def local_wait_tail_def deregister_def

lemma wait_tail_length: "length (wait_tail p t rj) \<le> 6"
  by (cases p) (auto simp: tail_defs split: option.splits)

lemma rank_law:
  assumes "thread_step a s t = Some (s', t', ts, as)" and "pc_ok (th_pc t)"
  shows "(rank (th_pc t') < rank (th_pc t) \<or> ticking (th_pc t) (th_pc t')) \<and> pc_ok (th_pc t') \<and>
         (\<forall>u\<in>set ts. pc_ok (th_pc u))"
proof (cases "th_pc t")
  case (PSeq ms)
  show ?thesis
  proof (cases ms)
    case (Cons m ms')
    then show ?thesis using assms PSeq
      by (cases m) (auto simp: step_defs split: prod.splits if_splits)
  qed (use assms PSeq in \<open>simp add: step_defs\<close>)
next
  case PUntrack
  then show ?thesis using assms wait_tail_length [of "th_pool t" t "running_of s (th_key t)"]
    by (auto simp: step_defs Let_def)
next
  case (PWaitSlot start)
  then show ?thesis using assms
    by (auto simp: step_defs acquireSlot_wait_def Let_def
        split: option.splits acquireResult.splits selectArm.splits if_splits)
qed (use assms in \<open>auto simp: step_defs tail_defs admitted_def created_pc_def createEnvBackoffs_def maxNameRetries_def Let_def
      split: prod.splits if_splits option.splits sum.splits bool.splits provisionWake.splits acquireResult.splits\<close>)

lemma rank_bounded: "pc_ok c \<Longrightarrow> rank c \<le> 60"
  by (cases c) auto

text \<open>
  The steps a thread takes on its own, whatever the rest of the daemon does to the state
  in between.
\<close>

fun own_steps :: "thread \<Rightarrow> (answer \<times> scheduler) list \<Rightarrow> thread option" where
  "own_steps t [] = Some t"
| "own_steps t ((a, s) # xs) =
     (case thread_step a s t of
        None \<Rightarrow> None
      | Some (s', t', ts, as) \<Rightarrow> if ticking (th_pc t) (th_pc t') then None else own_steps t' xs)"

lemma own_steps_bounded:
  "own_steps t xs = Some t' \<Longrightarrow> pc_ok (th_pc t) \<Longrightarrow> length xs + rank (th_pc t') \<le> rank (th_pc t)"
proof (induction t xs rule: own_steps.induct)
  case (2 t a s xs)
  from 2(2) obtain s' t1 ts as where st: "thread_step a s t = Some (s', t1, ts, as)"
    and n: "\<not> ticking (th_pc t) (th_pc t1)" "own_steps t1 xs = Some t'"
    by (auto split: option.splits if_splits)
  from rank_law [OF st 2(3)] n(1) have "rank (th_pc t1) < rank (th_pc t)" "pc_ok (th_pc t1)" by auto
  moreover have "length xs + rank (th_pc t') \<le> rank (th_pc t1)"
    using 2(1)[OF st refl refl refl n(1)] n(2) calculation(2) by blast
  ultimately show ?case by simp
qed simp

subsection \<open>Nothing blocks but a call out of the program\<close>

text \<open>A step that only a full channel, a timer or an unfinished call can hold up.\<close>

fun external_wait :: "pc \<Rightarrow> bool" where
  "external_wait PAcquire = True"
| "external_wait (PWaitSlot _) = True"
| "external_wait (PUnwind _) = True"
| "external_wait _ = False"

fun finished :: "pc \<Rightarrow> bool" where
  "finished PDone = True"
| "finished PPanicked = True"
| "finished _ = False"

lemma release_slot_enabled:
  assumes "\<And>p. holds p t \<Longrightarrow> 0 < ch_len (semOf s p)"
  shows "release_slot s t \<noteq> None"
  using assms
  by (auto simp: release_slot_def holds_def token_holds_def slotToken_release_def chan_recv_def
      split: option.splits)

lemma progress_law:
  assumes "\<And>p. holds p t \<Longrightarrow> 0 < ch_len (semOf s p)" and "\<not> finished (th_pc t)" and "\<not> external_wait (th_pc t)"
  shows "thread_step a s t \<noteq> None"
proof (cases "th_pc t")
  case (PSeq ms)
  show ?thesis
  proof (cases ms)
    case (Cons m ms')
    then show ?thesis using assms PSeq release_slot_enabled [OF assms(1)]
      by (cases m) (auto simp: step_defs split: prod.splits)
  qed (use PSeq in \<open>simp add: step_defs\<close>)
next
  case PReturn
  then show ?thesis using release_slot_enabled [OF assms(1)] by (auto simp: step_defs)
qed (use assms in \<open>auto simp: step_defs Let_def
      split: prod.splits option.splits sum.splits bool.splits provisionWake.splits\<close>)

text \<open>
  The three waits each have an arm that is always ready in time: a slot wait gives up after
  \<^verbatim>\<open>maxSlotWait\<close> and an unwind after its grace.
\<close>

lemma slot_wait_gives_up:
  assumes "th_pc t = PWaitSlot start" and "a_arm a = ArmGiveUp" and "maxSlotWait \<le> a_now a - start"
  shows "thread_step a s t = Some (setSem s (th_pool t) (semOf s (th_pool t)), t\<lparr>th_pc := PSeq [MUnsee]\<rparr>, [], [])"
  using assms by (simp add: step_defs acquireSlot_wait_def goto_def)

lemma unwind_returns:
  assumes "th_pc t = PUnwind e" and "WakeTimer \<in> set (a_wakes a)"
  shows "thread_step a s t \<noteq> None"
  using assms awaitUnwind_returns [OF assms(2), of True True]
  by (auto simp: step_defs split: option.splits bool.splits)

subsection \<open>Teardown never holds a slot\<close>

fun destroys :: "microop \<Rightarrow> bool" where
  "destroys (MStopVM r) = True"
| "destroys (MDestroyEnv e) = True"
| "destroys (MDispatchDestroy n) = True"
| "destroys _ = False"

definition safe_tail :: "microop list \<Rightarrow> bool" where
  "safe_tail ms \<longleftrightarrow> (\<forall>m\<in>set (takeWhile (\<lambda>m. m \<noteq> MRelease) ms). \<not> destroys m)"

definition tail_ok :: "thread \<Rightarrow> bool" where
  "tail_ok t \<longleftrightarrow> (\<forall>ms p. th_pc t = PSeq ms \<longrightarrow> holds p t \<longrightarrow> safe_tail ms)"

lemma safe_tails [simp]:
  "safe_tail []"
  "safe_tail (claim_failed t e)" "safe_tail (local_create_failed t e)" "safe_tail (mac_stop_failed t b b')"
  "safe_tail (wait_tail p t rj)"
  "safe_tail (MReleaseJob c # cleanup_artifacts d @ [MUnsee, MRelease])"
  "safe_tail (MRelease # ms)"
  "safe_tail [MUnsee]" "safe_tail [MClearPending]" "safe_tail (MReleaseJob c # MUnsee # MCancel # MRelease # ms)"
  by (cases p; auto simp: safe_tail_def tail_defs)+

lemma tail_law:
  assumes "thread_step a s t = Some (s', t', ts, as)" and "tail_ok t"
  shows "tail_ok t' \<and> (\<forall>u\<in>set ts. tail_ok u)"
proof (cases "th_pc t")
  case (PSeq ms)
  show ?thesis
  proof (cases ms)
    case (Cons m ms')
    show ?thesis
    proof (cases "m = MRelease")
      case True
      then obtain s1 t1 where "release_slot s t = Some (s1, t1)" "t' = t1\<lparr>th_pc := PSeq ms'\<rparr>" "ts = []"
        using assms PSeq Cons by (auto simp: step_defs)
      then show ?thesis using release_slot_law(2) by (simp add: tail_ok_def holds_def)
    next
      case False
      have q: "th_slot t' = th_slot t" "\<forall>u\<in>set ts. th_pc u = PReprovAsk"
        using quiet_dispatch_step [OF assms(1)[unfolded thread_step_def] refl] False PSeq Cons by auto
      have "th_pc t' = PSeq ms' \<or> th_pc t' = PPanicked"
        using assms PSeq Cons by (cases m) (auto simp: step_defs split: prod.splits if_splits)
      then show ?thesis using q assms(2) PSeq Cons False by (auto simp: tail_ok_def holds_def safe_tail_def)
    qed
  qed (use assms PSeq in \<open>auto simp: step_defs tail_ok_def\<close>)
qed (use assms in \<open>auto simp: tail_ok_def step_defs admitted_def created_pc_def Let_def
      split: prod.splits if_splits option.splits sum.splits bool.splits provisionWake.splits acquireResult.splits\<close>)

subsection \<open>Admissions and the zombie counter\<close>

fun is_admit :: "action \<Rightarrow> bool" where
  "is_admit (AAdmit k) = True"
| "is_admit _ = False"

definition admits :: "jobKey \<Rightarrow> action list \<Rightarrow> nat" where
  "admits k as = count_if (\<lambda>a. a = AAdmit k) as"

lemma handleQueued_admit:
  assumes "handleQueued_locked s ev now = (ok, s')"
  shows "(if ok then s_attempts s' = (s_attempts s)(keyFor ev := s_attempts s (keyFor ev) + 1) \<and>
             s_attempts s (keyFor ev) < maxProvisionAttempts
          else s_attempts s k \<le> s_attempts s' k)"
  using assms by (auto simp: handleQueued_locked_def Let_def split: if_splits option.splits)

lemma admit_law:
  assumes "thread_step a s t = Some (s', t', ts, as)"
  shows "admits k as + (maxProvisionAttempts - s_attempts s' k) \<le> maxProvisionAttempts - s_attempts s k"
proof (cases "th_pc t")
  case PDedup
  obtain ok s1 where h: "handleQueued_locked s (th_event t) (a_now a) = (ok, s1)" by fastforce
  then show ?thesis using assms PDedup handleQueued_admit [OF h, of k]
    by (cases ok) (auto simp: step_defs admits_def)
next
  case (PSeq ms)
  show ?thesis
  proof (cases ms)
    case (Cons m ms')
    then show ?thesis using assms PSeq release_slot_keeps(1) [of s t]
      by (cases m) (auto simp: step_defs unsee_def stopVMBounded_def abandonVM_def enqueueRetryIfEligible_def
          reprovisionIfStranded_locked_def forgetActionsCache_def admits_def Let_def
          split: prod.splits if_splits option.splits)
  qed (use assms PSeq in \<open>simp add: step_defs admits_def\<close>)
next
  case PReturn
  then show ?thesis using assms release_slot_keeps(1) [of s t] by (auto simp: step_defs admits_def)
qed (use assms in \<open>auto simp: step_defs unsee_def admitDispatch_locked_def
      jobStillWanted_def abandonVM_def trackRunning_def untrackRunningLocked_def actionsCacheFor_def admits_def Let_def
      split: prod.splits if_splits option.splits sum.splits bool.splits provisionWake.splits acquireResult.splits\<close>)

subsection \<open>Well-formedness of the shared state\<close>

definition sched_ok :: "scheduler \<Rightarrow> bool" where
  "sched_ok s \<longleftrightarrow> (case s_retry s of None \<Rightarrow> True | Some q \<Rightarrow> rq_wf q) \<and> abandoned_wf (s_macAbandoned s) \<and>
     finite (Mapping.keys (s_running s)) \<and> finite (dom (s_runners s)) \<and>
     (\<forall>name rb. s_runners s name = Some rb \<longrightarrow> rb_addr rb < s_nextAddr s)"

lemma finite_dom_update [simp]: "finite (dom m) \<Longrightarrow> finite (dom (m(k := v)))"
  by (cases v) (auto simp: fun_upd_def [symmetric] dom_fun_upd)

lemma abandonVM_ok [wf_intros]: "sched_ok s \<Longrightarrow> sched_ok (abandonVM s landed r reason now)"
  by (auto simp: sched_ok_def abandonVM_def intro: abandoned_charge_wf)

lemma enqueue_ok [wf_intros]: "sched_ok s \<Longrightarrow> sched_ok (enqueueRetryIfEligible s ev e now now' dr)"
  by (auto simp: sched_ok_def enqueueRetryIfEligible_def intro: Add_wf split: option.splits)

lemma dropRetry_ok [wf_intros]: "sched_ok s \<Longrightarrow> sched_ok (dropRetry s key)"
  by (auto simp: sched_ok_def dropRetry_def intro: Drop_wf split: option.splits)

lemma track_ok [wf_intros]: "sched_ok s \<Longrightarrow> sched_ok (trackRunning s key rj prov lbl now)"
  by (auto simp: sched_ok_def trackRunning_def Let_def less_Suc_eq)

lemma untrack_ok [wf_intros]: "sched_ok s \<Longrightarrow> sched_ok (untrackRunningLocked s key rj)"
  by (auto simp: sched_ok_def untrackRunningLocked_def Let_def split: if_splits)

lemma setSem_ok [wf_intros]: "sched_ok s \<Longrightarrow> sched_ok (setSem s p c)"
  by (cases p) (simp_all add: sched_ok_def)

lemma stopVM_ok [wf_intros]: "sched_ok s \<Longrightarrow> sched_ok (stopVMBounded a s r)"
  by (simp add: stopVMBounded_def abandonVM_ok)

lemma perform_ok [wf_intros]: "sched_ok s \<Longrightarrow> sched_ok (perform a s act)"
  by (simp add: perform_def stopVM_ok split: action.splits)

lemma discharge_ok [wf_intros]: "sched_ok s \<Longrightarrow> sched_ok (dischargeVM s vid now)"
  by (simp add: sched_ok_def dischargeVM_def abandoned_discharge_wf)

lemma map_ops_ok [wf_intros]:
  "sched_ok s \<Longrightarrow> sched_ok (unsee s key)"
  "sched_ok s \<Longrightarrow> sched_ok (s\<lparr>s_pending := P\<rparr>)"
  "sched_ok s \<Longrightarrow> sched_ok (s\<lparr>s_draining := b\<rparr>)"
  "sched_ok s \<Longrightarrow> sched_ok (snd (handleQueued_locked s ev now))"
  "sched_ok s \<Longrightarrow> sched_ok (snd (admitDispatch_locked s key w))"
  "sched_ok s \<Longrightarrow> sched_ok (snd (jobStillWanted s ev ans now))"
  "sched_ok s \<Longrightarrow> sched_ok (snd (reprovisionIfStranded_locked s ev))"
  "sched_ok s \<Longrightarrow> sched_ok (markStarted s key now)"
  "sched_ok s \<Longrightarrow> sched_ok (resetBackoff s repo)"
  "sched_ok s \<Longrightarrow> sched_ok (cleanSeen s now)"
  "sched_ok s \<Longrightarrow> sched_ok (snd (destroyAll s order))"
  "sched_ok s \<Longrightarrow> sched_ok (s\<lparr>s_runners := (s_runners s)(name := None)\<rparr>)"
  by (auto simp: sched_ok_def unsee_def handleQueued_locked_def admitDispatch_locked_def jobStillWanted_def
      reprovisionIfStranded_locked_def markStarted_def resetBackoff_def cleanSeen_def destroyAll_def Let_def
      split: option.splits)

lemma bind_ok [wf_intros]: "sched_ok s \<Longrightarrow> sched_ok (snd (handleInProgress_bind s ev))"
  by (auto simp: sched_ok_def handleInProgress_bind_def Let_def split: option.splits)

lemma completed_target_ok [wf_intros]: "sched_ok s \<Longrightarrow> sched_ok (snd (completed_target s ev))"
  by (auto simp: completed_target_def Let_def wf_intros split: option.splits)

lemma nominate_ok [wf_intros]: "sched_ok s \<Longrightarrow> sched_ok (snd (nominateRunnerLocked s name rb))"
  by (auto simp: nominateRunnerLocked_def wf_intros split: option.splits)

lemma reap_ok [wf_intros]: "sched_ok s \<Longrightarrow> sched_ok (snd (reapRunnerLocked s name rb))"
  by (auto simp: reapRunnerLocked_def wf_intros split: option.splits)

lemma release_ok:
  "sched_ok s \<Longrightarrow> release_slot s t = Some (s', t') \<Longrightarrow> sched_ok s'"
  by (auto simp: release_slot_def wf_intros split: option.splits)

lemma runOne_ok: "sched_ok s \<Longrightarrow> s_retry s = Some q \<Longrightarrow> sched_ok (s\<lparr>s_retry := Some (runOne q r err now now' dr)\<rparr>)"
  by (simp add: sched_ok_def runOne_wf)

lemma sched_ok_pairs:
  "sched_ok s \<Longrightarrow> handleQueued_locked s ev now = (b, s') \<Longrightarrow> sched_ok s'"
  "sched_ok s \<Longrightarrow> admitDispatch_locked s key w = (v, s') \<Longrightarrow> sched_ok s'"
  "sched_ok s \<Longrightarrow> jobStillWanted s ev ans now = (b, s') \<Longrightarrow> sched_ok s'"
  "sched_ok s \<Longrightarrow> reprovisionIfStranded_locked s ev = (b, s') \<Longrightarrow> sched_ok s'"
  "sched_ok s \<Longrightarrow> handleInProgress_bind s ev = (b, s') \<Longrightarrow> sched_ok s'"
  "sched_ok s \<Longrightarrow> completed_target s ev = (tg, s') \<Longrightarrow> sched_ok s'"
  "sched_ok s \<Longrightarrow> nominateRunnerLocked s name rb = (n, s') \<Longrightarrow> sched_ok s'"
  "sched_ok s \<Longrightarrow> reapRunnerLocked s name rb = (ov, s') \<Longrightarrow> sched_ok s'"
  "sched_ok s \<Longrightarrow> destroyAll s order = (acts, s') \<Longrightarrow> sched_ok s'"
  using map_ops_ok bind_ok completed_target_ok nominate_ok reap_ok by (metis snd_conv)+

lemma thread_step_ok:
  assumes "thread_step a s t = Some (s', t', ts, as)" and "sched_ok s"
  shows "sched_ok s'"
proof (cases "th_pc t")
  case (PSeq ms)
  show ?thesis
  proof (cases ms)
    case (Cons m ms')
    then show ?thesis using assms PSeq
      by (cases m) (auto simp: step_defs wf_intros dest: sched_ok_pairs(4) release_ok split: prod.splits if_splits)
  qed (use assms PSeq in \<open>simp add: step_defs\<close>)
qed (use assms in \<open>auto simp: step_defs wf_intros runOne_ok Let_def dest: sched_ok_pairs release_ok
      split: prod.splits if_splits option.splits sum.splits bool.splits provisionWake.splits acquireResult.splits\<close>)

subsection \<open>One step of an event thread\<close>

text \<open>Under the lock the sweep changes nothing but the ledger, from which it drops stale records.\<close>

definition prunes :: "scheduler \<Rightarrow> scheduler \<Rightarrow> bool" where
  "prunes s s' \<longleftrightarrow> (\<exists>m. s' = s\<lparr>s_runners := m\<rparr> \<and> m \<subseteq>\<^sub>m s_runners s)"

lemma prunes_refl [simp]: "prunes s s"
  unfolding prunes_def by (rule exI [of _ "s_runners s"]) simp

lemma prunes_trans: "prunes s s' \<Longrightarrow> prunes s' s'' \<Longrightarrow> prunes s s''"
proof -
  assume "prunes s s'" "prunes s' s''"
  then obtain m m' where "s' = s\<lparr>s_runners := m\<rparr>" "m \<subseteq>\<^sub>m s_runners s" "s'' = s'\<lparr>s_runners := m'\<rparr>" "m' \<subseteq>\<^sub>m s_runners s'"
    by (auto simp: prunes_def)
  then have "s'' = s\<lparr>s_runners := m'\<rparr>" "m' \<subseteq>\<^sub>m s_runners s" by (auto intro: map_le_trans)
  then show ?thesis unfolding prunes_def by blast
qed

lemma prunesD:
  assumes "prunes s s'"
  shows "same_slots s s'" "s_draining s' = s_draining s" "s_running s' = s_running s" "s_started s' = s_started s"
    "s_nextAddr s' = s_nextAddr s" "sched_ok s \<Longrightarrow> sched_ok s'"
proof -
  obtain m where m: "s' = s\<lparr>s_runners := m\<rparr>" "m \<subseteq>\<^sub>m s_runners s" using assms by (auto simp: prunes_def)
  show "same_slots s s'" "s_draining s' = s_draining s" "s_running s' = s_running s" "s_started s' = s_started s"
    "s_nextAddr s' = s_nextAddr s" using m(1) by (simp_all add: same_slots_def sems_def)
  assume ok: "sched_ok s"
  have "finite (dom m)" using ok m(2) map_le_implies_dom_le [OF m(2)] finite_subset by (auto simp: sched_ok_def)
  moreover have "m n = Some rb \<Longrightarrow> s_runners s n = Some rb" for n rb using m(2) by (auto simp: map_le_def dom_def)
  ultimately show "sched_ok s'" using ok m(1) by (auto simp: sched_ok_def)
qed

lemma nominate_prunes: "nominateRunnerLocked s name rb = (n, s') \<Longrightarrow> prunes s s'"
  by (auto simp: nominateRunnerLocked_def split: option.splits if_splits)
     (auto simp: prunes_def map_le_def intro!: exI [of _ "(s_runners s)(name := None)"] split: if_splits)

lemma sweep_scan_prunes: "sweep_scan now grace names s = (noms, spares, s') \<Longrightarrow> prunes s s'"
proof (induction names arbitrary: s noms spares s')
  case (Cons name names)
  then show ?case
    by (auto simp: Let_def split: option.splits if_splits prod.splits)
       (blast intro: prunes_trans nominate_prunes)+
qed simp

lemma sweep_allocate_prunes: "sweep_allocate demand sps s = (noms, s') \<Longrightarrow> prunes s s'"
proof (induction sps arbitrary: demand s noms s')
  case (Cons sp sps)
  then show ?case
    by (cases sp) (auto simp: Let_def split: option.splits if_splits prod.splits intro: prunes_trans nominate_prunes)
qed simp

lemma sweep_locked_prunes: "sweep_locked s so ro now = (noms, s') \<Longrightarrow> prunes s s'"
  by (auto simp: sweep_locked_def Let_def split: if_splits prod.splits
      dest!: sweep_scan_prunes sweep_allocate_prunes intro: prunes_trans)

lemma event_step_frame:
  assumes "event_step e s x = Some (s', x', xs, as)"
  shows "same_slots s s' \<and> (sched_ok s \<longrightarrow> sched_ok s') \<and> (s_draining s \<longrightarrow> s_draining s')"
proof (cases x)
  case (ECompletedLocked ev)
  obtain tg s1 where ct: "completed_target (markStarted s (keyFor ev) (a_now (ea_answer e))) ev = (tg, s1)" by fastforce
  have f: "same_slots s s1" "sched_ok s \<Longrightarrow> sched_ok s1" "s_draining s1 = s_draining s"
    using same_slots_pairs(8) [OF ct] frame_simps(13) same_slots_trans apply blast
    using sched_ok_pairs(6) [OF _ ct] map_ops_ok(8) apply blast
    using ct by (auto simp: completed_target_def markStarted_def Let_def split: option.splits if_splits)
  have g: "same_slots s1 (resetBackoff (untrackRunningLocked s1 k j) r)"
    "sched_ok s1 \<Longrightarrow> sched_ok (resetBackoff (untrackRunningLocked s1 k j) r)"
    "s_draining (resetBackoff (untrackRunningLocked s1 k j) r) = s_draining s1" for k j r
    using same_slots_trans [OF frame_simps(9) frame_simps(16)] untrack_ok map_ops_ok(9)
    by (auto simp: resetBackoff_def untrackRunningLocked_def Let_def)
  have "s' = s1 \<or> (\<exists>k j. s' = resetBackoff (untrackRunningLocked s1 k j) (ev_repo ev))"
    using assms ct ECompletedLocked by (auto simp: handleCompleted_locked_def split: option.splits prod.splits)
  then show ?thesis using f g same_slots_trans by metis
next
  case ESweep
  then show ?thesis using assms
    by (auto split: prod.splits dest!: sweep_locked_prunes dest: prunesD)
next
  case (EVeto noms victims)
  then show ?thesis using assms by (cases noms) (auto simp: Let_def split: prod.splits if_splits)
next
  case (EReap n d st noms victims)
  then show ?thesis using assms
    by (auto simp: frame_simps split: prod.splits option.splits dest: same_slots_pairs(6) sched_ok_pairs(8))
       (auto simp: reapRunnerLocked_def untrackRunningLocked_def Let_def split: option.splits if_splits)
next
  case (EBind ev)
  then show ?thesis using assms
    by (auto split: prod.splits dest: same_slots_pairs(5) sched_ok_pairs(5))
       (auto simp: handleInProgress_bind_def Let_def split: option.splits if_splits)
next
  case (ETear acts sweep)
  have "s_draining (perform b s act) = s_draining s" for b act
    by (auto simp: perform_def stopVMBounded_def abandonVM_def split: action.splits)
  then show ?thesis using assms ETear
    by (cases acts) (auto simp: frame_simps wf_intros)
qed (use assms in \<open>auto simp: frame_simps wf_intros Let_def dropRetry_def markStarted_def destroyAll_def
      same_slots_def sems_def sched_ok_def split: prod.splits if_splits option.splits\<close>)

end
