(* ===== verification/Transition_System.thy ===== *)
theory Transition_System
  imports Prelude
begin

text \<open>
  The interface of a transition system: what is proved about every reachable state of the
  daemon is proved from these two rules.
\<close>

locale transition_system =
  fixes init :: "'s \<Rightarrow> bool"
    and step :: "'s \<Rightarrow> 's \<Rightarrow> bool"
begin

inductive reachable :: "'s \<Rightarrow> bool" where
  reachable_init: "init w \<Longrightarrow> reachable w"
| reachable_step: "reachable w \<Longrightarrow> step w w' \<Longrightarrow> reachable w'"

inductive steps :: "'s \<Rightarrow> 's \<Rightarrow> bool" where
  steps_refl: "steps w w"
| steps_step: "steps w w' \<Longrightarrow> step w' w'' \<Longrightarrow> steps w w''"

lemma reachable_invariant:
  assumes "reachable w" and "\<And>w. init w \<Longrightarrow> P w"
    and "\<And>w w'. reachable w \<Longrightarrow> P w \<Longrightarrow> step w w' \<Longrightarrow> P w'"
  shows "P w"
  using assms(1) by (induction rule: reachable.induct) (auto intro: assms)

lemma reachable_steps: "reachable w \<Longrightarrow> steps w w' \<Longrightarrow> reachable w'"
  by (rotate_tac 1, induction rule: steps.induct) (auto intro: reachable_step)

lemma steps_invariant:
  assumes "steps w w'" and "reachable w" and "P w"
    and "\<And>u v. reachable u \<Longrightarrow> P u \<Longrightarrow> step u v \<Longrightarrow> P v"
  shows "P w'"
  using assms(1,2,3)
proof (induction rule: steps.induct)
  case (steps_step w w' w'')
  then show ?case using assms(4) reachable_steps by blast
qed

lemma steps_trans: "steps v w \<Longrightarrow> steps u v \<Longrightarrow> steps u w"
  by (induction rule: steps.induct) (auto intro: steps_step)

end

end
