(* ===== verification/System.thy ===== *)
theory System
  imports Dispatch_Laws Transition_System
begin

text \<open>
  The daemon's scheduler as a whole: its state, the goroutines of the dispatch pipeline and
  of event handling, and the calls made so far. \<open>wstep\<close> lets any thread take a step, any
  event arrive, the tickers fire and the operator act, in any order: the loop of \<^verbatim>\<open>Run\<close> and
  the goroutines it starts.
\<close>

record world =
  w_sched :: scheduler
  w_threads :: "thread list"
  w_events :: "ethread list"
  w_trace :: "action list"

definition init_world :: "Config \<Rightarrow> world \<Rightarrow> bool" where
  "init_world cfg w \<longleftrightarrow> w = \<lparr>w_sched = New cfg, w_threads = [], w_events = [], w_trace = []\<rparr>"

definition fire_retries :: "scheduler \<Rightarrow> time \<Rightarrow> thread list \<times> scheduler" where
  "fire_retries s now =
     (case s_retry s of
        None \<Rightarrow> ([], s)
      | Some q \<Rightarrow>
          (let (due, q') = fireDue q now
           in (map (\<lambda>r. new_thread PRetry (it_event (rq_mem q' r)) (Some r)) due, s\<lparr>s_retry := Some q'\<rparr>)))"

text \<open>The arms of \<^verbatim>\<open>Run\<close>'s select and the operator's calls.\<close>

datatype input =
    InQueued JobEvent
  | InInProgress JobEvent
  | InCompleted JobEvent
  | InTick time
  | InShutdown
  | InRetryTimer time
  | InCordon
  | InUncordon
  | InWebhookMode bool
  | InMacOSVMConfig "int option"
  | InVMStopped nat time

fun accept :: "world \<Rightarrow> input \<Rightarrow> world" where
  "accept w (InQueued ev) = w\<lparr>w_threads := w_threads w @ [new_thread PCheck ev None]\<rparr>"
| "accept w (InInProgress ev) = w\<lparr>w_events := w_events w @ [EInProgress ev]\<rparr>"
| "accept w (InCompleted ev) = w\<lparr>w_events := w_events w @ [ECompleted ev]\<rparr>"
| "accept w (InTick now) = w\<lparr>w_sched := cleanSeen (w_sched w) now, w_events := w_events w @ [ESweep]\<rparr>"
| "accept w InShutdown = w\<lparr>w_events := w_events w @ [EDrain]\<rparr>"
| "accept w (InRetryTimer now) =
     (case fire_retries (w_sched w) now of
        (ts, s) \<Rightarrow> w\<lparr>w_sched := s, w_threads := w_threads w @ ts\<rparr>)"
| "accept w InCordon = w\<lparr>w_sched := snd (Cordon (w_sched w))\<rparr>"
| "accept w InUncordon = w\<lparr>w_sched := snd (Uncordon (w_sched w))\<rparr>"
| "accept w (InWebhookMode b) = w\<lparr>w_sched := (w_sched w)\<lparr>s_webhookMode := b\<rparr>\<rparr>"
| "accept w (InMacOSVMConfig c) = w\<lparr>w_sched := SetMacOSVMConfig (w_sched w) c\<rparr>"
| "accept w (InVMStopped vid now) = w\<lparr>w_sched := dischargeVM (w_sched w) vid now\<rparr>"

inductive wstep :: "world \<Rightarrow> world \<Rightarrow> bool" where
  w_thread:
    "i < length (w_threads w) \<Longrightarrow>
     thread_step a (w_sched w) (w_threads w ! i) = Some (s', t', ts, as) \<Longrightarrow>
     wstep w \<lparr>w_sched = s', w_threads = (w_threads w)[i := t'] @ ts, w_events = w_events w, w_trace = w_trace w @ as\<rparr>"
| w_event:
    "i < length (w_events w) \<Longrightarrow>
     event_step e (w_sched w) (w_events w ! i) = Some (s', x', xs, as) \<Longrightarrow>
     wstep w \<lparr>w_sched = s', w_threads = w_threads w, w_events = (w_events w)[i := x'] @ xs, w_trace = w_trace w @ as\<rparr>"
| w_input: "wstep w (accept w i)"


interpretation ws: transition_system "init_world cfg" wstep for cfg .

subsection \<open>The slot invariant\<close>

definition slots_inv :: "world \<Rightarrow> bool" where
  "slots_inv w \<longleftrightarrow>
     (\<forall>p. ch_len (semOf (w_sched w) p) = count_if (holds p) (w_threads w)) \<and>
     (\<forall>p. count_if (holds p) (w_threads w) \<le> ch_cap (semOf (w_sched w) p)) \<and>
     (\<forall>t\<in>set (w_threads w). thread_ok t)"

lemma ball_update_append:
  "\<forall>x\<in>set xs. P x \<Longrightarrow> P y \<Longrightarrow> \<forall>z\<in>set zs. P z \<Longrightarrow> \<forall>x\<in>set (xs[i := y] @ zs). P x"
  using set_update_subset_insert [of xs i y] by auto

lemma slots_inv_init: "init_world cfg w \<Longrightarrow> slots_inv w"
proof -
  assume "init_world cfg w"
  moreover have "ch_len (semOf (New cfg) p) = 0" for p
    by (cases p) (simp_all add: New_def Let_def make_chan_def)
  ultimately show ?thesis by (simp add: slots_inv_def init_world_def)
qed

lemma semOf_accept: "semOf (w_sched (accept w i)) p = semOf (w_sched w) p"
proof (rule semOf_sems, cases i)
  case (InTick now)
  then show "sems (w_sched (accept w i)) = sems (w_sched w)"
    using frame_simps(19) [of "w_sched w" now] by (simp add: same_slots_def)
qed (auto simp: sems_def fire_retries_def Cordon_def Uncordon_def SetMacOSVMConfig_def dischargeVM_def
      split: option.splits prod.splits)

lemma accept_threads:
  "\<exists>ts. w_threads (accept w i) = w_threads w @ ts \<and> (\<forall>u\<in>set ts. th_slot u = None \<and> pc_ok (th_pc u) \<and> \<not> claiming (th_pc u))"
  by (cases i) (auto simp: fire_retries_def split: option.splits prod.splits)

lemma slots_inv_step:
  assumes "wstep w w'" and "slots_inv w"
  shows "slots_inv w'"
  using assms(1)
proof (cases rule: wstep.cases)
  case (w_thread i a s' t' ts as)
  let ?t = "w_threads w ! i"
  have ok: "thread_ok ?t" using assms(2) w_thread(2) by (auto simp: slots_inv_def)
  note law = slot_step [OF w_thread(3) ok]
  have inv: "ch_len (semOf (w_sched w) p) = count_if (holds p) (w_threads w)"
    "ch_len (semOf (w_sched w) p) \<le> ch_cap (semOf (w_sched w) p)" for p
    using assms(2) by (simp_all add: slots_inv_def)
  have "ch_len (semOf s' p) + (if holds p ?t then 1 else 0) =
        ch_len (semOf (w_sched w) p) + (if holds p t' then 1 else 0) + count_if (holds p) ts" for p
    using law by (simp add: slot_law_def)
  note bal = this
  have "ch_len (semOf s' p) = count_if (holds p) ((w_threads w)[i := t'] @ ts)" for p
    using count_if_update [OF w_thread(2), of "holds p" t'] inv(1) [of p] bal [of p]
    by (auto split: if_splits)
  moreover have "ch_len (semOf s' p) \<le> ch_cap (semOf s' p)" for p using law inv(2) unfolding slot_law_def by blast
  moreover have "\<forall>u\<in>set ((w_threads w)[i := t'] @ ts). thread_ok u"
    using assms(2) law by (intro ball_update_append) (auto simp: slots_inv_def)
  ultimately show ?thesis using w_thread(1) by (simp add: slots_inv_def)
next
  case (w_event i e s' x' xs as)
  have "semOf s' p = semOf (w_sched w) p" for p
    using event_step_frame [OF w_event(3)] by (intro semOf_sems) (simp add: same_slots_def)
  then show ?thesis using assms(2) w_event(1) by (simp add: slots_inv_def)
next
  case (w_input i)
  obtain ts where ts: "w_threads w' = w_threads w @ ts" "\<forall>u\<in>set ts. th_slot u = None"
    using accept_threads [of w i] w_input by auto
  have "count_if (holds p) ts = 0" for p using ts(2) by (simp add: count_if_zero holds_def)
  then show ?thesis using assms(2) ts w_input semOf_accept [of w i]
    by (auto simp: slots_inv_def reprov_thread_ok)
qed

lemma reachable_slots_inv: "ws.reachable cfg w \<Longrightarrow> slots_inv w"
  by (rule ws.reachable_invariant) (auto intro: slots_inv_init slots_inv_step)

subsection \<open>Well-formedness of every reachable state\<close>

definition sys_inv :: "world \<Rightarrow> bool" where
  "sys_inv w \<longleftrightarrow> sched_ok (w_sched w) \<and> (\<forall>t\<in>set (w_threads w). pc_ok (th_pc t))"

lemma New_ok: "sched_ok (New cfg)"
  by (auto simp: sched_ok_def New_def Let_def newRetryQueue_wf abandoned_wf_def)

lemma fire_retries_ok: "sched_ok s \<Longrightarrow> fire_retries s now = (ts, s') \<Longrightarrow> sched_ok s'"
  by (auto simp: fire_retries_def sched_ok_def split: option.splits prod.splits dest: fireDue_correct)

lemma accept_ok: "sched_ok (w_sched w) \<Longrightarrow> sched_ok (w_sched (accept w i))"
  by (cases i) (auto simp: wf_intros Cordon_def Uncordon_def SetMacOSVMConfig_def split: prod.splits dest: fire_retries_ok,
      auto simp: sched_ok_def)

lemma sys_inv_step:
  assumes "wstep w w'" and "sys_inv w"
  shows "sys_inv w'"
  using assms(1)
proof (cases rule: wstep.cases)
  case (w_thread i a s' t' ts as)
  have ok: "pc_ok (th_pc (w_threads w ! i))" using assms(2) w_thread(2) by (auto simp: sys_inv_def)
  have "\<forall>u\<in>set ((w_threads w)[i := t'] @ ts). pc_ok (th_pc u)"
    using assms(2) rank_law [OF w_thread(3) ok] by (intro ball_update_append) (auto simp: sys_inv_def)
  then show ?thesis using thread_step_ok [OF w_thread(3)] assms(2) w_thread(1) by (simp add: sys_inv_def)
next
  case (w_event i e s' x' xs as)
  then show ?thesis using event_step_frame [OF w_event(3)] assms(2) by (simp add: sys_inv_def)
next
  case (w_input i)
  then show ?thesis using accept_threads [of w i] accept_ok [of w i] assms(2) by (auto simp: sys_inv_def)
qed

lemma reachable_sys_inv: "ws.reachable cfg w \<Longrightarrow> sys_inv w"
proof (rule ws.reachable_invariant)
  show "init_world cfg u \<Longrightarrow> sys_inv u" for u by (simp add: init_world_def sys_inv_def New_ok)
qed (auto intro: sys_inv_step)

subsection \<open>The cordon\<close>

definition no_register :: "ethread \<Rightarrow> bool" where
  "no_register x = (case x of ETear acts _ \<Rightarrow> (\<forall>a\<in>set acts. \<not> is_register a \<and> \<not> is_admit a) | _ \<Rightarrow> True)"

definition registered :: "world \<Rightarrow> nat" where
  "registered w = count_if is_register (w_trace w)"

definition claimants :: "world \<Rightarrow> nat" where
  "claimants w = count_if (\<lambda>t. claiming (th_pc t)) (w_threads w)"

lemma teardown_no_register [simp]:
  "a \<in> set (teardown cfg k rj) \<Longrightarrow> \<not> is_register a \<and> \<not> is_admit a"
  "a \<in> set (releaseJob_of rj) \<Longrightarrow> \<not> is_register a \<and> \<not> is_admit a"
  by (auto simp: teardown_def releaseJob_of_def split: option.splits if_splits)

lemma event_step_no_register:
  assumes "event_step e s x = Some (s', x', xs, as)" and "no_register x"
  shows "no_register x' \<and> (\<forall>y\<in>set xs. no_register y) \<and> (\<forall>a\<in>set as. \<not> is_register a \<and> \<not> is_admit a)"
proof (cases x)
  case (EVeto noms victims)
  then show ?thesis using assms
    by (cases noms) (auto simp: Let_def no_register_def victim_actions_def split: prod.splits if_splits)
next
  case (ETear acts sweep)
  then show ?thesis using assms by (cases acts) (auto simp: no_register_def)
next
  case EDrainWait
  then show ?thesis using assms
    by (auto simp: Let_def no_register_def destroyAll_def split: prod.splits if_splits option.splits)
qed (use assms in \<open>auto simp: no_register_def handleCompleted_locked_def bindActionsCache_def Let_def
      split: prod.splits if_splits option.splits\<close>)

lemma accept_events:
  "\<exists>xs. w_events (accept w i) = w_events w @ xs \<and> (\<forall>x\<in>set xs. no_register x)"
  "w_trace (accept w i) = w_trace w"
  by (cases i; auto simp: no_register_def split: prod.splits)+

lemma reachable_no_register: "ws.reachable cfg w \<Longrightarrow> \<forall>x\<in>set (w_events w). no_register x"
proof (rule ws.reachable_invariant)
  show "init_world cfg u \<Longrightarrow> \<forall>x\<in>set (w_events u). no_register x" for u by (simp add: init_world_def)
  fix u u' assume inv: "\<forall>x\<in>set (w_events u). no_register x" and st: "wstep u u'"
  from st show "\<forall>x\<in>set (w_events u'). no_register x"
  proof (cases rule: wstep.cases)
    case (w_event i e s' x' xs as)
    then have "no_register (w_events u ! i)" using inv by simp
    note law = event_step_no_register [OF w_event(3) this]
    have "\<forall>x\<in>set ((w_events u)[i := x'] @ xs). no_register x"
      using inv law by (intro ball_update_append) auto
    then show ?thesis using w_event(1) by simp
  next
    case (w_input i)
    then show ?thesis using accept_events [of u i] inv by auto
  qed (use inv in auto)
qed

text \<open>While the cordon is up, a registration costs one claimant.\<close>

lemma cordon_step:
  assumes "wstep w w'" and "s_draining (w_sched w)" and "\<forall>x\<in>set (w_events w). no_register x"
  shows "registered w' + claimants w' \<le> registered w + claimants w"
  using assms(1)
proof (cases rule: wstep.cases)
  case (w_thread i a s' t' ts as)
  note law = register_law [OF w_thread(3)]
  have "count_if (\<lambda>t. claiming (th_pc t)) ts = 0" using law(2) by (simp add: count_if_zero)
  then show ?thesis
    using law(1) assms(2) count_if_update [OF w_thread(2), of "\<lambda>t. claiming (th_pc t)" t'] w_thread(1)
    by (auto simp: registered_def claimants_def split: if_splits)
next
  case (w_event i e s' x' xs as)
  then have "no_register (w_events w ! i)" using assms(3) by simp
  then have "count_if is_register as = 0"
    using event_step_no_register [OF w_event(3)] by (simp add: count_if_zero)
  then show ?thesis using w_event(1) by (simp add: registered_def claimants_def)
next
  case (w_input i)
  obtain ts where ts: "w_threads w' = w_threads w @ ts" "\<forall>u\<in>set ts. \<not> claiming (th_pc u)"
    using accept_threads [of w i] w_input by auto
  then have "count_if (\<lambda>t. claiming (th_pc t)) ts = 0" by (simp add: count_if_zero)
  then show ?thesis using ts(1) accept_events(2) [of w i] w_input by (simp add: registered_def claimants_def)
qed

text \<open>An execution during which the scheduler stays cordoned.\<close>

inductive cordoned_run :: "world \<Rightarrow> world \<Rightarrow> bool" where
  cordoned_refl: "s_draining (w_sched w) \<Longrightarrow> cordoned_run w w"
| cordoned_step: "cordoned_run w w' \<Longrightarrow> wstep w' w'' \<Longrightarrow> s_draining (w_sched w'') \<Longrightarrow> cordoned_run w w''"

lemma cordoned_run_registers:
  assumes "cordoned_run w w'" and "ws.reachable cfg w"
  shows "ws.reachable cfg w' \<and> s_draining (w_sched w') \<and> registered w' + claimants w' \<le> registered w + claimants w"
  using assms
proof (induction rule: cordoned_run.induct)
  case (cordoned_step w w' w'')
  then have IH: "ws.reachable cfg w'" "s_draining (w_sched w')" "registered w' + claimants w' \<le> registered w + claimants w"
    by blast+
  have "registered w'' + claimants w'' \<le> registered w' + claimants w'"
    by (rule cordon_step [OF cordoned_step.hyps(2) IH(2) reachable_no_register [OF IH(1)]])
  then show ?case using IH cordoned_step.hyps ws.reachable_step by fastforce
qed simp

subsection \<open>Capacities, teardown tails, admissions\<close>

lemma cap_step:
  assumes "wstep w w'" and "slots_inv w"
  shows "ch_cap (semOf (w_sched w') p) = ch_cap (semOf (w_sched w) p)"
  using assms(1)
proof (cases rule: wstep.cases)
  case (w_thread i a s' t' ts as)
  then have "thread_ok (w_threads w ! i)" using assms(2) by (simp add: slots_inv_def)
  then show ?thesis using slot_step [OF w_thread(3)] w_thread(1) by (simp add: slot_law_def)
next
  case (w_event i e s' x' xs as)
  then show ?thesis using event_step_frame [OF w_event(3)] semOf_sems [of s' "w_sched w" p] by (simp add: same_slots_def)
qed (simp add: semOf_accept)

lemma reachable_caps: "ws.reachable cfg w \<Longrightarrow> ch_cap (semOf (w_sched w) p) = ch_cap (semOf (New cfg) p)"
proof (rule ws.reachable_invariant)
  show "init_world cfg u \<Longrightarrow> ch_cap (semOf (w_sched u) p) = ch_cap (semOf (New cfg) p)" for u
    by (simp add: init_world_def)
qed (use cap_step reachable_slots_inv in auto)

lemma reachable_tail_ok: "ws.reachable cfg w \<Longrightarrow> \<forall>t\<in>set (w_threads w). tail_ok t"
proof (rule ws.reachable_invariant)
  show "init_world cfg u \<Longrightarrow> \<forall>t\<in>set (w_threads u). tail_ok t" for u by (simp add: init_world_def)
  fix u u' assume inv: "\<forall>t\<in>set (w_threads u). tail_ok t" and st: "wstep u u'"
  from st show "\<forall>t\<in>set (w_threads u'). tail_ok t"
  proof (cases rule: wstep.cases)
    case (w_thread i a s' t' ts as)
    then have "tail_ok (w_threads u ! i)" using inv by simp
    note law = tail_law [OF w_thread(3) this]
    have "\<forall>x\<in>set ((w_threads u)[i := t'] @ ts). tail_ok x"
      using inv law by (intro ball_update_append) auto
    then show ?thesis using w_thread(1) by simp
  next
    case (w_input i)
    obtain ts where ts: "w_threads u' = w_threads u @ ts" "\<forall>t\<in>set ts. th_slot t = None"
      using accept_threads [of u i] w_input by auto
    moreover have "tail_ok t" if "th_slot t = None" for t using that by (simp add: tail_ok_def holds_def)
    ultimately show ?thesis using inv by auto
  qed (use inv in auto)
qed

text \<open>An execution without a cleanup tick, the only thing that lowers a zombie counter.\<close>

inductive tickless_run :: "world \<Rightarrow> world \<Rightarrow> bool" where
  tickless_refl: "tickless_run w w"
| tickless_step: "tickless_run w w' \<Longrightarrow> wstep w' w'' \<Longrightarrow> (\<And>now. w'' \<noteq> accept w' (InTick now)) \<Longrightarrow> tickless_run w w''"

lemma event_step_attempts:
  assumes "event_step e s x = Some (s', x', xs, as)"
  shows "s_attempts s' = s_attempts s"
proof (cases x)
  case (EReap n d st noms victims)
  then show ?thesis using assms
    by (auto simp: reapRunnerLocked_def untrackRunningLocked_def Let_def split: prod.splits option.splits if_splits)
next
  case (EVeto noms victims)
  then show ?thesis using assms by (cases noms) (auto simp: Let_def split: prod.splits if_splits)
next
  case (ETear acts sweep)
  then show ?thesis using assms
    by (cases acts) (auto simp: perform_def stopVMBounded_def abandonVM_def split: action.splits)
next
  case ESweep
  then show ?thesis using assms by (auto simp: prunes_def split: prod.splits dest!: sweep_locked_prunes)
qed (use assms in \<open>auto simp: dropRetry_def markStarted_def handleInProgress_bind_def handleCompleted_locked_def
      completed_target_def untrackRunningLocked_def resetBackoff_def destroyAll_def Let_def
      split: prod.splits option.splits if_splits\<close>)

definition admitted_jobs :: "jobKey \<Rightarrow> world \<Rightarrow> nat" where
  "admitted_jobs k w = admits k (w_trace w)"

lemma accept_attempts:
  "(\<And>now. i \<noteq> InTick now) \<Longrightarrow> s_attempts (w_sched (accept w i)) = s_attempts (w_sched w)"
  by (cases i) (auto simp: fire_retries_def Cordon_def Uncordon_def SetMacOSVMConfig_def dischargeVM_def
      split: option.splits prod.splits)

lemma no_admits: "\<forall>a\<in>set as. \<not> is_admit a \<Longrightarrow> admits k as = 0"
  by (auto simp: admits_def count_if_zero)

lemma tickless_step_admits:
  assumes "wstep w w'" and "\<And>now. w' \<noteq> accept w (InTick now)" and "\<forall>x\<in>set (w_events w). no_register x"
  shows "admitted_jobs k w' + (maxProvisionAttempts - s_attempts (w_sched w') k)
       \<le> admitted_jobs k w + (maxProvisionAttempts - s_attempts (w_sched w) k)"
  using assms(1)
proof (cases rule: wstep.cases)
  case (w_thread i a s' t' ts as)
  then show ?thesis using admit_law [OF w_thread(3), of k] by (simp add: admitted_jobs_def admits_def)
next
  case (w_event i e s' x' xs as)
  then have "no_register (w_events w ! i)" using assms(3) by simp
  then have "admits k as = 0" using event_step_no_register [OF w_event(3)] by (intro no_admits) simp
  then show ?thesis using w_event(1) event_step_attempts [OF w_event(3)] by (simp add: admitted_jobs_def admits_def)
next
  case (w_input i)
  then have "s_attempts (w_sched w') = s_attempts (w_sched w)" using accept_attempts [of i w] assms(2) by metis
  then show ?thesis using accept_events(2) [of w i] w_input by (simp add: admitted_jobs_def)
qed

lemma tickless_run_admits:
  assumes "tickless_run w w'" and "ws.reachable cfg w"
  shows "ws.reachable cfg w' \<and> admitted_jobs k w' + (maxProvisionAttempts - s_attempts (w_sched w') k)
       \<le> admitted_jobs k w + (maxProvisionAttempts - s_attempts (w_sched w) k)"
  using assms
proof (induction rule: tickless_run.induct)
  case (tickless_step w w' w'')
  have "admitted_jobs k w'' + (maxProvisionAttempts - s_attempts (w_sched w'') k)
       \<le> admitted_jobs k w' + (maxProvisionAttempts - s_attempts (w_sched w') k)"
    using tickless_step by (intro tickless_step_admits reachable_no_register) auto
  then show ?case using tickless_step ws.reachable_step by fastforce
qed simp

subsection \<open>Executing the daemon\<close>

text \<open>A schedule: which thread moves next, with which answers.\<close>

datatype move = MvThread nat answer | MvEvent nat eanswer | MvInput input

fun run_move :: "world \<Rightarrow> move \<Rightarrow> world option" where
  "run_move w (MvThread i a) =
     (if i < length (w_threads w)
      then (case thread_step a (w_sched w) (w_threads w ! i) of
              None \<Rightarrow> None
            | Some (s', t', ts, as) \<Rightarrow>
                Some \<lparr>w_sched = s', w_threads = (w_threads w)[i := t'] @ ts, w_events = w_events w, w_trace = w_trace w @ as\<rparr>)
      else None)"
| "run_move w (MvEvent i e) =
     (if i < length (w_events w)
      then (case event_step e (w_sched w) (w_events w ! i) of
              None \<Rightarrow> None
            | Some (s', x', xs, as) \<Rightarrow>
                Some \<lparr>w_sched = s', w_threads = w_threads w, w_events = (w_events w)[i := x'] @ xs, w_trace = w_trace w @ as\<rparr>)
      else None)"
| "run_move w (MvInput i) = Some (accept w i)"

fun run_moves :: "world \<Rightarrow> move list \<Rightarrow> world option" where
  "run_moves w [] = Some w"
| "run_moves w (m # ms) = (case run_move w m of None \<Rightarrow> None | Some w' \<Rightarrow> run_moves w' ms)"

lemma run_move_step: "run_move w m = Some w' \<Longrightarrow> wstep w w'"
proof (cases m)
  case (MvThread i a)
  moreover assume "run_move w m = Some w'"
  ultimately show ?thesis by (auto split: if_splits option.splits prod.splits intro: w_thread)
next
  case (MvEvent i e)
  moreover assume "run_move w m = Some w'"
  ultimately show ?thesis by (auto split: if_splits option.splits prod.splits intro: w_event)
next
  case (MvInput i)
  moreover assume "run_move w m = Some w'"
  ultimately show ?thesis using w_input by auto
qed

lemma run_moves_reachable: "run_moves w ms = Some w' \<Longrightarrow> ws.reachable cfg w \<Longrightarrow> ws.reachable cfg w'"
  by (induction w ms rule: run_moves.induct) (auto split: option.splits dest: run_move_step intro: ws.reachable_step)

definition start_world :: "Config \<Rightarrow> world" where
  "start_world cfg = \<lparr>w_sched = New cfg, w_threads = [], w_events = [], w_trace = []\<rparr>"

lemma start_reachable: "ws.reachable cfg (start_world cfg)"
  by (rule ws.reachable_init) (simp add: init_world_def start_world_def)

end
