(* ===== verification/Runner_Laws.thy ===== *)
theory Runner_Laws
  imports System
begin

text \<open>
  Which runners the daemon destroys: laws of \<^verbatim>\<open>handleCompleted\<close>, of the runner ledger and of
  the orphan sweep. The ledger laws are about addresses: a binding keeps its identity from
  the moment \<^verbatim>\<open>trackRunning\<close> allocates it, and once it is bound it stays bound.
\<close>

subsection \<open>Bindings over time\<close>

definition ledger_law :: "scheduler \<Rightarrow> scheduler \<Rightarrow> bool" where
  "ledger_law s s' \<longleftrightarrow>
     s_nextAddr s \<le> s_nextAddr s' \<and>
     (\<forall>n rb'. s_runners s' n = Some rb' \<longrightarrow>
        s_nextAddr s \<le> rb_addr rb' \<or>
        (\<exists>rb. s_runners s n = Some rb \<and> rb_addr rb = rb_addr rb' \<and> (rb_bound rb \<longrightarrow> rb_bound rb')))"

lemma ledger_law_refl [simp]: "ledger_law s s"
  by (simp add: ledger_law_def)

lemma ledger_law_same: "s_runners s' = s_runners s \<Longrightarrow> s_nextAddr s' = s_nextAddr s \<Longrightarrow> ledger_law s s'"
  by (simp add: ledger_law_def)

lemma ledger_law_drop:
  "s_runners s' \<subseteq>\<^sub>m s_runners s \<Longrightarrow> s_nextAddr s' = s_nextAddr s \<Longrightarrow> ledger_law s s'"
  unfolding ledger_law_def map_le_def by (metis domI order_refl)

named_theorems ledger_simps \<open>state functions and the ledger\<close>

lemma ledger_keeps [ledger_simps]:
  "ledger_law s (unsee s key)"
  "ledger_law s (snd (handleQueued_locked s ev now))"
  "ledger_law s (snd (admitDispatch_locked s key w))"
  "ledger_law s (snd (jobStillWanted s ev ans now))"
  "ledger_law s (abandonVM s landed r reason now)"
  "ledger_law s (enqueueRetryIfEligible s ev e now now' dr)"
  "ledger_law s (snd (reprovisionIfStranded_locked s ev))"
  "ledger_law s (dropRetry s key)"
  "ledger_law s (stopVMBounded a s r)"
  "ledger_law s (perform a s act)"
  "ledger_law s (markStarted s key now)"
  "ledger_law s (cleanSeen s now)"
  "ledger_law s (setSem s p c)"
  "ledger_law s (s\<lparr>s_pending := P\<rparr>)"
  "ledger_law s (s\<lparr>s_retry := q\<rparr>)"
  by (rule ledger_law_same; cases p;
      auto simp: unsee_def handleQueued_locked_def admitDispatch_locked_def
      jobStillWanted_def abandonVM_def enqueueRetryIfEligible_def reprovisionIfStranded_locked_def
      dropRetry_def stopVMBounded_def perform_def markStarted_def cleanSeen_def Let_def
      split: option.splits action.splits)+

lemma ledger_track [ledger_simps]: "ledger_law s (trackRunning s key rj prov lbl now)"
  by (auto simp: ledger_law_def trackRunning_def Let_def)

lemma ledger_untrack [ledger_simps]: "ledger_law s (untrackRunningLocked s key rj)"
  by (rule ledger_law_drop) (auto simp: untrackRunningLocked_def map_le_def Let_def split: if_splits)

lemma ledger_bind: "handleInProgress_bind s ev = (b, s') \<Longrightarrow> ledger_law s s'"
  by (auto simp: handleInProgress_bind_def ledger_law_def Let_def split: option.splits if_splits)

lemma ledger_reap: "reapRunnerLocked s name rb = (ov, s') \<Longrightarrow> ledger_law s s'"
proof -
  have "ledger_law s (s\<lparr>s_runners := (s_runners s)(name := None)\<rparr>)"
    by (rule ledger_law_drop) (auto simp: map_le_def split: if_splits)
  then show "reapRunnerLocked s name rb = (ov, s') \<Longrightarrow> ledger_law s s'"
    by (auto simp: reapRunnerLocked_def ledger_simps split: option.splits if_splits)
qed

lemma ledger_pairs:
  "handleQueued_locked s ev now = (b, s') \<Longrightarrow> ledger_law s s'"
  "admitDispatch_locked s key w = (v, s') \<Longrightarrow> ledger_law s s'"
  "jobStillWanted s ev ans now = (b, s') \<Longrightarrow> ledger_law s s'"
  "reprovisionIfStranded_locked s ev = (b, s') \<Longrightarrow> ledger_law s s'"
  using ledger_keeps by (metis snd_conv)+

lemma ledger_release: "release_slot s t = Some (s', t') \<Longrightarrow> ledger_law s s'"
  by (auto simp: release_slot_def ledger_simps split: option.splits)

lemma thread_step_ledger:
  assumes "thread_step a s t = Some (s', t', ts, as)"
  shows "ledger_law s s'"
proof (cases "th_pc t")
  case (PSeq ms)
  show ?thesis
  proof (cases ms)
    case (Cons m ms')
    then show ?thesis using assms PSeq
      by (cases m) (auto simp: step_defs ledger_simps dest: ledger_pairs ledger_release split: prod.splits if_splits)
  qed (use assms PSeq in \<open>simp add: step_defs\<close>)
qed (use assms in \<open>auto simp: step_defs ledger_simps Let_def dest: ledger_pairs ledger_release
      split: prod.splits if_splits option.splits sum.splits bool.splits provisionWake.splits acquireResult.splits\<close>)

lemma ledger_completed: "handleCompleted_locked s ev now = (acts, s') \<Longrightarrow> ledger_law s s'"
  by (rule ledger_law_drop)
     (auto simp: handleCompleted_locked_def completed_target_def markStarted_def untrackRunningLocked_def
        resetBackoff_def map_le_def Let_def split: option.splits if_splits prod.splits)

lemma event_step_ledger:
  assumes "event_step e s x = Some (s', x', xs, as)"
  shows "ledger_law s s'"
proof (cases x)
  case (EVeto noms victims)
  then show ?thesis using assms by (cases noms) (auto simp: Let_def split: prod.splits if_splits)
next
  case (EReap n d st noms victims)
  then show ?thesis using assms by (auto split: prod.splits option.splits dest: ledger_reap)
next
  case (ETear acts sweep)
  then show ?thesis using assms by (cases acts) (auto simp: ledger_simps)
next
  case ESweep
  then show ?thesis using assms
    by (auto split: prod.splits dest!: sweep_locked_prunes simp: prunes_def intro!: ledger_law_drop)
qed (use assms in \<open>auto simp: ledger_simps destroyAll_def Let_def intro: ledger_law_drop
      dest: ledger_bind ledger_completed split: prod.splits if_splits\<close>)

lemma accept_ledger: "ledger_law (w_sched w) (w_sched (accept w i))"
  by (cases i) (auto simp: ledger_simps fire_retries_def Cordon_def Uncordon_def SetMacOSVMConfig_def dischargeVM_def
      intro: ledger_law_same split: option.splits prod.splits)

lemma wstep_ledger: "wstep w w' \<Longrightarrow> ledger_law (w_sched w) (w_sched w')"
  by (auto elim!: wstep.cases simp: accept_ledger dest: thread_step_ledger event_step_ledger)

text \<open>The binding with address \<open>a\<close> is bound to a job for as long as it exists.\<close>

definition stays_bound :: "string \<Rightarrow> nat \<Rightarrow> scheduler \<Rightarrow> bool" where
  "stays_bound n a s \<longleftrightarrow> a < s_nextAddr s \<and> (\<forall>rb. s_runners s n = Some rb \<longrightarrow> rb_addr rb = a \<longrightarrow> rb_bound rb)"

lemma stays_bound_law: "ledger_law s s' \<Longrightarrow> stays_bound n a s \<Longrightarrow> stays_bound n a s'"
  unfolding ledger_law_def stays_bound_def by (metis not_le order_less_le_trans)

lemma steps_stay_bound:
  assumes "ws.steps w w'" and "stays_bound n a (w_sched w)"
  shows "stays_bound n a (w_sched w')"
  using assms by (induction rule: ws.steps.induct) (auto intro: stays_bound_law wstep_ledger)

lemma reap_bound: "stays_bound n (rb_addr rb0) s \<Longrightarrow> reapRunnerLocked s n rb0 = (None, s)"
  by (auto simp: stays_bound_def reapRunnerLocked_def split: option.splits)

subsection \<open>What the sweep nominates\<close>

definition spare_now :: "scheduler \<Rightarrow> time \<Rightarrow> time \<Rightarrow> string \<Rightarrow> runnerBinding option" where
  "spare_now s now grace name =
     (case s_runners s name of
        None \<Rightarrow> None
      | Some rb \<Rightarrow>
          if rb_bound rb \<or> \<not> rb_observable rb \<or> grace \<le> now - rb_dispatchedAt rb \<or> s_started s (rb_intentKey rb) = None
          then None else Some rb)"

definition nominated_ok :: "scheduler \<Rightarrow> orphanNomination \<Rightarrow> bool" where
  "nominated_ok s n \<longleftrightarrow>
     s_runners s (on_name n) = Some (on_rb n) \<and> \<not> rb_bound (on_rb n) \<and> rb_observable (on_rb n) \<and>
     running_of s (rb_intentKey (on_rb n)) = Some (on_rj n) \<and> runnerName (on_rj n) = on_name n"

lemma nominate_result:
  "nominateRunnerLocked s name rb = (Some n, s') \<Longrightarrow>
   s' = s \<and> n = \<lparr>on_name = name, on_rb = rb, on_rj = on_rj n, on_discharged = False\<rparr> \<and>
   running_of s (rb_intentKey rb) = Some (on_rj n) \<and> runnerName (on_rj n) = name"
  by (auto simp: nominateRunnerLocked_def split: option.splits if_splits)

lemma prunes_lookup: "prunes s s' \<Longrightarrow> s_runners s' n = Some rb \<Longrightarrow> s_runners s n = Some rb"
  by (auto simp: prunes_def map_le_def dom_def)

lemma prunes_nominated: "prunes s s' \<Longrightarrow> nominated_ok s' n \<Longrightarrow> nominated_ok s n"
  using prunes_lookup prunesD(3) by (auto simp: nominated_ok_def)

lemma sweep_scan_noms:
  assumes "sweep_scan now grace names s = (noms, spares, s')" and "n \<in> set noms"
  shows "nominated_ok s n \<and> grace \<le> now - rb_dispatchedAt (on_rb n) \<and> \<not> on_discharged n"
  using assms
proof (induction names arbitrary: s noms spares s')
  case (Cons name names)
  show ?case
  proof (cases "s_runners s name")
    case (Some rb)
    show ?thesis
    proof (cases "rb_bound rb \<or> \<not> rb_observable rb \<or> now - rb_dispatchedAt rb < grace")
      case True
      then obtain spares1 where "sweep_scan now grace names s = (noms, spares1, s')"
        using Cons.prems(1) Some by (auto simp: Let_def split: if_splits prod.splits)
      then show ?thesis using Cons.IH Cons.prems(2) by blast
    next
      case False
      obtain m s1 noms1 where d: "nominateRunnerLocked s name rb = (m, s1)"
        "sweep_scan now grace names s1 = (noms1, spares, s')" "noms = (case m of Some x \<Rightarrow> x # noms1 | None \<Rightarrow> noms1)"
        using Cons.prems(1) Some False by (auto simp: Let_def split: prod.splits)
      have "n \<in> set noms1 \<or> m = Some n" using d(3) Cons.prems(2) by (auto split: option.splits)
      then show ?thesis
      proof
        assume "n \<in> set noms1"
        then show ?thesis using Cons.IH [OF d(2)] prunes_nominated [OF nominate_prunes [OF d(1)]] by blast
      next
        assume "m = Some n"
        then show ?thesis using nominate_result [of s name rb n s1] d(1) Some False
          by (cases n) (auto simp: nominated_ok_def)
      qed
    qed
  qed (use Cons in auto)
qed simp

lemma nominate_keeps_others:
  "nominateRunnerLocked s name rb = (n, s') \<Longrightarrow> name' \<noteq> name \<Longrightarrow> s_runners s' name' = s_runners s name'"
  by (auto simp: nominateRunnerLocked_def split: option.splits if_splits)

lemma map_filter_cong: "(\<And>x. x \<in> set xs \<Longrightarrow> f x = g x) \<Longrightarrow> List.map_filter f xs = List.map_filter g xs"
  by (induction xs) (auto simp: map_filter_simps split: option.splits)

lemma sweep_scan_spares:
  assumes "sweep_scan now grace names s = (noms, spares, s')" and "distinct names"
  shows "spares = List.map_filter (\<lambda>name. map_option (Pair name) (spare_now s now grace name)) names"
  using assms
proof (induction names arbitrary: s noms spares s')
  case (Cons name names)
  show ?case
  proof (cases "s_runners s name")
    case None
    then show ?thesis using Cons by (simp add: spare_now_def map_filter_simps)
  next
    case (Some rb)
    show ?thesis
    proof (cases "\<not> rb_bound rb \<and> rb_observable rb \<and> grace \<le> now - rb_dispatchedAt rb")
      case True
      obtain m s1 noms1 where d: "nominateRunnerLocked s name rb = (m, s1)"
        "sweep_scan now grace names s1 = (noms1, spares, s')"
        using Cons.prems(1) Some True by (auto simp: Let_def split: prod.splits)
      have "spare_now s1 now grace x = spare_now s now grace x" if "x \<in> set names" for x
      proof -
        have "x \<noteq> name" using that Cons.prems(2) by auto
        then have "s_runners s1 x = s_runners s x" by (rule nominate_keeps_others [OF d(1)])
        then show ?thesis using prunesD(4) [OF nominate_prunes [OF d(1)]]
          by (auto simp: spare_now_def split: option.splits)
      qed
      then have "List.map_filter (\<lambda>x. map_option (Pair x) (spare_now s1 now grace x)) names =
                 List.map_filter (\<lambda>x. map_option (Pair x) (spare_now s now grace x)) names"
        by (intro map_filter_cong) simp
      then show ?thesis using Cons.IH [OF d(2)] Cons.prems(2) Some True by (simp add: spare_now_def map_filter_simps)
    next
      case False
      obtain noms1 spares1 where d: "sweep_scan now grace names s = (noms1, spares1, s')"
        "spares = (if spare_now s now grace name \<noteq> None then (name, rb) # spares1 else spares1)"
        using Cons.prems(1) Some False
        by (auto simp: Let_def spare_now_def split: if_splits prod.splits)
      have "spare_now s now grace name = None \<or> spare_now s now grace name = Some rb"
        using Some by (simp add: spare_now_def)
      then show ?thesis using Cons.IH [OF d(1)] Cons.prems(2) d(2) by (auto simp: map_filter_simps)
    qed
  qed
qed (simp add: map_filter_simps)

abbreviation of_class :: "string \<Rightarrow> string \<times> runnerBinding \<Rightarrow> bool" where
  "of_class L sp \<equiv> rb_labelSet (snd sp) = L"

lemma sweep_allocate_noms:
  assumes "sweep_allocate demand sps s = (noms, s')" and "n \<in> set noms"
  shows "on_discharged n \<and> (on_name n, on_rb n) \<in> set sps \<and>
         running_of s (rb_intentKey (on_rb n)) = Some (on_rj n) \<and> runnerName (on_rj n) = on_name n"
  using assms
proof (induction sps arbitrary: demand s noms s')
  case (Cons sp sps)
  obtain name rb where sp: "sp = (name, rb)" by fastforce
  show ?case
  proof (cases "0 < demand (rb_labelSet rb)")
    case True
    then show ?thesis using Cons sp by auto
  next
    case False
    then obtain m s1 noms1 where d: "nominateRunnerLocked s name rb = (m, s1)" "sweep_allocate demand sps s1 = (noms1, s')"
      "noms = (case m of Some x \<Rightarrow> x\<lparr>on_discharged := True\<rparr> # noms1 | None \<Rightarrow> noms1)"
      using Cons.prems(1) sp by (auto simp: Let_def split: prod.splits)
    have run: "s_running s1 = s_running s" using nominate_prunes [OF d(1)] prunesD(3) by blast
    have "n \<in> set noms1 \<or> (\<exists>x. m = Some x \<and> n = x\<lparr>on_discharged := True\<rparr>)"
      using d(3) Cons.prems(2) by (auto split: option.splits)
    then show ?thesis
    proof
      assume "n \<in> set noms1"
      then show ?thesis using Cons.IH [OF d(2)] run by auto
    next
      assume "\<exists>x. m = Some x \<and> n = x\<lparr>on_discharged := True\<rparr>"
      then obtain x where x: "m = Some x" "n = x\<lparr>on_discharged := True\<rparr>" by blast
      then show ?thesis using nominate_result [of s name rb x s1] d(1) sp by (cases x) auto
    qed
  qed
qed simp

lemma sweep_allocate_keeps:
  assumes "sweep_allocate demand sps s = (noms, s')"
  shows "count_if (\<lambda>n. rb_labelSet (on_rb n) = L) noms + min (demand L) (count_if (of_class L) sps)
           \<le> count_if (of_class L) sps"
  using assms
proof (induction sps arbitrary: demand s noms s')
  case (Cons sp sps)
  obtain name rb where sp: "sp = (name, rb)" by fastforce
  show ?case
  proof (cases "0 < demand (rb_labelSet rb)")
    case True
    then have "sweep_allocate (demand(rb_labelSet rb := demand (rb_labelSet rb) - 1)) sps s = (noms, s')"
      using Cons.prems sp by simp
    from Cons.IH [OF this] True show ?thesis using sp by (auto split: if_splits)
  next
    case False
    then obtain m s1 noms1 where d: "nominateRunnerLocked s name rb = (m, s1)" "sweep_allocate demand sps s1 = (noms1, s')"
      "noms = (case m of Some x \<Rightarrow> x\<lparr>on_discharged := True\<rparr> # noms1 | None \<Rightarrow> noms1)"
      using Cons.prems sp by (auto simp: Let_def split: prod.splits)
    have "m = Some x \<Longrightarrow> on_rb x = rb" for x using nominate_result [of s name rb x s1] d(1) by (cases x) auto
    then show ?thesis using Cons.IH [OF d(2)] d(3) sp False by (auto split: option.splits)
  qed
qed simp

lemma count_if_sort_key: "count_if P (sort_key f xs) = count_if P xs"
  unfolding count_if_def by (metis filter_sort length_sort)

end
