(* ===== verification/Demo.thy ===== *)
theory Demo
  imports System
begin

text \<open>
  Concrete configurations, events and schedules on which the properties are applied: a
  Linux node with one slot, a macOS node with one VM, a GitHub-like provider.
\<close>

definition demo_provider :: provider where
  "demo_provider = \<lparr>p_name = ''github'', p_defaultImageFor = (\<lambda>_. []), p_reportsRunnerNames = Some True,
     p_jobStateReporter = True, p_runnerBusyReporter = True, p_cacheScoper = False, p_webhook = True,
     p_owner = Some ''ephpm''\<rparr>"

definition demo_event :: "int \<Rightarrow> string list \<Rightarrow> JobEvent" where
  "demo_event i ls = \<lparr>ev_provider = Some demo_provider, ev_action = ''queued'', ev_repo = ''ephemerd'',
     ev_jobID = i, ev_runID = 1, ev_labels = ls, ev_conclusion = [], ev_runnerName = []\<rparr>"

definition demo_retry :: RetryConfig where
  "demo_retry = \<lparr>rc_Enabled = True, rc_Schedule = [], rc_MaxAge = 0, rc_Jitter = 0, rc_RateHint = None\<rparr>"

definition demo_cfg :: Config where
  "demo_cfg = \<lparr>cfg_GOOS = ''linux'', cfg_GOARCH = ''amd64'', cfg_NumCPU = 8, cfg_LinuxDispatcher = False,
     cfg_LinuxJobsDisabled = False, cfg_MacOSVMConfig = None, cfg_Artifacts = False, cfg_DataDir = ''/data'',
     cfg_MaxConcurrent = 1, cfg_MaxMacOSVMs = 1, cfg_Labels = [], cfg_JobTimeout = 0, cfg_ShutdownTimeout = 0,
     cfg_MacOSProvisionTimeout = 0, cfg_Retry = demo_retry, cfg_OrphanEnabled = True, cfg_OrphanGrace = 0,
     cfg_RunnerImageForRepo = None, cfg_ActionsCache = False\<rparr>"

definition demo_claim :: Claim where
  "demo_claim = \<lparr>cl_runnerID = 7, cl_runnerName = ''r1'', cl_repo = ''ephemerd'', cl_runnerConfig = ''jit'',
     cl_env = [], cl_entrypoint = []\<rparr>"

definition demo_answer :: "time \<Rightarrow> answer" where
  "demo_answer now = \<lparr>a_now = now, a_later = now, a_arm = ArmSend, a_wanted = Some True, a_fetched = [],
     a_extractErr = False, a_suffix = ''ab'', a_claim = Inr demo_claim, a_err = None, a_env = ''r1'',
     a_cacheHealthy = False, a_timer = True, a_wake = PwResult None, a_wakes = [], a_stopped = True,
     a_landed = False, a_draws = \<lparr>dr_ms = 0, dr_float = 1 / 2\<rparr>\<rparr>"

text \<open>Job 1 is queued, dispatched locally, tracked; its runner exits and is torn down.\<close>

definition demo_dispatch :: "move list" where
  "demo_dispatch =
     MvInput (InQueued (demo_event 1 [''linux''])) # replicate 10 (MvThread 0 (demo_answer 1))"

definition demo_complete :: "move list" where
  "demo_complete = demo_dispatch @ [MvThread 0 (demo_answer 2)] @ replicate 9 (MvThread 1 (demo_answer 3))"

definition demo_running :: world where
  "demo_running = the (run_moves (start_world demo_cfg) demo_dispatch)"

definition demo_idle :: world where
  "demo_idle = the (run_moves (start_world demo_cfg) demo_complete)"

lemma demo_running_reachable: "ws.reachable demo_cfg demo_running"
proof -
  have "run_moves (start_world demo_cfg) demo_dispatch \<noteq> None" by code_simp
  then show ?thesis unfolding demo_running_def using run_moves_reachable start_reachable by fastforce
qed

lemma demo_idle_reachable: "ws.reachable demo_cfg demo_idle"
proof -
  have "run_moves (start_world demo_cfg) demo_complete \<noteq> None" by code_simp
  then show ?thesis unfolding demo_idle_def using run_moves_reachable start_reachable by fastforce
qed

end
