(* ===== verification/Runner_Safety.thy ===== *)
theory Runner_Safety
  imports Runner_Laws Demo
begin

text \<open>
  The properties that keep live jobs alive: what a completed event may destroy, what the
  orphan sweep may nominate and reap, and when the busy check lets a teardown through.
\<close>

subsection \<open>Completed events\<close>

lemma completed_target_named:
  assumes "completed_target s ev = (Some (k, rj), s')" and "ev_runnerName ev \<noteq> []"
  shows "running_of s k = Some rj \<and> runnerName rj = ev_runnerName ev \<and> s' = s"
  using assms by (auto simp: completed_target_def Let_def split: option.splits if_splits)

lemma completed_target_unnamed:
  assumes "completed_target s ev = (Some (k, rj), s')" and "ev_runnerName ev = []"
  shows "k = keyFor ev \<and> running_of s k = Some rj \<and> s' = s \<and>
    (\<forall>rb. s_runners s (runnerName rj) = Some rb \<longrightarrow> rb_bound rb \<longrightarrow> rb_boundKey rb = keyFor ev)"
  using assms by (auto simp: completed_target_def Let_def split: option.splits if_splits)

lemma completed_target_running: "completed_target s ev = (tg, s') \<Longrightarrow> s_running s' = s_running s"
  by (auto simp: completed_target_def Let_def split: option.splits if_splits)

lemma lookup_untrack:
  "running_of (untrackRunningLocked s k rj) k' = (if k' = k then None else running_of s k')"
  by (cases "k' = k") (simp_all add: untrackRunningLocked_def Let_def lookup_delete lookup_delete_neq)

text \<open>
  C4. A completed event never harms a runner that is at work on another job: a tracked
  runner that the platform has bound to a job other than the completed one, and that the
  event does not name, is still tracked afterwards, and whatever the event does tear down is
  a different tracked runner.
\<close>

theorem completed_spares_other_jobs:
  assumes "handleCompleted_locked s ev now = (acts, s')"
    and "running_of s k = Some rj" and "s_runners s (runnerName rj) = Some rb"
    and "rb_bound rb" and "rb_boundKey rb \<noteq> keyFor ev" and "ev_runnerName ev \<noteq> runnerName rj"
  shows "running_of s' k = Some rj \<and>
    (acts = [] \<or> (\<exists>k' rj'. k' \<noteq> k \<and> running_of s k' = Some rj' \<and> acts = teardown (s_cfg s) k' rj'))"
proof -
  let ?s = "markStarted s (keyFor ev) now"
  obtain tg s1 where ct: "completed_target ?s ev = (tg, s1)" by fastforce
  have run: "s_running s1 = s_running s" using completed_target_running [OF ct] by (simp add: markStarted_def)
  show ?thesis
  proof (cases tg)
    case None
    then have "acts = []" "s' = s1" using assms(1) ct by (simp_all add: handleCompleted_locked_def)
    then show ?thesis using run assms(2) by simp
  next
    case (Some kr)
    obtain k' rj' where kr: "kr = (k', rj')" by fastforce
    then have r: "acts = teardown (s_cfg s) k' rj'" "s' = resetBackoff (untrackRunningLocked s1 k' rj') (ev_repo ev)"
      using assms(1) ct Some by (simp_all add: handleCompleted_locked_def)
    have "running_of s k' = Some rj' \<and> k' \<noteq> k"
    proof (cases "ev_runnerName ev = []")
      case True
      from completed_target_unnamed [of ?s ev k' rj' s1] ct Some kr True assms(2-5)
      show ?thesis by (auto simp: markStarted_def)
    next
      case False
      from completed_target_named [of ?s ev k' rj' s1] ct Some kr False assms(2,6)
      show ?thesis by (auto simp: markStarted_def)
    qed
    then show ?thesis using r run assms(2) by (auto simp: resetBackoff_def lookup_untrack)
  qed
qed

text \<open>A node with two tracked runners: \<open>r1\<close> dispatched for job 1 but bound to job 2, and \<open>r2\<close>.\<close>

definition demo_job :: "string \<Rightarrow> runningJob" where
  "demo_job n = \<lparr>rj_env = Some n, rj_provider = Some demo_provider, rj_claim = Some (demo_claim\<lparr>cl_runnerName := n\<rparr>),
     rj_repo = ''ephemerd'', rj_image = [], rj_artifactsDir = [], rj_dispatched = [], rj_macosVM = False,
     rj_macVMID = [], rj_startedAt = 1\<rparr>"

definition demo_key :: "int \<Rightarrow> jobKey" where
  "demo_key i = \<lparr>jk_provider = ''github'', jk_jobID = i\<rparr>"

definition demo_fleet :: scheduler where
  "demo_fleet =
     (let s0 = (New demo_cfg)\<lparr>s_webhookMode := True\<rparr>;
          s1 = trackRunning s0 (demo_key 1) (demo_job ''r1'') (Some demo_provider) ''linux'' 1;
          s2 = trackRunning s1 (demo_key 2) (demo_job ''r2'') (Some demo_provider) ''linux'' 2
      in snd (handleInProgress_bind s2 ((demo_event 2 [])\<lparr>ev_runnerName := ''r1''\<rparr>)))"

lemma demo_fleet_running:
  "running_of demo_fleet (demo_key 1) = Some (demo_job ''r1'')" "s_cfg demo_fleet = demo_cfg"
  "running_of demo_fleet (demo_key 2) = Some (demo_job ''r2'')"
  by (simp_all add: demo_fleet_def trackRunning_def handleInProgress_bind_def demo_key_def demo_job_def demo_claim_def
      runnerName_def New_def demo_cfg_def demo_event_def Let_def lookup_update lookup_update_neq)

theorem completed_spares_other_jobs_witness:
  "fst (handleCompleted_locked demo_fleet (demo_event 1 []) 9) = [] \<and>
   running_of (snd (handleCompleted_locked demo_fleet (demo_event 1 []) 9)) (demo_key 1) = Some (demo_job ''r1'')"
proof -
  obtain acts s' where h: "handleCompleted_locked demo_fleet (demo_event 1 []) 9 = (acts, s')" by fastforce
  have a: "fst (handleCompleted_locked demo_fleet (demo_event 1 []) 9) = []" by code_simp
  have "map_option (\<lambda>rb. (rb_bound rb, rb_boundKey rb)) (s_runners demo_fleet (runnerName (demo_job ''r1'')))
      = Some (True, demo_key 2)" by code_simp
  then obtain rb where rb: "s_runners demo_fleet (runnerName (demo_job ''r1'')) = Some rb"
    "rb_bound rb" "rb_boundKey rb = demo_key 2" by auto
  have "demo_key 2 \<noteq> keyFor (demo_event 1 [])" "ev_runnerName (demo_event 1 []) \<noteq> runnerName (demo_job ''r1'')"
    by code_simp+
  with completed_spares_other_jobs [OF h demo_fleet_running(1) rb(1,2)] rb(3) h a show ?thesis by simp
qed

text \<open>
  C20. A completed event that names one of the node's own runners tears down exactly that
  runner, under the key it was dispatched for, whatever job it was dispatched for: its
  teardown calls are returned, it leaves both the job table and the ledger, and the completed
  job is recorded as satisfied.
\<close>

theorem completed_tears_down_named_runner:
  assumes "ev_runnerName ev = n" and "n \<noteq> []" and "s_runners s n = Some rb"
    and "running_of s (rb_intentKey rb) = Some rj" and "runnerName rj = n"
  shows "fst (handleCompleted_locked s ev now) = teardown (s_cfg s) (rb_intentKey rb) rj \<and>
    s_running (snd (handleCompleted_locked s ev now)) = Mapping.delete (rb_intentKey rb) (s_running s) \<and>
    s_runners (snd (handleCompleted_locked s ev now)) = (s_runners s)(n := None) \<and>
    s_started (snd (handleCompleted_locked s ev now)) = (s_started s)(keyFor ev \<mapsto> now)"
  using assms
  by (simp add: handleCompleted_locked_def completed_target_def markStarted_def untrackRunningLocked_def
      resetBackoff_def Let_def)

theorem completed_tears_down_named_runner_witness:
  "fst (handleCompleted_locked demo_fleet ((demo_event 2 [])\<lparr>ev_runnerName := ''r1''\<rparr>) 9) =
   [ACancel ''r1'', ADestroyEnv ''r1'']"
proof -
  have "map_option rb_intentKey (s_runners demo_fleet ''r1'') = Some (demo_key 1)" by code_simp
  then obtain rb where rb: "s_runners demo_fleet ''r1'' = Some rb" "rb_intentKey rb = demo_key 1" by auto
  have f: "runnerName (demo_job ''r1'') = ''r1''"
    "teardown (s_cfg demo_fleet) (demo_key 1) (demo_job ''r1'') = [ACancel ''r1'', ADestroyEnv ''r1'']" by code_simp+
  show ?thesis
    using completed_tears_down_named_runner [of "(demo_event 2 [])\<lparr>ev_runnerName := ''r1''\<rparr>" "''r1''" demo_fleet rb
        "demo_job ''r1''" 9] rb f demo_fleet_running(1) by simp
qed

subsection \<open>The reap\<close>

text \<open>
  C8. A runner that has been observed at work is never reaped: once the binding of a
  nominated runner is bound to a job, then in every later state of the daemon the sweep's
  locked reap of that nomination refuses and changes nothing, even if the busy check had
  cleared it before the \<^verbatim>\<open>in_progress\<close> event arrived.
\<close>

theorem bound_runner_never_reaped:
  assumes "ws.reachable cfg w" and "s_runners (w_sched w) n = Some rb" and "rb_bound rb" and "ws.steps w w'"
  shows "reapRunnerLocked (w_sched w') n rb = (None, w_sched w')"
proof -
  have "rb_addr rb < s_nextAddr (w_sched w)"
    using reachable_sys_inv [OF assms(1)] assms(2) by (auto simp: sys_inv_def sched_ok_def)
  then have "stays_bound n (rb_addr rb) (w_sched w)" using assms(2,3) by (auto simp: stays_bound_def)
  then show ?thesis using steps_stay_bound [OF assms(4)] reap_bound by blast
qed

definition demo_probe :: "State \<Rightarrow> eanswer" where
  "demo_probe st = \<lparr>ea_answer = demo_answer 5, ea_scope = None,
     ea_probe = \<lparr>pb_hasTask = True, pb_container = st,
       pb_guest = \<lparr>g_ip = [], g_signerKey = False, g_signerErr = False, g_dialErr = False, g_sessionErr = False, g_run = RunErr\<rparr>,
       pb_provider = None\<rparr>,
     ea_seenOrder = [], ea_runnerOrder = [], ea_runningOrder = [], ea_deadline = False\<rparr>"

definition demo_bound :: world where
  "demo_bound =
     (let started = (demo_event 2 [''linux''])\<lparr>ev_action := ''in_progress'', ev_runnerName := ''r1''\<rparr>;
          ms = MvInput (InInProgress started) # replicate 3 (MvEvent 0 (demo_probe Idle))
      in the (run_moves demo_running ms))"

theorem bound_runner_never_reaped_witness:
  "\<exists>rb. s_runners (w_sched demo_bound) ''r1'' = Some rb \<and>
        reapRunnerLocked (w_sched (accept demo_bound InCordon)) ''r1'' rb = (None, w_sched (accept demo_bound InCordon))"
proof -
  have "map_option rb_bound (s_runners (w_sched demo_bound) ''r1'') = Some True" by code_simp
  then obtain rb where rb: "s_runners (w_sched demo_bound) ''r1'' = Some rb" "rb_bound rb" by auto
  have "ws.reachable demo_cfg demo_bound"
  proof -
    define ms where "ms = MvInput (InInProgress ((demo_event 2 [''linux''])\<lparr>ev_action := ''in_progress'', ev_runnerName := ''r1''\<rparr>))
      # replicate 3 (MvEvent 0 (demo_probe Idle))"
    have "run_moves demo_running ms \<noteq> None" unfolding ms_def by code_simp
    moreover have "demo_bound = the (run_moves demo_running ms)" by (simp add: demo_bound_def ms_def Let_def)
    ultimately show ?thesis using run_moves_reachable [OF _ demo_running_reachable] by fastforce
  qed
  from bound_runner_never_reaped [OF this rb ws.steps_step [OF ws.steps_refl w_input]] rb show ?thesis by blast
qed

text \<open>
  C21. The reap decision. Teardown goes ahead exactly when the runner was positively observed
  idle, or it has not been idle past the hard bound, or its state could not be determined for
  the whole grace window; it is marked as an escape exactly in the last two cases. The grace
  never exceeds the hard bound, so a runner observed busy is safe until the hard bound and no
  runner squats past it.
\<close>

theorem decideReap_spec:
  "(rd_Destroy (decideReap i) \<longleftrightarrow>
      ri_Busy i = Idle \<or> rp_HardBound (ri_Policy i) \<le> ri_Now i - ri_DispatchedAt i \<or>
      (ri_Busy i = Unknown \<and> rp_Grace (ri_Policy i) \<le> ri_Now i - ri_DispatchedAt i)) \<and>
   (rd_Escape (decideReap i) \<longleftrightarrow> rd_Destroy (decideReap i) \<and> ri_Busy i \<noteq> Idle) \<and>
   rp_Grace (reapPolicy_of cfg) \<le> rp_HardBound (reapPolicy_of cfg) \<and> 0 < rp_Grace (reapPolicy_of cfg)"
  using reapPolicy_ordered [of cfg]
  by (auto simp: decideReap_def Let_def reapPolicy_of_def defaultOrphanGrace_def split: State.splits)

text \<open>
  C22. A runner the busy check finds executing a job survives the sweep: inside the hard bound
  the veto drops its nomination and leaves the scheduler untouched.
\<close>

theorem busy_runner_survives_sweep:
  assumes "probeRunnerBusy s (on_rj n) (ea_probe e) = (Busy, src)"
    and "a_now (ea_answer e) - rb_dispatchedAt (on_rb n) < rp_HardBound (reapPolicy_of (s_cfg s))"
  shows "event_step e s (EVeto (n # noms) victims) = Some (s, EVeto noms victims, [], [])"
  using assms by (simp add: decideReap_def)

theorem busy_runner_survives_sweep_witness:
  "event_step (demo_probe Busy) demo_fleet (EVeto [\<lparr>on_name = ''r2'', on_rb = the (s_runners demo_fleet ''r2''),
     on_rj = demo_job ''r2'', on_discharged = True\<rparr>] []) = Some (demo_fleet, EVeto [] [], [], [])"
  by (rule busy_runner_survives_sweep [of _ _ _ "''container''"]) code_simp+

subsection \<open>The sweep\<close>

lemma sweep_locked_parts:
  assumes "sweep_locked s so ro now = (noms, s')"
  shows "noms = [] \<and> s' = s \<or>
    (cfg_OrphanEnabled (s_cfg s) \<and> s_webhookMode s \<and>
     (\<exists>noms1 noms2 spares s1. sweep_scan now (rp_Grace (reapPolicy_of (s_cfg s))) ro s = (noms1, spares, s1) \<and>
        sweep_allocate (sweep_demand s so ro) (sort_key (\<lambda>(_, rb). - rb_dispatchedAt rb) spares) s1 = (noms2, s') \<and>
        noms = noms1 @ noms2))"
  using assms by (auto simp: sweep_locked_def Let_def split: if_splits prod.splits)

lemma spare_in_scan:
  assumes "sweep_scan now grace ro s = (noms, spares, s1)" and "distinct ro" and "(name, rb) \<in> set spares"
  shows "spare_now s now grace name = Some rb"
  using assms(3) unfolding sweep_scan_spares [OF assms(1,2)] by (auto simp: List.map_filter_def)

text \<open>
  C23. The sweep nominates only runners it may: it is enabled and in webhook mode, the runner is
  in the ledger, unbound, dispatched through a provider that reports assignments, and tracked
  under its own name; and it has either sat unassigned for the whole grace window, or, still
  inside it, the job it was dispatched for has been observed running elsewhere.
\<close>

theorem sweep_nominates_only_idle_candidates:
  assumes "sweep_locked s so ro now = (noms, s')" and "distinct ro" and "n \<in> set noms"
  shows "cfg_OrphanEnabled (s_cfg s) \<and> s_webhookMode s \<and> nominated_ok s n \<and>
    (if on_discharged n
     then s_started s (rb_intentKey (on_rb n)) \<noteq> None \<and> now - rb_dispatchedAt (on_rb n) < rp_Grace (reapPolicy_of (s_cfg s))
     else rp_Grace (reapPolicy_of (s_cfg s)) \<le> now - rb_dispatchedAt (on_rb n))"
proof -
  let ?g = "rp_Grace (reapPolicy_of (s_cfg s))"
  obtain noms1 noms2 spares s1 where p: "sweep_scan now ?g ro s = (noms1, spares, s1)"
    "sweep_allocate (sweep_demand s so ro) (sort_key (\<lambda>(_, rb). - rb_dispatchedAt rb) spares) s1 = (noms2, s')"
    "noms = noms1 @ noms2" and on: "cfg_OrphanEnabled (s_cfg s)" "s_webhookMode s"
    using sweep_locked_parts [OF assms(1)] assms(3) by auto
  have "n \<in> set noms1 \<or> n \<in> set noms2" using p(3) assms(3) by auto
  then show ?thesis
  proof
    assume "n \<in> set noms1"
    then show ?thesis using sweep_scan_noms [OF p(1)] on by auto
  next
    assume "n \<in> set noms2"
    note a = sweep_allocate_noms [OF p(2) this]
    have "spare_now s now ?g (on_name n) = Some (on_rb n)"
      using a by (intro spare_in_scan [OF p(1) assms(2)]) simp
    moreover have "s_running s1 = s_running s" using prunesD(3) [OF sweep_scan_prunes [OF p(1)]] .
    ultimately show ?thesis using a on
      by (auto simp: nominated_ok_def spare_now_def split: option.splits if_splits)
  qed
qed

text \<open>
  A fleet in which job 1 was seen running elsewhere, so that its unbound runner \<open>r1\<close> is a spare.
\<close>

definition demo_spare :: scheduler where
  "demo_spare =
     (let s0 = (New demo_cfg)\<lparr>s_webhookMode := True\<rparr>
      in markStarted (trackRunning s0 (demo_key 1) (demo_job ''r1'') (Some demo_provider) ''linux'' 1) (demo_key 1) 2)"

theorem sweep_nominates_only_idle_candidates_witness:
  "map on_name (fst (sweep_locked demo_spare [] [''r1''] 5)) = [''r1''] \<and>
   nominated_ok demo_spare (List.hd (fst (sweep_locked demo_spare [] [''r1''] 5)))"
proof -
  obtain noms s' where h: "sweep_locked demo_spare [] [''r1''] 5 = (noms, s')" by fastforce
  have m: "map on_name (fst (sweep_locked demo_spare [] [''r1''] 5)) = [''r1'']" by code_simp
  then have "List.hd noms \<in> set noms" using h by (cases noms) auto
  from sweep_nominates_only_idle_candidates [OF h _ this] m h show ?thesis by simp
qed

text \<open>
  C24. Spares are not reaped while their fungibility class can still use them: in each label
  class, of the runners whose own job is satisfied, as many are left alone as the class has
  queued jobs without a runner (or all of them, if there are fewer).
\<close>

theorem sweep_keeps_spares_for_demand:
  assumes "sweep_locked s so ro now = (noms, s')" and "distinct ro"
  shows "count_if (\<lambda>n. on_discharged n \<and> rb_labelSet (on_rb n) = L) noms +
         min (sweep_demand s so ro L)
             (count_if (\<lambda>name. case spare_now s now (rp_Grace (reapPolicy_of (s_cfg s))) name of
                                  Some rb \<Rightarrow> rb_labelSet rb = L | None \<Rightarrow> False) ro)
       \<le> count_if (\<lambda>name. case spare_now s now (rp_Grace (reapPolicy_of (s_cfg s))) name of
                                  Some rb \<Rightarrow> rb_labelSet rb = L | None \<Rightarrow> False) ro"
proof (cases "noms = []")
  case False
  let ?g = "rp_Grace (reapPolicy_of (s_cfg s))"
  let ?sp = "\<lambda>name. case spare_now s now ?g name of Some rb \<Rightarrow> rb_labelSet rb = L | None \<Rightarrow> False"
  obtain noms1 noms2 spares s1 where p: "sweep_scan now ?g ro s = (noms1, spares, s1)"
    "sweep_allocate (sweep_demand s so ro) (sort_key (\<lambda>(_, rb). - rb_dispatchedAt rb) spares) s1 = (noms2, s')"
    "noms = noms1 @ noms2"
    using sweep_locked_parts [OF assms(1)] False by auto
  have n1: "count_if (\<lambda>n. on_discharged n \<and> rb_labelSet (on_rb n) = L) noms1 = 0"
    using sweep_scan_noms [OF p(1)] by (auto simp: count_if_zero)
  have n2: "count_if (\<lambda>n. on_discharged n \<and> rb_labelSet (on_rb n) = L) noms2 =
            count_if (\<lambda>n. rb_labelSet (on_rb n) = L) noms2"
    using sweep_allocate_noms [OF p(2)] unfolding count_if_def by (intro arg_cong [of _ _ length] filter_cong) auto
  have "count_if (of_class L) (List.map_filter (\<lambda>x. map_option (Pair x) (spare_now s now ?g x)) xs) = count_if ?sp xs" for xs
    by (induction xs) (auto simp: map_filter_simps split: option.splits)
  then have c: "count_if (of_class L) (sort_key (\<lambda>(_, rb). - rb_dispatchedAt rb) spares) = count_if ?sp ro"
    unfolding count_if_sort_key using sweep_scan_spares [OF p(1) assms(2)] by simp
  show ?thesis using sweep_allocate_keeps [OF p(2), of L] n1 n2 p(3) unfolding c by simp
qed simp

definition demo_spare_wanted :: scheduler where
  "demo_spare_wanted = snd (handleQueued_locked demo_spare (demo_event 3 [''linux'']) 3)"

theorem sweep_keeps_spares_for_demand_witness:
  "sweep_demand demo_spare_wanted [demo_key 3] [''r1''] ''linux'' = 1 \<and>
   count_if (\<lambda>n. on_discharged n \<and> rb_labelSet (on_rb n) = ''linux'')
     (fst (sweep_locked demo_spare_wanted [demo_key 3] [''r1''] 5)) = 0"
proof -
  obtain noms s' where h: "sweep_locked demo_spare_wanted [demo_key 3] [''r1''] 5 = (noms, s')" by fastforce
  have d: "sweep_demand demo_spare_wanted [demo_key 3] [''r1''] ''linux'' = 1"
    "count_if (\<lambda>name. case spare_now demo_spare_wanted 5 (rp_Grace (reapPolicy_of (s_cfg demo_spare_wanted))) name of
        Some rb \<Rightarrow> rb_labelSet rb = ''linux'' | None \<Rightarrow> False) [''r1''] = 1" by code_simp+
  from sweep_keeps_spares_for_demand [OF h, of "''linux''"] d h show ?thesis by simp
qed

subsection \<open>The busy check\<close>

text \<open>
  C25. The layered busy check answers "idle" only from a positive observation: a container
  listing in which at least one process name was read and none is a worker, a macOS guest
  where \<^verbatim>\<open>pgrep\<close> ran and found nothing, or the provider's own busy flag being false. A probe
  that failed, listed nothing or has no implementation never yields it.
\<close>

theorem idle_is_observed:
  assumes "probeRunnerBusy s rj pb = (Idle, src)" and "pb_container pb = ContainerBusy pids"
  shows "(src = ''container'' \<and> (\<exists>ps. pids = Some ps \<and> (\<exists>name. Some name \<in> set ps) \<and>
            (\<forall>name. Some name \<in> set ps \<longrightarrow> \<not> IsWorkerProcess name))) \<or>
         (src = ''macos-vm'' \<and> rj_macosVM rj \<and> g_run (pb_guest pb) = RunExit 1) \<or>
         (src = ''provider'' \<and> pb_provider pb = Some False)"
proof -
  have "macOSVMBusy s g = Idle \<Longrightarrow> g_run g = RunExit 1" for g
    by (auto simp: macOSVMBusy_def split: guestRun.splits if_splits)
  moreover have "ContainerBusy pids = Idle \<Longrightarrow>
      \<exists>ps. pids = Some ps \<and> (\<exists>name. Some name \<in> set ps) \<and> (\<forall>name. Some name \<in> set ps \<longrightarrow> \<not> IsWorkerProcess name)"
    by (auto simp: ContainerBusy_def ContainerBusy_scan_Idle split: option.splits if_splits)
  ultimately show ?thesis using assms
    by (auto simp: probeRunnerBusy_def probeLocalBusy_def split: if_splits option.splits)
qed

theorem idle_is_observed_witness:
  "IsWorkerProcess ''/home/runner/bin/Runner.Worker'' \<and> \<not> IsWorkerProcess ''/home/runner/bin/Runner.Listener'' \<and>
   (\<exists>ps name. [None, Some ''/bin/Runner.Listener''] = ps \<and> Some name \<in> set ps)"
proof -
  define pb where "pb = (ea_probe (demo_probe Idle))\<lparr>pb_container := ContainerBusy (Some [None, Some ''/bin/Runner.Listener''])\<rparr>"
  have "probeRunnerBusy demo_fleet (demo_job ''r2'') pb = (Idle, ''container'')" unfolding pb_def by code_simp
  moreover have "pb_container pb = ContainerBusy (Some [None, Some ''/bin/Runner.Listener''])" by (simp add: pb_def)
  ultimately have "\<exists>ps. Some [None, Some ''/bin/Runner.Listener''] = Some ps \<and> (\<exists>name. Some name \<in> set ps)"
    using idle_is_observed by fastforce
  moreover have "IsWorkerProcess ''/home/runner/bin/Runner.Worker''" "\<not> IsWorkerProcess ''/home/runner/bin/Runner.Listener''"
    by code_simp+
  ultimately show ?thesis by auto
qed

end
