(* ===== verification/Retry_Properties.thy ===== *)
theory Retry_Properties
  imports Runner_Safety
begin

text \<open>
  The properties of the retry queue, on the contract of \<^verbatim>\<open>Retry_Spec\<close>, with applications to a
  queue that holds two failed claims.
\<close>

definition demo_queue :: retryQueue where
  "demo_queue =
     retryQueue_Add
       (retryQueue_Add (newRetryQueue demo_retry) (demo_event 1 []) SchedulerRetryHandler (Some (plain_err ''boom''))
          (10 * second) (10 * second) \<lparr>dr_ms = 0, dr_float = 0\<rparr>)
       (demo_event 2 []) SchedulerRetryHandler (Some (plain_err ''timeout'')) 0 0 \<lparr>dr_ms = 0, dr_float = 0\<rparr>"

lemma demo_queue_wf: "rq_wf demo_queue"
  by (simp add: demo_queue_def Add_wf newRetryQueue_wf)

subsection \<open>Refinement\<close>

text \<open>
  C7. Adding a failed claim with a retryable error implements the contract: the queue's
  representation (heap order, back pointers, index) stays sound and, seen as a map from jobs
  to (attempts, first failure, next attempt), exactly the entry of that job changes: its
  attempts go up, its first failure is kept, and it is scheduled after the computed delay, or
  dropped when the first failure is older than the configured maximum age.
\<close>

theorem retry_add_refines:
  assumes "rq_wf q" and "rc_Enabled (rq_cfg q)" and "classifyErr err \<noteq> errNonRetryable"
  shows "rq_wf (retryQueue_Add q ev h err now now' dr) \<and>
         rq_abs (retryQueue_Add q ev h err now now' dr) =
           add_spec (rq_cfg q) (rq_abs q) (keyFor ev) (classifyErr err) now now' dr"
  using Add_correct [OF assms] by simp

theorem retry_add_refines_witness:
  "rq_abs (retryQueue_Add demo_queue (demo_event 1 []) SchedulerRetryHandler (Some (plain_err ''boom''))
      (50 * second) (50 * second) \<lparr>dr_ms = 0, dr_float = 0\<rparr>) (demo_key 1) =
   Some (2, 10 * second, Some (110 * second))"
proof -
  have p: "rc_Enabled (rq_cfg demo_queue)" "classifyErr (Some (plain_err ''boom'')) \<noteq> errNonRetryable" by code_simp+
  have "add_spec (rq_cfg demo_queue) (rq_abs demo_queue) (keyFor (demo_event 1 [])) (classifyErr (Some (plain_err ''boom'')))
      (50 * second) (50 * second) \<lparr>dr_ms = 0, dr_float = 0\<rparr> (demo_key 1) = Some (2, 10 * second, Some (110 * second))"
    by code_simp
  then show ?thesis using retry_add_refines [OF demo_queue_wf p] by simp
qed

text \<open>
  C17. Dropping a job removes its entry, pending or in flight, and nothing else, and keeps the
  representation sound.
\<close>

theorem retry_drop_refines:
  assumes "rq_wf q"
  shows "rq_wf (retryQueue_Drop q k) \<and> rq_abs (retryQueue_Drop q k) = (rq_abs q)(k := None)"
  using Drop_correct [OF assms] by simp

theorem retry_drop_refines_witness:
  "rq_abs demo_queue (demo_key 1) \<noteq> None \<and> rq_abs (retryQueue_Drop demo_queue (demo_key 1)) (demo_key 1) = None \<and>
   rq_abs (retryQueue_Drop demo_queue (demo_key 1)) (demo_key 2) \<noteq> None"
proof -
  have "rq_abs demo_queue (demo_key 1) \<noteq> None" "((rq_abs demo_queue)(demo_key 1 := None)) (demo_key 2) \<noteq> None"
    by code_simp+
  then show ?thesis using retry_drop_refines [OF demo_queue_wf, of "demo_key 1"] by simp
qed

text \<open>
  C16. When the timer fires, exactly the retries that are due leave the heap, each once, in
  order of their next attempt; the later ones stay, no job's attempts or first failure
  change, and a fired job is remembered as in flight, so that a second failure continues its
  ladder.
\<close>

theorem retry_fire_exactly_due:
  assumes "rq_wf q" and "fireDue q now = (due, q')"
  shows "rq_wf q' \<and> distinct due \<and> sorted (map (\<lambda>r. it_nextAttempt (rq_mem q r)) due) \<and>
    set due = {r \<in> set (rq_heap q). it_nextAttempt (rq_mem q r) \<le> now} \<and>
    rq_abs q' = (\<lambda>k. map_option (\<lambda>(n, first, next). (n, first, case next of Some t \<Rightarrow> if t \<le> now then None else Some t
                                                                            | None \<Rightarrow> None)) (rq_abs q k))"
proof -
  note c = fireDue_correct [OF assms]
  have "rq_abs q' k = map_option (\<lambda>(n, first, next). (n, first, case next of Some t \<Rightarrow> if t \<le> now then None else Some t
                                                                            | None \<Rightarrow> None)) (rq_abs q k)" for k
    using c by (cases "rq_index q k") (auto simp: rq_abs_def rq_frameD [of q q'])
  then show ?thesis using c by auto
qed

theorem retry_fire_exactly_due_witness:
  "map (\<lambda>r. it_key (rq_mem demo_queue r)) (fst (fireDue demo_queue (35 * second))) = [demo_key 2] \<and>
   distinct (fst (fireDue demo_queue (35 * second)))"
proof -
  obtain due q' where h: "fireDue demo_queue (35 * second) = (due, q')" by fastforce
  have "map (\<lambda>r. it_key (rq_mem demo_queue r)) (fst (fireDue demo_queue (35 * second))) = [demo_key 2]" by code_simp
  then show ?thesis using retry_fire_exactly_due [OF demo_queue_wf h] h by simp
qed

subsection \<open>Delays and error classes\<close>

lemma applyDefaults_ok:
  "rc_Schedule (applyDefaults c) \<noteq> []" "0 < rc_MaxAge (applyDefaults c)"
  "0 \<le> rc_Jitter (applyDefaults c)" "rc_Jitter (applyDefaults c) \<le> 1"
  using fl64_mono [of "1 / 5" 1]
  by (auto simp: applyDefaults_def defaultRetrySchedule_def Let_def)

text \<open>The reset that a rate-limit failure at time \<open>now\<close> has to wait for, if the hint is one to follow.\<close>

definition fresh_reset :: "RetryConfig \<Rightarrow> errClass \<Rightarrow> time \<Rightarrow> time option" where
  "fresh_reset cfg class now =
     (case rc_RateHint cfg of
        None \<Rightarrow> None
      | Some hint \<Rightarrow>
          (case hint now of (remaining, reset, updated) \<Rightarrow>
             if class = errRateLimit \<and> remaining = 0 \<and> now < reset \<and> reset \<noteq> 0 \<and> updated \<noteq> 0 \<and>
                now < updated + 5 * minute
             then Some reset else None))"

lemma nextDelayLocked_cases:
  assumes "rc_Schedule cfg \<noteq> []"
  shows "nextDelayLocked cfg n class now dr =
    (case fresh_reset cfg class now of
       Some reset \<Rightarrow> reset - now + 5 * second + dr_ms dr * millisecond
     | None \<Rightarrow> jittered (rc_Schedule cfg ! min (n - 1) (length (rc_Schedule cfg) - 1)) (rc_Jitter cfg) (dr_float dr))"
proof -
  have idx: "(if length (rc_Schedule cfg) \<le> n - 1 then length (rc_Schedule cfg) - 1 else n - 1) =
      min (n - 1) (length (rc_Schedule cfg) - 1)"
    using assms by (cases "rc_Schedule cfg") (auto simp: min_def)
  show ?thesis
    by (auto simp: nextDelayLocked_def fresh_reset_def Let_def idx split: option.split prod.split)
qed


text \<open>A GitHub configuration with the default jitter of 20%.\<close>

definition demo_jitter :: RetryConfig where
  "demo_jitter = demo_retry\<lparr>rc_Jitter := - 1,
     rc_RateHint := Some (\<lambda>now. (0, now + 60 * second, now - 1))\<rparr>"


text \<open>
  C19. Which errors are retried: nothing, a cordon refusal and a GitHub response of 400, 401,
  403, 404 or 422 never are (unless it is a rate-limit error), a rate-limit or abuse error, a 429
  and a 5xx always are; and an error that is not retried leaves the queue untouched.
\<close>

theorem retry_error_classes:
  "classifyErr None = errNonRetryable \<and>
   classifyErr (Some errCordoned) = errNonRetryable \<and>
   (\<not> e_rateLimit e \<and> \<not> e_abuse e \<and> e_ghResponse e = Some (Some code) \<and> code \<in> {400, 401, 403, 404, 422} \<longrightarrow>
      classifyErr (Some e) = errNonRetryable) \<and>
   (\<not> e_cordoned e \<and> (e_rateLimit e \<or> e_abuse e \<or> e_ghResponse e = Some (Some 429)) \<longrightarrow>
      classifyErr (Some e) = errRateLimit) \<and>
   (\<not> e_cordoned e \<and> \<not> e_rateLimit e \<and> \<not> e_abuse e \<and> e_ghResponse e = Some (Some code) \<and> 500 \<le> code \<longrightarrow>
      classifyErr (Some e) = errServerSide) \<and>
   (classifyErr err = errNonRetryable \<longrightarrow> retryQueue_Add q ev h err now now' dr = q)"
  by (auto simp: classifyErr_def errCordoned_def plain_err_def classifyStatus_def Add_ignored)

theorem retry_error_classes_witness:
  "classifyErr (Some ((plain_err ''no'')\<lparr>e_ghResponse := Some (Some 503)\<rparr>)) = errServerSide"
  using retry_error_classes [of "(plain_err ''no'')\<lparr>e_ghResponse := Some (Some 503)\<rparr>" 503] by (simp add: plain_err_def)

end
