(* ===== verification/Image_GC.thy ===== *)
theory Image_GC
  imports Prelude Float64 "HOL-Library.Word" "HOL-Library.Product_Lexorder"
begin

text \<open>
  The eviction policy of the image garbage collector, \<^verbatim>\<open>pkg/imagegc/plan.go\<close>, with the capacity
  reading of \<^verbatim>\<open>pkg/diskspace\<close> and the chain repair plan of \<^verbatim>\<open>refs.go\<close>. Byte counts are Go's
  \<^verbatim>\<open>uint64\<close>, so additions wrap; percentages are \<^verbatim>\<open>float64\<close> values with rounded operations; a set
  of image names is a Go map with empty values. \<^verbatim>\<open>sort.Slice\<close> may order ties in any way; two
  candidates tie only when last access, namespace and name agree.
\<close>

subsection \<open>Capacity readings\<close>

record Usage =
  u_Path :: string
  u_TotalBytes :: "64 word"
  u_FreeBytes :: "64 word"

definition UsedBytes :: "Usage \<Rightarrow> 64 word" where
  "UsedBytes u = (if u_TotalBytes u \<le> u_FreeBytes u then 0 else u_TotalBytes u - u_FreeBytes u)"

definition float_of_uint64 :: "64 word \<Rightarrow> rat" where
  "float_of_uint64 w = fl64 (of_nat (unat w))"

definition UsedPercent :: "Usage \<Rightarrow> rat" where
  "UsedPercent u =
     (if u_TotalBytes u = 0 then 0
      else fl64 (fl64 (float_of_uint64 (UsedBytes u) / float_of_uint64 (u_TotalBytes u)) * 100))"

definition FreePercent :: "Usage \<Rightarrow> rat" where
  "FreePercent u =
     (if u_TotalBytes u = 0 then 0
      else fl64 (fl64 (float_of_uint64 (u_FreeBytes u) / float_of_uint64 (u_TotalBytes u)) * 100))"

subsection \<open>Pressure\<close>

record Thresholds =
  t_HighUsedPercent :: rat
  t_LowUsedPercent :: rat
  t_MinFreeBytes :: "64 word"
  t_TargetFreeBytes :: "64 word"

definition Thresholds_Enabled :: "Thresholds \<Rightarrow> bool" where
  "Thresholds_Enabled t \<longleftrightarrow> 0 < t_HighUsedPercent t \<or> 0 < t_MinFreeBytes t"

record Pressure =
  pr_Over :: bool
  pr_Reasons :: "string list"
  pr_BytesToFree :: "64 word"

definition no_pressure :: Pressure where
  "no_pressure = \<lparr>pr_Over = False, pr_Reasons = [], pr_BytesToFree = 0\<rparr>"

definition ReasonString :: "Pressure \<Rightarrow> string" where
  "ReasonString p = str_join ''+'' (pr_Reasons p)"

definition raise_need :: "Pressure \<Rightarrow> 64 word \<Rightarrow> 64 word \<Rightarrow> Pressure" where
  "raise_need p a b =
     (if b < a \<and> pr_BytesToFree p < a - b then p\<lparr>pr_BytesToFree := a - b\<rparr> else p)"

definition trip :: "string \<Rightarrow> Pressure \<Rightarrow> Pressure" where
  "trip reason p = p\<lparr>pr_Over := True, pr_Reasons := pr_Reasons p @ [reason]\<rparr>"

definition allowedUsed :: "Usage \<Rightarrow> Thresholds \<Rightarrow> 64 word" where
  "allowedUsed u t =
     (let low = (if t_LowUsedPercent t \<le> 0 \<or> t_HighUsedPercent t < t_LowUsedPercent t
                 then t_HighUsedPercent t else t_LowUsedPercent t) in
      word_of_int \<lfloor>fl64 (fl64 (float_of_uint64 (u_TotalBytes u) * low) / 100)\<rfloor>)"

definition percent_arm :: "Usage \<Rightarrow> Thresholds \<Rightarrow> Pressure \<Rightarrow> Pressure" where
  "percent_arm u t p =
     (if 0 < t_HighUsedPercent t \<and> t_HighUsedPercent t \<le> UsedPercent u
      then trip ''used_percent'' (raise_need p (UsedBytes u) (allowedUsed u t))
      else p)"

definition free_arm :: "Usage \<Rightarrow> Thresholds \<Rightarrow> Pressure \<Rightarrow> Pressure" where
  "free_arm u t p =
     (if 0 < t_MinFreeBytes t \<and> u_FreeBytes u < t_MinFreeBytes t
      then let target = (if t_TargetFreeBytes t < t_MinFreeBytes t then t_MinFreeBytes t
                         else t_TargetFreeBytes t) in
           trip ''min_free'' (raise_need p target (u_FreeBytes u))
      else p)"

definition Evaluate :: "Usage \<Rightarrow> Thresholds \<Rightarrow> Pressure" where
  "Evaluate u t =
     (if u_TotalBytes u = 0 then no_pressure
      else let p = free_arm u t (percent_arm u t no_pressure) in
           if pr_Over p \<and> pr_BytesToFree p = 0 then p\<lparr>pr_BytesToFree := 1\<rparr> else p)"

subsection \<open>Plans\<close>

record Candidate =
  c_Namespace :: string
  c_Name :: string
  c_LastAccessed :: time
  c_SizeBytes :: int

definition Candidate_Key :: "Candidate \<Rightarrow> string" where
  "Candidate_Key c = c_Namespace c @ ''/'' @ c_Name c"

record Plan =
  pl_Pressure :: Pressure
  pl_Evict :: "Candidate list"
  pl_Protected :: nat
  pl_PlannedBytes :: "64 word"
  pl_Shortfall :: "64 word"

definition filterProtected :: "Candidate list \<Rightarrow> string set \<Rightarrow> Candidate list \<times> nat" where
  "filterProtected cs protected =
     (filter (\<lambda>c. c_Name c \<notin> protected) cs, count_if (\<lambda>c. c_Name c \<in> protected) cs)"

definition sortLRU :: "Candidate list \<Rightarrow> Candidate list" where
  "sortLRU = sort_key (\<lambda>c. (c_LastAccessed c, Candidate_Key c))"

definition known_size :: "Candidate \<Rightarrow> 64 word" where
  "known_size c = (if 0 < c_SizeBytes c then word_of_int (c_SizeBytes c) else 0)"

text \<open>The loop of \<^verbatim>\<open>PlanEviction\<close>: what it appends to \<^verbatim>\<open>Evict\<close>, and \<^verbatim>\<open>PlannedBytes\<close> at its end.\<close>

fun plan_loop :: "64 word \<Rightarrow> 64 word \<Rightarrow> Candidate list \<Rightarrow> Candidate list \<times> 64 word" where
  "plan_loop need planned [] = ([], planned)"
| "plan_loop need planned (c # cs) =
     (let planned' = planned + known_size c in
      if need \<le> planned' then ([c], planned')
      else let (ev, pb) = plan_loop need planned' cs in (c # ev, pb))"

definition PlanEviction :: "Candidate list \<Rightarrow> string set \<Rightarrow> Usage \<Rightarrow> Thresholds \<Rightarrow> Plan" where
  "PlanEviction cs protected u t =
     (let p = Evaluate u t in
      if \<not> pr_Over p
      then \<lparr>pl_Pressure = p, pl_Evict = [], pl_Protected = 0, pl_PlannedBytes = 0, pl_Shortfall = 0\<rparr>
      else let (eligible, n) = filterProtected cs protected;
               (ev, pb) = plan_loop (pr_BytesToFree p) 0 (sortLRU eligible) in
           \<lparr>pl_Pressure = p, pl_Evict = ev, pl_Protected = n, pl_PlannedBytes = pb,
            pl_Shortfall = (if pr_BytesToFree p \<le> pb then 0 else pr_BytesToFree p - pb)\<rparr>)"

definition PlanForced :: "Candidate list \<Rightarrow> string set \<Rightarrow> Plan" where
  "PlanForced cs protected =
     (let (eligible, n) = filterProtected cs protected; ev = sortLRU eligible in
      \<lparr>pl_Pressure = \<lparr>pr_Over = True, pr_Reasons = [''forced''], pr_BytesToFree = 0\<rparr>,
       pl_Evict = ev, pl_Protected = n,
       pl_PlannedBytes = fold (\<lambda>c b. b + known_size c) ev 0, pl_Shortfall = 0\<rparr>)"

definition PlanByAge :: "Candidate list \<Rightarrow> string set \<Rightarrow> time \<Rightarrow> Candidate list" where
  "PlanByAge cs protected cutoff =
     filter (\<lambda>c. \<not> (c_LastAccessed c = 0 \<or> \<not> c_LastAccessed c < cutoff))
       (sortLRU (fst (filterProtected cs protected)))"

fun ProtectPrefixed :: "Candidate list \<Rightarrow> string list \<Rightarrow> string set \<Rightarrow> string set \<times> nat" where
  "ProtectPrefixed [] pfxs protected = (protected, 0)"
| "ProtectPrefixed (c # cs) pfxs protected =
     (if c_Name c \<in> protected then ProtectPrefixed cs pfxs protected
      else if \<exists>p\<in>set pfxs. p \<noteq> [] \<and> has_prefix (c_Name c) p
      then let (pr, n) = ProtectPrefixed cs pfxs (insert (c_Name c) protected) in (pr, Suc n)
      else ProtectPrefixed cs pfxs protected)"

definition ProtectedSet :: "string list \<Rightarrow> string set \<Rightarrow> string set" where
  "ProtectedSet pinned running = set (filter (\<lambda>p. p \<noteq> []) pinned) \<union> running"

definition removeEvicted :: "Candidate list \<Rightarrow> Candidate list \<Rightarrow> Candidate list" where
  "removeEvicted cs gone = filter (\<lambda>c. Candidate_Key c \<notin> Candidate_Key ` set gone) cs"

subsection \<open>Broken layer chains\<close>

record ImageChain =
  ic_Namespace :: string
  ic_Name :: string
  ic_SnapshotKey :: string

definition ImageChain_Key :: "ImageChain \<Rightarrow> string" where
  "ImageChain_Key i = ic_Namespace i @ ''/'' @ ic_Name i"

definition ImageChain_Candidate :: "ImageChain \<Rightarrow> Candidate" where
  "ImageChain_Candidate i =
     \<lparr>c_Namespace = ic_Namespace i, c_Name = ic_Name i, c_LastAccessed = 0, c_SizeBytes = 0\<rparr>"

definition sortChains :: "ImageChain list \<Rightarrow> ImageChain list" where
  "sortChains = sort_key ImageChain_Key"

definition PlanBrokenChains ::
  "ImageChain list \<Rightarrow> string set \<Rightarrow> string set \<Rightarrow> ImageChain list \<times> ImageChain list" where
  "PlanBrokenChains chns existing protected =
     (let missing = filter (\<lambda>ch. ic_SnapshotKey ch \<noteq> [] \<and> ic_SnapshotKey ch \<notin> existing) chns in
      (sortChains (filter (\<lambda>ch. ic_Name ch \<notin> protected) missing),
       sortChains (filter (\<lambda>ch. ic_Name ch \<in> protected) missing)))"

definition ChainsReferencing :: "ImageChain list \<Rightarrow> string \<Rightarrow> ImageChain list" where
  "ChainsReferencing chns key =
     (if key = [] then [] else sortChains (filter (\<lambda>ch. ic_SnapshotKey ch = key) chns))"

text \<open>What the snapshotter answers to \<^verbatim>\<open>Stat\<close>: present, not found, or some other error.\<close>

datatype statAnswer = StatOk | StatNotFound | StatError

text \<open>
  \<^verbatim>\<open>ExistingSnapshots\<close>, with the snapshotter's answers as a function of namespace and key.
  \<open>checked\<close> holds the (namespace, key) pairs already probed.
\<close>

fun ExistingSnapshots_loop ::
  "(string \<Rightarrow> string \<Rightarrow> statAnswer) \<Rightarrow> (string \<times> string) set \<Rightarrow> ImageChain list \<Rightarrow> string set \<Rightarrow> string set" where
  "ExistingSnapshots_loop stat checked [] out = out"
| "ExistingSnapshots_loop stat checked (ch # chs) out =
     (if ic_SnapshotKey ch = [] \<or> (ic_Namespace ch, ic_SnapshotKey ch) \<in> checked
      then ExistingSnapshots_loop stat checked chs out
      else let checked' = insert (ic_Namespace ch, ic_SnapshotKey ch) checked in
           if stat (ic_Namespace ch) (ic_SnapshotKey ch) = StatNotFound
           then ExistingSnapshots_loop stat checked' chs out
           else ExistingSnapshots_loop stat checked' chs (insert (ic_SnapshotKey ch) out))"

definition ExistingSnapshots :: "(string \<Rightarrow> string \<Rightarrow> statAnswer) \<Rightarrow> ImageChain list \<Rightarrow> string set" where
  "ExistingSnapshots stat chns = ExistingSnapshots_loop stat {} chns {}"

subsection \<open>Facts on the helpers\<close>

lemma set_sortLRU [simp]: "set (sortLRU cs) = set cs"
  by (simp add: sortLRU_def)

lemma fst_filterProtected [simp]: "set (fst (filterProtected cs pr)) = {c \<in> set cs. c_Name c \<notin> pr}"
  by (auto simp: filterProtected_def)

lemma ProtectPrefixed_grows:
  "fst (ProtectPrefixed cs pfxs pr) =
   pr \<union> c_Name ` {c \<in> set cs. \<exists>p\<in>set pfxs. p \<noteq> [] \<and> has_prefix (c_Name c) p}"
proof (induction cs arbitrary: pr)
  case (Cons c cs)
  let ?P = "\<lambda>c. \<exists>p\<in>set pfxs. p \<noteq> [] \<and> has_prefix (c_Name c) p"
  have step: "fst (ProtectPrefixed (c # cs) pfxs pr) =
      fst (ProtectPrefixed cs pfxs (if ?P c then insert (c_Name c) pr else pr))"
    by (auto split: prod.splits simp: insert_absorb)
  have "{c' \<in> set (c # cs). ?P c'} = (if ?P c then insert c {c' \<in> set cs. ?P c'} else {c' \<in> set cs. ?P c'})"
    by auto
  then show ?case unfolding step Cons.IH
    by (cases "?P c") (simp_all only: if_True if_False image_insert Un_insert_left Un_insert_right)
qed simp

definition sizes :: "Candidate list \<Rightarrow> nat" where
  "sizes cs = (\<Sum>c\<leftarrow>cs. nat (c_SizeBytes c))"

lemma sizes_simps [simp]: "sizes [] = 0" "sizes (c # cs) = nat (c_SizeBytes c) + sizes cs"
  by (simp_all add: sizes_def)

lemma unat_known_size: "c_SizeBytes c < 2 ^ 63 \<Longrightarrow> unat (known_size c) = nat (c_SizeBytes c)"
  by (cases "0 < c_SizeBytes c") (simp_all add: known_size_def unat_eq_nat_uint uint_word_of_int)

text \<open>
  The loop takes the shortest prefix that covers what is still missing, or everything; as long
  as the demand is at most \<open>2 ^ 63\<close>, the additions do not wrap.
\<close>

lemma plan_loop_shortest:
  assumes "plan_loop need planned cs = (ev, pb)" and "planned < need" and "unat need \<le> 2 ^ 63"
    and "\<forall>c\<in>set cs. c_SizeBytes c < 2 ^ 63"
  shows "\<exists>n\<le>length cs. ev = take n cs \<and> unat pb = unat planned + sizes ev \<and>
           (\<forall>k<n. unat planned + sizes (take k cs) < unat need) \<and>
           (unat need \<le> unat pb \<or> n = length cs)"
  using assms
proof (induction need planned cs arbitrary: ev pb rule: plan_loop.induct)
  case (1 need planned)
  then show ?case by (auto simp: word_less_nat_alt)
next
  case (2 need planned c cs)
  let ?p = "planned + known_size c"
  have lt: "unat planned < unat need" using 2(3) by (simp add: word_less_nat_alt)
  have "unat (known_size c) < 2 ^ 63" using 2(5) by (cases "0 \<le> c_SizeBytes c") (simp_all add: unat_known_size nat_less_iff)
  then have p: "unat ?p = unat planned + nat (c_SizeBytes c)"
    using 2(4,5) lt by (simp add: unat_add_lem [THEN iffD1] unat_known_size)
  show ?case
  proof (cases "need \<le> ?p")
    case True
    with 2(2) lt p show ?thesis
      by (auto intro!: exI [of _ 1] simp: word_le_nat_alt)
  next
    case False
    obtain ev' pb' where rec: "plan_loop need ?p cs = (ev', pb')" by force
    with False 2(2) have ev: "ev = c # ev'" "pb = pb'" by simp_all
    obtain n where n: "n \<le> length cs" "ev' = take n cs" "unat pb' = unat ?p + sizes ev'"
      "\<forall>k<n. unat ?p + sizes (take k cs) < unat need" "unat need \<le> unat pb' \<or> n = length cs"
      using 2(1) [OF refl False rec] False 2(4,5) by (auto simp: not_le)
    then show ?thesis using ev p lt
      by (intro exI [of _ "Suc n"]) (auto simp: less_Suc_eq_0_disj)
  qed
qed

lemma ExistingSnapshots_loop_eq:
  "ExistingSnapshots_loop stat checked chns out =
     out \<union> ic_SnapshotKey ` {ch \<in> set chns. ic_SnapshotKey ch \<noteq> [] \<and>
       (ic_Namespace ch, ic_SnapshotKey ch) \<notin> checked \<and> stat (ic_Namespace ch) (ic_SnapshotKey ch) \<noteq> StatNotFound}"
proof (induction chns arbitrary: checked out)
  case (Cons ch chns)
  let ?new = "(ic_Namespace ch, ic_SnapshotKey ch)"
  show ?case
  proof (cases "ic_SnapshotKey ch = [] \<or> ?new \<in> checked")
    case True
    then have "ExistingSnapshots_loop stat checked (ch # chns) out = ExistingSnapshots_loop stat checked chns out"
      by simp
    then show ?thesis unfolding Cons.IH using True by auto
  next
    case False
    then have "ExistingSnapshots_loop stat checked (ch # chns) out =
        ExistingSnapshots_loop stat (insert ?new checked) chns
          (if stat (ic_Namespace ch) (ic_SnapshotKey ch) = StatNotFound then out else insert (ic_SnapshotKey ch) out)"
      by (simp add: Let_def)
    then show ?thesis unfolding Cons.IH using False by (auto split: if_splits)
  qed
qed simp

lemma ExistingSnapshots_eq:
  "ExistingSnapshots stat chns = ic_SnapshotKey ` {ch \<in> set chns. ic_SnapshotKey ch \<noteq> [] \<and>
     stat (ic_Namespace ch) (ic_SnapshotKey ch) \<noteq> StatNotFound}"
  by (simp add: ExistingSnapshots_def ExistingSnapshots_loop_eq)

subsection \<open>Watermarks\<close>

lemma UsedPercent_mono:
  assumes "u_TotalBytes u' = u_TotalBytes u" and "UsedBytes u' \<le> UsedBytes u"
  shows "UsedPercent u' \<le> UsedPercent u"
proof -
  have "float_of_uint64 (UsedBytes u') \<le> float_of_uint64 (UsedBytes u)"
    unfolding float_of_uint64_def using assms(2)
    by (intro fl64_mono) (simp only: of_nat_le_iff word_le_nat_alt)
  then have "float_of_uint64 (UsedBytes u') / float_of_uint64 (u_TotalBytes u)
      \<le> float_of_uint64 (UsedBytes u) / float_of_uint64 (u_TotalBytes u)"
    by (rule divide_right_mono) (simp add: float_of_uint64_def)
  then show ?thesis unfolding UsedPercent_def assms(1) by (simp add: fl64_mono)
qed

text \<open>
  The two roundings of the watermark arithmetic taken together: a disk filled no further than
  \<^verbatim>\<open>allowedUsed\<close> shows a used percentage of at most the low mark, up to one part in \<open>2 ^ 50\<close>.
\<close>

lemma percent_of_allowed:
  fixes T U low :: rat
  assumes "0 < T" and "0 < U" and "0 < low" and "U \<le> fl64 (fl64 (fl64 T * low) / 100)"
  shows "fl64 (fl64 (fl64 U / fl64 T) * 100) \<le> low * (1 + 1 / 2 ^ 50)"
proof -
  define r :: rat where "r = 1 + 1 / 2 ^ 53"
  define q :: rat where "q = 1 - 1 / 2 ^ 53"
  have pos: "0 < r" "0 < q" by (simp_all add: r_def q_def)
  have up: "fl64 x \<le> x * r" if "0 < x" for x using fl64_le [OF that] by (simp add: r_def)
  have T: "0 < fl64 T" "fl64 T \<le> T * r" "T * q \<le> fl64 T"
    using fl64_pos fl64_le fl64_ge assms(1) by (simp_all add: r_def q_def)
  have "fl64 (fl64 T * low) \<le> fl64 T * low * r" using up T(1) assms(3) by simp
  also have "\<dots> \<le> T * r * low * r"
    using T(2) assms(3) pos by (intro mult_right_mono) auto
  finally have a: "fl64 (fl64 T * low) / 100 \<le> T * r * low * r / 100" by (simp add: divide_right_mono)
  have "U \<le> fl64 (T * r * low * r / 100)" using assms(4) fl64_mono [OF a] by linarith
  also have "\<dots> \<le> T * r * low * r / 100 * r" using assms pos by (intro up) auto
  finally have U: "fl64 U \<le> T * r * low * r / 100 * r * r"
    using up [OF assms(2)] pos by (meson mult_right_mono less_imp_le order_trans)
  have "fl64 U / fl64 T \<le> (T * r * low * r / 100 * r * r) / (T * q)"
    using U T pos assms by (intro frac_le) auto
  also have "\<dots> = low * r ^ 4 / q / 100" using assms(1) by (simp add: field_simps power4_eq_xxxx)
  finally have b: "fl64 U / fl64 T \<le> low * r ^ 4 / q / 100" .
  have "fl64 (fl64 U / fl64 T) * 100 \<le> low * r ^ 4 / q / 100 * r * 100"
    using order_trans [OF fl64_mono [OF b] up] assms pos by (intro mult_right_mono) auto
  also have "\<dots> = low * r ^ 5 / q" by (simp add: field_simps eval_nat_numeral)
  finally have c: "fl64 (fl64 U / fl64 T) * 100 \<le> low * r ^ 5 / q" .
  have "fl64 (fl64 (fl64 U / fl64 T) * 100) \<le> low * r ^ 5 / q * r"
    using order_trans [OF fl64_mono [OF c] up] assms(3) pos by simp
  also have "\<dots> = low * (r ^ 6 / q)" by (simp add: field_simps eval_nat_numeral)
  also have "\<dots> \<le> low * (1 + 1 / 2 ^ 50)"
    using assms(3) by (intro mult_left_mono) (simp_all add: r_def q_def divide_le_eq power_divide)
  finally show ?thesis .
qed

lemma raise_need_ge: "unat a - unat b \<le> unat (pr_BytesToFree (raise_need p a b))"
  by (auto simp: raise_need_def unat_sub word_less_nat_alt word_le_nat_alt)

lemma raise_need_mono: "unat (pr_BytesToFree p) \<le> unat (pr_BytesToFree (raise_need p a b))"
  by (auto simp: raise_need_def word_less_nat_alt)

lemma trip_fields [simp]: "pr_BytesToFree (trip r p) = pr_BytesToFree p" "pr_Over (trip r p)"
  by (simp_all add: trip_def)

lemma Evaluate_percent_need:
  assumes "u_TotalBytes u \<noteq> 0" and "0 < t_HighUsedPercent t" and "t_HighUsedPercent t \<le> UsedPercent u"
  shows "unat (UsedBytes u) - unat (allowedUsed u t) \<le> unat (pr_BytesToFree (Evaluate u t))"
proof -
  let ?p = "percent_arm u t no_pressure"
  have "unat (UsedBytes u) - unat (allowedUsed u t) \<le> unat (pr_BytesToFree ?p)"
    using assms by (simp add: percent_arm_def raise_need_ge)
  also have "\<dots> \<le> unat (pr_BytesToFree (free_arm u t ?p))"
    by (simp add: free_arm_def Let_def raise_need_mono)
  also have "\<dots> \<le> unat (pr_BytesToFree (Evaluate u t))"
    using assms(1) by (simp add: Evaluate_def Let_def)
  finally show ?thesis .
qed

lemma Evaluate_free_need:
  assumes "u_TotalBytes u \<noteq> 0" and "u_FreeBytes u < t_MinFreeBytes t"
  shows "unat (t_MinFreeBytes t) \<le> unat (u_FreeBytes u) + unat (pr_BytesToFree (Evaluate u t))"
proof -
  let ?p = "percent_arm u t no_pressure"
  let ?target = "if t_TargetFreeBytes t < t_MinFreeBytes t then t_MinFreeBytes t else t_TargetFreeBytes t"
  have "0 < t_MinFreeBytes t" using assms(2) by (metis word_gt_0 word_not_simps(1))
  then have "unat ?target - unat (u_FreeBytes u) \<le> unat (pr_BytesToFree (free_arm u t ?p))"
    using assms(2) raise_need_ge [of ?target "u_FreeBytes u" ?p] by (simp add: free_arm_def Let_def)
  also have "\<dots> \<le> unat (pr_BytesToFree (Evaluate u t))"
    using assms(1) by (simp add: Evaluate_def Let_def)
  finally have "unat ?target \<le> unat (u_FreeBytes u) + unat (pr_BytesToFree (Evaluate u t))" by linarith
  moreover have "unat (t_MinFreeBytes t) \<le> unat ?target" by (simp add: word_less_nat_alt)
  ultimately show ?thesis by (rule order_trans [rotated])
qed

lemma Evaluate_Over_iff:
  "pr_Over (Evaluate u t) \<longleftrightarrow> u_TotalBytes u \<noteq> 0 \<and>
     (0 < t_HighUsedPercent t \<and> t_HighUsedPercent t \<le> UsedPercent u \<or> u_FreeBytes u < t_MinFreeBytes t)"
proof -
  have "0 < m" if "f < m" for f m :: "64 word" using that by (metis word_gt_0 word_not_simps(1))
  then show ?thesis
    by (auto simp: Evaluate_def Let_def free_arm_def percent_arm_def no_pressure_def)
qed

lemma allowedUsed_le:
  assumes "0 < t_LowUsedPercent t" and "t_LowUsedPercent t \<le> t_HighUsedPercent t"
  shows "of_nat (unat (allowedUsed u t)) \<le>
    fl64 (fl64 (fl64 (of_nat (unat (u_TotalBytes u))) * t_LowUsedPercent t) / 100)" (is "_ \<le> ?v")
proof -
  have "int (unat (allowedUsed u t)) = take_bit 64 \<lfloor>?v\<rfloor>"
    using assms by (simp add: allowedUsed_def Let_def float_of_uint64_def uint_word_of_int_eq flip: uint_nat)
  also have "\<dots> \<le> \<lfloor>?v\<rfloor>" by (simp add: take_bit_int_less_eq_self_iff)
  finally show ?thesis by (metis le_floor_iff of_int_of_nat_eq)
qed

lemma UsedBytes_unat: "unat (UsedBytes u) = unat (u_TotalBytes u) - unat (u_FreeBytes u)"
  by (auto simp: UsedBytes_def unat_sub word_le_nat_alt not_le)

lemma marks_ordered:
  fixes l h :: rat
  assumes "0 < l" and "l * (1 + 1 / 2 ^ 50) < h"
  shows "l < h"
proof -
  have "l * 1 \<le> l * (1 + 1 / 2 ^ 50)" using assms(1) by (intro mult_left_mono) auto
  with assms(2) show ?thesis by linarith
qed

lemma low_mark_clears_percent_arm:
  assumes "UsedBytes u \<le> allowedUsed u t" and "0 < t_LowUsedPercent t"
    and "t_LowUsedPercent t * (1 + 1 / 2 ^ 50) < t_HighUsedPercent t"
  shows "UsedPercent u < t_HighUsedPercent t"
proof (cases "UsedBytes u = 0 \<or> u_TotalBytes u = 0")
  case True
  with assms show ?thesis
    by (auto simp: UsedPercent_def float_of_uint64_def intro: less_trans [rotated])
next
  case False
  have "t_LowUsedPercent t \<le> t_HighUsedPercent t" using marks_ordered assms(2,3) by (simp add: less_imp_le)
  with assms(1,2) have "of_nat (unat (UsedBytes u)) \<le>
      fl64 (fl64 (fl64 (of_nat (unat (u_TotalBytes u))) * t_LowUsedPercent t) / 100)"
    by (intro order_trans [OF _ allowedUsed_le]) (simp_all only: of_nat_le_iff word_le_nat_alt)
  moreover have "(0 :: rat) < of_nat (unat (UsedBytes u))" "(0 :: rat) < of_nat (unat (u_TotalBytes u))"
    using False by (simp_all only: of_nat_0_less_iff unat_gt_0 de_Morgan_disj not_False_eq_True simp_thms)
  ultimately have "fl64 (fl64 (float_of_uint64 (UsedBytes u) / float_of_uint64 (u_TotalBytes u)) * 100)
      \<le> t_LowUsedPercent t * (1 + 1 / 2 ^ 50)"
    unfolding float_of_uint64_def by (intro percent_of_allowed assms(2))
  moreover have "u_TotalBytes u \<noteq> 0" using False by blast
  ultimately show ?thesis using assms(3) unfolding UsedPercent_def by (simp only: if_False)
qed

subsection \<open>What the policy promises\<close>

text \<open>
  C27. A pass that frees what it set out to free ends the pressure: if a capacity reading trips a
  watermark, then every later reading of the same filesystem with at least \<^verbatim>\<open>BytesToFree\<close> more
  bytes free is under both watermarks, in the rounded arithmetic of the code, provided the low mark
  lies below the high mark by more than one part in \<open>2 ^ 50\<close>.
\<close>

theorem Evaluate_target_clears_pressure:
  assumes over: "pr_Over (Evaluate u t)" and total: "u_TotalBytes u' = u_TotalBytes u"
    and freed: "unat (u_FreeBytes u) + unat (pr_BytesToFree (Evaluate u t)) \<le> unat (u_FreeBytes u')"
    and marks: "0 < t_LowUsedPercent t" "t_LowUsedPercent t * (1 + 1 / 2 ^ 50) < t_HighUsedPercent t"
  shows "\<not> pr_Over (Evaluate u' t)"
proof -
  have T: "u_TotalBytes u \<noteq> 0" using over by (simp add: Evaluate_Over_iff)
  have "\<not> u_FreeBytes u' < t_MinFreeBytes t"
    using Evaluate_free_need [OF T, of t] freed by (auto simp: word_less_nat_alt)
  moreover have "UsedPercent u' < t_HighUsedPercent t"
  proof (cases "0 < t_HighUsedPercent t \<and> t_HighUsedPercent t \<le> UsedPercent u")
    case True
    then have "unat (UsedBytes u) - unat (allowedUsed u t) \<le> unat (pr_BytesToFree (Evaluate u t))"
      using Evaluate_percent_need [OF T] by blast
    then have "UsedBytes u' \<le> allowedUsed u' t"
      using freed total by (simp add: word_le_nat_alt UsedBytes_unat allowedUsed_def)
    then show ?thesis using low_mark_clears_percent_arm marks by blast
  next
    case False
    have "UsedBytes u' \<le> UsedBytes u" using freed total by (simp add: word_le_nat_alt UsedBytes_unat)
    then have "UsedPercent u' \<le> UsedPercent u" using UsedPercent_mono total by blast
    moreover have "0 < t_HighUsedPercent t" using marks marks_ordered less_trans by blast
    ultimately show ?thesis using False by linarith
  qed
  ultimately show ?thesis by (simp add: Evaluate_Over_iff)
qed

text \<open>A 128 GiB disk with one eighth free, under the marks 80 and 75 and a floor of 20 GiB.\<close>

definition demo_marks :: Thresholds where
  "demo_marks = \<lparr>t_HighUsedPercent = 80, t_LowUsedPercent = 75,
     t_MinFreeBytes = 20 * 2 ^ 30, t_TargetFreeBytes = 24 * 2 ^ 30\<rparr>"

definition demo_usage :: "64 word \<Rightarrow> Usage" where
  "demo_usage gib = \<lparr>u_Path = ''/data'', u_TotalBytes = 128 * 2 ^ 30, u_FreeBytes = gib * 2 ^ 30\<rparr>"

lemma demo_floats:
  "fl64 137438953472 = 137438953472" "fl64 120259084288 = 120259084288" "fl64 (7 / 8) = 7 / 8"
  "fl64 (175 / 2) = 175 / 2" "fl64 10307921510400 = 10307921510400" "fl64 103079215104 = 103079215104"
  by (rule fl64_exact_eq [of _ 1 37] fl64_exact_eq [of _ 7 34] fl64_exact_eq [of _ 7 "- 3"]
      fl64_exact_eq [of _ 175 "- 1"] fl64_exact_eq [of _ 75 37] fl64_exact_eq [of _ 3 35]; simp add: pow2_def)+

lemma demo_pressure:
  "Evaluate (demo_usage 16) demo_marks =
     \<lparr>pr_Over = True, pr_Reasons = [''used_percent'', ''min_free''], pr_BytesToFree = 16 * 2 ^ 30\<rparr>"
  by (simp add: demo_floats Evaluate_def Let_def demo_usage_def demo_marks_def UsedPercent_def UsedBytes_def float_of_uint64_def
      percent_arm_def free_arm_def allowedUsed_def raise_need_def trip_def no_pressure_def)

theorem Evaluate_target_clears_pressure_witness:
  "unat (pr_BytesToFree (Evaluate (demo_usage 16) demo_marks)) = 16 * 2 ^ 30 \<and>
   \<not> pr_Over (Evaluate (demo_usage 32) demo_marks)"
  using Evaluate_target_clears_pressure [of "demo_usage 16" demo_marks "demo_usage 32"]
  by (simp add: demo_pressure) (simp add: demo_usage_def demo_marks_def)

text \<open>
  C28. Under pressure, \<^verbatim>\<open>PlanEviction\<close> evicts the shortest run of least recently used unprotected
  candidates whose known sizes add up to \<^verbatim>\<open>BytesToFree\<close>, or all of them, and \<^verbatim>\<open>Shortfall\<close> is exactly
  what is then still missing. No addition wraps while the demand is at most \<open>2 ^ 63\<close>.
\<close>

theorem PlanEviction_shortest_lru_prefix:
  fixes protected :: "string set"
  assumes "pr_Over (Evaluate u t)" and "unat (pr_BytesToFree (Evaluate u t)) \<le> 2 ^ 63"
    and "\<forall>c\<in>set cs. c_SizeBytes c < 2 ^ 63"
  defines "need \<equiv> unat (pr_BytesToFree (Evaluate u t))"
    and "lru \<equiv> sort_key (\<lambda>c. (c_LastAccessed c, Candidate_Key c)) (filter (\<lambda>c. c_Name c \<notin> protected) cs)"
    and "p \<equiv> PlanEviction cs protected u t"
  shows "\<exists>n\<le>length lru. pl_Evict p = take n lru \<and> unat (pl_PlannedBytes p) = sizes (take n lru) \<and>
           (\<forall>k<n. sizes (take k lru) < need) \<and> (need \<le> sizes (take n lru) \<or> n = length lru) \<and>
           unat (pl_Shortfall p) = need - sizes (take n lru)"
proof -
  obtain ev pb where loop: "plan_loop (pr_BytesToFree (Evaluate u t)) 0 lru = (ev, pb)" by force
  have pos: "0 < pr_BytesToFree (Evaluate u t)"
    using assms(1) by (auto simp: Evaluate_def Let_def word_gt_0 no_pressure_def split: if_splits)
  have "\<forall>c\<in>set lru. c_SizeBytes c < 2 ^ 63" using assms(3) by (simp add: lru_def)
  from plan_loop_shortest [OF loop pos assms(2) this]
  obtain n where n: "n \<le> length lru" "ev = take n lru" "unat pb = sizes ev"
    "\<forall>k<n. sizes (take k lru) < need" "need \<le> unat pb \<or> n = length lru"
    by (auto simp: need_def)
  have p: "pl_Evict p = ev" "pl_PlannedBytes p = pb"
    "pl_Shortfall p = (if pr_BytesToFree (Evaluate u t) \<le> pb then 0 else pr_BytesToFree (Evaluate u t) - pb)"
    using assms(1) loop by (simp_all add: p_def PlanEviction_def Let_def filterProtected_def sortLRU_def lru_def)
  then have "unat (pl_Shortfall p) = need - sizes ev"
    using n(3) by (auto simp: need_def word_le_nat_alt unat_sub not_le)
  with p n show ?thesis by (intro exI [of _ n]) auto
qed

definition demo_images :: "Candidate list" where
  "demo_images = map (\<lambda>(n, used, gib). \<lparr>c_Namespace = ''ephemerd'', c_Name = n, c_LastAccessed = used, c_SizeBytes = gib * 2 ^ 30\<rparr>)
     [(''runner'', 10, 9), (''node'', 40, 3), (''go'', 20, 12), (''rust'', 30, 6), (''tiny'', 50, 0)]"

theorem PlanEviction_shortest_lru_prefix_witness:
  "map c_Name (pl_Evict (PlanEviction demo_images {''runner''} (demo_usage 16) demo_marks)) = [''go'', ''rust''] \<and>
   pl_Shortfall (PlanEviction demo_images {''runner''} (demo_usage 16) demo_marks) = 0"
proof -
  let ?lru = "sort_key (\<lambda>c. (c_LastAccessed c, Candidate_Key c)) (filter (\<lambda>c. c_Name c \<notin> {''runner''}) demo_images)"
  let ?plan = "PlanEviction demo_images {''runner''} (demo_usage 16) demo_marks"
  have small: "\<forall>c\<in>set demo_images. c_SizeBytes c < 2 ^ 63" by (simp add: demo_images_def)
  have lru: "length ?lru = 4" "sizes (take 0 ?lru) = 0" "sizes (take 1 ?lru) = 12 * 2 ^ 30"
    "sizes (take 2 ?lru) = 18 * 2 ^ 30" "map c_Name (take 2 ?lru) = [''go'', ''rust'']"
    by (simp_all add: demo_images_def less_eq_prod_def)
  obtain n where n: "n \<le> length ?lru" "pl_Evict ?plan = take n ?lru"
    "\<forall>k<n. sizes (take k ?lru) < 16 * 2 ^ 30" "16 * 2 ^ 30 \<le> sizes (take n ?lru) \<or> n = length ?lru"
    "unat (pl_Shortfall ?plan) = 16 * 2 ^ 30 - sizes (take n ?lru)"
    using PlanEviction_shortest_lru_prefix [of "demo_usage 16" demo_marks demo_images "{''runner''}"] small
    by (auto simp: demo_pressure)
  have "\<not> 2 < n" using n(3) lru(4) by auto
  moreover have "n \<noteq> 0" "n \<noteq> 1" using n(4) lru(1-3) by (auto intro!: Nat.gr0I)
  ultimately have "n = 2" by linarith
  with n lru show ?thesis by (simp add: unat_eq_0)
qed

text \<open>
  The forced plan of \<^verbatim>\<open>cache clear --all\<close> selects every unprotected image record, each as often
  as it is listed, least recently used first, and nothing else; the age backstop selects exactly the
  unprotected records with a known access time before the cutoff.
\<close>

theorem forced_and_age_plans:
  "mset (pl_Evict (PlanForced cs protected)) = filter_mset (\<lambda>c. c_Name c \<notin> protected) (mset cs) \<and>
   sorted (map (\<lambda>c. (c_LastAccessed c, Candidate_Key c)) (pl_Evict (PlanForced cs protected))) \<and>
   pl_Protected (PlanForced cs protected) + length (pl_Evict (PlanForced cs protected)) = length cs \<and>
   mset (PlanByAge cs protected cutoff) =
     filter_mset (\<lambda>c. c_Name c \<notin> protected \<and> c_LastAccessed c \<noteq> 0 \<and> c_LastAccessed c < cutoff) (mset cs) \<and>
   sorted (map c_LastAccessed (PlanByAge cs protected cutoff))"
proof -
  have len: "count_if (\<lambda>c. c_Name c \<in> protected) cs + length (filter (\<lambda>c. c_Name c \<notin> protected) cs) = length cs"
    unfolding count_if_def by (rule sum_length_filter_compl)
  have age: "mset (PlanByAge cs protected cutoff) =
      filter_mset (\<lambda>c. c_Name c \<notin> protected \<and> c_LastAccessed c \<noteq> 0 \<and> c_LastAccessed c < cutoff) (mset cs)"
    by (simp add: PlanByAge_def filterProtected_def sortLRU_def filter_filter_mset conj_commute conj_left_commute)
  have "sorted (map c_LastAccessed (sortLRU xs))" for xs
  proof -
    have "sorted (map fst (map (\<lambda>c. (c_LastAccessed c, Candidate_Key c)) (sortLRU xs)))"
      unfolding sortLRU_def by (rule sorted_map_mono [OF sorted_sort_key]) (auto simp: mono_on_def less_eq_prod_def)
    then show ?thesis by (simp add: comp_def)
  qed
  then have "sorted (map c_LastAccessed (PlanByAge cs protected cutoff))"
    by (simp add: PlanByAge_def sorted_filter)
  with len age show ?thesis
    by (simp add: PlanForced_def filterProtected_def Let_def sortLRU_def sorted_sort_key mset_filter)
qed

text \<open>
  C31. Snapshots belong to a namespace, and \<^verbatim>\<open>ExistingSnapshots\<close> probes each key in the namespace of
  the record that names it, but it returns bare keys. So a chain that is missing in its own namespace is
  planned for repair exactly when no listed record of any namespace names the same key with a snapshot
  that is not reported missing.
\<close>

theorem broken_chain_repair_spec:
  "ch \<in> set (fst (PlanBrokenChains chns (ExistingSnapshots stat chns) protected)) \<longleftrightarrow>
     ch \<in> set chns \<and> ic_SnapshotKey ch \<noteq> [] \<and> ic_Name ch \<notin> protected \<and>
     (\<forall>other\<in>set chns. ic_SnapshotKey other = ic_SnapshotKey ch \<longrightarrow>
        stat (ic_Namespace other) (ic_SnapshotKey ch) = StatNotFound)"
proof -
  have "ic_SnapshotKey ch \<notin> ExistingSnapshots stat chns \<longleftrightarrow>
      (\<forall>other\<in>set chns. ic_SnapshotKey other = ic_SnapshotKey ch \<longrightarrow>
         stat (ic_Namespace other) (ic_SnapshotKey ch) = StatNotFound)" if "ic_SnapshotKey ch \<noteq> []"
    using that unfolding ExistingSnapshots_eq image_iff by auto
  then show ?thesis by (auto simp: PlanBrokenChains_def Let_def sortChains_def)
qed

text \<open>
  The same image in two namespaces, its snapshot removed from the first only: the broken record is
  repaired when it is listed alone, and missed when both are listed.
\<close>

definition demo_chain :: "string \<Rightarrow> ImageChain" where
  "demo_chain ns = \<lparr>ic_Namespace = ns, ic_Name = ''golang'', ic_SnapshotKey = ''sha256:1''\<rparr>"

definition demo_stat :: "string \<Rightarrow> string \<Rightarrow> statAnswer" where
  "demo_stat ns key = (if ns = ''ephemerd'' then StatNotFound else StatOk)"

theorem broken_chain_repair_spec_witness:
  "demo_chain ''ephemerd'' \<in> set (fst (PlanBrokenChains [demo_chain ''ephemerd'']
     (ExistingSnapshots demo_stat [demo_chain ''ephemerd'']) {})) \<and>
   demo_chain ''ephemerd'' \<notin> set (fst (PlanBrokenChains [demo_chain ''ephemerd'', demo_chain ''cache'']
     (ExistingSnapshots demo_stat [demo_chain ''ephemerd'', demo_chain ''cache'']) {}))"
  unfolding broken_chain_repair_spec by (simp add: demo_chain_def demo_stat_def)

end
