(* ===== verification/Effects.thy ===== *)
theory Effects
  imports Prelude "HOL-Library.State_Monad"
begin

text \<open>
  Code that talks to the outside: a state monad whose state carries the world the calls
  read and change, and a trace of the calls that matter to a claim. What the
  outside does is a parameter of the definitions, a function on the world; the trace is the
  only thing a theorem about such code looks at, so it holds whatever the outside answers.

  \<open>emits A m\<close> says that \<open>m\<close> only ever appends events satisfying \<open>A\<close> to the trace. It is
  the frame rule of the components built on this theory.
\<close>

record ('w, 'e) traced =
  tr_world :: 'w
  tr_trace :: "'e list"

definition ask :: "('w \<Rightarrow> 'a \<times> 'w) \<Rightarrow> (('w, 'e, 'z) traced_scheme, 'a) state" where
  "ask f = State (\<lambda>s. case f (tr_world s) of (x, w) \<Rightarrow> (x, s\<lparr>tr_world := w\<rparr>))"

definition tell :: "'e \<Rightarrow> (('w, 'e, 'z) traced_scheme, unit) state" where
  "tell e = State (\<lambda>s. ((), s\<lparr>tr_trace := tr_trace s @ [e]\<rparr>))"

definition emits :: "('e \<Rightarrow> bool) \<Rightarrow> (('w, 'e, 'z) traced_scheme, 'a) state \<Rightarrow> bool" where
  "emits A m \<longleftrightarrow> (\<forall>s. \<exists>es. tr_trace (snd (run_state m s)) = tr_trace s @ es \<and> (\<forall>e\<in>set es. A e))"

named_theorems emits_rules \<open>which events an operation may append to the trace\<close>

lemma run_ask [simp]:
  "run_state (ask f) s = (case f (tr_world s) of (x, w) \<Rightarrow> (x, s\<lparr>tr_world := w\<rparr>))"
  by (simp add: ask_def)

lemma run_tell [simp]: "run_state (tell e) s = ((), s\<lparr>tr_trace := tr_trace s @ [e]\<rparr>)"
  by (simp add: tell_def)

lemma run_update [simp]: "run_state (State_Monad.update f) s = ((), f s)"
  by (simp add: State_Monad.update_def)

lemma emitsI:
  assumes "\<And>s. \<exists>es. tr_trace (snd (run_state m s)) = tr_trace s @ es \<and> (\<forall>e\<in>set es. A e)"
  shows "emits A m"
  using assms by (simp add: emits_def)

lemma emitsE:
  assumes "emits A m" and "run_state m s = (x, s')"
  obtains es where "tr_trace s' = tr_trace s @ es" "\<forall>e\<in>set es. A e"
  using assms unfolding emits_def by (metis snd_conv)

lemma emits_return [emits_rules]: "emits A (State_Monad.return x)"
  by (simp add: emits_def)

lemma emits_ask [emits_rules]: "emits A (ask f)"
  by (simp add: emits_def split: prod.splits)

lemma emits_tell [emits_rules]: "A e \<Longrightarrow> emits A (tell e)"
  by (simp add: emits_def)

lemma emits_get [emits_rules]: "emits A State_Monad.get"
  by (simp add: emits_def)

lemma emits_update [emits_rules]:
  "(\<And>s. tr_trace (f s) = tr_trace s) \<Longrightarrow> emits A (State_Monad.update f)"
  by (simp add: emits_def)

lemma emits_bind [emits_rules]:
  assumes "emits A m" and "\<And>x. emits A (f x)"
  shows "emits A (State_Monad.bind m f)"
proof (rule emitsI)
  fix s
  obtain x s' where m: "run_state m s = (x, s')" by (cases "run_state m s")
  obtain y s'' where f: "run_state (f x) s' = (y, s'')" by (cases "run_state (f x) s'")
  from emitsE [OF assms(1) m] emitsE [OF assms(2) f]
  obtain es fs where "tr_trace s' = tr_trace s @ es" "\<forall>e\<in>set es. A e"
    "tr_trace s'' = tr_trace s' @ fs" "\<forall>e\<in>set fs. A e" by metis
  with m f show "\<exists>es. tr_trace (snd (run_state (State_Monad.bind m f) s)) = tr_trace s @ es \<and> (\<forall>e\<in>set es. A e)"
    by (auto intro!: exI [of _ "es @ fs"])
qed

lemma emits_if [emits_rules]:
  "(b \<Longrightarrow> emits A m) \<Longrightarrow> (\<not> b \<Longrightarrow> emits A n) \<Longrightarrow> emits A (if b then m else n)"
  by simp

lemma emits_option [emits_rules]:
  "(x = None \<Longrightarrow> emits A m) \<Longrightarrow> (\<And>y. x = Some y \<Longrightarrow> emits A (f y)) \<Longrightarrow>
   emits A (case x of None \<Rightarrow> m | Some y \<Rightarrow> f y)"
  by (cases x) auto

lemma emits_prod [emits_rules]:
  "(\<And>a b. x = (a, b) \<Longrightarrow> emits A (f a b)) \<Longrightarrow> emits A (case x of (a, b) \<Rightarrow> f a b)"
  by (cases x) auto

lemma emits_mono: "emits A m \<Longrightarrow> (\<And>e. A e \<Longrightarrow> B e) \<Longrightarrow> emits B m"
  unfolding emits_def by meson

lemma emits_none: "emits (\<lambda>_. False) m \<Longrightarrow> tr_trace (snd (run_state m s)) = tr_trace s"
  unfolding emits_def by (metis all_not_in_conv append_Nil2 set_empty)

text \<open>\<open>keeps f m\<close>: running \<open>m\<close> does not change the part \<open>f\<close> of the state.\<close>

definition keeps :: "('s \<Rightarrow> 'f) \<Rightarrow> ('s, 'a) state \<Rightarrow> bool" where
  "keeps f m \<longleftrightarrow> (\<forall>s. f (snd (run_state m s)) = f s)"

named_theorems keeps_rules \<open>which parts of the state an operation leaves alone\<close>

lemma keepsD: "keeps f m \<Longrightarrow> run_state m s = (x, s') \<Longrightarrow> f s' = f s"
  unfolding keeps_def by (metis snd_conv)

lemma keeps_return [keeps_rules]: "keeps f (State_Monad.return x)"
  by (simp add: keeps_def)

lemma keeps_get [keeps_rules]: "keeps f State_Monad.get"
  by (simp add: keeps_def)

lemma keeps_ask [keeps_rules]: "(\<And>s w. f (s\<lparr>tr_world := w\<rparr>) = f s) \<Longrightarrow> keeps f (ask g)"
  by (simp add: keeps_def split: prod.splits)

lemma keeps_tell [keeps_rules]: "(\<And>s es. f (s\<lparr>tr_trace := es\<rparr>) = f s) \<Longrightarrow> keeps f (tell e)"
  by (simp add: keeps_def)

lemma keeps_update [keeps_rules]: "(\<And>s. f (h s) = f s) \<Longrightarrow> keeps f (State_Monad.update h)"
  by (simp add: keeps_def)

lemma keeps_bind [keeps_rules]:
  "keeps f m \<Longrightarrow> (\<And>x. keeps f (g x)) \<Longrightarrow> keeps f (State_Monad.bind m g)"
  by (simp add: keeps_def split: prod.splits) (metis snd_conv)

lemma keeps_if [keeps_rules]:
  "(b \<Longrightarrow> keeps f m) \<Longrightarrow> (\<not> b \<Longrightarrow> keeps f n) \<Longrightarrow> keeps f (if b then m else n)"
  by simp

lemma keeps_option [keeps_rules]:
  "(x = None \<Longrightarrow> keeps f m) \<Longrightarrow> (\<And>y. x = Some y \<Longrightarrow> keeps f (g y)) \<Longrightarrow>
   keeps f (case x of None \<Rightarrow> m | Some y \<Rightarrow> g y)"
  by (cases x) auto

lemma keeps_prod [keeps_rules]:
  "(\<And>a b. x = (a, b) \<Longrightarrow> keeps f (g a b)) \<Longrightarrow> keeps f (case x of (a, b) \<Rightarrow> g a b)"
  by (cases x) auto

lemma keeps_trace_iff: "keeps tr_trace m \<longleftrightarrow> emits (\<lambda>_. False) m"
  by (simp add: keeps_def emits_def)

end
