(* ===== verification/Image_Collector.thy ===== *)
theory Image_Collector
  imports Image_GC Effects
begin

text \<open>
  The collector around the eviction policy: \<^verbatim>\<open>pkg/imagegc/imagegc.go\<close>, the passes of
  \<^verbatim>\<open>collector.go\<close> and the repair operations of \<^verbatim>\<open>refs.go\<close>. containerd, the filesystem and the
  clock are the record \<open>image_world\<close> of functions on an unspecified world; the trace records which
  containers a pass saw and which image records it asked containerd to delete.
\<close>

subsection \<open>The outside\<close>

record img =
  img_Name :: string
  img_Label :: string
  img_UpdatedAt :: time
  img_CreatedAt :: time

record ctr =
  ctr_ID :: string
  ctr_Image :: string

datatype deleteAnswer = DeleteOk | DeleteNotFound | DeleteError

record 'w image_world =
  x_check :: "'w \<Rightarrow> Usage option \<times> 'w"
  x_now :: "'w \<Rightarrow> time \<times> 'w"
  x_ctxErr :: "'w \<Rightarrow> bool \<times> 'w"
  x_nsList :: "'w \<Rightarrow> string list option \<times> 'w"
  x_ctrList :: "string \<Rightarrow> 'w \<Rightarrow> ctr list option \<times> 'w"
  x_imgList :: "string \<Rightarrow> 'w \<Rightarrow> img list option \<times> 'w"
  x_imgSize :: "string \<Rightarrow> string \<Rightarrow> 'w \<Rightarrow> int option \<times> 'w"
  x_delete :: "string \<Rightarrow> string \<Rightarrow> bool \<Rightarrow> 'w \<Rightarrow> deleteAnswer \<times> 'w"
  x_snapshotKey :: "string \<Rightarrow> string \<Rightarrow> 'w \<Rightarrow> string \<times> 'w"
  x_stat :: "'w \<Rightarrow> (string \<Rightarrow> string \<Rightarrow> statAnswer) \<times> 'w"
  x_parse :: "string \<Rightarrow> time option"

datatype gcEvent =
    ListedContainers string "ctr list"
  | Deleted string string bool deleteAnswer

record 'w gcState = "('w, gcEvent) traced" +
  gc_exhaustedUntil :: time

subsection \<open>Operations on image records\<close>

definition LastAccessed :: "(string \<Rightarrow> time option) \<Rightarrow> img \<Rightarrow> time" where
  "LastAccessed parse i =
     (case (if img_Label i = [] then None else parse (img_Label i)) of
        Some t \<Rightarrow> t
      | None \<Rightarrow> if img_UpdatedAt i \<noteq> 0 then img_UpdatedAt i else img_CreatedAt i)"

definition ResolveNamespaces ::
  "'w image_world \<Rightarrow> string list \<Rightarrow> string list \<Rightarrow> ('w gcState, string list option) state" where
  "ResolveNamespaces x exact pfxs = do {
     all \<leftarrow> ask (x_nsList x);
     State_Monad.return (map_option (filter (\<lambda>ns. ns \<in> set exact \<or>
       (\<exists>p\<in>set pfxs. p \<noteq> [] \<and> has_prefix ns p))) all)
   }"

fun list_sizes :: "'w image_world \<Rightarrow> string \<Rightarrow> img list \<Rightarrow> ('w gcState, Candidate list) state" where
  "list_sizes x ns [] = State_Monad.return []"
| "list_sizes x ns (i # is) = do {
     sz \<leftarrow> ask (x_imgSize x ns (img_Name i));
     rest \<leftarrow> list_sizes x ns is;
     State_Monad.return (\<lparr>c_Namespace = ns, c_Name = img_Name i, c_LastAccessed = LastAccessed (x_parse x) i,
       c_SizeBytes = (case sz of Some n \<Rightarrow> if 0 < n then n else 0 | None \<Rightarrow> 0)\<rparr> # rest)
   }"

fun ListCandidates :: "'w image_world \<Rightarrow> string list \<Rightarrow> ('w gcState, Candidate list) state" where
  "ListCandidates x [] = State_Monad.return []"
| "ListCandidates x (ns # nss) = do {
     imgs \<leftarrow> ask (x_imgList x ns);
     cs \<leftarrow> (case imgs of None \<Rightarrow> State_Monad.return [] | Some is \<Rightarrow> list_sizes x ns is);
     rest \<leftarrow> ListCandidates x nss;
     State_Monad.return (cs @ rest)
   }"

fun list_containers :: "'w image_world \<Rightarrow> string list \<Rightarrow> ('w gcState, ctr list) state" where
  "list_containers x [] = State_Monad.return []"
| "list_containers x (ns # nss) = do {
     ctrs \<leftarrow> ask (x_ctrList x ns);
     (case ctrs of None \<Rightarrow> State_Monad.return () | Some cs \<Rightarrow> tell (ListedContainers ns cs));
     rest \<leftarrow> list_containers x nss;
     State_Monad.return (case ctrs of None \<Rightarrow> rest | Some cs \<Rightarrow> cs @ rest)
   }"

definition RunningContainers ::
  "'w image_world \<Rightarrow> ('w gcState, (string list \<times> string set) option) state" where
  "RunningContainers x = do {
     all \<leftarrow> ask (x_nsList x);
     (case all of
        None \<Rightarrow> State_Monad.return None
      | Some nss \<Rightarrow> do {
          cs \<leftarrow> list_containers x nss;
          State_Monad.return (Some (remdups (map ctr_ID cs), set (filter (\<lambda>r. r \<noteq> []) (map ctr_Image cs))))
        })
   }"

definition Delete :: "'w image_world \<Rightarrow> Candidate \<Rightarrow> bool \<Rightarrow> ('w gcState, bool) state" where
  "Delete x c sync = do {
     a \<leftarrow> ask (x_delete x (c_Namespace c) (c_Name c) sync);
     tell (Deleted (c_Namespace c) (c_Name c) sync a);
     State_Monad.return (a \<noteq> DeleteError)
   }"

text \<open>
  \<^verbatim>\<open>Evict\<close>, with the variables the \<^verbatim>\<open>stop\<close> closure captures as the accumulator \<open>v\<close>.
\<close>

fun Evict :: "'w image_world \<Rightarrow> Candidate list \<Rightarrow> bool \<Rightarrow> ('v \<Rightarrow> ('w gcState, bool \<times> 'v) state) option \<Rightarrow> 'v
    \<Rightarrow> ('w gcState, nat \<times> 'v) state" where
  "Evict x [] sync stop v = State_Monad.return (0, v)"
| "Evict x (c # cs) sync stop v = do {
     cancelled \<leftarrow> ask (x_ctxErr x);
     if cancelled then State_Monad.return (0, v)
     else do {
       ok \<leftarrow> Delete x c sync;
       if \<not> ok then Evict x cs sync stop v
       else do {
         (stopped, v') \<leftarrow> (case stop of None \<Rightarrow> State_Monad.return (False, v) | Some f \<Rightarrow> f v);
         if stopped then State_Monad.return (1, v')
         else do {
           (n, v'') \<leftarrow> Evict x cs sync stop v';
           State_Monad.return (Suc n, v'')
         }
       }
     }
   }"

subsection \<open>Passes\<close>

record gcConfig =
  gc_Thresholds :: Thresholds
  gc_Namespaces :: "string list"
  gc_NamespacePrefixes :: "string list"
  gc_PinnedImages :: "string list"
  gc_LiveJobPrefixes :: "(string \<Rightarrow> string list) option"
  gc_MaxAge :: time
  gc_ExhaustedBackoff :: time

definition DefaultExhaustedBackoff :: time where
  "DefaultExhaustedBackoff = 30 * minute"

text \<open>\<^verbatim>\<open>New\<close>, whether or not a client is given and with the path to measure.\<close>

definition Collector_New :: "bool \<Rightarrow> string \<Rightarrow> gcConfig \<Rightarrow> gcConfig option" where
  "Collector_New client path cfg =
     (if \<not> client \<or> path = [] then None
      else if \<not> Thresholds_Enabled (gc_Thresholds cfg) \<and> gc_MaxAge cfg \<le> 0 then None
      else Some (if gc_ExhaustedBackoff cfg \<le> 0
                 then cfg\<lparr>gc_ExhaustedBackoff := DefaultExhaustedBackoff\<rparr> else cfg))"

record gcResult =
  r_Before :: Usage
  r_After :: Usage
  r_Pressure :: Pressure
  r_AgeEvicted :: nat
  r_Evicted :: nat
  r_Protected :: nat
  r_Exhausted :: bool
  r_Skipped :: bool
  r_Forced :: bool

definition zero_usage :: Usage where
  "zero_usage = \<lparr>u_Path = [], u_TotalBytes = 0, u_FreeBytes = 0\<rparr>"

definition zero_result :: "bool \<Rightarrow> gcResult" where
  "zero_result force =
     \<lparr>r_Before = zero_usage, r_After = zero_usage, r_Pressure = no_pressure, r_AgeEvicted = 0, r_Evicted = 0,
      r_Protected = 0, r_Exhausted = False, r_Skipped = False, r_Forced = force\<rparr>"

definition start_result :: "bool \<Rightarrow> Thresholds \<Rightarrow> Usage \<Rightarrow> gcResult" where
  "start_result force t before =
     (zero_result force)\<lparr>r_Before := before, r_After := before, r_Pressure := Evaluate before t\<rparr>"

definition protect :: "gcConfig \<Rightarrow> string list \<Rightarrow> string set \<Rightarrow> Candidate list \<Rightarrow> string set" where
  "protect cfg ids running cs =
     (let protected = ProtectedSet (gc_PinnedImages cfg) running in
      case gc_LiveJobPrefixes cfg of
        None \<Rightarrow> protected
      | Some f \<Rightarrow> if ids = [] then protected
                  else fst (ProtectPrefixed cs (concat (map f ids)) protected))"

text \<open>The \<^verbatim>\<open>stop\<close> closure of \<^verbatim>\<open>collect\<close>; it captures \<^verbatim>\<open>res.After\<close> and \<^verbatim>\<open>cleared\<close>.\<close>

definition pressure_cleared ::
  "'w image_world \<Rightarrow> Thresholds \<Rightarrow> Usage \<times> bool \<Rightarrow> ('w gcState, bool \<times> Usage \<times> bool) state" where
  "pressure_cleared x t v = do {
     u \<leftarrow> ask (x_check x);
     State_Monad.return (case u of
        None \<Rightarrow> (False, v)
      | Some u \<Rightarrow> if \<not> pr_Over (Evaluate u t) then (True, u, True) else (False, u, snd v))
   }"

definition age_backstop ::
  "'w image_world \<Rightarrow> gcConfig \<Rightarrow> Candidate list \<Rightarrow> string set \<Rightarrow> ('w gcState, nat \<times> Candidate list) state" where
  "age_backstop x cfg cs protected =
     (if 0 < gc_MaxAge cfg then do {
        now \<leftarrow> ask (x_now x);
        let aged = PlanByAge cs protected (now - gc_MaxAge cfg);
        if aged = [] then State_Monad.return (0, cs)
        else do {
          (n, _) \<leftarrow> Evict x aged False None ();
          State_Monad.return (n, removeEvicted cs aged)
        }
      } else State_Monad.return (0, cs))"

definition settle ::
  "'w image_world \<Rightarrow> gcConfig \<Rightarrow> bool \<Rightarrow> bool \<Rightarrow> gcResult \<Rightarrow> ('w gcState, gcResult) state" where
  "settle x cfg force cleared res =
     (if force then do {
        State_Monad.update (\<lambda>s.
          if gc_exhaustedUntil s \<noteq> 0 \<and> (0 < r_Evicted res + r_AgeEvicted res \<or> cleared)
          then s\<lparr>gc_exhaustedUntil := 0\<rparr> else s);
        State_Monad.return res
      }
      else if cleared then State_Monad.return res
      else do {
        now \<leftarrow> ask (x_now x);
        State_Monad.update (gc_exhaustedUntil_update (\<lambda>_. now + gc_ExhaustedBackoff cfg));
        State_Monad.return (res\<lparr>r_Exhausted := True\<rparr>)
      })"

definition evict_pass ::
  "'w image_world \<Rightarrow> gcConfig \<Rightarrow> bool \<Rightarrow> Candidate list \<Rightarrow> string set \<Rightarrow> gcResult \<Rightarrow> ('w gcState, gcResult) state" where
  "evict_pass x cfg force cs protected res = do {
     let plan = (if force then PlanForced cs protected
                 else PlanEviction cs protected (r_Before res) (gc_Thresholds cfg));
     (n, u, cleared) \<leftarrow> Evict x (pl_Evict plan) True
        (if force then None else Some (pressure_cleared x (gc_Thresholds cfg))) (r_After res, False);
     after \<leftarrow> ask (x_check x);
     let (u, cleared) = (case after of
        None \<Rightarrow> (u, cleared)
      | Some a \<Rightarrow> (a, \<not> pr_Over (Evaluate a (gc_Thresholds cfg))));
     settle x cfg force cleared
       (res\<lparr>r_Protected := pl_Protected plan, r_Evicted := n, r_After := u\<rparr>)
   }"

definition collect_listed ::
  "'w image_world \<Rightarrow> gcConfig \<Rightarrow> bool \<Rightarrow> string list \<Rightarrow> gcResult \<Rightarrow> ('w gcState, gcResult \<times> bool) state" where
  "collect_listed x cfg force nss res = do {
     rc \<leftarrow> RunningContainers x;
     (case rc of
        None \<Rightarrow> State_Monad.return (res, True)
      | Some (ids, running) \<Rightarrow> do {
          cs \<leftarrow> ListCandidates x nss;
          let protected = protect cfg ids running cs;
          (n, cs) \<leftarrow> age_backstop x cfg cs protected;
          let res = res\<lparr>r_AgeEvicted := n\<rparr>;
          if \<not> force \<and> \<not> pr_Over (r_Pressure res) then do {
            after \<leftarrow> ask (x_check x);
            State_Monad.return (res\<lparr>r_After := (case after of None \<Rightarrow> zero_usage | Some u \<Rightarrow> u)\<rparr>, False)
          } else do {
            res \<leftarrow> evict_pass x cfg force cs protected res;
            State_Monad.return (res, False)
          }
        })
   }"

text \<open>\<^verbatim>\<open>collect\<close>; the second component of the result is "an error was returned".\<close>

definition collect :: "'w image_world \<Rightarrow> gcConfig \<Rightarrow> bool \<Rightarrow> ('w gcState, gcResult \<times> bool) state" where
  "collect x cfg force = do {
     before \<leftarrow> ask (x_check x);
     (case before of
        None \<Rightarrow> State_Monad.return (zero_result force, True)
      | Some before \<Rightarrow> do {
          let pr = Evaluate before (gc_Thresholds cfg);
          let res = start_result force (gc_Thresholds cfg) before;
          s \<leftarrow> State_Monad.get;
          suppressed \<leftarrow> (if \<not> force \<and> pr_Over pr then do {
              now \<leftarrow> ask (x_now x);
              State_Monad.return (now < gc_exhaustedUntil s)
            } else State_Monad.return False);
          if suppressed then State_Monad.return (res\<lparr>r_Skipped := True\<rparr>, False)
          else if \<not> force \<and> \<not> pr_Over pr \<and> gc_MaxAge cfg \<le> 0 then State_Monad.return (res, False)
          else do {
            nss \<leftarrow> ResolveNamespaces x (gc_Namespaces cfg) (gc_NamespacePrefixes cfg);
            (case nss of
               None \<Rightarrow> State_Monad.return (res, True)
             | Some nss \<Rightarrow> if nss = [] then State_Monad.return (res, False)
                           else collect_listed x cfg force nss res)
          }
        })
   }"

definition Collect :: "'w image_world \<Rightarrow> gcConfig \<Rightarrow> ('w gcState, gcResult \<times> bool) state" where
  "Collect x cfg = collect x cfg False"

definition CollectAll :: "'w image_world \<Rightarrow> gcConfig \<Rightarrow> ('w gcState, gcResult \<times> bool) state" where
  "CollectAll x cfg = collect x cfg True"

definition EnsureHeadroom :: "'w image_world \<Rightarrow> gcConfig \<Rightarrow> ('w gcState, unit) state" where
  "EnsureHeadroom x cfg = do {
     u \<leftarrow> ask (x_check x);
     (case u of
        None \<Rightarrow> State_Monad.return ()
      | Some u \<Rightarrow>
          if \<not> pr_Over (Evaluate u (gc_Thresholds cfg)) then State_Monad.return ()
          else do { _ \<leftarrow> Collect x cfg; State_Monad.return () })
   }"

subsection \<open>Chain repair\<close>

fun list_chains :: "'w image_world \<Rightarrow> string \<Rightarrow> img list \<Rightarrow> ('w gcState, ImageChain list) state" where
  "list_chains x ns [] = State_Monad.return []"
| "list_chains x ns (i # is) = do {
     key \<leftarrow> ask (x_snapshotKey x ns (img_Name i));
     rest \<leftarrow> list_chains x ns is;
     State_Monad.return (\<lparr>ic_Namespace = ns, ic_Name = img_Name i, ic_SnapshotKey = key\<rparr> # rest)
   }"

fun ListImageChains :: "'w image_world \<Rightarrow> string list \<Rightarrow> ('w gcState, ImageChain list) state" where
  "ListImageChains x [] = State_Monad.return []"
| "ListImageChains x (ns # nss) = do {
     imgs \<leftarrow> ask (x_imgList x ns);
     cs \<leftarrow> (case imgs of None \<Rightarrow> State_Monad.return [] | Some is \<Rightarrow> list_chains x ns is);
     rest \<leftarrow> ListImageChains x nss;
     State_Monad.return (cs @ rest)
   }"

fun delete_chains :: "'w image_world \<Rightarrow> ImageChain list \<Rightarrow> ('w gcState, nat) state" where
  "delete_chains x [] = State_Monad.return 0"
| "delete_chains x (ch # chs) = do {
     ok \<leftarrow> Delete x (ImageChain_Candidate ch) True;
     n \<leftarrow> delete_chains x chs;
     State_Monad.return (if ok then Suc n else n)
   }"

definition RepairBrokenChains :: "'w image_world \<Rightarrow> string list \<Rightarrow> string set \<Rightarrow> ('w gcState, nat) state" where
  "RepairBrokenChains x nss protected = do {
     chs \<leftarrow> ListImageChains x nss;
     if chs = [] then State_Monad.return 0
     else do {
       stat \<leftarrow> ask (x_stat x);
       delete_chains x (fst (PlanBrokenChains chs (ExistingSnapshots stat chs) protected))
     }
   }"

definition EvictReferencing :: "'w image_world \<Rightarrow> string list \<Rightarrow> string \<Rightarrow> string set \<Rightarrow> ('w gcState, nat) state" where
  "EvictReferencing x nss key protected =
     (if key = [] then State_Monad.return 0
      else do {
        chs \<leftarrow> ListImageChains x nss;
        delete_chains x (filter (\<lambda>ch. ic_Name ch \<notin> protected) (ChainsReferencing chs key))
      })"

subsection \<open>What a pass may delete\<close>

definition deletes_only :: "string set \<Rightarrow> gcEvent \<Rightarrow> bool" where
  "deletes_only N e \<longleftrightarrow> (case e of Deleted ns n sync a \<Rightarrow> n \<in> N | ListedContainers ns cs \<Rightarrow> False)"

definition listing :: "gcEvent \<Rightarrow> bool" where
  "listing e \<longleftrightarrow> (case e of Deleted ns n sync a \<Rightarrow> False | ListedContainers ns cs \<Rightarrow> True)"

lemma emits_Delete [emits_rules]: "c_Name c \<in> N \<Longrightarrow> emits (deletes_only N) (Delete x c sync)"
  unfolding Delete_def by (intro emits_rules) (simp add: deletes_only_def)

lemma emits_Evict [emits_rules]:
  assumes "\<And>c. c \<in> set cs \<Longrightarrow> c_Name c \<in> N" and "\<And>f v. stop = Some f \<Longrightarrow> emits (deletes_only N) (f v)"
  shows "emits (deletes_only N) (Evict x cs sync stop v)"
proof -
  have "emits (deletes_only N) (case stop of None \<Rightarrow> State_Monad.return (False, v) | Some f \<Rightarrow> f v)" for v
    by (cases stop) (auto intro: emits_rules assms(2))
  with assms(1) show ?thesis by (induction cs arbitrary: v) (auto intro!: emits_rules)
qed

lemma emits_pressure_cleared [emits_rules]: "emits A (pressure_cleared x t v)"
  unfolding pressure_cleared_def by (intro emits_rules)

lemma emits_settle [emits_rules]: "emits A (settle x cfg force cleared res)"
  unfolding settle_def by (intro emits_rules) auto

lemma PlanByAge_names: "c \<in> set (PlanByAge cs P cutoff) \<Longrightarrow> c \<in> set cs \<and> c_Name c \<notin> P"
  by (auto simp: PlanByAge_def)

lemma plan_loop_subset: "plan_loop need p cs = (ev, pb) \<Longrightarrow> set ev \<subseteq> set cs"
  by (induction need p cs arbitrary: ev pb rule: plan_loop.induct) (force simp: Let_def split: if_splits prod.splits)+

lemma PlanEviction_names: "c \<in> set (pl_Evict (PlanEviction cs P u t)) \<Longrightarrow> c \<in> set cs \<and> c_Name c \<notin> P"
  using plan_loop_subset [of _ 0 "sortLRU (filter (\<lambda>c. c_Name c \<notin> P) cs)"]
  by (fastforce simp: PlanEviction_def Let_def filterProtected_def split: if_splits prod.splits)

lemma PlanForced_names: "c \<in> set (pl_Evict (PlanForced cs P)) \<Longrightarrow> c \<in> set cs \<and> c_Name c \<notin> P"
  by (auto simp: PlanForced_def Let_def filterProtected_def)

lemma emits_age_backstop [emits_rules]:
  "emits (deletes_only (c_Name ` set cs - P)) (age_backstop x cfg cs P)"
  unfolding age_backstop_def Let_def by (intro emits_rules) (auto dest: PlanByAge_names)

lemma age_backstop_subset:
  "run_state (age_backstop x cfg cs P) s = ((n, cs'), s') \<Longrightarrow> set cs' \<subseteq> set cs"
  by (auto simp: age_backstop_def Let_def removeEvicted_def split: if_splits prod.splits)

lemma emits_evict_pass [emits_rules]:
  "emits (deletes_only (c_Name ` set cs - P)) (evict_pass x cfg force cs P res)"
  unfolding evict_pass_def Let_def
  by (intro emits_rules) (auto dest: PlanEviction_names PlanForced_names intro!: emits_rules split: if_splits)

lemma emits_list_sizes [emits_rules]: "emits A (list_sizes x ns is)"
  by (induction "is") (auto intro!: emits_rules)

lemma emits_ListCandidates [emits_rules]: "emits A (ListCandidates x nss)"
  by (induction nss) (auto intro!: emits_rules)

lemma emits_ResolveNamespaces [emits_rules]: "emits A (ResolveNamespaces x exact pfxs)"
  unfolding ResolveNamespaces_def by (intro emits_rules)

text \<open>Everything listed is reflected in the live set.\<close>

definition covered :: "string set \<Rightarrow> string set \<Rightarrow> gcEvent list \<Rightarrow> bool" where
  "covered ids running ls \<longleftrightarrow> (\<forall>ns cs c. ListedContainers ns cs \<in> set ls \<longrightarrow> c \<in> set cs \<longrightarrow>
     ctr_ID c \<in> ids \<and> (ctr_Image c \<noteq> [] \<longrightarrow> ctr_Image c \<in> running))"

lemma list_containers_run:
  assumes "run_state (list_containers x nss) s = (cs, s')"
  shows "\<exists>ls. tr_trace s' = tr_trace s @ ls \<and> (\<forall>e\<in>set ls. listing e) \<and>
     (\<forall>ns c. ListedContainers ns c \<in> set ls \<longrightarrow> set c \<subseteq> set cs)"
  using assms
proof (induction nss arbitrary: s cs s')
  case (Cons ns nss)
  obtain a w where a: "x_ctrList x ns (tr_world s) = (a, w)" by force
  define s1 where "s1 = (case a of None \<Rightarrow> s\<lparr>tr_world := w\<rparr>
     | Some c \<Rightarrow> s\<lparr>tr_world := w, tr_trace := tr_trace s @ [ListedContainers ns c]\<rparr>)"
  obtain rest s2 where r: "run_state (list_containers x nss) s1 = (rest, s2)" by force
  have out: "s' = s2" "cs = (case a of None \<Rightarrow> rest | Some c \<Rightarrow> c @ rest)"
    using Cons.prems a r by (auto simp: s1_def split: option.splits)
  obtain ls where ls: "tr_trace s2 = tr_trace s1 @ ls" "\<forall>e\<in>set ls. listing e"
    "\<forall>ns c. ListedContainers ns c \<in> set ls \<longrightarrow> set c \<subseteq> set rest" using Cons.IH [OF r] by blast
  show ?case
  proof (cases a)
    case None
    with ls out show ?thesis by (auto simp: s1_def)
  next
    case (Some c)
    with ls out show ?thesis
      by (intro exI [of _ "ListedContainers ns c # ls"]) (auto simp: s1_def listing_def)
  qed
qed simp

lemma RunningContainers_run:
  assumes "run_state (RunningContainers x) s = (rc, s')"
  shows "\<exists>ls. tr_trace s' = tr_trace s @ ls \<and> (\<forall>e\<in>set ls. listing e) \<and>
     (\<forall>ids running. rc = Some (ids, running) \<longrightarrow> covered (set ids) running ls)"
proof -
  obtain a w where a: "x_nsList x (tr_world s) = (a, w)" by force
  show ?thesis
  proof (cases a)
    case None
    with assms a show ?thesis by (auto simp: RunningContainers_def)
  next
    case (Some nss)
    obtain cs s1 where r: "run_state (list_containers x nss) (s\<lparr>tr_world := w\<rparr>) = (cs, s1)" by force
    with assms a Some have out: "s' = s1"
      "rc = Some (remdups (map ctr_ID cs), set (filter (\<lambda>r. r \<noteq> []) (map ctr_Image cs)))"
      by (auto simp: RunningContainers_def)
    from list_containers_run [OF r] obtain ls where "tr_trace s' = tr_trace s @ ls" "\<forall>e\<in>set ls. listing e"
      "\<forall>ns c. ListedContainers ns c \<in> set ls \<longrightarrow> set c \<subseteq> set cs" using out by auto
    then show ?thesis using out unfolding covered_def by (intro exI [of _ ls]) (simp, blast)
  qed
qed

text \<open>
  A pass lists containers first and then deletes only candidates outside the set \<^const>\<open>protect\<close>
  computes from what it listed. A pass that reports an error has deleted nothing.
\<close>

definition pass_trace :: "gcConfig \<Rightarrow> bool \<Rightarrow> gcEvent list \<Rightarrow> bool" where
  "pass_trace cfg err es \<longleftrightarrow> (\<exists>ls ds ids running cs. es = ls @ ds \<and> (\<forall>e\<in>set ls. listing e) \<and>
     (err \<longrightarrow> ds = []) \<and> (ds \<noteq> [] \<longrightarrow> covered (set ids) running ls) \<and>
     (\<forall>e\<in>set ds. deletes_only (c_Name ` set cs - protect cfg ids running cs) e))"

lemma pass_trace_Nil [simp]: "pass_trace cfg err []"
  by (auto simp: pass_trace_def)

lemma collect_listed_trace:
  assumes "run_state (collect_listed x cfg force nss res) s = ((res', err), s')"
  shows "\<exists>es. tr_trace s' = tr_trace s @ es \<and> pass_trace cfg err es"
proof -
  obtain rc s1 where rc: "run_state (RunningContainers x) s = (rc, s1)" by force
  obtain ls where ls: "tr_trace s1 = tr_trace s @ ls" "\<forall>e\<in>set ls. listing e"
    "\<And>ids running. rc = Some (ids, running) \<Longrightarrow> covered (set ids) running ls"
    using RunningContainers_run [OF rc] by blast
  show ?thesis
  proof (cases rc)
    case None
    with assms rc ls show ?thesis
      by (auto simp: collect_listed_def pass_trace_def intro!: exI [of _ ls])
  next
    case (Some p)
    obtain ids running where p: "p = (ids, running)" by force
    obtain cs s2 where cs: "run_state (ListCandidates x nss) s1 = (cs, s2)" by force
    define P where "P = protect cfg ids running cs"
    let ?N = "c_Name ` set cs - P"
    obtain n cs' s3 where age: "run_state (age_backstop x cfg cs P) s2 = ((n, cs'), s3)" by (metis surj_pair)
    have "emits (deletes_only ?N) (evict_pass x cfg force cs' P r)" for r
      using age_backstop_subset [OF age]
      by (intro emits_mono [OF emits_evict_pass]) (auto simp: deletes_only_def split: gcEvent.splits)
    then have "emits (deletes_only ?N)
       (if \<not> force \<and> \<not> pr_Over (r_Pressure (res\<lparr>r_AgeEvicted := n\<rparr>)) then do {
            after \<leftarrow> ask (x_check x);
            State_Monad.return (res\<lparr>r_AgeEvicted := n, r_After := (case after of None \<Rightarrow> zero_usage | Some u \<Rightarrow> u)\<rparr>, False)
          } else do {
            res \<leftarrow> evict_pass x cfg force cs' P (res\<lparr>r_AgeEvicted := n\<rparr>);
            State_Monad.return (res, False)
          })" (is "emits _ ?rest")
      by (intro emits_rules) auto
    moreover have rest: "run_state ?rest s3 = ((res', err), s')"
      using assms rc Some p cs age by (simp add: collect_listed_def Let_def P_def cong: if_cong split del: if_split)
    ultimately obtain ds2 where ds2: "tr_trace s' = tr_trace s3 @ ds2" "\<forall>e\<in>set ds2. deletes_only ?N e"
      by (metis emitsE)
    obtain ds1 where ds1: "tr_trace s3 = tr_trace s2 @ ds1" "\<forall>e\<in>set ds1. deletes_only ?N e"
      using emitsE [OF emits_age_backstop age] by blast
    have "tr_trace s2 = tr_trace s1" using emits_none [OF emits_ListCandidates, of x nss s1] cs by simp
    moreover have "\<not> err" using rest by (auto split: if_splits prod.splits)
    ultimately show ?thesis using ls ds1 ds2 Some p unfolding pass_trace_def P_def
      by (intro exI [of _ "ls @ ds1 @ ds2"] conjI exI [of _ ls] exI [of _ "ds1 @ ds2"] exI [of _ ids]
          exI [of _ running] exI [of _ cs]) auto
  qed
qed

subsection \<open>The backoff\<close>

lemma keeps_Delete [keeps_rules]: "keeps gc_exhaustedUntil (Delete x c sync)"
  unfolding Delete_def by (intro keeps_rules) auto

lemma keeps_Evict [keeps_rules]:
  assumes "\<And>f v. stop = Some f \<Longrightarrow> keeps gc_exhaustedUntil (f v)"
  shows "keeps gc_exhaustedUntil (Evict x cs sync stop v)"
proof -
  have "keeps gc_exhaustedUntil (case stop of None \<Rightarrow> State_Monad.return (False, v) | Some f \<Rightarrow> f v)" for v
    by (cases stop) (auto intro: keeps_rules assms)
  then show ?thesis by (induction cs arbitrary: v) (auto intro!: keeps_rules)
qed

lemma keeps_list_sizes [keeps_rules]: "keeps gc_exhaustedUntil (list_sizes x ns is)"
  by (induction "is") (auto intro!: keeps_rules)

lemma keeps_ListCandidates [keeps_rules]: "keeps gc_exhaustedUntil (ListCandidates x nss)"
  by (induction nss) (auto intro!: keeps_rules)

lemma keeps_list_containers [keeps_rules]: "keeps gc_exhaustedUntil (list_containers x nss)"
  by (induction nss) (auto intro!: keeps_rules)

lemma keeps_RunningContainers [keeps_rules]: "keeps gc_exhaustedUntil (RunningContainers x)"
  unfolding RunningContainers_def by (intro keeps_rules) auto

lemma keeps_pressure_cleared [keeps_rules]: "keeps gc_exhaustedUntil (pressure_cleared x t v)"
  unfolding pressure_cleared_def by (intro keeps_rules) auto

lemma keeps_age_backstop [keeps_rules]: "keeps gc_exhaustedUntil (age_backstop x cfg cs P)"
  unfolding age_backstop_def Let_def by (intro keeps_rules) auto

text \<open>
  What a pass may do to the backoff: \<open>old\<close> is the time until which passes were suppressed before
  it, \<open>new\<close> the one after it.
\<close>

definition backoff_step ::
  "'w image_world \<Rightarrow> gcConfig \<Rightarrow> bool \<Rightarrow> gcResult \<Rightarrow> time \<Rightarrow> time \<Rightarrow> bool" where
  "backoff_step x cfg force res old new \<longleftrightarrow>
     (let over = (\<lambda>u. pr_Over (Evaluate u (gc_Thresholds cfg))) in
      if force then
        \<not> r_Exhausted res \<and> (new = old \<or> new = 0 \<and> (0 < r_Evicted res + r_AgeEvicted res \<or> \<not> over (r_After res))) \<and>
        (0 < r_Evicted res + r_AgeEvicted res \<longrightarrow> new = 0)
      else if r_Exhausted res then
        pr_Over (r_Pressure res) \<and> over (r_After res) \<and> (\<exists>w. new = fst (x_now x w) + gc_ExhaustedBackoff cfg)
      else new = old \<and> (0 < r_Evicted res \<longrightarrow> \<not> over (r_After res)))"

lemma settle_backoff:
  assumes "run_state (settle x cfg force cleared res) s = (res', s')" and "\<not> r_Exhausted res"
    and "cleared \<Longrightarrow> \<not> pr_Over (Evaluate (r_After res) (gc_Thresholds cfg))"
    and "\<not> force \<Longrightarrow> \<not> cleared \<Longrightarrow> pr_Over (Evaluate (r_After res) (gc_Thresholds cfg))"
    and "\<not> force \<Longrightarrow> pr_Over (r_Pressure res)" and "gc_exhaustedUntil s = old"
  shows "backoff_step x cfg force res' old (gc_exhaustedUntil s')"
  using assms
  by (auto simp: settle_def backoff_step_def Let_def split: if_splits prod.splits intro!: exI [of _ "tr_world s"])

lemma Evict_None: "run_state (Evict x cs sync None v) s = ((n, v'), s') \<Longrightarrow> v' = v"
  by (induction cs arbitrary: s n) (auto split: if_splits prod.splits)

text \<open>The variable \<^verbatim>\<open>cleared\<close> agrees with the last reading of the disk.\<close>

lemma Evict_cleared:
  assumes "run_state (Evict x cs sync (Some (pressure_cleared x t)) (u, False)) s = ((n, u', c), s')"
    and "pr_Over (Evaluate u t)"
  shows "c \<longleftrightarrow> \<not> pr_Over (Evaluate u' t)"
  using assms
proof (induction cs arbitrary: u s n)
  case (Cons c cs)
  then show ?case
    by (auto simp: pressure_cleared_def split: if_splits prod.splits option.splits)
qed simp

lemma evict_pass_backoff:
  assumes "run_state (evict_pass x cfg force cs P res) s = (res', s')" and "\<not> r_Exhausted res"
    and "r_Pressure res = Evaluate (r_After res) (gc_Thresholds cfg)" and "\<not> force \<Longrightarrow> pr_Over (r_Pressure res)"
  shows "backoff_step x cfg force res' (gc_exhaustedUntil s) (gc_exhaustedUntil s')"
proof -
  let ?plan = "if force then PlanForced cs P else PlanEviction cs P (r_Before res) (gc_Thresholds cfg)"
  let ?stop = "if force then None else Some (pressure_cleared x (gc_Thresholds cfg))"
  obtain n u c s1 where ev: "run_state (Evict x (pl_Evict ?plan) True ?stop (r_After res, False)) s = ((n, u, c), s1)"
    by (metis surj_pair)
  have k: "gc_exhaustedUntil s1 = gc_exhaustedUntil s"
    by (rule keepsD [OF keeps_Evict ev]) (auto intro: keeps_rules split: if_splits)
  have f: "\<not> c" if force using ev that by (auto dest: Evict_None)
  have a: "c \<longleftrightarrow> \<not> pr_Over (Evaluate u (gc_Thresholds cfg))" if "\<not> force"
  proof -
    have "run_state (Evict x (pl_Evict ?plan) True (Some (pressure_cleared x (gc_Thresholds cfg))) (r_After res, False)) s =
        ((n, u, c), s1)" using ev that by simp
    then show ?thesis by (rule Evict_cleared) (use assms(3,4) that in simp)
  qed
  obtain after s2 where rd: "run_state (ask (x_check x)) s1 = (after, s2)" by (metis surj_pair)
  have k2: "gc_exhaustedUntil s2 = gc_exhaustedUntil s"
    using k keepsD [OF keeps_ask [of gc_exhaustedUntil] rd] by simp
  define u' where "u' = (case after of None \<Rightarrow> u | Some a \<Rightarrow> a)"
  define c' where "c' = (case after of None \<Rightarrow> c | Some a \<Rightarrow> \<not> pr_Over (Evaluate a (gc_Thresholds cfg)))"
  have st: "run_state (settle x cfg force c' (res\<lparr>r_Protected := pl_Protected ?plan, r_Evicted := n, r_After := u'\<rparr>)) s2 = (res', s')"
    using assms(1) ev rd
    by (cases after) (auto simp: evict_pass_def Let_def u'_def c'_def split: prod.splits if_splits)
  show ?thesis
    by (rule settle_backoff [OF st])
      (use assms(2,4) f a k2 in \<open>auto simp: u'_def c'_def split: option.splits\<close>)
qed

lemma collect_listed_backoff:
  assumes "run_state (collect_listed x cfg force nss res) s = ((res', err), s')" and "\<not> r_Exhausted res"
    and "r_Evicted res = 0" and "r_AgeEvicted res = 0"
    and "r_Pressure res = Evaluate (r_After res) (gc_Thresholds cfg)"
  shows "backoff_step x cfg force res' (gc_exhaustedUntil s) (gc_exhaustedUntil s') \<and>
         (err \<longrightarrow> gc_exhaustedUntil s' = gc_exhaustedUntil s)"
proof -
  obtain rc s1 where rc: "run_state (RunningContainers x) s = (rc, s1)" by force
  have k1: "gc_exhaustedUntil s1 = gc_exhaustedUntil s" by (rule keepsD [OF keeps_RunningContainers rc])
  show ?thesis
  proof (cases rc)
    case None
    with assms rc k1 show ?thesis by (auto simp: collect_listed_def backoff_step_def)
  next
    case (Some p)
    obtain ids running where p: "p = (ids, running)" by force
    obtain cs s2 where cs: "run_state (ListCandidates x nss) s1 = (cs, s2)" by force
    let ?P = "protect cfg ids running cs"
    obtain n cs' s3 where age: "run_state (age_backstop x cfg cs ?P) s2 = ((n, cs'), s3)" by (metis surj_pair)
    have k: "gc_exhaustedUntil s3 = gc_exhaustedUntil s"
      using k1 keepsD [OF keeps_ListCandidates cs] keepsD [OF keeps_age_backstop age] by simp
    let ?res = "res\<lparr>r_AgeEvicted := n\<rparr>"
    have "backoff_step x cfg force res' (gc_exhaustedUntil s3) (gc_exhaustedUntil s') \<and> \<not> err"
    proof (cases "\<not> force \<and> \<not> pr_Over (r_Pressure res)")
      case True
      then have "\<not> force" "\<not> err" "\<not> r_Exhausted res'" "r_Evicted res' = 0" "gc_exhaustedUntil s' = gc_exhaustedUntil s3"
        using assms(1-3) rc Some p cs age by (auto simp: collect_listed_def Let_def split: prod.splits)
      then show ?thesis by (simp add: backoff_step_def)
    next
      case False
      then have "run_state (evict_pass x cfg force cs' ?P ?res) s3 = (res', s')" "\<not> err"
        using assms(1) rc Some p cs age by (auto simp: collect_listed_def Let_def split: prod.splits if_splits)
      moreover from False have "pr_Over (r_Pressure ?res)" if "\<not> force" using that by simp
      ultimately show ?thesis
        using evict_pass_backoff [of x cfg force cs' ?P ?res s3 res' s'] assms(2,5) False by auto
    qed
    with k show ?thesis by simp
  qed
qed

lemma collect_listed_skipped:
  "run_state (collect_listed x cfg force nss res) s = ((res', err), s') \<Longrightarrow> r_Skipped res' = r_Skipped res"
  by (auto simp: collect_listed_def evict_pass_def settle_def Let_def split: option.splits prod.splits if_splits)

lemma start_result_fresh: "\<not> r_Exhausted (start_result force t u)" "\<not> r_Skipped (start_result force t u)"
  by (simp_all add: start_result_def zero_result_def)

text \<open>Either the pass ends before it lists anything, or it is \<^const>\<open>collect_listed\<close>.\<close>

lemma listing_cases:
  assumes "run_state (do {
       nss \<leftarrow> ResolveNamespaces x ns pfxs;
       (case nss of
          None \<Rightarrow> State_Monad.return (r, True)
        | Some nss \<Rightarrow> if nss = [] then State_Monad.return (r, False) else collect_listed x cfg force nss r)
     }) s = ((res, err), s')"
  shows "(res = r \<and> tr_trace s' = tr_trace s \<and> gc_exhaustedUntil s' = gc_exhaustedUntil s) \<or>
     (\<exists>w nss. run_state (collect_listed x cfg force nss r) (s\<lparr>tr_world := w\<rparr>) = ((res, err), s'))"
  using assms by (auto simp: ResolveNamespaces_def split: option.splits prod.splits if_splits)

lemma collect_cases:
  assumes "run_state (collect x cfg force) s = ((res, err), s')"
  obtains (early) "tr_trace s' = tr_trace s" "gc_exhaustedUntil s' = gc_exhaustedUntil s" "\<not> r_Exhausted res"
      "r_Evicted res = 0" "r_AgeEvicted res = 0"
  | (listed) w nss r where "run_state (collect_listed x cfg force nss r) (s\<lparr>tr_world := w\<rparr>) = ((res, err), s')"
      "\<not> r_Exhausted r" "\<not> r_Skipped r" "r_Evicted r = 0" "r_AgeEvicted r = 0"
      "r_Pressure r = Evaluate (r_After r) (gc_Thresholds cfg)"
proof -
  have fresh: "r_Evicted (start_result force (gc_Thresholds cfg) u) = 0" "r_AgeEvicted (start_result force (gc_Thresholds cfg) u) = 0"
    "r_Pressure (start_result force (gc_Thresholds cfg) u) = Evaluate (r_After (start_result force (gc_Thresholds cfg) u)) (gc_Thresholds cfg)"
    for u by (simp_all add: start_result_def zero_result_def)
  have zero: "\<not> r_Exhausted (zero_result force)" "r_Evicted (zero_result force) = 0" "r_AgeEvicted (zero_result force) = 0"
    by (simp_all add: zero_result_def)
  let ?pass = "\<lambda>r. do {
       nss \<leftarrow> ResolveNamespaces x (gc_Namespaces cfg) (gc_NamespacePrefixes cfg);
       (case nss of
          None \<Rightarrow> State_Monad.return (r, True)
        | Some nss \<Rightarrow> if nss = [] then State_Monad.return (r, False) else collect_listed x cfg force nss r)
     }"
  let ?early = "tr_trace s' = tr_trace s \<and> gc_exhaustedUntil s' = gc_exhaustedUntil s \<and> \<not> r_Exhausted res \<and>
        r_Evicted res = 0 \<and> r_AgeEvicted res = 0"
  have "?early \<or> (\<exists>w nss u. run_state (collect_listed x cfg force nss (start_result force (gc_Thresholds cfg) u))
         (s\<lparr>tr_world := w\<rparr>) = ((res, err), s'))"
  proof (cases "fst (x_check x (tr_world s))")
    case None
    with assms zero show ?thesis by (auto simp: collect_def split: prod.splits)
  next
    case (Some u)
    let ?r = "start_result force (gc_Thresholds cfg) u"
    obtain w1 where c: "x_check x (tr_world s) = (Some u, w1)" using Some by (cases "x_check x (tr_world s)") simp
    obtain now w2 where n: "x_now x w1 = (now, w2)" by (cases "x_now x w1")
    let ?over = "pr_Over (Evaluate u (gc_Thresholds cfg))"
    have "?early \<or> (\<exists>w. run_state (?pass ?r) (s\<lparr>tr_world := w\<rparr>) = ((res, err), s'))"
    proof (cases "\<not> force \<and> ?over")
      case True
      show ?thesis
      proof (cases "now < gc_exhaustedUntil s")
        case sup: True
        with assms c n True start_result_fresh(1) fresh(1,2) show ?thesis by (auto simp: collect_def Let_def)
      next
        case False
        with assms c n True have "run_state (?pass ?r) (s\<lparr>tr_world := w2\<rparr>) = ((res, err), s')"
          by (cases force) (simp_all add: collect_def Let_def cong: option.case_cong if_cong)
        then show ?thesis by blast
      qed
    next
      case nover: False
      show ?thesis
      proof (cases "\<not> force \<and> \<not> ?over \<and> gc_MaxAge cfg \<le> 0")
        case True
        with assms c start_result_fresh(1) fresh(1,2) show ?thesis by (auto simp: collect_def Let_def)
      next
        case False
        with nover assms c have "run_state (?pass ?r) (s\<lparr>tr_world := w1\<rparr>) = ((res, err), s')"
          by (cases force) (simp_all add: collect_def Let_def cong: option.case_cong if_cong)
        then show ?thesis by blast
      qed
    qed
    then show ?thesis
    proof
      assume "\<exists>w. run_state (?pass ?r) (s\<lparr>tr_world := w\<rparr>) = ((res, err), s')"
      then obtain w where "run_state (?pass ?r) (s\<lparr>tr_world := w\<rparr>) = ((res, err), s')" ..
      from listing_cases [OF this] start_result_fresh fresh(1,2) show ?thesis by auto
    qed simp
  qed
  then show thesis
  proof (elim disjE conjE exE)
    fix w nss u
    assume "run_state (collect_listed x cfg force nss (start_result force (gc_Thresholds cfg) u)) (s\<lparr>tr_world := w\<rparr>) =
        ((res, err), s')"
    then show thesis by (rule listed) (rule start_result_fresh fresh)+
  qed (rule early)
qed

lemma collect_trace:
  assumes "run_state (collect x cfg force) s = ((res, err), s')"
  shows "\<exists>es. tr_trace s' = tr_trace s @ es \<and> pass_trace cfg err es \<and> (r_Skipped res \<longrightarrow> es = [])"
  using assms
proof (cases rule: collect_cases)
  case early
  then show ?thesis by (intro exI [of _ "[]"]) simp
next
  case (listed w nss r)
  from collect_listed_trace [OF listed(1)] collect_listed_skipped [OF listed(1)] listed(3)
  show ?thesis by simp
qed

lemma collect_backoff:
  assumes "run_state (collect x cfg force) s = ((res, err), s')"
  shows "backoff_step x cfg force res (gc_exhaustedUntil s) (gc_exhaustedUntil s') \<and>
         (err \<or> r_Skipped res \<longrightarrow> gc_exhaustedUntil s' = gc_exhaustedUntil s)"
  using assms
proof (cases rule: collect_cases)
  case early
  then show ?thesis by (simp add: backoff_step_def)
next
  case (listed w nss r)
  from collect_listed_backoff [OF listed(1,2,4,5,6)] collect_listed_skipped [OF listed(1)] listed(3)
  show ?thesis by simp
qed

subsection \<open>A concrete node\<close>

text \<open>
  A node whose disk reading stays over the watermarks, as when the layers of an evicted image are
  shared with one that is kept. A container runs \<open>golang\<close>, \<open>runner\<close> is pinned, and the plan ends
  with \<open>rust\<close>, whose recorded size covers the demand.
\<close>

definition demo_img :: "string \<Rightarrow> time \<Rightarrow> img" where
  "demo_img n used = \<lparr>img_Name = n, img_Label = [], img_UpdatedAt = used, img_CreatedAt = 1\<rparr>"

definition demo_outside :: "ctr list option \<Rightarrow> unit image_world" where
  "demo_outside ctrs =
     \<lparr>x_check = (\<lambda>w. (Some (demo_usage 16), w)), x_now = (\<lambda>w. (1000, w)), x_ctxErr = (\<lambda>w. (False, w)),
      x_nsList = (\<lambda>w. (map_option (\<lambda>_. [''ephemerd'']) ctrs, w)),
      x_ctrList = (\<lambda>ns w. (ctrs, w)),
      x_imgList = (\<lambda>ns w. (Some [demo_img ''golang'' 20, demo_img ''runner'' 10, demo_img ''node'' 40, demo_img ''rust'' 30], w)),
      x_imgSize = (\<lambda>ns n w. (Some (if n = ''rust'' then 18 * 2 ^ 30 else 2 ^ 30), w)),
      x_delete = (\<lambda>ns n sync w. (DeleteOk, w)), x_snapshotKey = (\<lambda>ns n w. ([], w)),
      x_stat = (\<lambda>w. (\<lambda>ns k. StatOk, w)), x_parse = (\<lambda>_. None)\<rparr>"

definition demo_gc :: gcConfig where
  "demo_gc = \<lparr>gc_Thresholds = demo_marks, gc_Namespaces = [''ephemerd''], gc_NamespacePrefixes = [],
     gc_PinnedImages = [''runner''], gc_LiveJobPrefixes = Some (\<lambda>i. [i @ ''-'']), gc_MaxAge = 0,
     gc_ExhaustedBackoff = DefaultExhaustedBackoff\<rparr>"

definition demo_gc_start :: "unit gcState" where
  "demo_gc_start = \<lparr>tr_world = (), tr_trace = [], gc_exhaustedUntil = 0\<rparr>"

definition demo_ctr :: ctr where
  "demo_ctr = \<lparr>ctr_ID = ''job1'', ctr_Image = ''golang''\<rparr>"

lemmas demo_gc_simps = demo_outside_def demo_gc_def demo_gc_start_def demo_ctr_def demo_img_def collect_def
  collect_listed_def evict_pass_def settle_def age_backstop_def pressure_cleared_def Delete_def
  RunningContainers_def ResolveNamespaces_def LastAccessed_def protect_def ProtectedSet_def
  start_result_def zero_result_def Let_def PlanEviction_def filterProtected_def sortLRU_def known_size_def
  demo_pressure less_eq_prod_def

lemma demo_pass:
  "run_state (collect (demo_outside (Some [demo_ctr])) demo_gc False) demo_gc_start =
     (((start_result False demo_marks (demo_usage 16))\<lparr>r_Evicted := 1, r_Protected := 2, r_Exhausted := True\<rparr>, False),
      \<lparr>tr_world = (), tr_trace = [ListedContainers ''ephemerd'' [demo_ctr], Deleted ''ephemerd'' ''rust'' True DeleteOk],
       gc_exhaustedUntil = 1000 + DefaultExhaustedBackoff\<rparr>)"
  by (simp add: demo_gc_simps)

subsection \<open>What the collector promises\<close>

text \<open>
  C26. A pass, forced or not, never asks containerd to delete an image record that is pinned, that is
  the image of a container it saw, or that carries a name prefix of a live job, whatever containerd
  and the disk answer.
\<close>

theorem collect_never_deletes_live_images:
  assumes "run_state (collect x cfg force) s = (r, s')" and "tr_trace s = []"
    and "Deleted ns name sync a \<in> set (tr_trace s')"
  shows "(name \<noteq> [] \<longrightarrow> name \<notin> set (gc_PinnedImages cfg)) \<and>
    (\<forall>n cs c. ListedContainers n cs \<in> set (tr_trace s') \<longrightarrow> c \<in> set cs \<longrightarrow>
       (name \<noteq> [] \<longrightarrow> ctr_Image c \<noteq> name) \<and>
       (\<forall>f p. gc_LiveJobPrefixes cfg = Some f \<longrightarrow> p \<in> set (f (ctr_ID c)) \<longrightarrow> p \<noteq> [] \<longrightarrow> \<not> has_prefix name p))"
proof -
  obtain res err where r: "r = (res, err)" by force
  obtain ls ds ids running cs where tr: "tr_trace s' = ls @ ds" "\<forall>e\<in>set ls. listing e"
    "ds \<noteq> [] \<longrightarrow> covered (set ids) running ls" "\<forall>e\<in>set ds. deletes_only (c_Name ` set cs - protect cfg ids running cs) e"
    using collect_trace [OF assms(1) [unfolded r]] assms(2) unfolding pass_trace_def by (metis append_Nil)
  have "Deleted ns name sync a \<in> set ds" using assms(3) tr(1,2) by (auto simp: listing_def)
  then have name: "name \<in> c_Name ` set cs" "name \<notin> protect cfg ids running cs" and cov: "covered (set ids) running ls"
    using tr(3,4) by (fastforce simp: deletes_only_def)+
  have lists: "ListedContainers n l \<in> set (tr_trace s') \<Longrightarrow> ListedContainers n l \<in> set ls" for n l
    using tr(1,4) by (force simp: deletes_only_def)
  have "name \<notin> ProtectedSet (gc_PinnedImages cfg) running"
    using name(2) by (auto simp: protect_def Let_def ProtectPrefixed_grows split: option.splits if_splits)
  moreover have "\<not> has_prefix name p" if "gc_LiveJobPrefixes cfg = Some f" "id \<in> set ids" "p \<in> set (f id)" "p \<noteq> []" for f id p
    using name that by (auto simp: protect_def Let_def ProtectPrefixed_grows split: if_splits)
  ultimately show ?thesis
    using cov lists unfolding covered_def ProtectedSet_def by fastforce
qed

theorem collect_never_deletes_live_images_witness:
  "\<exists>r s'. run_state (collect (demo_outside (Some [demo_ctr])) demo_gc False) demo_gc_start = (r, s') \<and>
     Deleted ''ephemerd'' ''rust'' True DeleteOk \<in> set (tr_trace s') \<and>
     ''rust'' \<notin> set (gc_PinnedImages demo_gc) \<and> ctr_Image demo_ctr \<noteq> ''rust''"
  using collect_never_deletes_live_images [OF demo_pass, of "''ephemerd''" "''rust''" True DeleteOk]
  unfolding demo_pass by (simp add: demo_gc_start_def) blast

text \<open>
  C29. A pass that returns an error, or that the backoff suppressed, has deleted nothing and has left
  the backoff as it was.
\<close>

theorem collect_error_deletes_nothing:
  assumes "run_state (collect x cfg force) s = ((res, err), s')" and "err \<or> r_Skipped res"
  shows "gc_exhaustedUntil s' = gc_exhaustedUntil s \<and>
    (\<exists>es. tr_trace s' = tr_trace s @ es \<and> (\<forall>ns name sync a. Deleted ns name sync a \<notin> set es))"
  using collect_backoff [OF assms(1)] collect_trace [OF assms(1)] assms(2)
  by (fastforce simp: pass_trace_def listing_def)

theorem collect_error_deletes_nothing_witness:
  "\<exists>res s'. run_state (collect (demo_outside None) demo_gc True) demo_gc_start = ((res, True), s') \<and>
     gc_exhaustedUntil s' = 0"
proof -
  have run: "run_state (collect (demo_outside None) demo_gc True) demo_gc_start =
      ((start_result True demo_marks (demo_usage 16), True), demo_gc_start)"
    by (simp add: demo_gc_simps)
  then show ?thesis using collect_error_deletes_nothing [OF run] by (simp add: demo_gc_start_def)
qed

text \<open>
  C30. The failsafe. An automatic pass reports that it is exhausted, and then suppresses the passes
  after it for the configured time from a reading of the clock, only when the disk was over a
  watermark before it and still is at the last reading. A pass that evicted something and brought the
  disk under both watermarks reports nothing of the kind and leaves the backoff as it was; one that
  evicted something and did not is exhausted. A forced pass never arms the backoff; it clears it
  when it evicted anything, and otherwise only when the disk is under both watermarks.
\<close>

theorem collect_backoff_discipline:
  assumes "run_state (collect x cfg force) s = ((res, err), s')"
  shows "let over = (\<lambda>u. pr_Over (Evaluate u (gc_Thresholds cfg)));
             old = gc_exhaustedUntil s; new = gc_exhaustedUntil s';
             evicted = r_Evicted res + r_AgeEvicted res in
     if force then
       \<not> r_Exhausted res \<and> (0 < evicted \<longrightarrow> new = 0) \<and>
       (new = old \<or> new = 0 \<and> (0 < evicted \<or> \<not> over (r_After res)))
     else if r_Exhausted res then
       pr_Over (r_Pressure res) \<and> over (r_After res) \<and> (\<exists>w. new = fst (x_now x w) + gc_ExhaustedBackoff cfg)
     else new = old \<and> (0 < r_Evicted res \<longrightarrow> \<not> over (r_After res))"
  using collect_backoff [OF assms] by (auto simp: backoff_step_def Let_def split: if_splits)

theorem collect_backoff_discipline_witness:
  "\<exists>res s'. run_state (collect (demo_outside (Some [demo_ctr])) demo_gc False) demo_gc_start = ((res, False), s') \<and>
     r_Exhausted res \<and> pr_Over (r_Pressure res) \<and> pr_Over (Evaluate (r_After res) demo_marks)"
  using collect_backoff_discipline [OF demo_pass]
  unfolding demo_pass by (simp add: Let_def demo_gc_def)

text \<open>
  The pass of the concrete node reports that nothing is left to evict and suppresses the collector for
  half an hour, although the unprotected candidate \<open>node\<close> was never tried: the plan stops at the
  estimated sizes, and the exhausted case does not look at \<^verbatim>\<open>Shortfall\<close>.
\<close>

lemma exhausted_with_evictable_left:
  "\<exists>res s'. run_state (Collect (demo_outside (Some [demo_ctr])) demo_gc) demo_gc_start = ((res, False), s') \<and>
     r_Exhausted res \<and> gc_exhaustedUntil s' = 1000 + 30 * minute \<and>
     pl_Shortfall (PlanEviction
       (fst (run_state (ListCandidates (demo_outside (Some [demo_ctr])) [''ephemerd'']) demo_gc_start))
       {''runner'', ''golang''} (demo_usage 16) demo_marks) = 0 \<and>
     (\<forall>ns sync a. Deleted ns ''node'' sync a \<notin> set (tr_trace s'))"
  unfolding Collect_def
  by (intro exI, intro conjI, rule demo_pass)
    (simp_all add: DefaultExhaustedBackoff_def Let_def PlanEviction_def filterProtected_def sortLRU_def known_size_def
      demo_pressure less_eq_prod_def demo_outside_def demo_img_def LastAccessed_def demo_gc_start_def)

end
