(* ===== verification/Strconv.thy ===== *)
theory Strconv
  imports Prelude
begin

text \<open>
  \<^verbatim>\<open>strconv.ParseInt(s, 10, 64)\<close> and the cutting functions of Go's \<^verbatim>\<open>strings\<close> package, with the
  round trip through the decimal notation of \<^verbatim>\<open>Prelude\<close>.
\<close>

definition digit_value :: "char \<Rightarrow> nat option" where
  "digit_value c = (let n = of_char c in if 48 \<le> n \<and> n \<le> 57 then Some (n - 48) else None)"

fun parse_digits :: "nat \<Rightarrow> string \<Rightarrow> nat option" where
  "parse_digits acc [] = Some acc"
| "parse_digits acc (c # cs) =
     (case digit_value c of None \<Rightarrow> None | Some d \<Rightarrow> parse_digits (10 * acc + d) cs)"

text \<open>Out of range is an error, as is an empty string or a sign alone.\<close>

definition ParseInt :: "string \<Rightarrow> int option" where
  "ParseInt s =
     (let (neg, ds) = (case s of
          c # cs \<Rightarrow> if c = CHR ''-'' then (True, cs) else if c = CHR ''+'' then (False, cs) else (False, s)
        | [] \<Rightarrow> (False, [])) in
      if ds = [] then None
      else case parse_digits 0 ds of
             None \<Rightarrow> None
           | Some n \<Rightarrow> let i = (if neg then - int n else int n) in
                       if - (2 ^ 63) \<le> i \<and> i < 2 ^ 63 then Some i else None)"

text \<open>\<^verbatim>\<open>strings.Cut\<close> at a one-byte separator.\<close>

fun cut :: "char \<Rightarrow> string \<Rightarrow> (string \<times> string) option" where
  "cut sep [] = None"
| "cut sep (c # s) =
     (if c = sep then Some ([], s)
      else case cut sep s of None \<Rightarrow> None | Some (a, b) \<Rightarrow> Some (c # a, b))"

definition cut_prefix :: "string \<Rightarrow> string \<Rightarrow> string option" where
  "cut_prefix s p = (if has_prefix s p then Some (drop (length p) s) else None)"

lemma cut_append: "sep \<notin> set a \<Longrightarrow> cut sep (a @ sep # b) = Some (a, b)"
  by (induction a) auto

lemma cut_SomeD: "cut sep s = Some (a, b) \<Longrightarrow> s = a @ sep # b \<and> sep \<notin> set a"
  by (induction s arbitrary: a) (auto split: if_splits option.splits prod.splits)

lemma cut_None: "cut sep s = None \<longleftrightarrow> sep \<notin> set s"
  by (induction s) (auto split: option.splits prod.splits)

lemma digit_value_char: "d < 10 \<Longrightarrow> digit_value (char_of (48 + d)) = Some d"
  by (simp add: digit_value_def of_char_of Let_def)

lemma parse_digits_append:
  "parse_digits acc (ds @ es) = (case parse_digits acc ds of None \<Rightarrow> None | Some a \<Rightarrow> parse_digits a es)"
  by (induction ds arbitrary: acc) (auto split: option.splits)

lemma parse_digits_nat_to_dec: "parse_digits 0 (nat_to_dec n) = Some n"
proof (induction n rule: nat_to_dec.induct)
  case (1 n)
  then show ?case
    by (subst nat_to_dec.simps) (auto simp: parse_digits_append digit_value_char)
qed

lemma nat_to_dec_shape: "nat_to_dec n \<noteq> [] \<and> (\<forall>c\<in>set (nat_to_dec n). digit_value c \<noteq> None)"
proof (induction n rule: nat_to_dec.induct)
  case (1 n)
  then show ?case
    by (subst (1 2) nat_to_dec.simps) (auto simp: digit_value_char)
qed

text \<open>Parsing what \<^verbatim>\<open>FormatInt\<close> prints gives the number back.\<close>

lemma ParseInt_int_to_dec:
  assumes "- (2 ^ 63) \<le> i" and "i < 2 ^ 63"
  shows "ParseInt (int_to_dec i) = Some i"
proof (cases "i < 0")
  case True
  with assms show ?thesis
    using nat_to_dec_shape [of "nat (- i)"] by (simp add: ParseInt_def int_to_dec_def parse_digits_nat_to_dec)
next
  case False
  obtain c cs where c: "nat_to_dec (nat i) = c # cs" "digit_value c \<noteq> None"
    using nat_to_dec_shape [of "nat i"] by (metis list.exhaust list.set_intros(1))
  then have "c \<noteq> CHR ''-''" "c \<noteq> CHR ''+''" by (auto simp: digit_value_def Let_def)
  with False assms show ?thesis
    using parse_digits_nat_to_dec [of "nat i"] by (simp add: ParseInt_def int_to_dec_def c(1))
qed

end
