(* ===== verification/Actions_Cache.thy ===== *)
theory Actions_Cache
  imports Strconv Effects "HOL-Library.AList" "HOL-Library.Word"
begin

text \<open>
  The LAN server of GitHub's actions cache, \<^verbatim>\<open>pkg/proxies/actionscache\<close>: scopes and registry names
  (\<^verbatim>\<open>scope.go\<close>), the index (\<^verbatim>\<open>index.go\<close>) and the request handlers (\<^verbatim>\<open>actionscache.go\<close>). The
  registry (\<^verbatim>\<open>oci.go\<close> and the server behind it), the clock, the random tokens, SHA-256 and the
  attribution of addresses to jobs are the record \<open>registry\<close> of functions; the trace records the
  calls that change the registry and the scopes runners were bound to. Pending uploads and entries are shared objects of the Go code
  and live in stores under their references. A Go map that is iterated is an association list;
  its order is unspecified in Go and no theorem depends on it. A manifest travels as the text
  of \<open>g_marshal\<close> and \<open>g_unmarshal\<close> (JSON), both of which may fail. The sizes a manifest claims are
  foreign input and are added up as \<^verbatim>\<open>int64\<close>, with wrap-around; the sizes of blobs this server
  received and the sum of a namespace's entries are kept as \<^typ>\<open>int\<close>.
\<close>

subsection \<open>Scopes and registry names\<close>

record Scope =
  sc_Repo :: string
  sc_Write :: string
  sc_Reads :: "string list"

definition zero_scope :: Scope where
  "zero_scope = \<lparr>sc_Repo = [], sc_Write = [], sc_Reads = []\<rparr>"

definition is_component_char :: "char \<Rightarrow> bool" where
  "is_component_char c \<longleftrightarrow> (let n = (of_char c :: nat) in 97 \<le> n \<and> n \<le> 122 \<or> 48 \<le> n \<and> n \<le> 57)"

fun component_loop :: "string \<Rightarrow> bool \<Rightarrow> string \<Rightarrow> string" where
  "component_loop b sep [] = b"
| "component_loop b sep (r # s) =
     (if is_component_char r
      then component_loop (b @ (if sep \<and> b \<noteq> [] then ''-'' else []) @ [r]) False s
      else component_loop b True s)"

definition pathComponent :: "string \<Rightarrow> string" where
  "pathComponent s = (let b = component_loop [] False s in if b = [] then ''x'' else b)"

definition repoNamespace :: "(string \<Rightarrow> string) \<Rightarrow> string \<Rightarrow> string" where
  "repoNamespace sha r =
     (let repo = to_lower (trim_space r);
          (owner, name) = (case cut CHR ''/'' repo of Some p \<Rightarrow> p | None \<Rightarrow> (''_'', repo)) in
      ''actions-cache/'' @ pathComponent owner @ ''/'' @ pathComponent name @ ''-'' @ take 8 (sha repo))"

definition scopeRepository :: "(string \<Rightarrow> string) \<Rightarrow> string \<Rightarrow> string \<Rightarrow> string" where
  "scopeRepository sha repo ref = repoNamespace sha repo @ ''/s'' @ take 16 (sha ref)"

definition entryTag :: "(string \<Rightarrow> string) \<Rightarrow> string \<Rightarrow> string \<Rightarrow> string" where
  "entryTag sha key version = ''k'' @ take 40 (sha (version @ [CHR 0x00] @ key))"

subsection \<open>Entries and manifests\<close>

record descriptor =
  d_MediaType :: string
  d_Digest :: string
  d_Size :: int

record manifest =
  m_SchemaVersion :: int
  m_MediaType :: string
  m_Config :: descriptor
  m_Layers :: "descriptor list"
  m_Annotations :: "string \<Rightarrow> string"

record entry =
  e_Key :: string
  e_Version :: string
  e_Ref :: string
  e_Created :: time
  e_Size :: int
  e_Layers :: "descriptor list"
  e_repository :: string
  e_tag :: string
  e_digest :: string
  e_lastUsed :: time

definition configMediaType :: string where
  "configMediaType = ''application/vnd.ephemerd.actions-cache.config.v1+json''"

definition recency :: "entry \<Rightarrow> time" where
  "recency e = (if e_Created e < e_lastUsed e then e_lastUsed e else e_Created e)"

definition manifestMediaType :: string where
  "manifestMediaType = ''application/vnd.oci.image.manifest.v1+json''"

definition encodeManifest ::
  "(manifest \<Rightarrow> string option) \<Rightarrow> (time \<Rightarrow> string) \<Rightarrow> entry \<Rightarrow> descriptor \<Rightarrow> string option" where
  "encodeManifest marshal fmt e cfg =
     marshal \<lparr>m_SchemaVersion = 2, m_MediaType = manifestMediaType, m_Config = cfg, m_Layers = e_Layers e,
      m_Annotations = (\<lambda>_. [])
        (''dev.ephemerd.actions-cache.key'' := e_Key e,
         ''dev.ephemerd.actions-cache.version'' := e_Version e,
         ''dev.ephemerd.actions-cache.ref'' := e_Ref e,
         ''dev.ephemerd.actions-cache.created'' := fmt (e_Created e),
         ''dev.ephemerd.actions-cache.size'' := int_to_dec (e_Size e))\<rparr>"

text \<open>Adding up as Go adds \<^verbatim>\<open>int64\<close>: the sum wraps around.\<close>

definition int64_sum :: "int list \<Rightarrow> int" where
  "int64_sum = foldl (\<lambda>n k. sint (word_of_int (n + k) :: 64 word)) 0"

definition decodeManifest ::
  "(string \<Rightarrow> manifest option) \<Rightarrow> (string \<Rightarrow> time option) \<Rightarrow> string \<Rightarrow> entry option" where
  "decodeManifest unmarshal parse body =
     (case unmarshal body of
        None \<Rightarrow> None
      | Some m \<Rightarrow>
          if d_MediaType (m_Config m) \<noteq> configMediaType then None
          else
            let e = \<lparr>e_Key = m_Annotations m ''dev.ephemerd.actions-cache.key'',
                 e_Version = m_Annotations m ''dev.ephemerd.actions-cache.version'',
                 e_Ref = m_Annotations m ''dev.ephemerd.actions-cache.ref'',
                 e_Created = (case parse (m_Annotations m ''dev.ephemerd.actions-cache.created'') of
                    Some t \<Rightarrow> t | None \<Rightarrow> 0),
                 e_Size = int64_sum (map d_Size (m_Layers m)), e_Layers = m_Layers m,
                 e_repository = [], e_tag = [], e_digest = [], e_lastUsed = 0\<rparr> in
            (case ParseInt (m_Annotations m ''dev.ephemerd.actions-cache.size'') of
               Some want \<Rightarrow> if want \<noteq> e_Size e then None else Some e
             | None \<Rightarrow> Some e))"

subsection \<open>The server's state\<close>

record jobState =
  js_bound :: bool
  js_scope :: Scope

record pending =
  pe_runner :: string
  pe_scope :: Scope
  pe_key :: string
  pe_version :: string
  pe_created :: time
  pe_blocks :: "string \<rightharpoonup> descriptor"
  pe_order :: "string list option"
  pe_size :: int
  pe_failed :: bool

record download =
  dl_runner :: string
  dl_entry :: nat
  dl_expires :: time

datatype cacheEvent =
    Uploaded string
  | PutManifest string string
  | DeletedManifest string string
  | Granted string Scope

record 'w cacheState = "('w, cacheEvent) traced" +
  cs_healthy :: bool
  cs_jobs :: "string \<rightharpoonup> jobState"
  cs_uploads :: "(string \<times> nat) list"
  cs_byKey :: "string \<rightharpoonup> nat"
  cs_pend :: "nat \<Rightarrow> pending"
  cs_nextp :: nat
  cs_downloads :: "(string \<times> download) list"
  cs_scopes :: "(string \<times> (string \<times> nat) list) list"
  cs_ents :: "nat \<Rightarrow> entry"
  cs_nexte :: nat
  cs_lastSweep :: "string \<Rightarrow> time"

record 'w registry =
  g_sha :: "string \<Rightarrow> string"
  g_JobForIP :: "string \<Rightarrow> string"
  g_fmtTime :: "time \<Rightarrow> string"
  g_parseTime :: "string \<Rightarrow> time option"
  g_marshal :: "manifest \<Rightarrow> string option"
  g_unmarshal :: "string \<Rightarrow> manifest option"
  g_now :: "'w \<Rightarrow> time \<times> 'w"
  g_token :: "'w \<Rightarrow> string \<times> 'w"
  g_listTags :: "string \<Rightarrow> 'w \<Rightarrow> string list option \<times> 'w"
  g_getManifest :: "string \<Rightarrow> string \<Rightarrow> 'w \<Rightarrow> (string \<times> string) option \<times> 'w"
  g_uploadBlob :: "string \<Rightarrow> string \<Rightarrow> 'w \<Rightarrow> string option \<times> 'w"
  g_putManifest :: "string \<Rightarrow> string \<Rightarrow> string \<Rightarrow> 'w \<Rightarrow> string option \<times> 'w"
  g_deleteManifest :: "string \<Rightarrow> string \<Rightarrow> 'w \<Rightarrow> bool \<times> 'w"
  g_repositories :: "'w \<Rightarrow> string list option \<times> 'w"
  g_openBlob :: "string \<Rightarrow> string \<Rightarrow> int \<Rightarrow> int \<Rightarrow> 'w \<Rightarrow> string option \<times> 'w"

type_synonym ('w, 'a) handler = "('w cacheState, 'a) state"

subsection \<open>The index\<close>

definition scope_entries :: "'w cacheState \<Rightarrow> string \<Rightarrow> (string \<times> nat) list" where
  "scope_entries s repo = (case map_of (cs_scopes s) repo of Some es \<Rightarrow> es | None \<Rightarrow> [])"

definition set_scope :: "string \<Rightarrow> (string \<times> nat) list \<Rightarrow> ('w, unit) handler" where
  "set_scope repo es = State_Monad.update (\<lambda>s. s\<lparr>cs_scopes := AList.update repo es (cs_scopes s)\<rparr>)"

definition index_scope :: "string \<Rightarrow> ('w, (string \<times> nat) list) handler" where
  "index_scope repo = do {
     s \<leftarrow> State_Monad.get;
     set_scope repo (scope_entries s repo);
     State_Monad.return (scope_entries s repo)
   }"

definition new_entry :: "entry \<Rightarrow> ('w, nat) handler" where
  "new_entry e = do {
     s \<leftarrow> State_Monad.get;
     State_Monad.update (\<lambda>s. s\<lparr>cs_ents := (cs_ents s)(cs_nexte s := e), cs_nexte := Suc (cs_nexte s)\<rparr>);
     State_Monad.return (cs_nexte s)
   }"

fun refresh_loop :: "'w registry \<Rightarrow> string \<Rightarrow> (string \<times> nat) list \<Rightarrow> string list \<Rightarrow> (string \<times> nat) list
    \<Rightarrow> ('w, (string \<times> nat) list) handler" where
  "refresh_loop g repo known [] live = State_Monad.return live"
| "refresh_loop g repo known (t # ts) live =
     (case map_of known t of
        Some e \<Rightarrow> refresh_loop g repo known ts (AList.update t e live)
      | None \<Rightarrow> do {
          m \<leftarrow> ask (g_getManifest g repo t);
          (case m of
             None \<Rightarrow> refresh_loop g repo known ts live
           | Some (body, digest) \<Rightarrow>
               (case decodeManifest (g_unmarshal g) (g_parseTime g) body of
                  None \<Rightarrow> refresh_loop g repo known ts live
                | Some e \<Rightarrow> do {
                    i \<leftarrow> new_entry (e\<lparr>e_repository := repo, e_tag := t, e_digest := digest\<rparr>);
                    refresh_loop g repo known ts (AList.update t i live)
                  }))
        })"

definition refresh :: "'w registry \<Rightarrow> string \<Rightarrow> ('w, nat list option) handler" where
  "refresh g repo = do {
     tags \<leftarrow> ask (g_listTags g repo);
     (case tags of
        None \<Rightarrow> State_Monad.return None
      | Some ts \<Rightarrow> do {
          known \<leftarrow> index_scope repo;
          live \<leftarrow> refresh_loop g repo known ts [];
          set_scope repo live;
          State_Monad.return (Some (map snd live))
        })
   }"

definition index_add :: "nat \<Rightarrow> ('w, unit) handler" where
  "index_add i = do {
     s \<leftarrow> State_Monad.get;
     let e = cs_ents s i;
     es \<leftarrow> index_scope (e_repository e);
     set_scope (e_repository e) (AList.update (e_tag e) i es)
   }"

definition index_remove :: "nat \<Rightarrow> ('w, unit) handler" where
  "index_remove i = do {
     s \<leftarrow> State_Monad.get;
     let e = cs_ents s i;
     es \<leftarrow> index_scope (e_repository e);
     (case map_of es (e_tag e) of
        Some cur \<Rightarrow> if e_digest (cs_ents s cur) = e_digest e
                     then set_scope (e_repository e) (AList.delete (e_tag e) es)
                     else State_Monad.return ()
      | None \<Rightarrow> State_Monad.return ())
   }"

text \<open>\<^verbatim>\<open>match\<close>, on references into the store \<open>ents\<close>.\<close>

fun newest :: "(nat \<Rightarrow> entry) \<Rightarrow> nat option \<Rightarrow> nat list \<Rightarrow> nat option" where
  "newest ents best [] = best"
| "newest ents best (i # is) =
     newest ents (case best of
        None \<Rightarrow> Some i
      | Some b \<Rightarrow> if e_Created (ents b) < e_Created (ents i) then Some i else Some b) is"

fun match_prefix :: "(nat \<Rightarrow> entry) \<Rightarrow> nat list \<Rightarrow> string list \<Rightarrow> string \<Rightarrow> nat option" where
  "match_prefix ents is [] version = None"
| "match_prefix ents is (rk # rks) version =
     (if rk = [] then match_prefix ents is rks version
      else case newest ents None
                  (filter (\<lambda>i. e_Version (ents i) = version \<and> has_prefix (e_Key (ents i)) rk) is) of
             Some i \<Rightarrow> Some i
           | None \<Rightarrow> match_prefix ents is rks version)"

definition match :: "(nat \<Rightarrow> entry) \<Rightarrow> nat list \<Rightarrow> string \<Rightarrow> string list \<Rightarrow> string \<Rightarrow> nat option" where
  "match ents is key restoreKeys version =
     (case List.find (\<lambda>i. e_Version (ents i) = version \<and> e_Key (ents i) = key) is of
        Some i \<Rightarrow> Some i
      | None \<Rightarrow> match_prefix ents is restoreKeys version)"

fun lookup_refs :: "'w registry \<Rightarrow> string \<Rightarrow> string list \<Rightarrow> string \<Rightarrow> string list \<Rightarrow> string
    \<Rightarrow> ('w, nat option) handler" where
  "lookup_refs g repo [] key restoreKeys version = State_Monad.return None"
| "lookup_refs g repo (ref # refs) key restoreKeys version = do {
     es \<leftarrow> refresh g (scopeRepository (g_sha g) repo ref);
     s \<leftarrow> State_Monad.get;
     (case es of
        None \<Rightarrow> lookup_refs g repo refs key restoreKeys version
      | Some is \<Rightarrow>
          (case match (cs_ents s) is key restoreKeys version of
             Some i \<Rightarrow> State_Monad.return (Some i)
           | None \<Rightarrow> lookup_refs g repo refs key restoreKeys version))
   }"

definition lookup :: "'w registry \<Rightarrow> Scope \<Rightarrow> string \<Rightarrow> string list \<Rightarrow> string \<Rightarrow> ('w, nat option) handler" where
  "lookup g sc key restoreKeys version = lookup_refs g (sc_Repo sc) (sc_Reads sc) key restoreKeys version"

definition index_exists :: "'w registry \<Rightarrow> string \<Rightarrow> string \<Rightarrow> string \<Rightarrow> string \<Rightarrow> ('w, bool option) handler" where
  "index_exists g repo ref key version = do {
     es \<leftarrow> refresh g (scopeRepository (g_sha g) repo ref);
     s \<leftarrow> State_Monad.get;
     State_Monad.return (map_option
       (list_ex (\<lambda>i. e_Key (cs_ents s i) = key \<and> e_Version (cs_ents s i) = version)) es)
   }"

definition catalog :: "'w registry \<Rightarrow> string \<Rightarrow> ('w, string list option) handler" where
  "catalog g pfx = do {
     all \<leftarrow> ask (g_repositories g);
     State_Monad.return (map_option (filter (\<lambda>name. has_prefix name pfx)) all)
   }"

fun refresh_all :: "'w registry \<Rightarrow> string list \<Rightarrow> ('w, nat list) handler" where
  "refresh_all g [] = State_Monad.return []"
| "refresh_all g (r # rs) = do {
     es \<leftarrow> refresh g r;
     rest \<leftarrow> refresh_all g rs;
     State_Monad.return ((case es of None \<Rightarrow> [] | Some is \<Rightarrow> is) @ rest)
   }"

text \<open>The deleting loop of \<^verbatim>\<open>evict\<close>; the result's second component is "an error was returned".\<close>

fun evict_loop :: "'w registry \<Rightarrow> int \<Rightarrow> int \<Rightarrow> nat list \<Rightarrow> ('w, nat list \<times> bool) handler" where
  "evict_loop g maxBytes tot [] = State_Monad.return ([], False)"
| "evict_loop g maxBytes tot (i # is) =
     (if tot \<le> maxBytes then State_Monad.return ([], False)
      else do {
        s \<leftarrow> State_Monad.get;
        let e = cs_ents s i;
        ok \<leftarrow> ask (g_deleteManifest g (e_repository e) (e_digest e));
        if \<not> ok then State_Monad.return ([], True)
        else do {
          tell (DeletedManifest (e_repository e) (e_digest e));
          index_remove i;
          (ev, err) \<leftarrow> evict_loop g maxBytes (tot - e_Size e) is;
          State_Monad.return (i # ev, err)
        }
      })"

definition evict :: "'w registry \<Rightarrow> string \<Rightarrow> int \<Rightarrow> time \<Rightarrow> time \<Rightarrow> ('w, nat list \<times> bool) handler" where
  "evict g repo maxBytes sweepEvery now =
     (if maxBytes \<le> 0 then State_Monad.return ([], False)
      else do {
        let ns = repoNamespace (g_sha g) repo @ ''/'';
        s \<leftarrow> State_Monad.get;
        let walk = (sweepEvery \<le> now - cs_lastSweep s ns);
        State_Monad.update (\<lambda>s. if walk then s\<lparr>cs_lastSweep := (cs_lastSweep s)(ns := now)\<rparr> else s);
        let touched = filter (\<lambda>r. has_prefix r ns) (map fst (cs_scopes s));
        repos \<leftarrow> (if walk then catalog g ns else State_Monad.return (Some touched));
        (case repos of
           None \<Rightarrow> State_Monad.return ([], True)
         | Some rs \<Rightarrow> do {
             is \<leftarrow> refresh_all g rs;
             s \<leftarrow> State_Monad.get;
             let tot = (\<Sum>i\<leftarrow>is. e_Size (cs_ents s i));
             if tot \<le> maxBytes then State_Monad.return ([], False)
             else evict_loop g maxBytes tot (sort_key (\<lambda>i. recency (cs_ents s i)) is)
           })
      })"

subsection \<open>Runners and their scopes\<close>

definition Track :: "string \<Rightarrow> ('w, unit) handler" where
  "Track runner = State_Monad.update (\<lambda>s.
     if cs_jobs s runner = None
     then s\<lparr>cs_jobs := (cs_jobs s)(runner \<mapsto> \<lparr>js_bound = False, js_scope = zero_scope\<rparr>)\<rparr> else s)"

definition sameScope :: "Scope \<Rightarrow> Scope \<Rightarrow> bool" where
  "sameScope a b \<longleftrightarrow> sc_Repo a = sc_Repo b \<and> sc_Write a = sc_Write b \<and>
     str_join [CHR 0x0A] (sc_Reads a) = str_join [CHR 0x0A] (sc_Reads b)"

definition Bind :: "string \<Rightarrow> Scope \<Rightarrow> ('w, unit) handler" where
  "Bind runner sc = State_Monad.update (\<lambda>s.
     case cs_jobs s runner of
       None \<Rightarrow> s
     | Some st \<Rightarrow>
         if js_bound st
         then (if sameScope (js_scope st) sc then s
               else s\<lparr>cs_jobs := (cs_jobs s)(runner \<mapsto> st\<lparr>js_scope := zero_scope\<rparr>)\<rparr>)
         else s\<lparr>cs_jobs := (cs_jobs s)(runner \<mapsto> \<lparr>js_bound = True, js_scope = sc\<rparr>),
                  tr_trace := tr_trace s @ [Granted runner sc]\<rparr>)"

definition byKey_key :: "string \<Rightarrow> string \<Rightarrow> string \<Rightarrow> string" where
  "byKey_key runner key version = runner @ [CHR 0x00] @ key @ [CHR 0x00] @ version"

definition pending_key :: "pending \<Rightarrow> string" where
  "pending_key u = byKey_key (pe_runner u) (pe_key u) (pe_version u)"

text \<open>Dropping the uploads that satisfy \<open>P\<close>, from both maps.\<close>

definition drop_uploads :: "(pending \<Rightarrow> bool) \<Rightarrow> 'w cacheState \<Rightarrow> 'w cacheState" where
  "drop_uploads P s =
     (let gone = filter (\<lambda>(tok, i). P (cs_pend s i)) (cs_uploads s) in
      s\<lparr>cs_uploads := filter (\<lambda>(tok, i). \<not> P (cs_pend s i)) (cs_uploads s),
        cs_byKey := (\<lambda>k. if k \<in> set (map (\<lambda>(tok, i). pending_key (cs_pend s i)) gone) then None else cs_byKey s k)\<rparr>)"

definition Forget :: "string \<Rightarrow> ('w, unit) handler" where
  "Forget runner = State_Monad.update (\<lambda>s.
     (drop_uploads (\<lambda>u. pe_runner u = runner) s)\<lparr>
        cs_jobs := (cs_jobs s)(runner := None),
        cs_downloads := filter (\<lambda>(tok, d). dl_runner d \<noteq> runner) (cs_downloads s)\<rparr>)"

definition pendingTTL :: time where "pendingTTL = 2 * hour"
definition downloadTTL :: time where "downloadTTL = hour"
definition sweepEvery :: time where "sweepEvery = 10 * minute"

definition expire :: "time \<Rightarrow> ('w, unit) handler" where
  "expire now = State_Monad.update (\<lambda>s.
     (drop_uploads (\<lambda>u. pendingTTL < now - pe_created u) s)\<lparr>
        cs_downloads := filter (\<lambda>(tok, d). \<not> dl_expires d < now) (cs_downloads s)\<rparr>)"

text \<open>\<^verbatim>\<open>caller\<close>; the host is \<^const>\<open>None\<close> when the remote address does not split.\<close>

definition caller :: "'w registry \<Rightarrow> 'w cacheState \<Rightarrow> string option \<Rightarrow> string \<times> Scope \<times> bool" where
  "caller g s host =
     (case host of
        None \<Rightarrow> ([], zero_scope, False)
      | Some h \<Rightarrow>
          let runner = g_JobForIP g h in
          if runner = [] then ([], zero_scope, False)
          else case cs_jobs s runner of
                 None \<Rightarrow> ([], zero_scope, False)
               | Some st \<Rightarrow> (runner, js_scope st, js_bound st \<and> sc_Repo (js_scope st) \<noteq> []))"

subsection \<open>Requests of the cache service\<close>

record twirpReq =
  tw_Key :: string
  tw_Version :: string
  tw_RestoreKeys :: "string list"
  tw_SizeBytes :: int

datatype refusal =
    NoScope | ReadOnly | RegistryDown | KeyRequired | ExistsUnknown | EntryExists
  | MayNotSave | NoUpload | UploadFailed | NeverCommitted | MissingBlock string
  | SizeMismatch | StoreFailed

datatype response =
    Miss
  | Hit string string
  | Refused refusal
  | UploadAt string
  | Saved
  | BadRequest
  | NotFound
  | MethodNotAllowed
  | Forbidden
  | Relayed
  | CreatedBlob
  | RangeError
  | Body string
  | Aborted

definition touch :: "nat \<Rightarrow> time \<Rightarrow> ('w, unit) handler" where
  "touch i now = do {
     s \<leftarrow> State_Monad.get;
     _ \<leftarrow> index_scope (e_repository (cs_ents s i));
     State_Monad.update (\<lambda>s. s\<lparr>cs_ents := (cs_ents s)(i := (cs_ents s i)\<lparr>e_lastUsed := now\<rparr>)\<rparr>)
   }"

definition getDownloadURL :: "'w registry \<Rightarrow> string \<Rightarrow> Scope \<Rightarrow> bool \<Rightarrow> twirpReq \<Rightarrow> ('w, response) handler" where
  "getDownloadURL g runner sc bound req = do {
     s \<leftarrow> State_Monad.get;
     if \<not> bound \<or> \<not> cs_healthy s then State_Monad.return Miss
     else do {
       e \<leftarrow> lookup g sc (tw_Key req) (tw_RestoreKeys req) (tw_Version req);
       (case e of
          None \<Rightarrow> State_Monad.return Miss
        | Some i \<Rightarrow> do {
            tok \<leftarrow> ask (g_token g);
            now \<leftarrow> ask (g_now g);
            State_Monad.update (\<lambda>s. s\<lparr>cs_downloads := AList.update tok
              \<lparr>dl_runner = runner, dl_entry = i, dl_expires = now + downloadTTL\<rparr> (cs_downloads s)\<rparr>);
            touch i now;
            s \<leftarrow> State_Monad.get;
            State_Monad.return (Hit tok (e_Key (cs_ents s i)))
          })
     }
   }"

definition createEntry :: "'w registry \<Rightarrow> string \<Rightarrow> Scope \<Rightarrow> bool \<Rightarrow> twirpReq \<Rightarrow> ('w, response) handler" where
  "createEntry g runner sc bound req = do {
     s \<leftarrow> State_Monad.get;
     if \<not> bound then State_Monad.return (Refused NoScope)
     else if sc_Write sc = [] then State_Monad.return (Refused ReadOnly)
     else if \<not> cs_healthy s then State_Monad.return (Refused RegistryDown)
     else if tw_Key req = [] \<or> tw_Version req = [] then State_Monad.return (Refused KeyRequired)
     else do {
       ex \<leftarrow> index_exists g (sc_Repo sc) (sc_Write sc) (tw_Key req) (tw_Version req);
       (case ex of
          None \<Rightarrow> State_Monad.return (Refused ExistsUnknown)
        | Some True \<Rightarrow> State_Monad.return (Refused EntryExists)
        | Some False \<Rightarrow> do {
            tok \<leftarrow> ask (g_token g);
            now \<leftarrow> ask (g_now g);
            State_Monad.update (\<lambda>s.
              let i = cs_nextp s;
                  bk = byKey_key runner (tw_Key req) (tw_Version req);
                  kept = (case cs_byKey s bk of
                    None \<Rightarrow> cs_uploads s
                  | Some prev \<Rightarrow> filter (\<lambda>(t, v). v \<noteq> prev) (cs_uploads s)) in
              s\<lparr>cs_pend := (cs_pend s)(i :=
                   \<lparr>pe_runner = runner, pe_scope = sc, pe_key = tw_Key req, pe_version = tw_Version req,
                    pe_created = now, pe_blocks = Map.empty, pe_order = None, pe_size = 0, pe_failed = False\<rparr>),
                cs_nextp := Suc i, cs_uploads := AList.update tok i kept, cs_byKey := (cs_byKey s)(bk \<mapsto> i)\<rparr>);
            State_Monad.return (UploadAt tok)
          })
     }
   }"

fun committed_layers :: "(string \<rightharpoonup> descriptor) \<Rightarrow> string list \<Rightarrow> refusal + descriptor list" where
  "committed_layers blocks [] = Inr []"
| "committed_layers blocks (b # bs) =
     (case blocks b of
        None \<Rightarrow> Inl (MissingBlock b)
      | Some d \<Rightarrow> (case committed_layers blocks bs of Inl e \<Rightarrow> Inl e | Inr ds \<Rightarrow> Inr (d # ds)))"

definition committed :: "pending \<Rightarrow> refusal + descriptor list \<times> int" where
  "committed u =
     (if pe_failed u then Inl UploadFailed
      else case pe_order u of
             None \<Rightarrow> Inl NeverCommitted
           | Some order \<Rightarrow>
               (case committed_layers (pe_blocks u) order of
                  Inl e \<Rightarrow> Inl e
                | Inr ds \<Rightarrow> Inr (ds, \<Sum>d\<leftarrow>ds. d_Size d)))"

record cacheConfig =
  cc_MaxBytesPerRepo :: int
  cc_MaxEntryBytes :: int

definition upload_blob :: "'w registry \<Rightarrow> string \<Rightarrow> string \<Rightarrow> ('w, string option) handler" where
  "upload_blob g repo bytes = do {
     d \<leftarrow> ask (g_uploadBlob g repo bytes);
     tell (Uploaded repo);
     State_Monad.return d
   }"

text \<open>Storing the manifest of a finished upload: the part of \<^verbatim>\<open>finalizeEntry\<close> after the size check.\<close>

definition store_entry ::
  "'w registry \<Rightarrow> cacheConfig \<Rightarrow> pending \<Rightarrow> descriptor list \<Rightarrow> int \<Rightarrow> string \<Rightarrow> ('w, response) handler" where
  "store_entry g cfg u layers sz cfgBytes = do {
     created \<leftarrow> ask (g_now g);
     let repo = scopeRepository (g_sha g) (sc_Repo (pe_scope u)) (sc_Write (pe_scope u));
     let e = \<lparr>e_Key = pe_key u, e_Version = pe_version u, e_Ref = sc_Write (pe_scope u), e_Created = created,
              e_Size = sz, e_Layers = layers, e_repository = repo,
              e_tag = entryTag (g_sha g) (pe_key u) (pe_version u), e_digest = [], e_lastUsed = 0\<rparr>;
     cfgDigest \<leftarrow> upload_blob g repo cfgBytes;
     (case cfgDigest of
        None \<Rightarrow> State_Monad.return (Refused StoreFailed)
      | Some cd \<Rightarrow>
          (case encodeManifest (g_marshal g) (g_fmtTime g) e
                  \<lparr>d_MediaType = configMediaType, d_Digest = cd, d_Size = int (length cfgBytes)\<rparr> of
             None \<Rightarrow> State_Monad.return (Refused StoreFailed)
           | Some body \<Rightarrow> do {
               digest \<leftarrow> ask (g_putManifest g repo (e_tag e) body);
               tell (PutManifest repo (e_tag e));
               (case digest of
                  None \<Rightarrow> State_Monad.return (Refused StoreFailed)
                | Some dg \<Rightarrow> do {
                    i \<leftarrow> new_entry (e\<lparr>e_digest := dg, e_lastUsed := created\<rparr>);
                    index_add i;
                    now \<leftarrow> ask (g_now g);
                    _ \<leftarrow> evict g (sc_Repo (pe_scope u)) (cc_MaxBytesPerRepo cfg) sweepEvery now;
                    State_Monad.return Saved
                  })
             }))
   }"

definition take_upload :: "string \<Rightarrow> ('w, nat option) handler" where
  "take_upload bk = do {
     s \<leftarrow> State_Monad.get;
     (case cs_byKey s bk of
        None \<Rightarrow> State_Monad.return None
      | Some i \<Rightarrow> do {
          State_Monad.update (\<lambda>s. s\<lparr>cs_byKey := (cs_byKey s)(bk := None),
            cs_uploads := filter (\<lambda>(t, v). v \<noteq> i) (cs_uploads s)\<rparr>);
          State_Monad.return (Some i)
        })
   }"

text \<open>\<open>blob\<close> is the rendering of \<^verbatim>\<open>configBlob\<close>, a JSON object of the entry's identity.\<close>

definition finalizeEntry ::
  "'w registry \<Rightarrow> cacheConfig \<Rightarrow> (pending \<Rightarrow> string) \<Rightarrow> string \<Rightarrow> Scope \<Rightarrow> bool \<Rightarrow> twirpReq \<Rightarrow> ('w, response) handler" where
  "finalizeEntry g cfg blob runner sc bound req =
     (if \<not> bound \<or> sc_Write sc = [] then State_Monad.return (Refused MayNotSave)
      else do {
        up \<leftarrow> take_upload (byKey_key runner (tw_Key req) (tw_Version req));
        s \<leftarrow> State_Monad.get;
        (case up of
           None \<Rightarrow> State_Monad.return (Refused NoUpload)
         | Some i \<Rightarrow>
             (case committed (cs_pend s i) of
                Inl e \<Rightarrow> State_Monad.return (Refused e)
              | Inr (layers, sz) \<Rightarrow>
                  if tw_SizeBytes req \<noteq> sz then State_Monad.return (Refused SizeMismatch)
                  else store_entry g cfg (cs_pend s i) layers sz (blob (cs_pend s i))))
      })"

definition serveTwirp ::
  "'w registry \<Rightarrow> cacheConfig \<Rightarrow> (pending \<Rightarrow> string) \<Rightarrow> string option \<Rightarrow> string \<Rightarrow> string \<Rightarrow> twirpReq option
   \<Rightarrow> ('w, response) handler" where
  "serveTwirp g cfg blob host verb meth body = do {
     s \<leftarrow> State_Monad.get;
     let (runner, sc, bound) = caller g s host;
     if verb \<noteq> ''POST'' then State_Monad.return BadRequest
     else case body of
            None \<Rightarrow> State_Monad.return BadRequest
          | Some req \<Rightarrow>
              if meth = ''GetCacheEntryDownloadURL'' then getDownloadURL g runner sc bound req
              else if meth = ''CreateCacheEntry'' then createEntry g runner sc bound req
              else if meth = ''FinalizeCacheEntryUpload'' then finalizeEntry g cfg blob runner sc bound req
              else State_Monad.return NotFound
   }"

subsection \<open>Uploads\<close>

definition chunkMediaType :: string where
  "chunkMediaType = ''application/vnd.ephemerd.actions-cache.chunk.v1''"

text \<open>
  \<^verbatim>\<open>storeBlock\<close> in its two critical sections: reading the room that is left, and, after the upload,
  adding to the size. The lock is not held in between.
\<close>

definition block_room :: "cacheConfig \<Rightarrow> nat \<Rightarrow> ('w, int) handler" where
  "block_room cfg i = do {
     s \<leftarrow> State_Monad.get;
     State_Monad.return (cc_MaxEntryBytes cfg - pe_size (cs_pend s i))
   }"

definition block_upload :: "'w registry \<Rightarrow> nat \<Rightarrow> int \<Rightarrow> string \<Rightarrow> ('w, descriptor option) handler" where
  "block_upload g i room bytes =
     (if room \<le> 0 then State_Monad.return None
      else do {
        s \<leftarrow> State_Monad.get;
        let sc = pe_scope (cs_pend s i);
        let sent = take (nat (room + 1)) bytes;
        d \<leftarrow> upload_blob g (scopeRepository (g_sha g) (sc_Repo sc) (sc_Write sc)) sent;
        (case d of
           None \<Rightarrow> State_Monad.return None
         | Some digest \<Rightarrow>
             if room < int (length sent) then State_Monad.return None
             else do {
               State_Monad.update (\<lambda>s. s\<lparr>cs_pend := (cs_pend s)(i :=
                 (cs_pend s i)\<lparr>pe_size := pe_size (cs_pend s i) + int (length sent)\<rparr>)\<rparr>);
               State_Monad.return (Some \<lparr>d_MediaType = chunkMediaType, d_Digest = digest, d_Size = int (length sent)\<rparr>)
             })
      })"

definition storeBlock :: "'w registry \<Rightarrow> cacheConfig \<Rightarrow> nat \<Rightarrow> string \<Rightarrow> ('w, descriptor option) handler" where
  "storeBlock g cfg i bytes = do { room \<leftarrow> block_room cfg i; block_upload g i room bytes }"

definition set_block :: "nat \<Rightarrow> string \<Rightarrow> descriptor \<Rightarrow> ('w, unit) handler" where
  "set_block i b d = State_Monad.update (\<lambda>s. s\<lparr>cs_pend := (cs_pend s)(i :=
     (cs_pend s i)\<lparr>pe_blocks := (pe_blocks (cs_pend s i))(b \<mapsto> d)\<rparr>)\<rparr>)"

definition set_order :: "nat \<Rightarrow> string list \<Rightarrow> ('w, unit) handler" where
  "set_order i bs = State_Monad.update (\<lambda>s. s\<lparr>cs_pend := (cs_pend s)(i := (cs_pend s i)\<lparr>pe_order := Some bs\<rparr>)\<rparr>)"

definition uploadFailed :: "nat \<Rightarrow> ('w, response) handler" where
  "uploadFailed i = do {
     State_Monad.update (\<lambda>s. s\<lparr>cs_pend := (cs_pend s)(i := (cs_pend s i)\<lparr>pe_failed := True\<rparr>)\<rparr>);
     State_Monad.return BadRequest
   }"

datatype uploadComp = CompBlock string | CompBlockList "string list option" | CompBlob | CompOther

text \<open>\<open>how\<close> is the query, with the block list as \<^verbatim>\<open>parseBlockList\<close> reads it (\<^const>\<open>None\<close> on an error).\<close>

definition serveUpload ::
  "'w registry \<Rightarrow> cacheConfig \<Rightarrow> string option \<Rightarrow> string \<Rightarrow> string \<Rightarrow> uploadComp \<Rightarrow> string \<Rightarrow> ('w, response) handler" where
  "serveUpload g cfg host verb tok how bytes = do {
     s \<leftarrow> State_Monad.get;
     let runner = fst (caller g s host);
     if verb \<noteq> ''PUT'' then State_Monad.return MethodNotAllowed
     else case map_of (cs_uploads s) tok of
            None \<Rightarrow> State_Monad.return NotFound
          | Some i \<Rightarrow>
              if runner = [] \<or> runner \<noteq> pe_runner (cs_pend s i) then State_Monad.return NotFound
              else case how of
                     CompBlock b \<Rightarrow>
                       if b = [] then State_Monad.return BadRequest
                       else do {
                         d \<leftarrow> storeBlock g cfg i bytes;
                         (case d of
                            None \<Rightarrow> uploadFailed i
                          | Some d \<Rightarrow> do { set_block i b d; State_Monad.return CreatedBlob })
                       }
                   | CompBlockList ids \<Rightarrow>
                       (case ids of
                          None \<Rightarrow> State_Monad.return BadRequest
                        | Some bs \<Rightarrow> do { set_order i bs; State_Monad.return CreatedBlob })
                   | CompBlob \<Rightarrow> do {
                       d \<leftarrow> storeBlock g cfg i bytes;
                       (case d of
                          None \<Rightarrow> uploadFailed i
                        | Some d \<Rightarrow> do { set_block i [] d; set_order i [[]]; State_Monad.return CreatedBlob })
                     }
                   | CompOther \<Rightarrow> State_Monad.return BadRequest
   }"

subsection \<open>Downloads\<close>

definition parseRange :: "string \<Rightarrow> int \<Rightarrow> (int \<times> int) option" where
  "parseRange h sz =
     (case cut_prefix (trim_space h) ''bytes='' of
        None \<Rightarrow> None
      | Some spec \<Rightarrow>
          if CHR '','' \<in> set spec then None
          else case cut CHR ''-'' spec of
                 None \<Rightarrow> None
               | Some (a, b) \<Rightarrow>
                   if a = []
                   then (case ParseInt b of
                           None \<Rightarrow> None
                         | Some n \<Rightarrow> if n \<le> 0 then None
                                     else let n = (if sz < n then sz else n) in Some (sz - n, sz - 1))
                   else (case ParseInt a of
                           None \<Rightarrow> None
                         | Some s \<Rightarrow>
                             if s < 0 \<or> sz \<le> s then None
                             else if b = [] then Some (s, sz - 1)
                             else case ParseInt b of
                                    None \<Rightarrow> None
                                  | Some e \<Rightarrow> if e < s then None
                                              else Some (s, if sz \<le> e then sz - 1 else e)))"

text \<open>
  \<^verbatim>\<open>streamRange\<close>: the bytes written, and whether the loop ended without an error.
\<close>

fun streamRange :: "'w registry \<Rightarrow> string \<Rightarrow> descriptor list \<Rightarrow> int \<Rightarrow> int \<Rightarrow> ('w, string \<times> bool) handler" where
  "streamRange g repo [] off n = State_Monad.return ([], n \<le> 0)"
| "streamRange g repo (l # ls) off n =
     (if n \<le> 0 then State_Monad.return ([], True)
      else if d_Size l \<le> off then streamRange g repo ls (off - d_Size l) n
      else do {
        let len = (if n < d_Size l - off then n else d_Size l - off);
        rc \<leftarrow> ask (g_openBlob g repo (d_Digest l) off len);
        (case rc of
           None \<Rightarrow> State_Monad.return ([], False)
         | Some bytes \<Rightarrow>
             if int (length bytes) \<noteq> len then State_Monad.return (bytes, False)
             else do {
               (rest, ok) \<leftarrow> streamRange g repo ls 0 (n - len);
               State_Monad.return (bytes @ rest, ok)
             })
      })"

text \<open>\<open>hdr\<close> is the \<^verbatim>\<open>Range\<close> header, empty when there is none. The status line and headers are left out.\<close>

definition serveDownload ::
  "'w registry \<Rightarrow> string option \<Rightarrow> string \<Rightarrow> string \<Rightarrow> string \<Rightarrow> ('w, response) handler" where
  "serveDownload g host verb tok hdr = do {
     s \<leftarrow> State_Monad.get;
     let runner = fst (caller g s host);
     if verb \<noteq> ''GET'' \<and> verb \<noteq> ''HEAD'' then State_Monad.return MethodNotAllowed
     else do {
       now \<leftarrow> ask (g_now g);
       (case map_of (cs_downloads s) tok of
          None \<Rightarrow> State_Monad.return NotFound
        | Some d \<Rightarrow>
            if runner = [] \<or> runner \<noteq> dl_runner d \<or> dl_expires d < now then State_Monad.return NotFound
            else let e = cs_ents s (dl_entry d);
                     want = (if hdr \<noteq> [] \<and> 0 < e_Size e then parseRange hdr (e_Size e) else Some (0, e_Size e - 1)) in
                 (case want of
                    None \<Rightarrow> State_Monad.return RangeError
                  | Some (start, stop) \<Rightarrow>
                      let len = (if e_Size e = 0 then 0 else stop - start + 1) in
                      if verb = ''HEAD'' \<or> len = 0 then State_Monad.return (Body [])
                      else do {
                        (bytes, ok) \<leftarrow> streamRange g (e_repository e) (e_Layers e) start len;
                        State_Monad.return (if ok then Body bytes else Aborted)
                      }))
     }
   }"

definition serveRelay :: "'w registry \<Rightarrow> string option \<Rightarrow> ('w, response) handler" where
  "serveRelay g host = do {
     s \<leftarrow> State_Monad.get;
     let runner = g_JobForIP g (case host of None \<Rightarrow> [] | Some h \<Rightarrow> h);
     State_Monad.return (if runner = [] \<or> cs_jobs s runner = None then Forbidden else Relayed)
   }"

end
