(* ===== verification/Sha256.thy ===== *)
theory Sha256
  imports Prelude "HOL-Library.Word"
begin

text \<open>
  Go's \<^verbatim>\<open>crypto/sha256\<close> and \<^verbatim>\<open>encoding/hex\<close> as the upgrade uses them: the digest of a byte
  string and its lower-case hexadecimal form. A byte string is a \<^typ>\<open>string\<close>; the schedule of
  a block is kept with its newest word first.
\<close>

unbundle bit_operations_syntax

definition round_constants :: "32 word list" where
  "round_constants =
   [0x428A2F98, 0x71374491, 0xB5C0FBCF, 0xE9B5DBA5, 0x3956C25B, 0x59F111F1, 0x923F82A4, 0xAB1C5ED5,
    0xD807AA98, 0x12835B01, 0x243185BE, 0x550C7DC3, 0x72BE5D74, 0x80DEB1FE, 0x9BDC06A7, 0xC19BF174,
    0xE49B69C1, 0xEFBE4786, 0x0FC19DC6, 0x240CA1CC, 0x2DE92C6F, 0x4A7484AA, 0x5CB0A9DC, 0x76F988DA,
    0x983E5152, 0xA831C66D, 0xB00327C8, 0xBF597FC7, 0xC6E00BF3, 0xD5A79147, 0x06CA6351, 0x14292967,
    0x27B70A85, 0x2E1B2138, 0x4D2C6DFC, 0x53380D13, 0x650A7354, 0x766A0ABB, 0x81C2C92E, 0x92722C85,
    0xA2BFE8A1, 0xA81A664B, 0xC24B8B70, 0xC76C51A3, 0xD192E819, 0xD6990624, 0xF40E3585, 0x106AA070,
    0x19A4C116, 0x1E376C08, 0x2748774C, 0x34B0BCB5, 0x391C0CB3, 0x4ED8AA4A, 0x5B9CCA4F, 0x682E6FF3,
    0x748F82EE, 0x78A5636F, 0x84C87814, 0x8CC70208, 0x90BEFFFA, 0xA4506CEB, 0xBEF9A3F7, 0xC67178F2]"

definition initial_hash :: "32 word list" where
  "initial_hash =
   [0x6A09E667, 0xBB67AE85, 0x3C6EF372, 0xA54FF53A, 0x510E527F, 0x9B05688C, 0x1F83D9AB, 0x5BE0CD19]"

definition small_sigma0 :: "32 word \<Rightarrow> 32 word" where
  "small_sigma0 x = word_rotr 7 x XOR word_rotr 18 x XOR drop_bit 3 x"

definition small_sigma1 :: "32 word \<Rightarrow> 32 word" where
  "small_sigma1 x = word_rotr 17 x XOR word_rotr 19 x XOR drop_bit 10 x"

definition big_sigma0 :: "32 word \<Rightarrow> 32 word" where
  "big_sigma0 x = word_rotr 2 x XOR word_rotr 13 x XOR word_rotr 22 x"

definition big_sigma1 :: "32 word \<Rightarrow> 32 word" where
  "big_sigma1 x = word_rotr 6 x XOR word_rotr 11 x XOR word_rotr 25 x"

definition be_word :: "char list \<Rightarrow> 32 word" where
  "be_word cs = foldl (\<lambda>a c. 256 * a + word_of_int (of_char c)) 0 cs"

fun group :: "nat \<Rightarrow> 'a list \<Rightarrow> 'a list list" where
  "group n [] = []"
| "group n (x # xs) = (x # take (n - 1) xs) # group n (drop (n - 1) xs)"

definition be_bytes :: "64 word \<Rightarrow> char list" where
  "be_bytes w = map (\<lambda>i. char_of (unat (drop_bit (56 - 8 * i) w AND 0xFF))) [0..<8]"

text \<open>Padding: a one bit, zeros up to eight bytes short of a block, the length in bits.\<close>

definition sha_pad :: "string \<Rightarrow> char list" where
  "sha_pad m =
     m @ [CHR 0x80] @ replicate ((119 - length m mod 64) mod 64) (CHR 0x00) @
     be_bytes (8 * of_nat (length m))"

fun schedule :: "nat \<Rightarrow> 32 word list \<Rightarrow> 32 word list" where
  "schedule 0 ws = ws"
| "schedule (Suc n) ws =
     schedule n ((small_sigma1 (ws ! 1) + ws ! 6 + small_sigma0 (ws ! 14) + ws ! 15) # ws)"

fun sha_round :: "32 word list \<Rightarrow> 32 word \<times> 32 word \<Rightarrow> 32 word list" where
  "sha_round [a, b, c, d, e, f, g, h] (k, w) =
     (let t1 = h + big_sigma1 e + ((e AND f) XOR (NOT e AND g)) + k + w;
          t2 = big_sigma0 a + ((a AND b) XOR (a AND c) XOR (b AND c))
      in [t1 + t2, a, b, c, d + t1, e, f, g])"
| "sha_round hs _ = hs"

definition sha_block :: "32 word list \<Rightarrow> char list \<Rightarrow> 32 word list" where
  "sha_block hs block =
     (let ws = rev (schedule 48 (rev (map be_word (group 4 block)))) in
      map2 (+) hs (foldl sha_round hs (zip round_constants ws)))"

definition sha256 :: "string \<Rightarrow> 32 word list" where
  "sha256 m = foldl sha_block initial_hash (group 64 (sha_pad m))"

definition hex_digit :: "nat \<Rightarrow> char" where
  "hex_digit n = char_of (if n < 10 then 48 + n else 87 + n)"

definition hex_word :: "32 word \<Rightarrow> string" where
  "hex_word w = map (\<lambda>i. hex_digit (unat (drop_bit (28 - 4 * i) w AND 0xF))) [0..<8]"

definition hex_sha256 :: "string \<Rightarrow> string" where
  "hex_sha256 m = concat (map hex_word (sha256 m))"

subsection \<open>The shape of a digest\<close>

lemma length_sha_round: "length hs = 8 \<Longrightarrow> length (sha_round hs kw) = 8"
  by (cases "(hs, kw)" rule: sha_round.cases) (auto simp: Let_def)

lemma length_sha_rounds: "length hs = 8 \<Longrightarrow> length (foldl sha_round hs kws) = 8"
  by (induction kws arbitrary: hs) (auto simp: length_sha_round)

lemma length_sha256: "length (sha256 m) = 8"
proof -
  have "length hs = 8 \<Longrightarrow> length (foldl sha_block hs bs) = 8" for hs bs
    by (induction bs arbitrary: hs) (auto simp: sha_block_def Let_def length_sha_rounds)
  then show ?thesis by (simp add: sha256_def initial_hash_def)
qed

lemma hex_digit_plain: "n < 16 \<Longrightarrow> \<not> is_space (hex_digit n) \<and> to_lower_char (hex_digit n) = hex_digit n"
proof -
  assume "n < 16"
  then have "n \<in> set [0..<16]" by simp
  also have "[0..<16] = [0, 1, 2, 3, 4, 5, 6, 7, 8, 9, 10, 11, 12, 13, 14, 15]" by code_simp
  finally have "n \<in> set [0, 1, 2, 3, 4, 5, 6, 7, 8, 9, 10, 11, 12, 13, 14, 15]" .
  then show ?thesis
    by (auto simp: hex_digit_def is_space_def to_lower_char_def of_char_of)
qed

lemma hex_word_plain:
  assumes "c \<in> set (hex_word w)" shows "\<not> is_space c \<and> to_lower_char c = c"
proof -
  from assms obtain i where c: "c = hex_digit (unat (drop_bit (28 - 4 * i) w AND 0xF))"
    by (auto simp: hex_word_def)
  have "drop_bit (28 - 4 * i) w AND 0xF \<le> 0xF" by (rule word_and_le1)
  then have "unat (drop_bit (28 - 4 * i) w AND 0xF) < 16" by (simp add: word_le_nat_alt)
  with c show ?thesis using hex_digit_plain by blast
qed

lemma hex_sha256_plain: "c \<in> set (hex_sha256 m) \<Longrightarrow> \<not> is_space c \<and> to_lower_char c = c"
  using hex_word_plain by (auto simp: hex_sha256_def)

lemma length_hex_sha256: "length (hex_sha256 m) = 64"
proof -
  have "length (concat (map hex_word ws)) = 8 * length ws" for ws
    by (induction ws) (simp_all add: hex_word_def)
  then show ?thesis by (simp add: hex_sha256_def length_sha256)
qed

lemma to_lower_hex_sha256: "to_lower (hex_sha256 m) = hex_sha256 m"
  using hex_sha256_plain [of _ m] by (simp add: to_lower_def map_idI)

end
