(* ===== verification/Posix_Path.thy ===== *)
theory Posix_Path
  imports Strconv
begin

text \<open>
  The parts of Go's \<^verbatim>\<open>path\<close> and \<^verbatim>\<open>strings\<close> packages that the bind translation of \<^verbatim>\<open>pkg/dind\<close>
  uses on POSIX paths: \<^verbatim>\<open>strings.Split\<close> and \<^verbatim>\<open>strings.Join\<close> at a slash, \<^verbatim>\<open>path.Clean\<close>,
  \<^verbatim>\<open>path.Join\<close> and \<^verbatim>\<open>path.IsAbs\<close>, with the facts that splitting and joining are inverse on
  proper component lists and that a cleaned rooted path has only proper components.
\<close>

fun split_on :: "char \<Rightarrow> string \<Rightarrow> string list" where
  "split_on c [] = [[]]"
| "split_on c (x # xs) =
     (if x = c then [] # split_on c xs
      else case split_on c xs of [] \<Rightarrow> [[x]] | y # ys \<Rightarrow> (x # y) # ys)"

abbreviation slash :: char where "slash \<equiv> CHR ''/''"

text \<open>One component of the input of \<^verbatim>\<open>path.Clean\<close>, on the components kept so far.\<close>

definition clean_step :: "bool \<Rightarrow> string list \<Rightarrow> string \<Rightarrow> string list" where
  "clean_step rooted out c =
     (if c = '''' \<or> c = ''.'' then out
      else if c = ''..'' then
        (if out \<noteq> [] \<and> last out \<noteq> ''..'' then butlast out
         else if rooted then out else out @ [''..''])
      else out @ [c])"

definition path_IsAbs :: "string \<Rightarrow> bool" where
  "path_IsAbs p = has_prefix p ''/''"

definition path_Clean :: "string \<Rightarrow> string" where
  "path_Clean p =
     (let out = foldl (clean_step (path_IsAbs p)) [] (split_on slash p) in
      if path_IsAbs p then slash # str_join ''/'' out
      else if out = [] then ''.'' else str_join ''/'' out)"

definition path_Join :: "string list \<Rightarrow> string" where
  "path_Join ps =
     (let qs = filter (\<lambda>p. p \<noteq> []) ps in if qs = [] then [] else path_Clean (str_join ''/'' qs))"

definition trim_prefix :: "string \<Rightarrow> string \<Rightarrow> string" where
  "trim_prefix s p = (if has_prefix s p then drop (length p) s else s)"

text \<open>A name a directory entry can have: what no path function may turn into anything else.\<close>

definition proper_name :: "string \<Rightarrow> bool" where
  "proper_name c \<longleftrightarrow> c \<noteq> '''' \<and> c \<noteq> ''.'' \<and> c \<noteq> ''..'' \<and> slash \<notin> set c"

lemma split_on_ne [simp]: "split_on c s \<noteq> []"
  by (cases s) (auto split: list.splits)

lemma split_on_no_sep: "x \<in> set (split_on c s) \<Longrightarrow> c \<notin> set x"
  by (induction s arbitrary: x) (auto split: if_splits list.splits)

lemma split_on_plain [simp]: "c \<notin> set s \<Longrightarrow> split_on c s = [s]"
  by (induction s) auto

lemma split_on_append: "c \<notin> set x \<Longrightarrow> split_on c (x @ c # s) = x # split_on c s"
  by (induction x) auto

lemma split_on_join:
  assumes "xs \<noteq> []" and "\<And>x. x \<in> set xs \<Longrightarrow> c \<notin> set x"
  shows "split_on c (str_join [c] xs) = xs"
  using assms by (induction "[c]" xs rule: str_join.induct) (auto simp: split_on_append)

lemma str_join_split: "str_join [c] (split_on c s) = s"
proof (induction s)
  case (Cons x s)
  then show ?case by (cases "split_on c s"; cases "tl (split_on c s)") auto
qed simp

lemma str_join_Nil_iff: "(\<And>x. x \<in> set xs \<Longrightarrow> x \<noteq> []) \<Longrightarrow> str_join sep xs = [] \<longleftrightarrow> xs = []"
  by (induction sep xs rule: str_join.induct) auto

lemma clean_step_proper:
  assumes "\<forall>x\<in>set out. proper_name x" and "slash \<notin> set c"
  shows "\<forall>x\<in>set (clean_step True out c). proper_name x"
  using assms by (auto simp: clean_step_def proper_name_def dest: in_set_butlastD)

lemma foldl_clean_proper:
  "\<forall>x\<in>set out. proper_name x \<Longrightarrow> \<forall>c\<in>set cs. slash \<notin> set c \<Longrightarrow>
   \<forall>x\<in>set (foldl (clean_step True) out cs). proper_name x"
proof (induction cs arbitrary: out)
  case (Cons c cs)
  then show ?case using clean_step_proper [of out c] by simp
qed simp

lemma foldl_clean_id:
  "\<forall>c\<in>set cs. proper_name c \<Longrightarrow> foldl (clean_step r) out cs = out @ cs"
  by (induction cs arbitrary: out) (auto simp: clean_step_def proper_name_def)

text \<open>The components a rooted path cleans to.\<close>

definition clean_components :: "string \<Rightarrow> string list" where
  "clean_components p = foldl (clean_step True) [] (split_on slash p)"

lemma clean_components_proper: "c \<in> set (clean_components p) \<Longrightarrow> proper_name c"
  unfolding clean_components_def using foldl_clean_proper [of "[]" "split_on slash p"]
  by (auto dest: split_on_no_sep)

lemma clean_components_slash [simp]: "clean_components (slash # p) = clean_components p"
  by (simp add: clean_components_def clean_step_def)

lemma path_Clean_rooted: "path_Clean (slash # p) = slash # str_join ''/'' (clean_components p)"
  by (simp add: path_Clean_def path_IsAbs_def clean_components_def Let_def clean_step_def)

lemma clean_components_join:
  assumes "\<forall>c\<in>set cs. proper_name c"
  shows "clean_components (str_join ''/'' cs) = cs"
proof (cases "cs = []")
  case True
  then show ?thesis by (simp add: clean_components_def clean_step_def)
next
  case False
  with assms have "split_on slash (str_join ''/'' cs) = cs"
    by (intro split_on_join) (auto simp: proper_name_def)
  with foldl_clean_id [OF assms] show ?thesis by (simp add: clean_components_def)
qed

lemma path_Clean_idem: "path_Clean (path_Clean (slash # p)) = path_Clean (slash # p)"
  by (simp add: path_Clean_rooted clean_components_join clean_components_proper)

lemma trim_prefix_slash [simp]: "trim_prefix (slash # p) ''/'' = p"
  by (simp add: trim_prefix_def)

lemma split_on_app: "split_on c (a @ c # b) = split_on c a @ split_on c b"
  by (induction a) (auto split: list.splits)

text \<open>A rooted path, from its components.\<close>

abbreviation rooted :: "string list \<Rightarrow> string" where
  "rooted cs \<equiv> slash # str_join ''/'' cs"

lemma str_join_snoc: "str_join sep (xs @ [x]) = (if xs = [] then x else str_join sep xs @ sep @ x)"
  by (induction sep xs rule: str_join.induct) auto

lemma clean_components_snoc:
  assumes "list_all proper_name ds" and "proper_name c"
  shows "clean_components (str_join ''/'' ds @ slash # c) = ds @ [c]"
proof (cases "ds = []")
  case True
  with assms(2) clean_components_join [of "[c]"] show ?thesis by simp
next
  case False
  with assms clean_components_join [of "ds @ [c]"] show ?thesis by (simp add: str_join_snoc list_all_iff)
qed

lemma path_Join_rooted:
  assumes "list_all proper_name ds" and "proper_name c"
  shows "path_Join [rooted ds, c] = rooted (ds @ [c])"
proof -
  have "c \<noteq> []" using assms(2) by (simp add: proper_name_def)
  then show ?thesis
    by (simp add: path_Join_def path_Clean_rooted clean_components_snoc [OF assms])
qed

lemma path_Join_abs:
  assumes "has_prefix p ''/''"
  shows "\<exists>ds. path_Join (p # ps) = rooted ds \<and> list_all proper_name ds"
proof -
  from assms obtain q where q: "p = slash # q" by (cases p) auto
  have "str_join ''/'' (filter (\<lambda>p. p \<noteq> []) (p # ps)) = slash # (case filter (\<lambda>p. p \<noteq> []) ps of
      [] \<Rightarrow> q | y # ys \<Rightarrow> q @ ''/'' @ str_join ''/'' (y # ys))"
    by (simp add: q split: list.split)
  then have "path_Join (p # ps) = rooted (clean_components (case filter (\<lambda>p. p \<noteq> []) ps of
      [] \<Rightarrow> q | y # ys \<Rightarrow> q @ ''/'' @ str_join ''/'' (y # ys)))"
    by (simp add: path_Join_def q path_Clean_rooted)
  then show ?thesis by (auto simp: list_all_iff clean_components_proper)
qed

lemma split_rooted:
  assumes "list_all proper_name ds" and "ds \<noteq> []"
  shows "split_on slash (rooted ds) = [] # ds"
proof -
  have "split_on slash (str_join ''/'' ds) = ds"
    using assms by (intro split_on_join) (auto simp: proper_name_def list_all_iff)
  then show ?thesis by simp
qed

text \<open>One rooted path continues another exactly when its components do.\<close>

lemma rooted_prefix:
  assumes "list_all proper_name ds" "ds \<noteq> []" and "list_all proper_name es"
    and "rooted es = rooted ds @ slash # rest"
  shows "\<exists>zs. es = ds @ zs"
proof -
  have "es \<noteq> []" using assms(2,4) by (cases ds) auto
  then have "[] # es = split_on slash (rooted ds @ slash # rest)"
    using split_rooted [OF assms(3)] assms(4) by simp
  also have "\<dots> = [] # ds @ split_on slash rest"
    using split_rooted [OF assms(1,2)] by (simp only: split_on_app) simp
  finally show ?thesis by blast
qed

lemma rooted_inj:
  assumes "list_all proper_name ds" "ds \<noteq> []" "list_all proper_name es" "es \<noteq> []" and "rooted ds = rooted es"
  shows "ds = es"
  using split_rooted [OF assms(1,2)] split_rooted [OF assms(3,4)] assms(5) by (metis list.inject)

lemma rooted_last:
  assumes "list_all proper_name (ds @ [a])" shows "last (rooted (ds @ [a])) \<noteq> slash"
proof -
  have a: "a \<noteq> []" "slash \<notin> set a" using assms by (auto simp: proper_name_def)
  then have "last (rooted (ds @ [a])) = last a" by (auto simp: str_join_snoc)
  with a show ?thesis by (metis last_in_set)
qed

end
