(* ===== verification/Actions_Cache_Laws.thy ===== *)
theory Actions_Cache_Laws
  imports Actions_Cache Sha256 Posix_Path
begin

text \<open>
  What the pieces of the actions cache compute: which scopes share a registry name and that the names
  are valid, that the size check of a manifest wraps, \<^const>\<open>match\<close> follows GitHub's rules, a download is a slice of the
  saved archive, and eviction removes no more than it has to.
\<close>

subsection \<open>Registry names\<close>

lemma component_loop_chars:
  "set (component_loop b sep s) \<subseteq> set b \<union> {c. is_component_char c} \<union> {CHR ''-''}"
  by (induction b sep s rule: component_loop.induct) auto

lemma pathComponent_chars: "set (pathComponent s) \<subseteq> {c. is_component_char c} \<union> {CHR ''-''}"
  using component_loop_chars [of "[]" False s] by (auto simp: pathComponent_def Let_def is_component_char_def)

text \<open>
  The grammar of a path component of the registry, as the tests state it: lowercase alphanumerics
  joined by single hyphens.
\<close>

definition registry_component :: "string \<Rightarrow> bool" where
  "registry_component s = list_all (\<lambda>w. w \<noteq> [] \<and> list_all is_component_char w) (split_on (CHR ''-'') s)"

lemma component_char_plain [simp]: "\<not> is_component_char (CHR ''-'')" "\<not> is_component_char (CHR ''/'')"
  by (simp_all add: is_component_char_def)

lemma split_on_snoc: "r \<noteq> c \<Longrightarrow> split_on c (a @ [r]) = butlast (split_on c a) @ [last (split_on c a) @ [r]]"
  by (induction a) (auto split: list.splits)

lemma registry_component_join:
  "registry_component a \<Longrightarrow> registry_component b \<Longrightarrow> registry_component (a @ CHR ''-'' # b)"
  by (simp add: registry_component_def split_on_app)

lemma registry_component_snoc:
  assumes "registry_component a" and "is_component_char r"
  shows "registry_component (a @ [r])"
proof -
  let ?ws = "split_on (CHR ''-'') a"
  have "\<forall>w\<in>set ?ws. w \<noteq> [] \<and> list_all is_component_char w"
    using assms(1) by (simp add: registry_component_def list_all_iff)
  then have "list_all is_component_char (last ?ws)"
    "list_all (\<lambda>w. w \<noteq> [] \<and> list_all is_component_char w) (butlast ?ws)"
    by (auto simp: list_all_iff dest: in_set_butlastD)
  moreover have "r \<noteq> CHR ''-''" using assms(2) by auto
  ultimately show ?thesis using assms(2) by (simp add: registry_component_def split_on_snoc)
qed

lemma registry_component_chars:
  assumes "s \<noteq> []" and "list_all is_component_char s" shows "registry_component s"
proof -
  have "CHR ''-'' \<notin> set s" using assms(2) by (auto simp: list_all_iff)
  with assms show ?thesis by (simp add: registry_component_def)
qed

lemma registry_component_loop:
  "b = [] \<or> registry_component b \<Longrightarrow> component_loop b sep s = [] \<or> registry_component (component_loop b sep s)"
proof (induction b sep s rule: component_loop.induct)
  case (2 b sep r s)
  have "registry_component (b @ (if sep \<and> b \<noteq> [] then ''-'' else []) @ [r])" if r: "is_component_char r"
  proof (cases "b = []")
    case True
    with r show ?thesis by (simp add: registry_component_chars)
  next
    case False
    with 2(3) have "registry_component b" by simp
    with r show ?thesis
      using registry_component_snoc [of b r] registry_component_join [of b "[r]"] registry_component_chars [of "[r]"]
      by simp
  qed
  with 2 show ?case by simp
qed simp

lemma registry_component_pathComponent: "registry_component (pathComponent s)"
  using registry_component_loop [of "[]" False s] registry_component_chars [of "''x''"]
  by (auto simp: pathComponent_def Let_def is_component_char_def)

lemma pathComponent_no_slash: "CHR ''/'' \<notin> set (pathComponent s)"
  using pathComponent_chars [of s] by auto

lemma hex_digit_component: "n < 16 \<Longrightarrow> is_component_char (hex_digit n)"
  by (auto simp: is_component_char_def hex_digit_def Let_def)

lemma hex_sha256_component: "list_all is_component_char (hex_sha256 m)"
proof -
  have "is_component_char (hex_digit (unat (x AND 0xF)))" for x :: "32 word"
  proof -
    have "x AND 0xF \<le> 0xF" by (rule word_and_le1)
    then have "unat (x AND 0xF) < 16" by (simp add: word_le_nat_alt)
    then show ?thesis by (rule hex_digit_component)
  qed
  then show ?thesis by (auto simp: hex_sha256_def hex_word_def list_all_iff)
qed

lemma hex_prefix_component:
  assumes "0 < n" shows "registry_component (take n (hex_sha256 m))"
proof (rule registry_component_chars)
  show "take n (hex_sha256 m) \<noteq> []" using assms length_hex_sha256 [of m] by auto
  show "list_all is_component_char (take n (hex_sha256 m))"
    using hex_sha256_component [of m] by (auto simp: list_all_iff dest: in_set_takeD)
qed

text \<open>The name GitHub compares, and what is left of its two parts in the registry's alphabet.\<close>

definition folded :: "string \<Rightarrow> string" where
  "folded repo = to_lower (trim_space repo)"

definition squashed :: "string \<Rightarrow> string \<times> string" where
  "squashed repo = (case cut CHR ''/'' (folded repo) of
     Some (owner, name) \<Rightarrow> (pathComponent owner, pathComponent name)
   | None \<Rightarrow> (pathComponent ''_'', pathComponent (folded repo)))"

lemma repoNamespace_squashed:
  "repoNamespace sha repo =
     ''actions-cache/'' @ fst (squashed repo) @ CHR ''/'' # snd (squashed repo) @ CHR ''-'' # take 8 (sha (folded repo))"
  by (simp add: repoNamespace_def squashed_def folded_def Let_def split: option.splits)

lemma squashed_components:
  "registry_component (fst (squashed repo))" "registry_component (snd (squashed repo))"
  "CHR ''/'' \<notin> set (fst (squashed repo))" "CHR ''/'' \<notin> set (snd (squashed repo))"
  by (auto simp: squashed_def registry_component_pathComponent pathComponent_no_slash split: option.splits)

lemma append_at_sep:
  assumes "c \<notin> set a" and "c \<notin> set b" and "a @ c # x = b @ c # y"
  shows "a = b \<and> x = y"
proof -
  have "takeWhile ((\<noteq>) c) (a @ c # x) = a" "takeWhile ((\<noteq>) c) (b @ c # y) = b"
    using assms(1,2) by (subst takeWhile_append2; auto)+
  with assms(3) show ?thesis by auto
qed

lemma repoNamespace_eq:
  assumes "\<And>s. length (sha s) = 64"
  shows "repoNamespace sha repo = repoNamespace sha repo' \<longleftrightarrow>
    take 8 (sha (folded repo)) = take 8 (sha (folded repo')) \<and> squashed repo = squashed repo'"
proof
  assume "repoNamespace sha repo = repoNamespace sha repo'"
  then have e: "fst (squashed repo) @ CHR ''/'' # snd (squashed repo) @ CHR ''-'' # take 8 (sha (folded repo)) =
      fst (squashed repo') @ CHR ''/'' # snd (squashed repo') @ CHR ''-'' # take 8 (sha (folded repo'))"
    by (simp add: repoNamespace_squashed)
  from append_at_sep [OF squashed_components(3) squashed_components(3) e]
  have "fst (squashed repo) = fst (squashed repo')" and
    t: "(snd (squashed repo) @ ''-'') @ take 8 (sha (folded repo)) = (snd (squashed repo') @ ''-'') @ take 8 (sha (folded repo'))"
    by simp_all
  moreover from t assms have "snd (squashed repo) @ ''-'' = snd (squashed repo') @ ''-'' \<and>
      take 8 (sha (folded repo)) = take 8 (sha (folded repo'))"
    by (subst (asm) append_eq_append_conv) simp_all
  ultimately show "take 8 (sha (folded repo)) = take 8 (sha (folded repo')) \<and> squashed repo = squashed repo'"
    by (simp add: prod_eq_iff)
qed (simp add: repoNamespace_squashed)

lemma scopeRepository_under_namespace:
  "has_prefix (scopeRepository sha repo ref) (repoNamespace sha repo @ ''/'')"
  by (simp add: has_prefix_iff scopeRepository_def)

text \<open>
  C37. Which scopes meet in the registry. Two (repo, ref) pairs get the same registry repository exactly
  when the refs agree in the first 16 hex digits of SHA-256, the case-folded repo names agree in the
  first 8, and the owner and the name squash to the same components. So variants of one repo name in
  case or surrounding space share by design; squashing alone never merges two repos (the digests must
  collide as well), nor does a collision of digests alone. And every component of the name is
  in the registry's grammar, whatever the forge calls its repository.
\<close>

theorem scopeRepository_separates:
  "(scopeRepository hex_sha256 repo ref = scopeRepository hex_sha256 repo' ref' \<longleftrightarrow>
      take 16 (hex_sha256 ref) = take 16 (hex_sha256 ref') \<and>
      take 8 (hex_sha256 (folded repo)) = take 8 (hex_sha256 (folded repo')) \<and>
      squashed repo = squashed repo') \<and>
   list_all registry_component (split_on (CHR ''/'') (scopeRepository hex_sha256 repo ref))"
proof
  have "scopeRepository hex_sha256 repo ref = scopeRepository hex_sha256 repo' ref' \<longleftrightarrow>
      repoNamespace hex_sha256 repo = repoNamespace hex_sha256 repo' \<and>
      take 16 (hex_sha256 ref) = take 16 (hex_sha256 ref')"
  proof -
    have "length (''/s'' @ take 16 (hex_sha256 ref)) = length (''/s'' @ take 16 (hex_sha256 ref'))"
      by (simp add: length_hex_sha256)
    then show ?thesis unfolding scopeRepository_def by (subst append_eq_append_conv) simp_all
  qed
  then show "scopeRepository hex_sha256 repo ref = scopeRepository hex_sha256 repo' ref' \<longleftrightarrow>
      take 16 (hex_sha256 ref) = take 16 (hex_sha256 ref') \<and>
      take 8 (hex_sha256 (folded repo)) = take 8 (hex_sha256 (folded repo')) \<and> squashed repo = squashed repo'"
    using repoNamespace_eq [of hex_sha256, OF length_hex_sha256] by auto
next
  let ?n = "snd (squashed repo) @ CHR ''-'' # take 8 (hex_sha256 (folded repo))"
    and ?s = "CHR ''s'' # take 16 (hex_sha256 ref)"
  have comp: "registry_component ''actions-cache''" by code_simp
  have n: "registry_component ?n"
    by (intro registry_component_join squashed_components hex_prefix_component) simp
  have hx: "is_component_char c" if "c \<in> set (take k (hex_sha256 m))" for c k m
    using that hex_sha256_component [of m] by (auto simp: list_all_iff dest: in_set_takeD)
  have s: "registry_component ?s"
    by (rule registry_component_chars) (auto simp: list_all_iff is_component_char_def [of "CHR ''s''"] dest: hx)
  have "CHR ''/'' \<notin> set ?n" "CHR ''/'' \<notin> set ?s" using squashed_components(4) [of repo] by (auto dest: hx)
  moreover have "scopeRepository hex_sha256 repo ref =
      ''actions-cache'' @ CHR ''/'' # fst (squashed repo) @ CHR ''/'' # ?n @ CHR ''/'' # ?s"
    by (simp add: scopeRepository_def repoNamespace_squashed)
  ultimately have "split_on (CHR ''/'') (scopeRepository hex_sha256 repo ref) =
      [''actions-cache'', fst (squashed repo), ?n, ?s]"
    using squashed_components(3) [of repo] by (simp only: split_on_app split_on_plain) simp
  then show "list_all registry_component (split_on (CHR ''/'') (scopeRepository hex_sha256 repo ref))"
    using comp n s squashed_components(1) by simp
qed

text \<open>A function in SHA-256's place, for the examples.\<close>

definition demo_sha :: "string \<Rightarrow> string" where
  "demo_sha s = take 64 (s @ replicate 64 (CHR ''0''))"

subsection \<open>Manifests\<close>

text \<open>
  The sum of the layers is an \<^verbatim>\<open>int64\<close>: a manifest of four layers of \<open>2 ^ 62\<close> bytes passes the check
  against an annotation that says zero.
\<close>

lemma manifest_sum_wraps: "int64_sum [2 ^ 62, 2 ^ 62, 2 ^ 62, 2 ^ 62] = 0"
  by code_simp

definition demo_layer :: "string \<Rightarrow> int \<Rightarrow> descriptor" where
  "demo_layer d n = \<lparr>d_MediaType = chunkMediaType, d_Digest = d, d_Size = n\<rparr>"

definition demo_entry :: "string \<Rightarrow> time \<Rightarrow> int \<Rightarrow> entry" where
  "demo_entry key created n = \<lparr>e_Key = key, e_Version = ''v1'', e_Ref = ''refs/heads/main'', e_Created = created,
     e_Size = n, e_Layers = [demo_layer ''a'' 3, demo_layer ''b'' 4], e_repository = [], e_tag = [], e_digest = [],
     e_lastUsed = 0\<rparr>"

subsection \<open>Matching\<close>

lemma newest_SomeI: "best \<noteq> None \<or> is \<noteq> [] \<Longrightarrow> newest ents best is \<noteq> None"
  by (induction ents best "is" rule: newest.induct) (auto split: option.splits if_splits)

lemma newest_None: "newest ents None is = None \<longleftrightarrow> is = []"
  using newest_SomeI [of None "is" ents] by (cases "is") auto

lemma newest_max:
  assumes "newest ents best is = Some i"
  shows "(i \<in> set is \<or> best = Some i) \<and> (\<forall>j\<in>set is. e_Created (ents j) \<le> e_Created (ents i)) \<and>
         (\<forall>b. best = Some b \<longrightarrow> e_Created (ents b) \<le> e_Created (ents i))"
  using assms
proof (induction "is" arbitrary: best)
  case (Cons j js)
  from Cons.IH [OF Cons.prems [unfolded newest.simps]] show ?case
    by (auto split: option.splits if_splits)
qed simp

text \<open>GitHub's rules: which references a key and a list of restore keys allow, in order of preference.\<close>

definition exact :: "(nat \<Rightarrow> entry) \<Rightarrow> string \<Rightarrow> string \<Rightarrow> nat \<Rightarrow> bool" where
  "exact ents key version i \<longleftrightarrow> e_Version (ents i) = version \<and> e_Key (ents i) = key"

definition restorable :: "(nat \<Rightarrow> entry) \<Rightarrow> string \<Rightarrow> string \<Rightarrow> nat \<Rightarrow> bool" where
  "restorable ents rk version i \<longleftrightarrow> rk \<noteq> [] \<and> e_Version (ents i) = version \<and> prefix rk (e_Key (ents i))"

lemma match_prefix_Some:
  assumes "match_prefix ents is rks version = Some i"
  shows "\<exists>n<length rks. i \<in> set is \<and> restorable ents (rks ! n) version i \<and>
     (\<forall>j\<in>set is. restorable ents (rks ! n) version j \<longrightarrow> e_Created (ents j) \<le> e_Created (ents i)) \<and>
     (\<forall>m<n. \<forall>j\<in>set is. \<not> restorable ents (rks ! m) version j)"
  using assms
proof (induction rks)
  case (Cons rk rks)
  show ?case
  proof (cases "rk \<noteq> [] \<and> (\<exists>j\<in>set is. restorable ents rk version j)")
    case True
    then obtain k where k: "newest ents None (filter (\<lambda>i. e_Version (ents i) = version \<and> has_prefix (e_Key (ents i)) rk) is) = Some k"
      by (cases "newest ents None (filter (\<lambda>i. e_Version (ents i) = version \<and> has_prefix (e_Key (ents i)) rk) is)")
        (auto simp: newest_None filter_empty_conv has_prefix_iff restorable_def)
    with Cons.prems True have "i = k" by simp
    with newest_max [OF k] True show ?thesis
      by (intro exI [of _ 0]) (auto simp: restorable_def has_prefix_iff)
  next
    case False
    then have "match_prefix ents is rks version = Some i"
      using Cons.prems by (auto simp: newest_None restorable_def has_prefix_iff filter_empty_conv split: if_splits option.splits)
    from Cons.IH [OF this] obtain n where "n < length rks" "i \<in> set is" "restorable ents (rks ! n) version i"
      "\<forall>j\<in>set is. restorable ents (rks ! n) version j \<longrightarrow> e_Created (ents j) \<le> e_Created (ents i)"
      "\<forall>m<n. \<forall>j\<in>set is. \<not> restorable ents (rks ! m) version j" by blast
    then show ?thesis using False
      by (intro exI [of _ "Suc n"]) (auto simp: restorable_def less_Suc_eq_0_disj)
  qed
qed simp

lemma match_prefix_None:
  "match_prefix ents is rks version = None \<longleftrightarrow> (\<forall>rk\<in>set rks. \<forall>j\<in>set is. \<not> restorable ents rk version j)"
  by (induction rks) (auto simp: newest_None restorable_def has_prefix_iff filter_empty_conv split: option.splits)

text \<open>
  C35. A restore follows GitHub's matching rules: an entry with exactly the requested key wins; otherwise
  the first restore key that is a prefix of some entry decides, and the newest such entry wins; an entry
  of another version never matches; and there is a miss only if nothing matches at all.
\<close>

theorem match_follows_restore_rules:
  "case match ents is key rks version of
     Some i \<Rightarrow> i \<in> set is \<and>
       (if \<exists>j\<in>set is. exact ents key version j then exact ents key version i
        else \<exists>n<length rks. restorable ents (rks ! n) version i \<and>
          (\<forall>j\<in>set is. restorable ents (rks ! n) version j \<longrightarrow> e_Created (ents j) \<le> e_Created (ents i)) \<and>
          (\<forall>m<n. \<forall>j\<in>set is. \<not> restorable ents (rks ! m) version j))
   | None \<Rightarrow> \<forall>j\<in>set is. \<not> exact ents key version j \<and> (\<forall>rk\<in>set rks. \<not> restorable ents rk version j)"
proof (cases "List.find (\<lambda>i. e_Version (ents i) = version \<and> e_Key (ents i) = key) is")
  case None
  then have no: "\<forall>j\<in>set is. \<not> exact ents key version j" by (auto simp: find_None_iff exact_def)
  then show ?thesis
    using None match_prefix_Some [of ents "is" rks version] match_prefix_None [of ents "is" rks version]
    by (auto simp: match_def split: option.splits)
next
  case (Some i)
  then have "i \<in> set is" "exact ents key version i" by (auto simp: find_Some_iff exact_def)
  with Some show ?thesis by (auto simp: match_def)
qed

definition demo_store :: "nat \<Rightarrow> entry" where
  "demo_store i = (if i = 0 then demo_entry ''linux-abc'' 5 7 else if i = 1 then demo_entry ''linux-abd'' 9 7
     else demo_entry ''mac-abc'' 20 7)"

theorem match_follows_restore_rules_witness:
  "match demo_store [0, 1, 2] ''linux-xyz'' [''win-'', ''linux-''] ''v1'' = Some 1 \<and>
   (\<exists>n<2. restorable demo_store ([''win-'', ''linux-''] ! n) ''v1'' 1 \<and>
      (\<forall>j\<in>{0, 1, 2}. restorable demo_store ([''win-'', ''linux-''] ! n) ''v1'' j \<longrightarrow> e_Created (demo_store j) \<le> 9))"
proof -
  have m: "match demo_store [0, 1, 2] ''linux-xyz'' [''win-'', ''linux-''] ''v1'' = Some 1"
    by (simp add: match_def demo_store_def demo_entry_def)
  have c: "e_Created (demo_store 1) = 9" by (simp add: demo_store_def demo_entry_def)
  have ex: "\<not> (\<exists>j\<in>{0, 1, 2}. exact demo_store ''linux-xyz'' ''v1'' j)"
    by (simp add: exact_def demo_store_def demo_entry_def)
  have "length [''win-'', ''linux-''] = 2" by simp
  then show ?thesis
    using match_follows_restore_rules [of "[0, 1, 2]" demo_store "''linux-xyz''" "''v1''" "[''win-'', ''linux-'']"] m c ex
    by (simp only: option.simps if_False list.set) blast
qed

subsection \<open>Downloads\<close>

lemma parseRange_bounds:
  assumes "parseRange h n = Some (a, b)" and "0 < n"
  shows "0 \<le> a \<and> a \<le> b \<and> b < n"
  using assms by (auto simp: parseRange_def Let_def split: option.splits if_splits prod.splits)

definition archive :: "(string \<Rightarrow> string) \<Rightarrow> descriptor list \<Rightarrow> string" where
  "archive blob ls = concat (map (\<lambda>l. blob (d_Digest l)) ls)"

text \<open>The registry serves ranges of its blobs, and the layers record their sizes.\<close>

definition serves :: "'w registry \<Rightarrow> (string \<Rightarrow> string) \<Rightarrow> string \<Rightarrow> descriptor list \<Rightarrow> bool" where
  "serves g blob repo ls \<longleftrightarrow> (\<forall>l\<in>set ls. d_Size l = int (length (blob (d_Digest l))) \<and>
     (\<forall>a n w. fst (g_openBlob g repo (d_Digest l) a n w) = Some (take (nat n) (drop (nat a) (blob (d_Digest l))))))"

lemma serves_Cons [simp]:
  "serves g blob repo (l # ls) \<longleftrightarrow> d_Size l = int (length (blob (d_Digest l))) \<and>
     (\<forall>a n w. fst (g_openBlob g repo (d_Digest l) a n w) = Some (take (nat n) (drop (nat a) (blob (d_Digest l))))) \<and>
     serves g blob repo ls"
  by (auto simp: serves_def)

lemma streamRange_slice:
  assumes "serves g blob repo ls" and "0 \<le> off" and "off + n \<le> int (length (archive blob ls))"
  shows "fst (run_state (streamRange g repo ls off n) s) = (take (nat n) (drop (nat off) (archive blob ls)), True)"
  using assms
proof (induction ls arbitrary: off n s)
  case Nil
  then show ?case by (auto simp: archive_def)
next
  case (Cons l ls)
  let ?b = "blob (d_Digest l)"
  have sz: "d_Size l = int (length ?b)" using Cons.prems(1) by simp
  have arch: "archive blob (l # ls) = ?b @ archive blob ls" by (simp add: archive_def)
  consider "n \<le> 0" | "0 < n" "d_Size l \<le> off" | "0 < n" "off < d_Size l" by linarith
  then show ?case
  proof cases
    case 1
    then show ?thesis by simp
  next
    case 2
    then have "fst (run_state (streamRange g repo ls (off - d_Size l) n) s) =
        (take (nat n) (drop (nat (off - d_Size l)) (archive blob ls)), True)"
      using Cons.prems sz by (intro Cons.IH) (auto simp: arch)
    with 2 sz show ?thesis by (simp add: arch nat_diff_distrib)
  next
    case 3
    define len where "len = (if n < d_Size l - off then n else d_Size l - off)"
    obtain bytes w where rc: "g_openBlob g repo (d_Digest l) off len (tr_world s) = (Some bytes, w)"
      and bytes: "bytes = take (nat len) (drop (nat off) ?b)"
      using Cons.prems(1) by (metis fst_conv serves_Cons surj_pair)
    have len: "int (length bytes) = len" using 3 sz Cons.prems(2) by (auto simp: bytes len_def)
    have "fst (run_state (streamRange g repo ls 0 (n - len)) (s\<lparr>tr_world := w\<rparr>)) =
        (take (nat (n - len)) (archive blob ls), True)"
      using Cons.IH [of 0 "n - len" "s\<lparr>tr_world := w\<rparr>"] Cons.prems 3 sz by (auto simp: arch len_def)
    then obtain s1 where "run_state (streamRange g repo ls 0 (n - len)) (s\<lparr>tr_world := w\<rparr>) =
        ((take (nat (n - len)) (archive blob ls), True), s1)" by (metis prod.collapse)
    moreover have "take (nat n) (drop (nat off) (?b @ archive blob ls)) = bytes @ take (nat (n - len)) (archive blob ls)"
      using 3 sz Cons.prems(2) by (auto simp: bytes len_def nat_diff_distrib)
    ultimately show ?thesis
      using 3 rc len by (simp add: Let_def len_def [symmetric] arch)
  qed
qed


text \<open>An archive of seven bytes in two layers, read across the boundary.\<close>

definition demo_blob :: "string \<Rightarrow> string" where
  "demo_blob d = (if d = ''a'' then ''abc'' else ''defg'')"

definition demo_registry :: "unit registry" where
  "demo_registry = \<lparr>g_sha = demo_sha, g_JobForIP = (\<lambda>ip. ip), g_fmtTime = int_to_dec, g_parseTime = ParseInt,
     g_marshal = (\<lambda>m. Some (m_MediaType m)), g_unmarshal = (\<lambda>b. None),
     g_now = (\<lambda>w. (100, w)), g_token = (\<lambda>w. (''tok'', w)), g_listTags = (\<lambda>r w. (Some [], w)),
     g_getManifest = (\<lambda>r t w. (None, w)), g_uploadBlob = (\<lambda>r b w. (Some b, w)),
     g_putManifest = (\<lambda>r t m w. (Some t, w)), g_deleteManifest = (\<lambda>r d w. (True, w)),
     g_repositories = (\<lambda>w. (Some [], w)),
     g_openBlob = (\<lambda>r d a n w. (Some (take (nat n) (drop (nat a) (demo_blob d))), w))\<rparr>"

definition demo_cache :: "unit cacheState" where
  "demo_cache = \<lparr>tr_world = (), tr_trace = [], cs_healthy = True,
     cs_jobs = [''r1'' \<mapsto> \<lparr>js_bound = True, js_scope = zero_scope\<rparr>], cs_uploads = [], cs_byKey = Map.empty,
     cs_pend = (\<lambda>_. \<lparr>pe_runner = [], pe_scope = zero_scope, pe_key = [], pe_version = [], pe_created = 0,
       pe_blocks = Map.empty, pe_order = None, pe_size = 0, pe_failed = False\<rparr>), cs_nextp = 0,
     cs_downloads = [(''tok'', \<lparr>dl_runner = ''r1'', dl_entry = 0, dl_expires = 200\<rparr>)],
     cs_scopes = [], cs_ents = demo_store, cs_nexte = 3, cs_lastSweep = (\<lambda>_. 0)\<rparr>"


subsection \<open>Eviction\<close>

definition sizes_of :: "(nat \<Rightarrow> entry) \<Rightarrow> nat list \<Rightarrow> int" where
  "sizes_of ents is = (\<Sum>i\<leftarrow>is. e_Size (ents i))"

lemma keeps_set_scope [keeps_rules]: "keeps cs_ents (set_scope repo es)"
  by (simp add: keeps_def set_scope_def)

lemma keeps_index_scope [keeps_rules]: "keeps cs_ents (index_scope repo)"
  unfolding index_scope_def by (intro keeps_rules)

lemma keeps_index_remove [keeps_rules]: "keeps cs_ents (index_remove i)"
  unfolding index_remove_def Let_def by (intro keeps_rules)

lemma keeps_ents_evict_loop [keeps_rules]: "keeps cs_ents (evict_loop g m t is)"
  by (induction "is" arbitrary: t) (auto simp: Let_def intro!: keeps_rules)

text \<open>
  \<open>shortest_eviction ents maxBytes is ev err\<close>: \<open>ev\<close> is the shortest initial run of \<open>is\<close> whose
  removal leaves at most \<open>maxBytes\<close>, or, on an error, a shorter one.
\<close>

definition shortest_eviction :: "(nat \<Rightarrow> entry) \<Rightarrow> int \<Rightarrow> nat list \<Rightarrow> nat list \<Rightarrow> bool \<Rightarrow> bool" where
  "shortest_eviction ents maxBytes is ev err \<longleftrightarrow> (\<exists>n\<le>length is. ev = take n is \<and>
     (\<forall>k<n. maxBytes < sizes_of ents (drop k is)) \<and> (sizes_of ents (drop n is) \<le> maxBytes \<longleftrightarrow> \<not> err))"

lemma evict_loop_minimal:
  assumes "run_state (evict_loop g maxBytes (sizes_of (cs_ents s) is) is) s = ((ev, err), s')" and "0 < maxBytes"
  shows "shortest_eviction (cs_ents s) maxBytes is ev err"
  using assms(1)
proof (induction "is" arbitrary: s ev err s')
  case Nil
  with assms(2) show ?case by (simp add: shortest_eviction_def sizes_of_def)
next
  case (Cons i js)
  let ?ents = "cs_ents s"
  show ?case
  proof (cases "sizes_of ?ents (i # js) \<le> maxBytes")
    case True
    with Cons.prems show ?thesis by (auto simp: shortest_eviction_def intro!: exI [of _ 0])
  next
    case False
    obtain ok w where ok: "g_deleteManifest g (e_repository (?ents i)) (e_digest (?ents i)) (tr_world s) = (ok, w)" by force
    show ?thesis
    proof (cases ok)
      case False
      with Cons.prems ok \<open>\<not> sizes_of ?ents (i # js) \<le> maxBytes\<close> show ?thesis
        by (auto simp: shortest_eviction_def Let_def intro!: exI [of _ 0])
    next
      case True
      let ?s1 = "s\<lparr>tr_world := w, tr_trace := tr_trace s @ [DeletedManifest (e_repository (?ents i)) (e_digest (?ents i))]\<rparr>"
      obtain s2 where rm: "run_state (index_remove i) ?s1 = ((), s2)" by (metis old.unit.exhaust surj_pair)
      have ents: "cs_ents s2 = ?ents" using keepsD [OF keeps_index_remove rm] by simp
      obtain ev' err' s3 where rec: "run_state (evict_loop g maxBytes (sizes_of (cs_ents s2) js) js) s2 = ((ev', err'), s3)"
        by (metis surj_pair)
      have "sizes_of ?ents (i # js) - e_Size (?ents i) = sizes_of (cs_ents s2) js" by (simp add: sizes_of_def ents)
      then have out: "ev = i # ev'" "err = err'"
        using Cons.prems ok True False rm rec by (auto simp: Let_def)
      from Cons.IH [OF rec] obtain n where "n \<le> length js" "ev' = take n js"
        "\<forall>k<n. maxBytes < sizes_of ?ents (drop k js)" "sizes_of ?ents (drop n js) \<le> maxBytes \<longleftrightarrow> \<not> err'"
        by (auto simp: shortest_eviction_def ents)
      with out False show ?thesis
        unfolding shortest_eviction_def by (intro exI [of _ "Suc n"]) (auto simp: less_Suc_eq_0_disj)
    qed
  qed
qed

lemma shortest_eviction_none: "sizes_of ents is \<le> maxBytes \<Longrightarrow> shortest_eviction ents maxBytes is [] False"
  by (auto simp: shortest_eviction_def intro!: exI [of _ 0])

lemma sizes_of_sort [simp]: "sizes_of ents (sort_key f is) = sizes_of ents is"
  unfolding sizes_of_def by (simp flip: sum_mset_sum_list)

text \<open>The three ways an eviction can go: turned off, no list of repositories, or a sweep.\<close>

lemma evict_cases:
  assumes "run_state (evict g repo maxBytes every now) s = ((ev, err), s')"
  obtains (off) "maxBytes \<le> 0" "ev = []" "\<not> err" "s' = s"
  | (failed) ls w where "0 < maxBytes" "ev = []" err "s' = s\<lparr>cs_lastSweep := ls, tr_world := w\<rparr>"
  | (swept) all ls w xs s2 where "0 < maxBytes"
      "all = map fst (cs_scopes s) \<or> fst (g_repositories g (tr_world s)) = Some all"
      "run_state (refresh_all g (filter (\<lambda>r. has_prefix r (repoNamespace (g_sha g) repo @ ''/'')) all))
         (s\<lparr>cs_lastSweep := ls, tr_world := w\<rparr>) = (xs, s2)"
      "run_state (if sizes_of (cs_ents s2) xs \<le> maxBytes then State_Monad.return ([], False)
         else evict_loop g maxBytes (sizes_of (cs_ents s2) xs) (sort_key (\<lambda>i. recency (cs_ents s2 i)) xs)) s2 = ((ev, err), s')"
proof (cases "maxBytes \<le> 0")
  case True
  with assms off show thesis by (simp add: evict_def)
next
  case False
  let ?ns = "repoNamespace (g_sha g) repo @ ''/''"
  let ?walk = "every \<le> now - cs_lastSweep s ?ns"
  let ?s0 = "if ?walk then s\<lparr>cs_lastSweep := (cs_lastSweep s)(?ns := now)\<rparr> else s"
  obtain repos s1 where repos: "run_state (if ?walk then catalog g ?ns
      else State_Monad.return (Some (filter (\<lambda>r. has_prefix r ?ns) (map fst (cs_scopes s))))) ?s0 = (repos, s1)"
    by force
  have "\<exists>ls w. s1 = s\<lparr>cs_lastSweep := ls, tr_world := w\<rparr>"
  proof (cases ?walk)
    case True
    with repos show ?thesis
      by (auto simp: catalog_def split: prod.splits intro!: exI [of _ "(cs_lastSweep s)(?ns := now)"])
  next
    case False
    with repos have "s1 = s\<lparr>cs_lastSweep := cs_lastSweep s, tr_world := tr_world s\<rparr>" by simp
    then show ?thesis by blast
  qed
  then obtain ls w where s1: "s1 = s\<lparr>cs_lastSweep := ls, tr_world := w\<rparr>" by blast
  have pre: "\<exists>all. (all = map fst (cs_scopes s) \<or> fst (g_repositories g (tr_world s)) = Some all) \<and>
      rs = filter (\<lambda>r. has_prefix r ?ns) all" if "repos = Some rs" for rs
    using repos that by (auto simp: catalog_def split: if_splits prod.splits)
  show thesis
  proof (cases repos)
    case None
    with assms repos False s1 have "ev = []" err "s' = s\<lparr>cs_lastSweep := ls, tr_world := w\<rparr>"
      by (simp_all add: evict_def Let_def)
    then show thesis using failed False by simp
  next
    case (Some rs)
    obtain xs s2 where ref: "run_state (refresh_all g rs) s1 = (xs, s2)" by force
    have loop: "run_state (if sizes_of (cs_ents s2) xs \<le> maxBytes then State_Monad.return ([], False)
        else evict_loop g maxBytes (sizes_of (cs_ents s2) xs) (sort_key (\<lambda>i. recency (cs_ents s2 i)) xs)) s2 = ((ev, err), s')"
      using assms repos False Some ref by (simp add: evict_def Let_def sizes_of_def cong: if_cong split del: if_split)
    from pre [OF Some] obtain all where all: "all = map fst (cs_scopes s) \<or> fst (g_repositories g (tr_world s)) = Some all"
      and rs: "rs = filter (\<lambda>r. has_prefix r ?ns) all" by blast
    show thesis by (rule swept [OF _ all ref [unfolded rs s1] loop]) (use False in simp)
  qed
qed


text \<open>Three entries of 7 bytes and a limit of 15: the oldest goes.\<close>

definition demo_full :: "unit cacheState" where
  "demo_full = demo_cache\<lparr>cs_scopes := [(scopeRepository demo_sha ''o/r'' ''main'', [(''t0'', 0), (''t1'', 1), (''t2'', 2)])]\<rparr>"

definition demo_lists_tags :: "unit registry" where
  "demo_lists_tags = demo_registry\<lparr>g_listTags := (\<lambda>r w. (Some [''t0'', ''t1'', ''t2''], w))\<rparr>"


end
