(* ===== verification/Actions_Cache_System.thy ===== *)
theory Actions_Cache_System
  imports Actions_Cache_Laws Transition_System
begin

text \<open>
  The cache server over its lifetime: any sequence of bindings, requests, expiries and registry
  changes by other nodes. Requests run one at a time; the one window inside a request that
  matters, between the two critical sections of \<^verbatim>\<open>storeBlock\<close>, is looked at on its own. The
  invariant says that everything the server hands out or writes stays inside a scope that the
  scheduler granted.
\<close>

subsection \<open>Steps\<close>

datatype cacheOp =
    OpTrack string
  | OpBind string Scope
  | OpForget string
  | OpExpire time
  | OpProbe bool
  | OpTwirp "string option" string string "twirpReq option"
  | OpUpload "string option" string string uploadComp string
  | OpDownload "string option" string string string

definition cache_probe :: "bool \<Rightarrow> ('w, unit) handler" where
  "cache_probe ok = State_Monad.update (\<lambda>s. s\<lparr>cs_healthy := ok\<rparr>)"

definition no_response :: "('w, unit) handler \<Rightarrow> ('w, response) handler" where
  "no_response m = do { m; State_Monad.return Relayed }"

fun run_op :: "'w registry \<Rightarrow> cacheConfig \<Rightarrow> (pending \<Rightarrow> string) \<Rightarrow> cacheOp \<Rightarrow> ('w, response) handler" where
  "run_op g cfg blob (OpTrack r) = no_response (Track r)"
| "run_op g cfg blob (OpBind r sc) = no_response (Bind r sc)"
| "run_op g cfg blob (OpForget r) = no_response (Forget r)"
| "run_op g cfg blob (OpExpire t) = no_response (expire t)"
| "run_op g cfg blob (OpProbe ok) = no_response (cache_probe ok)"
| "run_op g cfg blob (OpTwirp h verb meth body) = serveTwirp g cfg blob h verb meth body"
| "run_op g cfg blob (OpUpload h verb tok how bytes) = serveUpload g cfg h verb tok how bytes"
| "run_op g cfg blob (OpDownload h verb tok hdr) = serveDownload g h verb tok hdr"

definition init_cache :: "'w cacheState \<Rightarrow> bool" where
  "init_cache s \<longleftrightarrow> tr_trace s = [] \<and> cs_jobs s = Map.empty \<and> cs_uploads s = [] \<and> cs_byKey s = Map.empty \<and>
     cs_downloads s = [] \<and> cs_scopes s = []"

inductive cache_step ::
  "'w registry \<Rightarrow> cacheConfig \<Rightarrow> (pending \<Rightarrow> string) \<Rightarrow> 'w cacheState \<Rightarrow> 'w cacheState \<Rightarrow> bool"
  for g cfg blob where
  op: "run_state (run_op g cfg blob p) s = (r, s') \<Longrightarrow> cache_step g cfg blob s s'"
| elsewhere: "cache_step g cfg blob s (s\<lparr>tr_world := w\<rparr>)"

interpretation ac: transition_system init_cache "cache_step g cfg blob" for g cfg blob .

subsection \<open>The invariant\<close>

abbreviation granted :: "'w cacheState \<Rightarrow> string \<Rightarrow> Scope \<Rightarrow> bool" where
  "granted s r sc \<equiv> Granted r sc \<in> set (tr_trace s)"

definition refs_ok :: "'w cacheState \<Rightarrow> string \<Rightarrow> nat set \<Rightarrow> bool" where
  "refs_ok s repo is \<longleftrightarrow> (\<forall>i\<in>is. i < cs_nexte s \<and> e_repository (cs_ents s i) = repo)"

definition index_ok :: "'w cacheState \<Rightarrow> bool" where
  "index_ok s \<longleftrightarrow> (\<forall>repo es. (repo, es) \<in> set (cs_scopes s) \<longrightarrow> refs_ok s repo (snd ` set es))"

definition pending_ok :: "'w cacheState \<Rightarrow> nat \<Rightarrow> bool" where
  "pending_ok s i \<longleftrightarrow> i < cs_nextp s \<and> granted s (pe_runner (cs_pend s i)) (pe_scope (cs_pend s i)) \<and>
     sc_Write (pe_scope (cs_pend s i)) \<noteq> []"

definition uploads_ok :: "'w cacheState \<Rightarrow> bool" where
  "uploads_ok s \<longleftrightarrow> (\<forall>(tok, i)\<in>set (cs_uploads s). pending_ok s i) \<and> (\<forall>i\<in>ran (cs_byKey s). pending_ok s i)"

definition grant_ok :: "'w registry \<Rightarrow> 'w cacheState \<Rightarrow> download \<Rightarrow> bool" where
  "grant_ok g s d \<longleftrightarrow> dl_entry d < cs_nexte s \<and> (\<exists>sc ref. granted s (dl_runner d) sc \<and> ref \<in> set (sc_Reads sc) \<and>
     e_repository (cs_ents s (dl_entry d)) = scopeRepository (g_sha g) (sc_Repo sc) ref)"

definition jobs_ok :: "'w cacheState \<Rightarrow> bool" where
  "jobs_ok s \<longleftrightarrow> (\<forall>r st. cs_jobs s r = Some st \<longrightarrow> js_bound st \<longrightarrow> js_scope st = zero_scope \<or> granted s r (js_scope st))"

fun event_ok :: "'w registry \<Rightarrow> (string \<times> Scope) set \<Rightarrow> cacheEvent \<Rightarrow> bool" where
  "event_ok g G (Granted r sc) = True"
| "event_ok g G (Uploaded repo) = (\<exists>(r, sc)\<in>G. sc_Write sc \<noteq> [] \<and> repo = scopeRepository (g_sha g) (sc_Repo sc) (sc_Write sc))"
| "event_ok g G (PutManifest repo tag) = (\<exists>(r, sc)\<in>G. sc_Write sc \<noteq> [] \<and> repo = scopeRepository (g_sha g) (sc_Repo sc) (sc_Write sc))"
| "event_ok g G (DeletedManifest repo d) = (\<exists>(r, sc)\<in>G. sc_Write sc \<noteq> [] \<and> prefix (repoNamespace (g_sha g) (sc_Repo sc) @ ''/'') repo)"

definition grants :: "'w cacheState \<Rightarrow> (string \<times> Scope) set" where
  "grants s = {(r, sc). granted s r sc}"

definition trace_ok :: "'w registry \<Rightarrow> 'w cacheState \<Rightarrow> bool" where
  "trace_ok g s \<longleftrightarrow> (\<forall>e\<in>set (tr_trace s). event_ok g (grants s) e)"

definition cache_inv :: "'w registry \<Rightarrow> 'w cacheState \<Rightarrow> bool" where
  "cache_inv g s \<longleftrightarrow> index_ok s \<and> uploads_ok s \<and> (\<forall>(tok, d)\<in>set (cs_downloads s). grant_ok g s d) \<and> jobs_ok s \<and> trace_ok g s"

lemmas inv_defs = cache_inv_def index_ok_def uploads_ok_def jobs_ok_def trace_ok_def

subsection \<open>Preservation by the index\<close>

text \<open>
  \<open>frame A s s'\<close>: the index may have grown and events satisfying \<open>A\<close> may have been appended to the
  trace; the rest of the state is unchanged.
\<close>

definition frame :: "(cacheEvent \<Rightarrow> bool) \<Rightarrow> 'w cacheState \<Rightarrow> 'w cacheState \<Rightarrow> bool" where
  "frame A s s' \<longleftrightarrow> (\<exists>es. tr_trace s' = tr_trace s @ es \<and> (\<forall>e\<in>set es. A e)) \<and>
     cs_jobs s' = cs_jobs s \<and> cs_uploads s' = cs_uploads s \<and>
     cs_byKey s' = cs_byKey s \<and> cs_pend s' = cs_pend s \<and> cs_nextp s' = cs_nextp s \<and> cs_downloads s' = cs_downloads s \<and>
     cs_nexte s \<le> cs_nexte s' \<and> (\<forall>i<cs_nexte s. e_repository (cs_ents s' i) = e_repository (cs_ents s i))"

abbreviation index_frame :: "'w cacheState \<Rightarrow> 'w cacheState \<Rightarrow> bool" where
  "index_frame \<equiv> frame (\<lambda>_. False)"

lemma frame_refl [simp]: "frame A s s"
  by (simp add: frame_def)

lemma frame_trans: "frame A s t \<Longrightarrow> frame A t u \<Longrightarrow> frame A s u"
  by (fastforce simp: frame_def)

lemma frame_weaken: "frame A s t \<Longrightarrow> (\<And>e. A e \<Longrightarrow> B e) \<Longrightarrow> frame B s t"
  by (auto simp: frame_def)

lemma index_frame_weaken: "index_frame s t \<Longrightarrow> frame B s t"
  using frame_weaken [of "\<lambda>_. False" s t B] by simp

lemmas index_frame_trans = frame_trans [where A = "\<lambda>_. False"]

lemma refs_ok_frame: "refs_ok s repo is \<Longrightarrow> frame A s s' \<Longrightarrow> refs_ok s' repo is"
  by (auto simp: refs_ok_def frame_def)

lemma grants_frame: "frame A s s' \<Longrightarrow> granted s r sc \<Longrightarrow> granted s' r sc"
  by (auto simp: frame_def)

lemma grant_ok_frame: "grant_ok g s d \<Longrightarrow> frame A s s' \<Longrightarrow> grant_ok g s' d"
  by (fastforce simp: grant_ok_def frame_def)

lemma event_ok_mono: "event_ok g G e \<Longrightarrow> G \<subseteq> H \<Longrightarrow> event_ok g H e"
  by (cases e) auto

lemma trace_ok_extend:
  assumes "trace_ok g s" and "tr_trace s' = tr_trace s @ es" and "\<forall>e\<in>set es. event_ok g (grants s) e"
  shows "trace_ok g s'"
proof -
  have "grants s \<subseteq> grants s'" using assms(2) by (auto simp: grants_def)
  with assms show ?thesis by (auto simp: trace_ok_def intro: event_ok_mono)
qed

lemma cache_inv_frame:
  assumes inv: "cache_inv g s" and fr: "frame A s s'" and ix: "index_ok s'"
    and ev: "\<And>e. A e \<Longrightarrow> event_ok g (grants s) e"
  shows "cache_inv g s'"
proof -
  obtain es where es: "tr_trace s' = tr_trace s @ es" "\<forall>e\<in>set es. A e" using fr by (auto simp: frame_def)
  have p: "pending_ok s i \<Longrightarrow> pending_ok s' i" for i
    using fr grants_frame [OF fr] by (auto simp: pending_ok_def frame_def)
  have "uploads_ok s'" using inv fr p by (auto simp: cache_inv_def uploads_ok_def frame_def)
  moreover have "\<forall>(tok, d)\<in>set (cs_downloads s'). grant_ok g s' d"
    using inv fr grant_ok_frame [OF _ fr] by (auto simp: cache_inv_def frame_def)
  moreover have "jobs_ok s'"
  proof -
    have "jobs_ok s" "cs_jobs s' = cs_jobs s" using inv fr by (simp_all add: cache_inv_def frame_def)
    then show ?thesis using grants_frame [OF fr] unfolding jobs_ok_def by metis
  qed
  moreover have "trace_ok g s'" using inv trace_ok_extend [OF _ es(1)] es(2) ev by (auto simp: cache_inv_def)
  ultimately show ?thesis using ix by (simp add: cache_inv_def)
qed

lemma set_AList_update: "set (AList.update k v al) \<subseteq> insert (k, v) (set al)"
  by (induction al) auto

lemma index_ok_set_scope:
  "index_ok s \<Longrightarrow> refs_ok s repo (snd ` set es) \<Longrightarrow> index_ok (s\<lparr>cs_scopes := AList.update repo es (cs_scopes s)\<rparr>)"
  using set_AList_update [of repo es "cs_scopes s"] by (fastforce simp: index_ok_def refs_ok_def)

lemma scope_entries_ok: "index_ok s \<Longrightarrow> refs_ok s repo (snd ` set (scope_entries s repo))"
  by (cases "map_of (cs_scopes s) repo") (auto simp: index_ok_def scope_entries_def refs_ok_def dest!: map_of_SomeD)

lemma index_scope_run:
  assumes "run_state (index_scope repo) s = (es, s')" and "index_ok s"
  shows "index_frame s s' \<and> index_ok s' \<and> refs_ok s' repo (snd ` set es)"
proof -
  from assms(1) have s': "s' = s\<lparr>cs_scopes := AList.update repo es (cs_scopes s)\<rparr>" "es = scope_entries s repo"
    by (auto simp: index_scope_def set_scope_def)
  have f: "index_frame s s'" by (simp add: frame_def s')
  then show ?thesis using scope_entries_ok [OF assms(2)] index_ok_set_scope [OF assms(2)] refs_ok_frame [OF _ f] s' by auto
qed

lemma set_scope_run:
  assumes "run_state (set_scope repo es) s = (u, s')" and "index_ok s" and "refs_ok s repo (snd ` set es)"
  shows "index_frame s s' \<and> index_ok s'"
  using assms index_ok_set_scope [OF assms(2,3)] by (auto simp: set_scope_def frame_def)

lemma new_entry_run:
  assumes "run_state (new_entry e) s = (i, s')" and "index_ok s"
  shows "index_frame s s' \<and> index_ok s' \<and> refs_ok s' (e_repository e) {i} \<and> cs_ents s' i = e"
proof -
  from assms(1) have s': "s' = s\<lparr>cs_ents := (cs_ents s)(cs_nexte s := e), cs_nexte := Suc (cs_nexte s)\<rparr>" "i = cs_nexte s"
    by (auto simp: new_entry_def)
  have f: "index_frame s s'" by (simp add: frame_def s')
  moreover have "index_ok s'" using assms(2) refs_ok_frame [OF _ f] by (simp add: index_ok_def s')
  ultimately show ?thesis by (simp add: refs_ok_def s')
qed

lemma index_ok_world [simp]: "index_ok (s\<lparr>tr_world := w\<rparr>) = index_ok s"
  by (simp add: index_ok_def refs_ok_def)

lemma frame_world [simp]: "frame A s (s\<lparr>tr_world := w\<rparr>)" "frame A (s\<lparr>tr_world := w\<rparr>) s' = frame A s s'"
  by (simp_all add: frame_def)

lemma refs_ok_insert: "refs_ok s repo (insert i is) \<longleftrightarrow> refs_ok s repo {i} \<and> refs_ok s repo is"
  by (auto simp: refs_ok_def)

lemma refs_ok_subset: "refs_ok s repo B \<Longrightarrow> A \<subseteq> B \<Longrightarrow> refs_ok s repo A"
  by (auto simp: refs_ok_def)

lemma refs_ok_update: "refs_ok s repo {i} \<Longrightarrow> refs_ok s repo (snd ` set es) \<Longrightarrow> refs_ok s repo (snd ` set (AList.update t i es))"
  using set_AList_update [of t i es] by (fastforce simp: refs_ok_def)

lemma refresh_loop_run:
  assumes "run_state (refresh_loop g repo known ts live) s = (live', s')" and "index_ok s"
    and "refs_ok s repo (snd ` set known)" and "refs_ok s repo (snd ` set live)"
  shows "index_frame s s' \<and> index_ok s' \<and> refs_ok s' repo (snd ` set live')"
  using assms
proof (induction ts arbitrary: live s)
  case (Cons t ts)
  show ?case
  proof (cases "map_of known t")
    case (Some i)
    then have "i \<in> snd ` set known" by (force dest: map_of_SomeD)
    then have "refs_ok s repo {i}" using Cons.prems(3) by (auto simp: refs_ok_def)
    with Cons.IH [of "AList.update t i live" s] Cons.prems Some show ?thesis by (simp add: refs_ok_update)
  next
    case None
    obtain m w where m: "g_getManifest g repo t (tr_world s) = (m, w)" by force
    let ?s = "s\<lparr>tr_world := w\<rparr>"
    have prems: "index_ok ?s" "refs_ok ?s repo (snd ` set known)" "refs_ok ?s repo (snd ` set live)"
      using Cons.prems by (simp_all add: refs_ok_def)
    show ?thesis
    proof (cases "m = None \<or> (\<exists>body digest. m = Some (body, digest) \<and> decodeManifest (g_unmarshal g) (g_parseTime g) body = None)")
      case True
      then have "run_state (refresh_loop g repo known ts live) ?s = (live', s')"
        using Cons.prems(1) None m by auto
      from Cons.IH [OF this prems] show ?thesis by simp
    next
      case False
      then obtain body digest e where e: "m = Some (body, digest)" "decodeManifest (g_unmarshal g) (g_parseTime g) body = Some e" by auto
      let ?e = "e\<lparr>e_repository := repo, e_tag := t, e_digest := digest\<rparr>"
      obtain i s1 where new: "run_state (new_entry ?e) ?s = (i, s1)" by force
      from new_entry_run [OF new prems(1)] have n: "index_frame ?s s1" "index_ok s1" "refs_ok s1 repo {i}" by simp_all
      have rec: "run_state (refresh_loop g repo known ts (AList.update t i live)) s1 = (live', s')"
        using Cons.prems(1) None m e new by simp
      have "index_frame s1 s' \<and> index_ok s' \<and> refs_ok s' repo (snd ` set live')"
        by (rule Cons.IH [OF rec n(2) refs_ok_frame [OF prems(2) n(1)]
              refs_ok_update [OF n(3) refs_ok_frame [OF prems(3) n(1)]]])
      with n(1) show ?thesis by (auto intro: index_frame_trans)
    qed
  qed
qed simp

lemma refresh_run:
  assumes "run_state (refresh g repo) s = (r, s')" and "index_ok s"
  shows "index_frame s s' \<and> index_ok s' \<and> (\<forall>is. r = Some is \<longrightarrow> refs_ok s' repo (set is))"
proof -
  obtain tags w where tags: "g_listTags g repo (tr_world s) = (tags, w)" by force
  let ?s = "s\<lparr>tr_world := w\<rparr>"
  show ?thesis
  proof (cases tags)
    case None
    with assms tags show ?thesis by (auto simp: refresh_def)
  next
    case (Some ts)
    obtain known s1 where k: "run_state (index_scope repo) ?s = (known, s1)" by force
    obtain live s2 where l: "run_state (refresh_loop g repo known ts []) s1 = (live, s2)" by force
    obtain u s3 where u: "run_state (set_scope repo live) s2 = (u, s3)" by (metis surj_pair)
    have out: "s' = s3" "r = Some (map snd live)" using assms(1) tags Some k l u by (auto simp: refresh_def)
    have 1: "index_frame ?s s1" "index_ok s1" "refs_ok s1 repo (snd ` set known)"
      using index_scope_run [OF k] assms(2) by auto
    have 2: "index_frame s1 s2" "index_ok s2" "refs_ok s2 repo (snd ` set live)"
      using refresh_loop_run [OF l 1(2,3)] by (auto simp: refs_ok_def)
    have 3: "index_frame s2 s3" "index_ok s3" using set_scope_run [OF u 2(2,3)] by auto
    have "refs_ok s3 repo (snd ` set live)" using refs_ok_frame [OF 2(3) 3(1)] .
    with 1 2 3 out show ?thesis by (auto intro: index_frame_trans)
  qed
qed

lemma newest_mem: "newest ents best is = Some i \<Longrightarrow> i \<in> set is \<or> best = Some i"
  using newest_max by blast

lemma match_mem: "match ents is key rks version = Some i \<Longrightarrow> i \<in> set is"
  using match_follows_restore_rules [of "is" ents key version rks] by simp

lemma lookup_run:
  assumes "run_state (lookup_refs g repo reads key rks version) s = (r, s')" and "index_ok s"
  shows "index_frame s s' \<and> index_ok s' \<and>
    (\<forall>i. r = Some i \<longrightarrow> (\<exists>ref\<in>set reads. refs_ok s' (scopeRepository (g_sha g) repo ref) {i}))"
  using assms
proof (induction reads arbitrary: s)
  case (Cons ref reads)
  let ?repo = "scopeRepository (g_sha g) repo ref"
  obtain es s1 where f: "run_state (refresh g ?repo) s = (es, s1)" by force
  have 1: "index_frame s s1" "index_ok s1" "\<forall>is. es = Some is \<longrightarrow> refs_ok s1 ?repo (set is)"
    using refresh_run [OF f Cons.prems(2)] by auto
  show ?case
  proof (cases "\<exists>is i. es = Some is \<and> match (cs_ents s1) is key rks version = Some i")
    case True
    then obtain xs i where x: "es = Some xs" "match (cs_ents s1) xs key rks version = Some i" by blast
    then have "r = Some i" "s' = s1" using Cons.prems(1) f by auto
    moreover have "refs_ok s1 ?repo {i}" using 1(3) x match_mem by (auto simp: refs_ok_def)
    ultimately show ?thesis using 1 by auto
  next
    case False
    then have "run_state (lookup_refs g repo reads key rks version) s1 = (r, s')"
      using Cons.prems(1) f by (auto split: option.splits)
    from Cons.IH [OF this 1(2)] 1(1) show ?thesis by (auto intro: index_frame_trans)
  qed
qed simp

lemma index_exists_run:
  "run_state (index_exists g repo ref key version) s = (r, s') \<Longrightarrow> index_ok s \<Longrightarrow> index_frame s s' \<and> index_ok s'"
  using refresh_run [of g "scopeRepository (g_sha g) repo ref" s] by (auto simp: index_exists_def split: prod.splits)

lemma index_add_run:
  assumes "run_state (index_add i) s = (u, s')" and "index_ok s" and "i < cs_nexte s"
  shows "index_frame s s' \<and> index_ok s'"
proof -
  let ?e = "cs_ents s i"
  obtain es s1 where sc: "run_state (index_scope (e_repository ?e)) s = (es, s1)" by force
  have 1: "index_frame s s1" "index_ok s1" "refs_ok s1 (e_repository ?e) (snd ` set es)"
    using index_scope_run [OF sc assms(2)] by auto
  have "refs_ok s1 (e_repository ?e) {i}"
    using refs_ok_frame [OF _ 1(1), of "e_repository ?e" "{i}"] assms(3) by (auto simp: refs_ok_def)
  with 1(3) have r: "refs_ok s1 (e_repository ?e) (snd ` set (AList.update (e_tag ?e) i es))" by (rule refs_ok_update [rotated])
  have "run_state (set_scope (e_repository ?e) (AList.update (e_tag ?e) i es)) s1 = (u, s')"
    using assms(1) sc by (simp add: index_add_def Let_def)
  from set_scope_run [OF this 1(2) r] 1(1) show ?thesis by (auto intro: index_frame_trans)
qed

lemma index_remove_run:
  assumes "run_state (index_remove i) s = (u, s')" and "index_ok s"
  shows "index_frame s s' \<and> index_ok s'"
proof -
  let ?e = "cs_ents s i"
  obtain es s1 where sc: "run_state (index_scope (e_repository ?e)) s = (es, s1)" by force
  have 1: "index_frame s s1" "index_ok s1" "refs_ok s1 (e_repository ?e) (snd ` set es)"
    using index_scope_run [OF sc assms(2)] by auto
  have r: "refs_ok s1 (e_repository ?e) (snd ` set (AList.delete (e_tag ?e) es))"
    using 1(3) by (rule refs_ok_subset) (auto simp: AList.delete_eq)
  have "s' = s1 \<or> run_state (set_scope (e_repository ?e) (AList.delete (e_tag ?e) es)) s1 = (u, s')"
    using assms(1) sc by (auto simp: index_remove_def Let_def split: option.splits if_splits)
  then show ?thesis using 1 set_scope_run [OF _ 1(2) r] by (auto intro: index_frame_trans)
qed

text \<open>All references an eviction considers lie under the namespace it was called for.\<close>

definition all_under :: "'w cacheState \<Rightarrow> string \<Rightarrow> nat list \<Rightarrow> bool" where
  "all_under s ns is \<longleftrightarrow> (\<forall>i\<in>set is. i < cs_nexte s \<and> prefix ns (e_repository (cs_ents s i)))"

lemma all_under_frame: "all_under s ns is \<Longrightarrow> frame A s s' \<Longrightarrow> all_under s' ns is"
  by (auto simp: all_under_def frame_def)

lemma refresh_all_run:
  assumes "run_state (refresh_all g rs) s = (is, s')" and "index_ok s" and "\<forall>r\<in>set rs. prefix ns r"
  shows "index_frame s s' \<and> index_ok s' \<and> all_under s' ns is"
  using assms
proof (induction rs arbitrary: s "is" s')
  case (Cons r rs)
  obtain es s1 where f: "run_state (refresh g r) s = (es, s1)" by force
  obtain rest s2 where a: "run_state (refresh_all g rs) s1 = (rest, s2)" by force
  have out: "is = (case es of None \<Rightarrow> [] | Some xs \<Rightarrow> xs) @ rest" "s' = s2" using Cons.prems(1) f a by auto
  have 1: "index_frame s s1" "index_ok s1" "\<forall>is. es = Some is \<longrightarrow> refs_ok s1 r (set is)"
    using refresh_run [OF f Cons.prems(2)] by auto
  have 2: "index_frame s1 s2" "index_ok s2" "all_under s2 ns rest" using Cons.IH [OF a 1(2)] Cons.prems(3) by auto
  have "all_under s1 ns (case es of None \<Rightarrow> [] | Some xs \<Rightarrow> xs)"
    using 1(3) Cons.prems(3) by (auto simp: all_under_def refs_ok_def split: option.splits)
  from all_under_frame [OF this 2(1)] have "all_under s2 ns is" using 2(3) out(1) by (auto simp: all_under_def)
  with 1 2 out show ?case by (auto intro: index_frame_trans)
qed (simp add: all_under_def)

definition deletes_under :: "string \<Rightarrow> cacheEvent \<Rightarrow> bool" where
  "deletes_under ns e \<longleftrightarrow> (\<exists>repo d. e = DeletedManifest repo d \<and> prefix ns repo)"

lemma evict_loop_run:
  assumes "run_state (evict_loop g m tot is) s = (r, s')" and "index_ok s" and "all_under s ns is"
  shows "frame (deletes_under ns) s s' \<and> index_ok s'"
  using assms
proof (induction "is" arbitrary: s tot r)
  case (Cons i js)
  let ?e = "cs_ents s i"
  obtain ok w where ok: "g_deleteManifest g (e_repository ?e) (e_digest ?e) (tr_world s) = (ok, w)" by force
  show ?case
  proof (cases "tot \<le> m \<or> \<not> ok")
    case True
    with Cons.prems ok show ?thesis by (auto simp: Let_def split: if_splits)
  next
    case False
    let ?s1 = "s\<lparr>tr_world := w, tr_trace := tr_trace s @ [DeletedManifest (e_repository ?e) (e_digest ?e)]\<rparr>"
    have f1: "frame (deletes_under ns) s ?s1" and i1: "index_ok ?s1"
      using Cons.prems(2,3) by (auto simp: frame_def deletes_under_def all_under_def index_ok_def refs_ok_def)
    obtain u s2 where rm: "run_state (index_remove i) ?s1 = (u, s2)" by (metis surj_pair)
    have 2: "index_frame ?s1 s2" "index_ok s2" using index_remove_run [OF rm i1] by auto
    have f2: "frame (deletes_under ns) s s2" using f1 index_frame_weaken [OF 2(1)] by (rule frame_trans)
    obtain r' where rec: "run_state (evict_loop g m (tot - e_Size ?e) js) s2 = (r', s')"
      using Cons.prems(1) False ok rm by (auto simp: Let_def split: prod.splits)
    have "all_under s2 ns js" using all_under_frame [OF _ f2, of ns js] Cons.prems(3) by (auto simp: all_under_def)
    from Cons.IH [OF rec 2(2) this] f2 show ?thesis by (auto intro: frame_trans)
  qed
qed simp

lemma evict_run:
  assumes "run_state (evict g repo m every now) s = ((ev, err), s')" and "index_ok s"
  shows "frame (deletes_under (repoNamespace (g_sha g) repo @ ''/'')) s s' \<and> index_ok s'"
  using assms(1)
proof (cases rule: evict_cases)
  case off
  with assms(2) show ?thesis by simp
next
  case (failed ls w)
  with assms(2) show ?thesis by (simp add: frame_def index_ok_def refs_ok_def)
next
  case (swept all ls w xs s2)
  let ?ns = "repoNamespace (g_sha g) repo @ ''/''" and ?s1 = "s\<lparr>cs_lastSweep := ls, tr_world := w\<rparr>"
  have 1: "index_ok ?s1" "index_frame s ?s1" using assms(2) by (simp_all add: frame_def index_ok_def refs_ok_def)
  have 2: "index_frame ?s1 s2" "index_ok s2" "all_under s2 ?ns xs"
    using refresh_all_run [OF swept(3) 1(1), of ?ns] by (auto simp: has_prefix_iff)
  have 3: "all_under s2 ?ns (sort_key (\<lambda>i. recency (cs_ents s2 i)) xs)" using 2(3) by (simp add: all_under_def)
  have "frame (deletes_under ?ns) s s2" using index_frame_trans [OF 1(2) 2(1)] by (rule index_frame_weaken)
  moreover have "frame (deletes_under ?ns) s2 s' \<and> index_ok s'"
    using swept(4) 2(2) evict_loop_run [OF _ 2(2) 3] by (auto split: if_splits)
  ultimately show ?thesis by (auto intro: frame_trans)
qed

subsection \<open>Preservation by the requests\<close>

lemma cache_inv_index: "cache_inv g s \<Longrightarrow> index_ok s"
  by (simp add: cache_inv_def)

lemma cache_inv_world [simp]: "cache_inv g (s\<lparr>tr_world := w\<rparr>) = cache_inv g s"
proof
  assume a: "cache_inv g (s\<lparr>tr_world := w\<rparr>)"
  have "frame (\<lambda>_. False) (s\<lparr>tr_world := w\<rparr>) s" by simp
  from cache_inv_frame [OF a this] cache_inv_index [OF a] show "cache_inv g s" by simp
next
  assume a: "cache_inv g s"
  have "frame (\<lambda>_. False) s (s\<lparr>tr_world := w\<rparr>)" by simp
  from cache_inv_frame [OF a this] cache_inv_index [OF a] show "cache_inv g (s\<lparr>tr_world := w\<rparr>)" by simp
qed

lemmas index_inv_frame = cache_inv_frame [where A = "\<lambda>_. False", simplified]

lemma caller_granted:
  assumes "caller g s host = (runner, sc, True)" and "cache_inv g s"
  shows "granted s runner sc \<and> sc_Repo sc \<noteq> [] \<and> runner \<noteq> []"
proof -
  obtain st where st: "cs_jobs s runner = Some st" "js_bound st" "sc = js_scope st" "sc_Repo sc \<noteq> []" "runner \<noteq> []"
    using assms(1) by (auto simp: caller_def Let_def split: option.splits if_splits)
  then have "js_scope st \<noteq> zero_scope" by (auto simp: zero_scope_def)
  moreover have "js_scope st = zero_scope \<or> granted s runner (js_scope st)"
    using assms(2) st unfolding cache_inv_def jobs_ok_def by blast
  ultimately show ?thesis using st by simp
qed

lemma inv_add_download:
  assumes "cache_inv g s" and "grant_ok g s d"
  shows "cache_inv g (s\<lparr>cs_downloads := AList.update tok d (cs_downloads s)\<rparr>)" (is "cache_inv g ?s")
proof -
  have "grant_ok g ?s = grant_ok g s" "pending_ok ?s = pending_ok s" "grants ?s = grants s"
    by (auto simp: grant_ok_def pending_ok_def grants_def fun_eq_iff)
  moreover have "set (cs_downloads ?s) \<subseteq> insert (tok, d) (set (cs_downloads s))" using set_AList_update by simp
  ultimately show ?thesis using assms
    by (auto simp: inv_defs refs_ok_def)
qed

lemma inv_pend_update:
  assumes "cache_inv g s" and "pe_runner u = pe_runner (cs_pend s i)" and "pe_scope u = pe_scope (cs_pend s i)"
  shows "cache_inv g (s\<lparr>cs_pend := (cs_pend s)(i := u)\<rparr>)" (is "cache_inv g ?s")
proof -
  have "grant_ok g ?s = grant_ok g s" "pending_ok ?s = pending_ok s" "grants ?s = grants s"
    using assms(2,3) by (auto simp: grant_ok_def pending_ok_def grants_def fun_eq_iff)
  with assms(1) show ?thesis by (simp add: inv_defs refs_ok_def)
qed

lemma touch_run:
  assumes "run_state (touch i now) s = (u, s')" and "index_ok s"
  shows "index_frame s s' \<and> index_ok s'"
proof -
  obtain es s1 where sc: "run_state (index_scope (e_repository (cs_ents s i))) s = (es, s1)" by force
  have 1: "index_frame s s1" "index_ok s1" using index_scope_run [OF sc assms(2)] by auto
  have s': "s' = s1\<lparr>cs_ents := (cs_ents s1)(i := (cs_ents s1 i)\<lparr>e_lastUsed := now\<rparr>)\<rparr>"
    using assms(1) sc by (auto simp: touch_def)
  have "index_frame s1 s'" "index_ok s'" using 1(2) by (auto simp: s' frame_def index_ok_def refs_ok_def)
  with 1(1) show ?thesis by (auto intro: index_frame_trans)
qed

lemma getDownloadURL_inv:
  assumes run: "run_state (getDownloadURL g runner sc bound req) s = (r, s')" and inv: "cache_inv g s"
    and gr: "bound \<Longrightarrow> granted s runner sc"
  shows "cache_inv g s'"
proof (cases "\<not> bound \<or> \<not> cs_healthy s")
  case True
  with run inv show ?thesis by (auto simp: getDownloadURL_def)
next
  case False
  obtain e s1 where l: "run_state (lookup g sc (tw_Key req) (tw_RestoreKeys req) (tw_Version req)) s = (e, s1)" by force
  have 1: "index_frame s s1" "index_ok s1"
    "\<And>i. e = Some i \<Longrightarrow> \<exists>ref\<in>set (sc_Reads sc). refs_ok s1 (scopeRepository (g_sha g) (sc_Repo sc) ref) {i}"
    using lookup_run [OF l [unfolded lookup_def] cache_inv_index [OF inv]] by auto
  have inv1: "cache_inv g s1" by (rule index_inv_frame [OF inv 1(1,2)])
  show ?thesis
  proof (cases e)
    case None
    with run False l inv1 show ?thesis by (auto simp: getDownloadURL_def)
  next
    case (Some i)
    obtain tok w where tok: "g_token g (tr_world s1) = (tok, w)" by force
    obtain now w' where now: "g_now g w = (now, w')" by force
    define d where "d = \<lparr>dl_runner = runner, dl_entry = i, dl_expires = now + downloadTTL\<rparr>"
    define s2 where "s2 = s1\<lparr>tr_world := w'\<rparr>"
    have "granted s1 runner sc" using gr False grants_frame [OF 1(1)] by blast
    then have "grant_ok g s2 d" using 1(3) [OF Some] by (auto simp: grant_ok_def d_def s2_def refs_ok_def)
    moreover have "cache_inv g s2" using inv1 by (simp add: s2_def)
    ultimately have inv3: "cache_inv g (s2\<lparr>cs_downloads := AList.update tok d (cs_downloads s2)\<rparr>)" (is "cache_inv g ?s3")
      by (rule inv_add_download [rotated])
    obtain u where t: "run_state (touch i now) ?s3 = (u, s')"
      using run False l Some tok now by (auto simp: getDownloadURL_def d_def s2_def split: prod.splits)
    from touch_run [OF t cache_inv_index [OF inv3]] show ?thesis using index_inv_frame [OF inv3] by blast
  qed
qed

lemma inv_new_pending:
  assumes inv: "cache_inv g s" and p: "granted s (pe_runner u) (pe_scope u)" "sc_Write (pe_scope u) \<noteq> []"
    and kept: "set kept \<subseteq> set (cs_uploads s)"
  shows "cache_inv g (s\<lparr>cs_pend := (cs_pend s)(cs_nextp s := u), cs_nextp := Suc (cs_nextp s),
     cs_uploads := AList.update tok (cs_nextp s) kept, cs_byKey := (cs_byKey s)(bk \<mapsto> cs_nextp s)\<rparr>)" (is "cache_inv g ?s")
proof -
  have new: "pending_ok ?s (cs_nextp s)" using p by (simp add: pending_ok_def)
  have old: "pending_ok s i \<Longrightarrow> pending_ok ?s i" for i by (auto simp: pending_ok_def)
  have "grant_ok g ?s = grant_ok g s" "grants ?s = grants s" by (auto simp: grant_ok_def grants_def fun_eq_iff)
  moreover have "uploads_ok ?s"
  proof -
    have "set (cs_uploads ?s) \<subseteq> insert (tok, cs_nextp s) (set (cs_uploads s))"
      using set_AList_update [of tok "cs_nextp s" kept] kept by auto
    moreover have "ran (cs_byKey ?s) \<subseteq> insert (cs_nextp s) (ran (cs_byKey s))" by (auto simp: ran_def)
    ultimately show ?thesis using inv new old unfolding cache_inv_def uploads_ok_def by blast
  qed
  ultimately show ?thesis using inv by (simp add: inv_defs refs_ok_def)
qed

lemma createEntry_inv:
  assumes run: "run_state (createEntry g runner sc bound req) s = (r, s')" and inv: "cache_inv g s"
    and gr: "bound \<Longrightarrow> granted s runner sc"
  shows "cache_inv g s'"
proof (cases "\<not> bound \<or> sc_Write sc = [] \<or> \<not> cs_healthy s \<or> tw_Key req = [] \<or> tw_Version req = []")
  case True
  with run inv show ?thesis by (auto simp: createEntry_def split: if_splits)
next
  case False
  obtain ex s1 where e: "run_state (index_exists g (sc_Repo sc) (sc_Write sc) (tw_Key req) (tw_Version req)) s = (ex, s1)" by force
  have 1: "index_frame s s1" "index_ok s1" using index_exists_run [OF e cache_inv_index [OF inv]] by auto
  have inv1: "cache_inv g s1" by (rule index_inv_frame [OF inv 1])
  show ?thesis
  proof (cases "ex = Some False")
    case False
    with run \<open>\<not> (\<not> bound \<or> _)\<close> e inv1 show ?thesis by (auto simp: createEntry_def split: option.splits bool.splits)
  next
    case True
    obtain tok w where tok: "g_token g (tr_world s1) = (tok, w)" by force
    obtain now w' where now: "g_now g w = (now, w')" by force
    define s2 where "s2 = s1\<lparr>tr_world := w'\<rparr>"
    define bk where "bk = byKey_key runner (tw_Key req) (tw_Version req)"
    define kept where "kept = (case cs_byKey s2 bk of None \<Rightarrow> cs_uploads s2
        | Some prev \<Rightarrow> filter (\<lambda>(t, v). v \<noteq> prev) (cs_uploads s2))"
    have "set kept \<subseteq> set (cs_uploads s2)" by (auto simp: kept_def split: option.splits)
    moreover have "granted s2 runner sc" using gr False grants_frame [OF 1(1)] by (simp add: s2_def)
    moreover have "cache_inv g s2" using inv1 by (simp add: s2_def)
    ultimately have "cache_inv g (s2\<lparr>cs_pend := (cs_pend s2)(cs_nextp s2 := \<lparr>pe_runner = runner, pe_scope = sc, pe_key = tw_Key req,
          pe_version = tw_Version req, pe_created = now, pe_blocks = Map.empty, pe_order = None, pe_size = 0, pe_failed = False\<rparr>),
        cs_nextp := Suc (cs_nextp s2), cs_uploads := AList.update tok (cs_nextp s2) kept, cs_byKey := (cs_byKey s2)(bk \<mapsto> cs_nextp s2)\<rparr>)"
      (is "cache_inv g ?s3")
      using False by (intro inv_new_pending) simp_all
    moreover have "s' = ?s3"
      using run False e True tok now
      by (simp add: createEntry_def Let_def bk_def kept_def s2_def cong: option.case_cong)
    ultimately show ?thesis by simp
  qed
qed

text \<open>Storing an entry is a frame step: all it writes lies in the scope of its upload.\<close>

lemma upload_blob_run:
  "run_state (upload_blob g repo bytes) s = (d, s') \<Longrightarrow>
   \<exists>w. s' = s\<lparr>tr_world := w, tr_trace := tr_trace s @ [Uploaded repo]\<rparr>"
  by (auto simp: upload_blob_def split: prod.splits)

lemma frame_tell: "A e \<Longrightarrow> frame A s (s\<lparr>tr_world := w, tr_trace := tr_trace s @ [e]\<rparr>)"
  by (simp add: frame_def)

lemma index_ok_trace [simp]: "index_ok (s\<lparr>tr_world := w, tr_trace := es\<rparr>) = index_ok s"
  by (simp add: index_ok_def refs_ok_def)

lemma store_entry_run:
  assumes run: "run_state (store_entry g cfg u layers sz cb) s = (r, s')" and ix: "index_ok s"
    and gr: "granted s (pe_runner u) (pe_scope u)" "sc_Write (pe_scope u) \<noteq> []"
  shows "frame (event_ok g (grants s)) s s' \<and> index_ok s'"
proof -
  let ?A = "event_ok g (grants s)"
  let ?repo = "scopeRepository (g_sha g) (sc_Repo (pe_scope u)) (sc_Write (pe_scope u))"
  have A: "?A (Uploaded ?repo)" "\<And>tag. ?A (PutManifest ?repo tag)"
    "\<And>e. deletes_under (repoNamespace (g_sha g) (sc_Repo (pe_scope u)) @ ''/'') e \<Longrightarrow> ?A e"
    using gr by (auto simp: grants_def deletes_under_def) (metis gr)
  obtain created w0 where now: "g_now g (tr_world s) = (created, w0)" by force
  obtain cd s1 where up: "run_state (upload_blob g ?repo cb) (s\<lparr>tr_world := w0\<rparr>) = (cd, s1)" by force
  from upload_blob_run [OF up] obtain w1 where s1: "s1 = s\<lparr>tr_world := w1, tr_trace := tr_trace s @ [Uploaded ?repo]\<rparr>" by auto
  have f1: "frame ?A s s1" and i1: "index_ok s1" using A(1) ix by (simp_all add: s1 frame_tell)
  show ?thesis
  proof (cases cd)
    case None
    with run now up f1 i1 show ?thesis by (auto simp: store_entry_def Let_def)
  next
    case (Some dg)
    let ?tag = "entryTag (g_sha g) (pe_key u) (pe_version u)"
    define e where "e = \<lparr>e_Key = pe_key u, e_Version = pe_version u, e_Ref = sc_Write (pe_scope u), e_Created = created,
        e_Size = sz, e_Layers = layers, e_repository = ?repo, e_tag = ?tag, e_digest = [], e_lastUsed = 0\<rparr>"
    define enc where "enc = encodeManifest (g_marshal g) (g_fmtTime g) e \<lparr>d_MediaType = configMediaType, d_Digest = dg, d_Size = int (length cb)\<rparr>"
    show ?thesis
    proof (cases enc)
      case None
      with run now up Some f1 i1 show ?thesis by (auto simp: store_entry_def Let_def enc_def e_def)
    next
    case body: (Some body)
    obtain md w2 where put: "g_putManifest g ?repo ?tag body (tr_world s1) = (md, w2)" by force
    define s2 where "s2 = s1\<lparr>tr_world := w2, tr_trace := tr_trace s1 @ [PutManifest ?repo ?tag]\<rparr>"
    have f2: "frame ?A s s2" and i2: "index_ok s2"
      using f1 i1 frame_tell [of ?A "PutManifest ?repo ?tag" s1 w2, OF A(2)] by (auto simp: s2_def intro: frame_trans)
    show ?thesis
    proof (cases md)
      case None
      with run now up Some put f2 i2 show ?thesis using body by (auto simp: store_entry_def Let_def s2_def e_def enc_def)
    next
      case (Some mdg)
      let ?e = "e\<lparr>e_digest := mdg, e_lastUsed := created\<rparr>"
      obtain i s3 where new: "run_state (new_entry ?e) s2 = (i, s3)" by force
      have 3: "index_frame s2 s3" "index_ok s3" "i < cs_nexte s3" using new_entry_run [OF new i2] by (auto simp: refs_ok_def)
      obtain x s4 where add: "run_state (index_add i) s3 = (x, s4)" by (metis surj_pair)
      have 4: "index_frame s3 s4" "index_ok s4" using index_add_run [OF add 3(2,3)] by auto
      obtain t w4 where t: "g_now g (tr_world s4) = (t, w4)" by force
      obtain ev err s5 where evi: "run_state (evict g (sc_Repo (pe_scope u)) (cc_MaxBytesPerRepo cfg) sweepEvery t) (s4\<lparr>tr_world := w4\<rparr>) = ((ev, err), s5)"
        by (metis surj_pair)
      have "frame (deletes_under (repoNamespace (g_sha g) (sc_Repo (pe_scope u)) @ ''/'')) s4 s5" "index_ok s5"
        using evict_run [OF evi] 4(2) by simp_all
      moreover have "frame ?A s s4"
        using f2 index_frame_weaken [OF 3(1), of ?A] index_frame_weaken [OF 4(1), of ?A] by (blast intro: frame_trans)
      moreover have "frame ?A s4 s5" using frame_weaken [OF calculation(1), of ?A] A(3) by blast
      ultimately have "frame ?A s s5" "index_ok s5" by (blast intro: frame_trans)+
      moreover have "s' = s5"
        using run now up \<open>cd = Some dg\<close> put Some new add t evi
        using body by (simp add: store_entry_def Let_def s2_def e_def enc_def)
      ultimately show ?thesis by simp
    qed
    qed
  qed
qed

lemma inv_drop_uploads:
  assumes "cache_inv g s" and "set ups \<subseteq> set (cs_uploads s)" and "\<And>k i. bk k = Some i \<Longrightarrow> cs_byKey s k = Some i"
  shows "cache_inv g (s\<lparr>cs_uploads := ups, cs_byKey := bk\<rparr>)" (is "cache_inv g ?s")
proof -
  have "grant_ok g ?s = grant_ok g s" "pending_ok ?s = pending_ok s" "grants ?s = grants s"
    by (auto simp: grant_ok_def pending_ok_def grants_def fun_eq_iff)
  moreover have "ran bk \<subseteq> ran (cs_byKey s)" using assms(3) by (auto simp: ran_def)
  ultimately show ?thesis using assms(1,2) by (auto simp: inv_defs refs_ok_def)
qed

lemma take_upload_run:
  assumes "run_state (take_upload k) s = (r, s')" and "cache_inv g s"
  shows "cache_inv g s' \<and> (\<forall>i. r = Some i \<longrightarrow> pending_ok s' i)"
proof (cases "cs_byKey s k")
  case None
  with assms show ?thesis by (auto simp: take_upload_def)
next
  case (Some i)
  let ?s = "s\<lparr>cs_uploads := filter (\<lambda>(t, v). v \<noteq> i) (cs_uploads s), cs_byKey := (cs_byKey s)(k := None)\<rparr>"
  have out: "r = Some i" "s' = ?s" using assms(1) Some by (auto simp: take_upload_def)
  have "pending_ok s i" using assms(2) Some by (auto simp: cache_inv_def uploads_ok_def ran_def)
  then have "pending_ok s' i" by (simp add: pending_ok_def out)
  moreover have "cache_inv g ?s" using assms(2) by (rule inv_drop_uploads) (auto split: if_splits)
  ultimately show ?thesis using out by simp
qed

lemma finalizeEntry_inv:
  assumes run: "run_state (finalizeEntry g cfg blob runner sc bound req) s = (r, s')" and inv: "cache_inv g s"
  shows "cache_inv g s'"
proof (cases "\<not> bound \<or> sc_Write sc = []")
  case True
  with run inv show ?thesis by (auto simp: finalizeEntry_def)
next
  case False
  obtain up s1 where t: "run_state (take_upload (byKey_key runner (tw_Key req) (tw_Version req))) s = (up, s1)" by force
  have 1: "cache_inv g s1" "\<And>i. up = Some i \<Longrightarrow> pending_ok s1 i" using take_upload_run [OF t inv] by auto
  have "s' = s1 \<or> (\<exists>i layers sz. up = Some i \<and>
      run_state (store_entry g cfg (cs_pend s1 i) layers sz (blob (cs_pend s1 i))) s1 = (r, s'))"
    using run False t by (auto simp: finalizeEntry_def split: option.splits sum.splits if_splits)
  then show ?thesis
  proof (elim disjE exE conjE)
    fix i layers sz
    assume up: "up = Some i" and st: "run_state (store_entry g cfg (cs_pend s1 i) layers sz (blob (cs_pend s1 i))) s1 = (r, s')"
    have "granted s1 (pe_runner (cs_pend s1 i)) (pe_scope (cs_pend s1 i))" "sc_Write (pe_scope (cs_pend s1 i)) \<noteq> []"
      using 1(2) [OF up] by (simp_all add: pending_ok_def)
    from store_entry_run [OF st cache_inv_index [OF 1(1)] this] show ?thesis
      using cache_inv_frame [OF 1(1)] by blast
  qed (use 1 in simp)
qed

lemma block_upload_run:
  assumes run: "run_state (block_upload g i room bytes) s = (d, s')" and inv: "cache_inv g s" and p: "pending_ok s i"
  shows "cache_inv g s'"
proof (cases "room \<le> 0")
  case True
  with run inv show ?thesis by (simp add: block_upload_def)
next
  case False
  let ?sc = "pe_scope (cs_pend s i)" and ?sent = "take (nat (room + 1)) bytes"
  let ?repo = "scopeRepository (g_sha g) (sc_Repo ?sc) (sc_Write ?sc)"
  obtain dg s1 where up: "run_state (upload_blob g ?repo ?sent) s = (dg, s1)" by force
  obtain w where s1: "s1 = s\<lparr>tr_world := w, tr_trace := tr_trace s @ [Uploaded ?repo]\<rparr>" using upload_blob_run [OF up] by auto
  have "event_ok g (grants s) (Uploaded ?repo)" using p by (auto simp: pending_ok_def grants_def)
  then have f: "frame (event_ok g (grants s)) s s1" by (simp add: s1 frame_tell)
  have inv1: "cache_inv g s1" by (rule cache_inv_frame [OF inv f]) (use cache_inv_index [OF inv] in \<open>simp_all add: s1\<close>)
  have "s' = s1 \<or> s' = s1\<lparr>cs_pend := (cs_pend s1)(i := (cs_pend s1 i)\<lparr>pe_size := pe_size (cs_pend s1 i) + int (length ?sent)\<rparr>)\<rparr>"
    using run False up by (auto simp: block_upload_def Let_def split: option.splits if_splits)
  then show ?thesis using inv1 inv_pend_update [OF inv1] by auto
qed

lemma set_block_inv: "run_state (set_block i b d) s = (u, s') \<Longrightarrow> cache_inv g s \<Longrightarrow> cache_inv g s'"
  using inv_pend_update [of g s] by (auto simp: set_block_def)

lemma set_order_inv: "run_state (set_order i bs) s = (u, s') \<Longrightarrow> cache_inv g s \<Longrightarrow> cache_inv g s'"
  using inv_pend_update [of g s] by (auto simp: set_order_def)

lemma uploadFailed_inv: "run_state (uploadFailed i) s = (r, s') \<Longrightarrow> cache_inv g s \<Longrightarrow> cache_inv g s'"
  using inv_pend_update [of g s] by (auto simp: uploadFailed_def)

lemma storeBlock_inv:
  "run_state (storeBlock g cfg i bytes) s = (d, s') \<Longrightarrow> cache_inv g s \<Longrightarrow> pending_ok s i \<Longrightarrow> cache_inv g s'"
  using block_upload_run [of g i _ bytes s d s'] by (auto simp: storeBlock_def block_room_def)

lemma serveUpload_inv:
  assumes run: "run_state (serveUpload g cfg host verb tok how bytes) s = (r, s')" and inv: "cache_inv g s"
  shows "cache_inv g s'"
proof (cases "verb = ''PUT'' \<and> (\<exists>i. map_of (cs_uploads s) tok = Some i \<and>
    fst (caller g s host) \<noteq> [] \<and> fst (caller g s host) = pe_runner (cs_pend s i))")
  case False
  with run inv show ?thesis by (auto simp: serveUpload_def Let_def split: option.splits if_splits)
next
  case True
  then obtain i where i: "map_of (cs_uploads s) tok = Some i" "fst (caller g s host) \<noteq> []"
    "fst (caller g s host) = pe_runner (cs_pend s i)" and verb: "verb = ''PUT''" by blast
  have p: "pending_ok s i" using inv map_of_SomeD [OF i(1)] by (auto simp: cache_inv_def uploads_ok_def)
  obtain d s1 where st: "run_state (storeBlock g cfg i bytes) s = (d, s1)" by force
  have inv1: "cache_inv g s1" by (rule storeBlock_inv [OF st inv p])
  show ?thesis
  proof (cases how)
    case (CompBlock b)
    then show ?thesis using run i verb st inv inv1
      by (cases d) (auto simp: serveUpload_def Let_def split: if_splits prod.splits dest: set_block_inv uploadFailed_inv)
  next
    case (CompBlockList ids)
    then show ?thesis using run i verb inv
      by (cases ids) (auto simp: serveUpload_def Let_def split: prod.splits dest: set_order_inv)
  next
    case CompBlob
    then show ?thesis using run i verb st inv1
      by (cases d) (auto simp: serveUpload_def Let_def split: prod.splits dest: set_block_inv set_order_inv uploadFailed_inv)
  next
    case CompOther
    then show ?thesis using run i verb inv by (simp add: serveUpload_def Let_def)
  qed
qed

lemma serveTwirp_inv:
  assumes run: "run_state (serveTwirp g cfg blob host verb meth body) s = (r, s')" and inv: "cache_inv g s"
  shows "cache_inv g s'"
proof -
  obtain runner sc bound where c: "caller g s host = (runner, sc, bound)" by (metis surj_pair)
  have gr: "bound \<Longrightarrow> granted s runner sc" using caller_granted [of g s host runner sc] c inv by simp
  from run c inv show ?thesis
    by (auto simp: serveTwirp_def Let_def split: if_splits option.splits
        dest: getDownloadURL_inv [OF _ inv gr] createEntry_inv [OF _ inv gr] finalizeEntry_inv [OF _ inv])
qed

lemma streamRange_frame: "run_state (streamRange g repo ls a n) s = (r, s') \<Longrightarrow> \<exists>w. s' = s\<lparr>tr_world := w\<rparr>"
proof (induction ls arbitrary: a n s r)
  case Nil
  then show ?case by (auto intro!: exI [of _ "tr_world s"])
next
  case (Cons l ls)
  let ?len = "if n < d_Size l - a then n else d_Size l - a"
  obtain b w where b: "g_openBlob g repo (d_Digest l) a ?len (tr_world s) = (b, w)" by force
  consider "n \<le> 0" | "0 < n" "d_Size l \<le> a" | "0 < n" "a < d_Size l" by linarith
  then show ?case
  proof cases
    case 1
    with Cons.prems show ?thesis by (auto intro!: exI [of _ "tr_world s"])
  next
    case 2
    with Cons.prems Cons.IH show ?thesis by simp
  next
    case 3
    then have "s' = s\<lparr>tr_world := w\<rparr> \<or> (\<exists>r'. run_state (streamRange g repo ls 0 (n - ?len)) (s\<lparr>tr_world := w\<rparr>) = (r', s'))"
      using Cons.prems b by (auto simp: Let_def split: option.splits if_splits prod.splits)
    then show ?thesis using Cons.IH by fastforce
  qed
qed

lemma serveDownload_inv:
  assumes "run_state (serveDownload g host verb tok hdr) s = (r, s')" and "cache_inv g s"
  shows "cache_inv g s'"
proof -
  have "\<exists>w. s' = s\<lparr>tr_world := w\<rparr> \<or> s' = s"
    using assms(1) by (auto simp: serveDownload_def Let_def split: option.splits if_splits prod.splits dest!: streamRange_frame)
  with assms(2) show ?thesis by auto
qed

subsection \<open>Preservation by bindings and expiry\<close>

lemma drop_uploads_eq:
  "drop_uploads P s = s\<lparr>cs_uploads := filter (\<lambda>(tok, i). \<not> P (cs_pend s i)) (cs_uploads s),
     cs_byKey := (\<lambda>k. if k \<in> set (map (\<lambda>(tok, i). pending_key (cs_pend s i)) (filter (\<lambda>(tok, i). P (cs_pend s i)) (cs_uploads s)))
        then None else cs_byKey s k)\<rparr>"
  by (simp add: drop_uploads_def Let_def)

lemma drop_uploads_inv: "cache_inv g s \<Longrightarrow> cache_inv g (drop_uploads P s)"
  unfolding drop_uploads_eq by (rule inv_drop_uploads) (auto split: if_splits)

lemma inv_filter_downloads:
  assumes "cache_inv g s" and "\<And>r st. jobs r = Some st \<Longrightarrow> cs_jobs s r = Some st"
  shows "cache_inv g (s\<lparr>cs_jobs := jobs, cs_downloads := filter Q (cs_downloads s)\<rparr>)" (is "cache_inv g ?s")
proof -
  have "grant_ok g ?s = grant_ok g s" "pending_ok ?s = pending_ok s" "grants ?s = grants s"
    by (auto simp: grant_ok_def pending_ok_def grants_def fun_eq_iff)
  moreover have "jobs_ok ?s" using assms unfolding cache_inv_def jobs_ok_def by simp
  ultimately show ?thesis using assms(1) by (auto simp: cache_inv_def index_ok_def uploads_ok_def trace_ok_def refs_ok_def)
qed

lemma drop_uploads_fields [simp]:
  "cs_jobs (drop_uploads P s) = cs_jobs s" "cs_downloads (drop_uploads P s) = cs_downloads s"
  by (simp_all add: drop_uploads_eq)

lemma Forget_inv:
  assumes "cache_inv g s"
  shows "cache_inv g (snd (run_state (Forget r) s))"
proof -
  let ?s = "drop_uploads (\<lambda>u. pe_runner u = r) s"
  have "cache_inv g (?s\<lparr>cs_jobs := (cs_jobs s)(r := None), cs_downloads := filter (\<lambda>(tok, d). dl_runner d \<noteq> r) (cs_downloads ?s)\<rparr>)"
    by (rule inv_filter_downloads [OF drop_uploads_inv [OF assms]]) (simp split: if_splits)
  then show ?thesis by (simp add: Forget_def)
qed

lemma expire_inv:
  assumes "cache_inv g s"
  shows "cache_inv g (snd (run_state (expire now) s))"
proof -
  let ?s = "drop_uploads (\<lambda>u. pendingTTL < now - pe_created u) s"
  have "cache_inv g (?s\<lparr>cs_jobs := cs_jobs ?s, cs_downloads := filter (\<lambda>(tok, d). \<not> dl_expires d < now) (cs_downloads ?s)\<rparr>)"
    by (rule inv_filter_downloads [OF drop_uploads_inv [OF assms]]) simp
  moreover have "?s\<lparr>cs_jobs := cs_jobs ?s\<rparr> = ?s" by simp
  ultimately show ?thesis by (simp add: expire_def del: drop_uploads_fields(1))
qed

lemma inv_set_job:
  assumes inv: "cache_inv g s" and st: "js_bound st \<longrightarrow> js_scope st = zero_scope \<or> Granted r (js_scope st) \<in> set (tr_trace s @ es)"
    and es: "\<forall>e\<in>set es. \<exists>r sc. e = Granted r sc"
  shows "cache_inv g (s\<lparr>cs_jobs := (cs_jobs s)(r \<mapsto> st), tr_trace := tr_trace s @ es\<rparr>)" (is "cache_inv g ?s")
proof -
  have "grant_ok g s d \<Longrightarrow> grant_ok g ?s d" "pending_ok s i \<Longrightarrow> pending_ok ?s i" for d i
    by (auto simp: grant_ok_def pending_ok_def)
  moreover have "jobs_ok ?s" using inv st by (auto simp: cache_inv_def jobs_ok_def)
  moreover have "trace_ok g ?s"
    by (rule trace_ok_extend [of g s _ es]) (use inv es in \<open>auto simp: cache_inv_def\<close>)
  ultimately show ?thesis using inv by (auto simp: cache_inv_def index_ok_def uploads_ok_def refs_ok_def)
qed

lemma Track_inv: "cache_inv g s \<Longrightarrow> cache_inv g (snd (run_state (Track r) s))"
  using inv_set_job [of g s "\<lparr>js_bound = False, js_scope = zero_scope\<rparr>" r "[]"] by (simp add: Track_def)

lemma Bind_inv:
  assumes "cache_inv g s"
  shows "cache_inv g (snd (run_state (Bind r sc) s))"
proof (cases "cs_jobs s r")
  case None
  with assms show ?thesis by (simp add: Bind_def)
next
  case (Some st)
  show ?thesis
  proof (cases "js_bound st")
    case True
    with Some assms inv_set_job [of g s "st\<lparr>js_scope := zero_scope\<rparr>" r "[]"] show ?thesis by (simp add: Bind_def)
  next
    case False
    with Some assms inv_set_job [of g s "\<lparr>js_bound = True, js_scope = sc\<rparr>" r "[Granted r sc]"] show ?thesis
      by (simp add: Bind_def)
  qed
qed

lemma cache_probe_inv: "cache_inv g s \<Longrightarrow> cache_inv g (snd (run_state (cache_probe ok) s))"
proof -
  assume a: "cache_inv g s"
  have "frame (\<lambda>_. False) s (s\<lparr>cs_healthy := ok\<rparr>)" "index_ok (s\<lparr>cs_healthy := ok\<rparr>)"
    using cache_inv_index [OF a] by (simp_all add: frame_def index_ok_def refs_ok_def)
  from index_inv_frame [OF a this] show ?thesis by (simp add: cache_probe_def)
qed

lemma no_response_run: "run_state (no_response m) s = (r, s') \<Longrightarrow> s' = snd (run_state m s)"
  by (auto simp: no_response_def split: prod.splits)

lemma run_op_inv:
  assumes "run_state (run_op g cfg blob p) s = (r, s')" and "cache_inv g s"
  shows "cache_inv g s'"
  using assms(1) Track_inv [OF assms(2)] Bind_inv [OF assms(2)] Forget_inv [OF assms(2)] expire_inv [OF assms(2)]
    cache_probe_inv [OF assms(2)] serveTwirp_inv [OF _ assms(2)] serveUpload_inv [OF _ assms(2)] serveDownload_inv [OF _ assms(2)]
  by (cases p) (auto dest!: no_response_run)

lemma reachable_cache_inv:
  assumes "ac.reachable g cfg blob s"
  shows "cache_inv g s"
  using assms
proof (rule ac.reachable_invariant)
  fix s :: "'a cacheState"
  assume "init_cache s"
  then show "cache_inv g s" by (simp add: init_cache_def inv_defs)
next
  fix s s' :: "'a cacheState"
  assume "cache_inv g s" and "cache_step g cfg blob s s'"
  then show "cache_inv g s'" by (auto elim!: cache_step.cases intro: run_op_inv)
qed

subsection \<open>Requests never touch bindings\<close>

lemma jobs_set_scope [keeps_rules]: "keeps cs_jobs (set_scope repo es)"
  unfolding set_scope_def by (intro keeps_rules) simp

lemma jobs_index_scope [keeps_rules]: "keeps cs_jobs (index_scope repo)"
  unfolding index_scope_def by (intro keeps_rules)

lemma jobs_new_entry [keeps_rules]: "keeps cs_jobs (new_entry e)"
  unfolding new_entry_def by (intro keeps_rules) simp

lemma jobs_refresh_loop [keeps_rules]: "keeps cs_jobs (refresh_loop g repo known ts live)"
  by (induction ts arbitrary: live) (auto intro!: keeps_rules)

lemma jobs_refresh [keeps_rules]: "keeps cs_jobs (refresh g repo)"
  unfolding refresh_def by (intro keeps_rules) simp

lemma jobs_lookup_refs [keeps_rules]: "keeps cs_jobs (lookup_refs g repo refs key rks version)"
  by (induction refs) (auto intro!: keeps_rules)

lemma jobs_index_exists [keeps_rules]: "keeps cs_jobs (index_exists g repo ref key version)"
  unfolding index_exists_def by (intro keeps_rules)

lemma jobs_index_add [keeps_rules]: "keeps cs_jobs (index_add i)"
  unfolding index_add_def Let_def by (intro keeps_rules)

lemma jobs_index_remove [keeps_rules]: "keeps cs_jobs (index_remove i)"
  unfolding index_remove_def Let_def by (intro keeps_rules)

lemma jobs_catalog [keeps_rules]: "keeps cs_jobs (catalog g pfx)"
  unfolding catalog_def by (intro keeps_rules) simp

lemma jobs_refresh_all [keeps_rules]: "keeps cs_jobs (refresh_all g rs)"
  by (induction rs) (auto intro!: keeps_rules)

lemma jobs_evict_loop [keeps_rules]: "keeps cs_jobs (evict_loop g m tot is)"
  by (induction "is" arbitrary: tot) (auto simp: Let_def intro!: keeps_rules)

lemma jobs_evict [keeps_rules]: "keeps cs_jobs (evict g repo m every now)"
  unfolding evict_def Let_def by (intro keeps_rules) simp

lemma jobs_touch [keeps_rules]: "keeps cs_jobs (touch i now)"
  unfolding touch_def by (intro keeps_rules) simp

lemma jobs_upload_blob [keeps_rules]: "keeps cs_jobs (upload_blob g repo bytes)"
  unfolding upload_blob_def by (intro keeps_rules) simp_all

lemma jobs_store_entry [keeps_rules]: "keeps cs_jobs (store_entry g cfg u layers sz cb)"
  unfolding store_entry_def Let_def by (intro keeps_rules) simp_all

lemma jobs_take_upload [keeps_rules]: "keeps cs_jobs (take_upload k)"
  unfolding take_upload_def by (intro keeps_rules) simp

lemma jobs_twirp [keeps_rules]: "keeps cs_jobs (serveTwirp g cfg blob host verb meth body)"
  unfolding serveTwirp_def getDownloadURL_def createEntry_def finalizeEntry_def lookup_def Let_def
  by (intro keeps_rules) (auto intro!: keeps_rules split: sum.split bool.split prod.split)

lemma jobs_block_upload [keeps_rules]: "keeps cs_jobs (block_upload g i room bytes)"
  unfolding block_upload_def Let_def by (intro keeps_rules) simp

lemma jobs_serveUpload [keeps_rules]: "keeps cs_jobs (serveUpload g cfg host verb tok how bytes)"
  unfolding serveUpload_def storeBlock_def block_room_def set_block_def set_order_def uploadFailed_def Let_def
  by (cases how) (auto intro!: keeps_rules)

lemma jobs_streamRange [keeps_rules]: "keeps cs_jobs (streamRange g repo ls a n)"
  by (induction ls arbitrary: a n) (auto simp: Let_def intro!: keeps_rules)

lemma jobs_serveDownload [keeps_rules]: "keeps cs_jobs (serveDownload g host verb tok hdr)"
  unfolding serveDownload_def Let_def by (intro keeps_rules) (auto intro!: keeps_rules)

subsection \<open>What the server promises\<close>

text \<open>
  C32. Everything stays inside granted scopes, over any run of the server: blobs and manifests are only
  ever written to the repository of the write ref of a scope some runner was bound to, manifests
  are only deleted under the namespace of such a scope's repo, and every download grant is for an entry
  of a repository its runner's scope may read.
\<close>

theorem cache_stays_in_granted_scopes:
  assumes "ac.reachable g cfg blob s"
  shows "(\<forall>repo tag. Uploaded repo \<in> set (tr_trace s) \<or> PutManifest repo tag \<in> set (tr_trace s) \<longrightarrow>
       (\<exists>r sc. granted s r sc \<and> sc_Write sc \<noteq> [] \<and> repo = scopeRepository (g_sha g) (sc_Repo sc) (sc_Write sc))) \<and>
     (\<forall>repo d. DeletedManifest repo d \<in> set (tr_trace s) \<longrightarrow>
       (\<exists>r sc. granted s r sc \<and> sc_Write sc \<noteq> [] \<and> prefix (repoNamespace (g_sha g) (sc_Repo sc) @ ''/'') repo)) \<and>
     (\<forall>(tok, d)\<in>set (cs_downloads s). \<exists>sc ref. granted s (dl_runner d) sc \<and> ref \<in> set (sc_Reads sc) \<and>
        e_repository (cs_ents s (dl_entry d)) = scopeRepository (g_sha g) (sc_Repo sc) ref)"
proof -
  have inv: "trace_ok g s" "\<forall>(tok, d)\<in>set (cs_downloads s). grant_ok g s d"
    using reachable_cache_inv [OF assms] by (simp_all add: cache_inv_def)
  have ev: "e \<in> set (tr_trace s) \<Longrightarrow> event_ok g (grants s) e" for e using inv(1) by (simp add: trace_ok_def)
  have "(\<exists>r sc. granted s r sc \<and> sc_Write sc \<noteq> [] \<and> repo = scopeRepository (g_sha g) (sc_Repo sc) (sc_Write sc))"
    if "Uploaded repo \<in> set (tr_trace s) \<or> PutManifest repo tag \<in> set (tr_trace s)" for repo tag
    using that ev [of "Uploaded repo"] ev [of "PutManifest repo tag"] by (auto simp: grants_def)
  moreover have "\<exists>r sc. granted s r sc \<and> sc_Write sc \<noteq> [] \<and> prefix (repoNamespace (g_sha g) (sc_Repo sc) @ ''/'') repo"
    if "DeletedManifest repo d \<in> set (tr_trace s)" for repo d
    using ev [OF that] by (auto simp: grants_def)
  moreover have "\<forall>(tok, d)\<in>set (cs_downloads s). \<exists>sc ref. granted s (dl_runner d) sc \<and> ref \<in> set (sc_Reads sc) \<and>
        e_repository (cs_ents s (dl_entry d)) = scopeRepository (g_sha g) (sc_Repo sc) ref"
    using inv(2) by (auto simp: grant_ok_def)
  ultimately show ?thesis by blast
qed

fun run_ops :: "'w registry \<Rightarrow> cacheConfig \<Rightarrow> (pending \<Rightarrow> string) \<Rightarrow> cacheOp list \<Rightarrow> 'w cacheState \<Rightarrow> 'w cacheState" where
  "run_ops g cfg blob [] s = s"
| "run_ops g cfg blob (p # ps) s = run_ops g cfg blob ps (snd (run_state (run_op g cfg blob p) s))"

lemma run_op_binding:
  assumes "cs_jobs s r = Some st" and "js_bound st" and "p \<noteq> OpForget r"
  shows "\<exists>st'. cs_jobs (snd (run_state (run_op g cfg blob p) s)) r = Some st' \<and> js_bound st' \<and>
     (js_scope st' = js_scope st \<or> js_scope st' = zero_scope)"
proof -
  have keep: "cs_jobs (snd (run_state m s)) = cs_jobs s" if "keeps cs_jobs m" for m :: "('a, 'b) handler"
    using that by (simp add: keeps_def)
  show ?thesis
    using assms
    by (cases p)
      (auto simp: no_response_def Track_def Bind_def Forget_def expire_def cache_probe_def keep keeps_rules zero_scope_def
        split: option.splits if_splits prod.splits)
qed

text \<open>A caller without a scope gets nothing and changes nothing.\<close>

abbreviation turned_away :: "response set" where
  "turned_away \<equiv> {BadRequest, NotFound, Miss, Refused NoScope, Refused MayNotSave}"

lemma unbound_turned_away:
  assumes "caller g s host = (r, sc, False)"
  shows "\<exists>a \<in> turned_away. run_state (serveTwirp g cfg blob host verb meth body) s = (a, s)"
  using assms by (auto simp: serveTwirp_def getDownloadURL_def createEntry_def finalizeEntry_def split: option.splits)

lemma revoked_caller:
  assumes "cs_jobs s r = Some st" and "js_scope st = zero_scope" and "g_JobForIP g h = r"
  shows "\<exists>r' sc. caller g s (Some h) = (r', sc, False)"
  using assms by (auto simp: caller_def Let_def zero_scope_def)

lemma run_ops_binding:
  assumes "cs_jobs s r = Some st" and "js_bound st" and "OpForget r \<notin> set ps"
  shows "\<exists>st'. cs_jobs (run_ops g cfg blob ps s) r = Some st' \<and> js_bound st' \<and>
     js_scope st' \<in> {js_scope st, zero_scope}"
  using assms
proof (induction ps arbitrary: s st)
  case (Cons p ps)
  then obtain st1 where st1: "cs_jobs (snd (run_state (run_op g cfg blob p) s)) r = Some st1" "js_bound st1"
    "js_scope st1 = js_scope st \<or> js_scope st1 = zero_scope"
    using run_op_binding [OF Cons.prems(1,2), of p g cfg blob] by auto
  from Cons.IH [OF this(1,2)] Cons.prems(3) st1(3) show ?case by auto
qed auto


text \<open>A run of the server: one save in two blocks, its restore by another job, and a second, different binding.\<close>

definition demo_scope :: Scope where
  "demo_scope = \<lparr>sc_Repo = ''o/r'', sc_Write = ''refs/heads/main'', sc_Reads = [''refs/heads/main'']\<rparr>"

definition demo_other_scope :: Scope where
  "demo_other_scope = demo_scope\<lparr>sc_Repo := ''evil/r''\<rparr>"

definition demo_req :: "int \<Rightarrow> twirpReq" where
  "demo_req n = \<lparr>tw_Key = ''k'', tw_Version = ''v'', tw_RestoreKeys = [], tw_SizeBytes = n\<rparr>"

definition demo_caps :: cacheConfig where
  "demo_caps = \<lparr>cc_MaxBytesPerRepo = 0, cc_MaxEntryBytes = 10\<rparr>"

definition demo_fresh :: "unit cacheState" where
  "demo_fresh = demo_cache\<lparr>cs_jobs := Map.empty, cs_downloads := []\<rparr>"

definition demo_save :: "cacheOp list" where
  "demo_save = [OpTrack ''r1'', OpBind ''r1'' demo_scope,
     OpTwirp (Some ''r1'') ''POST'' ''CreateCacheEntry'' (Some (demo_req 0)),
     OpUpload (Some ''r1'') ''PUT'' ''tok'' (CompBlock ''MQ=='') ''abc'']"

lemma run_ops_reachable: "ac.reachable g cfg blob s \<Longrightarrow> ac.reachable g cfg blob (run_ops g cfg blob ps s)"
proof (induction ps arbitrary: s)
  case (Cons p ps)
  then show ?case by (metis ac.reachable_step cache_step.op prod.collapse run_ops.simps(2))
qed simp

lemma demo_fresh_reachable: "ac.reachable g cfg blob demo_fresh"
  by (rule ac.reachable_init) (simp add: init_cache_def demo_fresh_def demo_cache_def)

lemmas demo_run_simps = demo_save_def demo_fresh_def demo_cache_def demo_registry_def demo_scope_def demo_req_def
  demo_caps_def no_response_def Track_def Bind_def serveTwirp_def createEntry_def caller_def index_exists_def refresh_def
  index_scope_def scope_entries_def set_scope_def serveUpload_def storeBlock_def block_room_def block_upload_def
  upload_blob_def set_block_def byKey_key_def zero_scope_def Let_def

theorem cache_stays_in_granted_scopes_witness:
  "\<exists>s r sc. ac.reachable demo_registry demo_caps (\<lambda>_. []) s \<and>
     Uploaded (scopeRepository demo_sha ''o/r'' ''refs/heads/main'') \<in> set (tr_trace s) \<and>
     granted s r sc \<and> sc_Write sc \<noteq> []"
proof -
  let ?s = "run_ops demo_registry demo_caps (\<lambda>_. []) demo_save demo_fresh"
  have reach: "ac.reachable demo_registry demo_caps (\<lambda>_. []) ?s"
    by (rule run_ops_reachable [OF demo_fresh_reachable])
  have up: "Uploaded (scopeRepository demo_sha ''o/r'' ''refs/heads/main'') \<in> set (tr_trace ?s)"
    by (simp add: demo_run_simps)
  from cache_stays_in_granted_scopes [OF reach] up obtain r sc where "granted ?s r sc" "sc_Write sc \<noteq> []" by blast
  with reach up show ?thesis by blast
qed


text \<open>
  The size limit of an entry. Blocks stored one after the other never exceed it; two blocks whose
  requests both read the room before either adds its size do.
\<close>

lemma storeBlock_bounded:
  assumes "run_state (storeBlock g cfg i bytes) s = (d, s')" and "pe_size (cs_pend s i) \<le> cc_MaxEntryBytes cfg"
  shows "pe_size (cs_pend s' i) \<le> cc_MaxEntryBytes cfg"
  using assms
  by (auto simp: storeBlock_def block_room_def block_upload_def upload_blob_def Let_def
      split: if_splits prod.splits option.splits)

definition demo_race :: "(unit, descriptor option \<times> descriptor option) handler" where
  "demo_race = do {
     room1 \<leftarrow> block_room demo_caps 0;
     room2 \<leftarrow> block_room demo_caps 0;
     d1 \<leftarrow> block_upload demo_registry 0 room1 ''12345678'';
     d2 \<leftarrow> block_upload demo_registry 0 room2 ''abcdefgh'';
     State_Monad.return (d1, d2)
   }"

lemma concurrent_blocks_exceed_limit:
  "\<exists>d1 d2 s. run_state demo_race demo_cache = ((Some d1, Some d2), s) \<and>
     cc_MaxEntryBytes demo_caps < pe_size (cs_pend s 0)"
  by (simp add: demo_race_def demo_run_simps)

text \<open>
  Revocation by a conflicting binding leaves the grants in place: a download token handed out before
  still works, although the runner has lost its scope.
\<close>

definition demo_granted :: "unit cacheState" where
  "demo_granted = demo_cache\<lparr>cs_jobs := [''r1'' \<mapsto> \<lparr>js_bound = True, js_scope = demo_scope\<rparr>]\<rparr>"

lemma revoked_runner_still_downloads:
  "\<exists>s. s = snd (run_state (Bind ''r1'' demo_other_scope) demo_granted) \<and>
     caller demo_registry s (Some ''r1'') = (''r1'', zero_scope, False) \<and>
     fst (run_state (serveDownload demo_registry (Some ''r1'') ''GET'' ''tok'' []) s) = Body ''abcdefg''"
  by (simp add: demo_run_simps serveDownload_def demo_store_def demo_entry_def demo_layer_def demo_blob_def
      demo_granted_def demo_other_scope_def sameScope_def)

end
