(* ===== verification/Bind_Kernel.thy ===== *)
theory Bind_Kernel
  imports Posix_Path "HOL-Library.Word"
begin

unbundle bit_operations_syntax

text \<open>
  The part of Linux that \<^verbatim>\<open>pkg/dind/bindpin_linux.go\<close> talks to: inodes, descriptors held
  by the daemon, and the system calls it makes on them. The file system is shared with the
  jobs, which may change it before every single call; what they do, which calls fail, and the
  calls whose meaning is not in the source (\<^verbatim>\<open>openat2\<close>, opening a host path by name) are
  fields of \<open>outside\<close>, an argument of every definition. A name that is empty, \<open>.\<close>, \<open>..\<close> or
  contains a slash is not a directory entry: what the kernel does with one is also left to
  \<open>outside\<close>, so that nothing can be proved about code that passes one down.
\<close>

subsection \<open>Errors\<close>

datatype errno = ENOENT | EEXIST | ENOTEMPTY | ENOTDIR | ELOOP | EBADF | EINVAL | EPERM | EACCES
  | EROFS | ENOSPC | ENOSYS | E2BIG | EMFILE | EIO | EBUSY

text \<open>A Go error: an errno, or a formatted one that may wrap another (\<^verbatim>\<open>%w\<close>).\<close>

datatype go_error = Errno errno | Errorf string "go_error option"

fun errors_Is :: "go_error \<Rightarrow> errno \<Rightarrow> bool" where
  "errors_Is (Errno e) n = (e = n)"
| "errors_Is (Errorf f (Some e)) n = errors_Is e n"
| "errors_Is (Errorf f None) n = False"

abbreviation is_ErrNotExist :: "go_error \<Rightarrow> bool" where
  "is_ErrNotExist e \<equiv> errors_Is e ENOENT"

definition is_ErrExist :: "go_error \<Rightarrow> bool" where
  "is_ErrExist e \<longleftrightarrow> errors_Is e EEXIST \<or> errors_Is e ENOTEMPTY"

subsection \<open>Inodes\<close>

type_synonym ino = nat
type_synonym fd = nat

datatype node = Directory "string \<rightharpoonup> ino" | Symlink string | Regular | Fifo | Socket | BlockDev | CharDev

record inode =
  i_node :: node
  i_perm :: "32 word"
  i_uid :: nat
  i_gid :: nat

record fsys =
  itab :: "ino \<Rightarrow> inode option"
  inext :: ino

definition node_of :: "fsys \<Rightarrow> ino \<Rightarrow> node option" where
  "node_of f i = map_option i_node (itab f i)"

text \<open>The \<^verbatim>\<open>st_mode\<close> of \<^verbatim>\<open>stat(2)\<close>: the file type above twelve permission bits.\<close>

definition S_IFMT :: "32 word" where "S_IFMT = 0xF000"

fun S_IF :: "node \<Rightarrow> 32 word" where
  "S_IF (Directory m) = 0x4000"
| "S_IF (Symlink t) = 0xA000"
| "S_IF Regular = 0x8000"
| "S_IF Fifo = 0x1000"
| "S_IF Socket = 0xC000"
| "S_IF BlockDev = 0x6000"
| "S_IF CharDev = 0x2000"

record stat =
  st_mode :: "32 word"
  st_uid :: nat
  st_gid :: nat

definition stat_of :: "inode \<Rightarrow> stat" where
  "stat_of i = \<lparr>st_mode = S_IF (i_node i) OR (i_perm i AND 0xFFF), st_uid = i_uid i, st_gid = i_gid i\<rparr>"

lemma stat_type: "st_mode (stat_of i) AND S_IFMT = S_IF (i_node i)"
proof -
  have "(i_perm i AND 0xFFF) AND (0xF000 :: 32 word) = 0"
    by (simp add: and.assoc)
  then show ?thesis
    by (cases "i_node i") (simp_all add: stat_of_def S_IFMT_def bit.conj_disj_distrib2)
qed

lemma S_IF_symlink: "S_IF n = 0xA000 \<longleftrightarrow> (\<exists>t. n = Symlink t)"
  by (cases n) simp_all

subsection \<open>The world\<close>

text \<open>
  The daemon's view: the shared file system, its own descriptor table, a count of closes of
  a descriptor that was not open, the number of system calls made, and the process-wide
  latches of \<^verbatim>\<open>bindpin_linux.go\<close>. \<open>mtab\<close> lists the mount points of the daemon's mount namespace,
  latest first, each with the inode mounted there (\<^const>\<open>None\<close> for a directory of the daemon
  itself), and \<open>removals\<close> the recursive removals with the mounts there were at that moment.
\<close>

record fs_world =
  fs :: fsys
  fds :: "fd \<rightharpoonup> ino"
  fd_next :: fd
  bad_closes :: nat
  clock :: nat
  openat2Unsupported :: bool
  openat2Noted :: bool
  openat2FallbackR :: "string option"
  mtab :: "(string \<times> ino option) list"
  removals :: "(string \<times> (string \<times> ino option) list) list"

record outside =
  o_job :: "nat \<Rightarrow> fsys \<Rightarrow> fsys"
  o_fault :: "nat \<Rightarrow> errno option"
  o_open :: "nat \<Rightarrow> fsys \<Rightarrow> string \<Rightarrow> errno + ino"
  o_openat2 :: "nat \<Rightarrow> fsys \<Rightarrow> ino \<Rightarrow> string \<Rightarrow> errno + ino"
  o_odd_openat :: "nat \<Rightarrow> fsys \<Rightarrow> ino \<Rightarrow> string \<Rightarrow> errno + ino"
  o_odd_mkdirat :: "nat \<Rightarrow> fsys \<Rightarrow> ino \<Rightarrow> string \<Rightarrow> errno option \<times> fsys"
  o_lstat :: "nat \<Rightarrow> string \<Rightarrow> errno + stat"

text \<open>Before a call takes effect the jobs move, and the call may fail.\<close>

definition enter :: "outside \<Rightarrow> fs_world \<Rightarrow> fs_world" where
  "enter E w = w\<lparr>fs := o_job E (clock w) (fs w), clock := Suc (clock w)\<rparr>"

definition syscall ::
  "outside \<Rightarrow> (nat \<Rightarrow> fs_world \<Rightarrow> (errno + 'a) \<times> fs_world) \<Rightarrow> fs_world \<Rightarrow> (errno + 'a) \<times> fs_world" where
  "syscall E k w =
     (case o_fault E (clock w) of Some e \<Rightarrow> (Inl e, enter E w) | None \<Rightarrow> k (clock w) (enter E w))"

definition new_fd :: "ino \<Rightarrow> fs_world \<Rightarrow> (errno + fd) \<times> fs_world" where
  "new_fd i w = (Inr (fd_next w), w\<lparr>fds := (fds w)(fd_next w \<mapsto> i), fd_next := Suc (fd_next w)\<rparr>)"

subsection \<open>System calls\<close>

definition open_path :: "outside \<Rightarrow> string \<Rightarrow> fs_world \<Rightarrow> (errno + fd) \<times> fs_world" where
  "open_path E p = syscall E (\<lambda>n w. case o_open E n (fs w) p of Inl e \<Rightarrow> (Inl e, w) | Inr i \<Rightarrow> new_fd i w)"

definition open_dir :: "outside \<Rightarrow> string \<Rightarrow> fs_world \<Rightarrow> (errno + fd) \<times> fs_world" where
  "open_dir E p = syscall E (\<lambda>n w. case o_open E n (fs w) p of
       Inl e \<Rightarrow> (Inl e, w)
     | Inr i \<Rightarrow> (case node_of (fs w) i of Some (Directory m) \<Rightarrow> new_fd i w | _ \<Rightarrow> (Inl ENOTDIR, w)))"

definition sys_dup :: "outside \<Rightarrow> fd \<Rightarrow> fs_world \<Rightarrow> (errno + fd) \<times> fs_world" where
  "sys_dup E d = syscall E (\<lambda>n w. case fds w d of None \<Rightarrow> (Inl EBADF, w) | Some i \<Rightarrow> new_fd i w)"

text \<open>\<^verbatim>\<open>openat\<close> with \<^verbatim>\<open>O_PATH|O_NOFOLLOW\<close>, and with \<^verbatim>\<open>O_DIRECTORY\<close> when \<open>dir\<close> is set.\<close>

definition child :: "outside \<Rightarrow> nat \<Rightarrow> fsys \<Rightarrow> ino \<Rightarrow> string \<Rightarrow> errno + ino" where
  "child E n f d name =
     (if \<not> proper_name name then o_odd_openat E n f d name
      else case node_of f d of
             Some (Directory m) \<Rightarrow> (case m name of None \<Rightarrow> Inl ENOENT | Some i \<Rightarrow> Inr i)
           | _ \<Rightarrow> Inl ENOTDIR)"

definition is_directory :: "fsys \<Rightarrow> ino \<Rightarrow> bool" where
  "is_directory f i = (case node_of f i of Some (Directory m) \<Rightarrow> True | _ \<Rightarrow> False)"

definition sys_openat :: "outside \<Rightarrow> fd \<Rightarrow> string \<Rightarrow> bool \<Rightarrow> fs_world \<Rightarrow> (errno + fd) \<times> fs_world" where
  "sys_openat E d name dir = syscall E (\<lambda>n w.
     case fds w d of
       None \<Rightarrow> (Inl EBADF, w)
     | Some i \<Rightarrow>
         (case child E n (fs w) i name of
            Inl e \<Rightarrow> (Inl e, w)
          | Inr j \<Rightarrow> if dir \<and> \<not> is_directory (fs w) j then (Inl ENOTDIR, w) else new_fd j w))"

definition sys_openat2 :: "outside \<Rightarrow> fd \<Rightarrow> string \<Rightarrow> fs_world \<Rightarrow> (errno + fd) \<times> fs_world" where
  "sys_openat2 E d p = syscall E (\<lambda>n w.
     case fds w d of
       None \<Rightarrow> (Inl EBADF, w)
     | Some i \<Rightarrow> (case o_openat2 E n (fs w) i p of Inl e \<Rightarrow> (Inl e, w) | Inr j \<Rightarrow> new_fd j w))"

definition sys_fstat :: "outside \<Rightarrow> fd \<Rightarrow> fs_world \<Rightarrow> (errno + stat) \<times> fs_world" where
  "sys_fstat E d = syscall E (\<lambda>n w.
     case Option.bind (fds w d) (itab (fs w)) of
       None \<Rightarrow> (Inl EBADF, w) | Some i \<Rightarrow> (Inr (stat_of i), w))"

definition sys_readlink :: "outside \<Rightarrow> fd \<Rightarrow> fs_world \<Rightarrow> (errno + string) \<times> fs_world" where
  "sys_readlink E d = syscall E (\<lambda>n w.
     case Option.bind (fds w d) (node_of (fs w)) of
       Some (Symlink t) \<Rightarrow> (Inr t, w) | _ \<Rightarrow> (Inl EINVAL, w))"

definition put_inode :: "ino \<Rightarrow> inode \<Rightarrow> fsys \<Rightarrow> fsys" where
  "put_inode i x f = f\<lparr>itab := (itab f)(i := Some x)\<rparr>"

text \<open>A new directory gets an inode number that was never used.\<close>

definition make_dir :: "ino \<Rightarrow> string \<Rightarrow> inode \<Rightarrow> (string \<rightharpoonup> ino) \<Rightarrow> fsys \<Rightarrow> fsys" where
  "make_dir d name x m f =
     (put_inode d (x\<lparr>i_node := Directory (m(name \<mapsto> inext f))\<rparr>)
       (put_inode (inext f) \<lparr>i_node = Directory Map.empty, i_perm = 0x1ED, i_uid = 0, i_gid = 0\<rparr> f))
     \<lparr>inext := Suc (inext f)\<rparr>"

definition sys_mkdirat :: "outside \<Rightarrow> fd \<Rightarrow> string \<Rightarrow> fs_world \<Rightarrow> (errno + unit) \<times> fs_world" where
  "sys_mkdirat E d name = syscall E (\<lambda>n w.
     case fds w d of
       None \<Rightarrow> (Inl EBADF, w)
     | Some i \<Rightarrow>
         if \<not> proper_name name then
           (case o_odd_mkdirat E n (fs w) i name of (r, f) \<Rightarrow>
              ((case r of None \<Rightarrow> Inr () | Some e \<Rightarrow> Inl e), w\<lparr>fs := f\<rparr>))
         else
           (case itab (fs w) i of
              None \<Rightarrow> (Inl ENOENT, w)
            | Some x \<Rightarrow>
                (case i_node x of
                   Directory m \<Rightarrow>
                     if m name \<noteq> None then (Inl EEXIST, w)
                     else (Inr (), w\<lparr>fs := make_dir i name x m (fs w)\<rparr>)
                 | _ \<Rightarrow> (Inl ENOTDIR, w))))"

definition sys_fchown :: "outside \<Rightarrow> fd \<Rightarrow> nat \<Rightarrow> nat \<Rightarrow> fs_world \<Rightarrow> (errno + unit) \<times> fs_world" where
  "sys_fchown E d u g = syscall E (\<lambda>n w.
     case fds w d of
       None \<Rightarrow> (Inl EBADF, w)
     | Some i \<Rightarrow>
         (case itab (fs w) i of
            None \<Rightarrow> (Inl EBADF, w)
          | Some x \<Rightarrow> (Inr (), w\<lparr>fs := put_inode i (x\<lparr>i_uid := u, i_gid := g\<rparr>) (fs w)\<rparr>)))"

text \<open>\<^verbatim>\<open>closePinFd\<close>: errors are dropped; closing what is not open is counted.\<close>

definition closePinFd :: "fd \<Rightarrow> fs_world \<Rightarrow> fs_world" where
  "closePinFd d w =
     (if fds w d = None then w\<lparr>bad_closes := Suc (bad_closes w)\<rparr> else w\<lparr>fds := (fds w)(d := None)\<rparr>)"

definition close_all :: "fd list \<Rightarrow> fs_world \<Rightarrow> fs_world" where
  "close_all ds w = foldl (\<lambda>w d. closePinFd d w) w ds"

end
