(* ===== verification/Bind_Pin.thy ===== *)
theory Bind_Pin
  imports Bind_Kernel
begin

text \<open>
  \<^verbatim>\<open>pkg/dind/bindpin.go\<close> and \<^verbatim>\<open>bindpin_linux.go\<close>: a bind source of a sibling container is
  resolved once, beneath a root, and held by a descriptor. The stack of directories of
  \<^verbatim>\<open>resolveBeneathWalk\<close> is a list with the current directory first and the bind root last
  (the Go slice has them the other way round).
\<close>

subsection \<open>File modes\<close>

definition ModeDir :: "32 word" where "ModeDir = 0x80000000"
definition ModeSymlink :: "32 word" where "ModeSymlink = 0x8000000"
definition ModeDevice :: "32 word" where "ModeDevice = 0x4000000"
definition ModeNamedPipe :: "32 word" where "ModeNamedPipe = 0x2000000"
definition ModeSocket :: "32 word" where "ModeSocket = 0x1000000"
definition ModeCharDevice :: "32 word" where "ModeCharDevice = 0x200000"
definition ModeIrregular :: "32 word" where "ModeIrregular = 0x80000"

definition ModeType :: "32 word" where
  "ModeType = ModeDir OR ModeSymlink OR ModeNamedPipe OR ModeSocket OR ModeDevice OR ModeCharDevice OR ModeIrregular"

definition IsDir :: "32 word \<Rightarrow> bool" where
  "IsDir m \<longleftrightarrow> m AND ModeDir \<noteq> 0"

definition IsRegular :: "32 word \<Rightarrow> bool" where
  "IsRegular m \<longleftrightarrow> m AND ModeType = 0"

definition fileModeFromStat :: "32 word \<Rightarrow> 32 word" where
  "fileModeFromStat m =
     (let mode = m AND 0x1FF; t = m AND S_IFMT in
      if t = 0x4000 then mode OR ModeDir
      else if t = 0xA000 then mode OR ModeSymlink
      else if t = 0xC000 then mode OR ModeSocket
      else if t = 0x1000 then mode OR ModeNamedPipe
      else if t = 0x6000 then mode OR ModeDevice
      else if t = 0x2000 then mode OR (ModeDevice OR ModeCharDevice)
      else mode)"

subsection \<open>Paths\<close>

definition errBindPathTraversal :: go_error where
  "errBindPathTraversal = Errorf ''bind source contains a .. component, which is not permitted'' None"

fun component_list :: "string list \<Rightarrow> go_error + string list" where
  "component_list [] = Inr []"
| "component_list (p # ps) =
     (if p = '''' \<or> p = ''.'' then component_list ps
      else if p = ''..'' then Inl errBindPathTraversal
      else case component_list ps of Inl e \<Rightarrow> Inl e | Inr out \<Rightarrow> Inr (p # out))"

definition pathComponents :: "string \<Rightarrow> go_error + string list" where
  "pathComponents rel =
     (let r = trim_prefix (path_Clean (''/'' @ rel)) ''/'' in
      if r = '''' \<or> r = ''.'' then Inr [] else component_list (split_on slash r))"

definition logicalPath :: "string \<Rightarrow> string list \<Rightarrow> string" where
  "logicalPath rootPath comps =
     (if comps = [] then path_Clean rootPath else path_Join [rootPath, str_join ''/'' comps])"

subsection \<open>Contained resolution\<close>

definition maxPinSymlinks :: nat where "maxPinSymlinks = 40"

definition noteOpenat2Fallback :: "string \<Rightarrow> fs_world \<Rightarrow> fs_world" where
  "noteOpenat2Fallback reason w =
     (if openat2Noted w then w else w\<lparr>openat2Noted := True, openat2FallbackR := Some reason\<rparr>)"

definition openat2FallbackNotice :: "fs_world \<Rightarrow> string \<times> fs_world" where
  "openat2FallbackNotice w =
     (case openat2FallbackR w of None \<Rightarrow> ('''', w) | Some r \<Rightarrow> (r, w\<lparr>openat2FallbackR := None\<rparr>))"

definition openat2Missing :: "errno \<Rightarrow> bool" where
  "openat2Missing e \<longleftrightarrow> e = ENOSYS \<or> e = E2BIG"

definition openat2Blocked :: "errno \<Rightarrow> bool" where
  "openat2Blocked e \<longleftrightarrow> e = EPERM"

definition readlinkFd :: "outside \<Rightarrow> fd \<Rightarrow> fs_world \<Rightarrow> (go_error + string) \<times> fs_world" where
  "readlinkFd E d w =
     (case sys_readlink E d w of
        (Inl e, w) \<Rightarrow> (Inl (Errorf ''reading symlink during bind resolution'' (Some (Errno e))), w)
      | (Inr t, w) \<Rightarrow>
          if t = [] \<or> 4096 \<le> length t
          then (Inl (Errorf ''symlink target during bind resolution is empty or too long'' None), w)
          else (Inr t, w))"

text \<open>
  The loop of \<^verbatim>\<open>resolveBeneathWalk\<close>. A symlink is spliced into what remains, an absolute one after
  going back to the root; more than forty of them are an error, so the walk ends.
\<close>

function (sequential) resolve_walk ::
  "outside \<Rightarrow> nat \<Rightarrow> fd list \<Rightarrow> string list \<Rightarrow> fs_world \<Rightarrow> (go_error + fd) \<times> fs_world" where
  "resolve_walk E links stack [] w = (Inr (hd stack), close_all (tl stack) w)"
| "resolve_walk E links stack (name # remaining) w =
     (if name = '''' \<or> name = ''.'' then resolve_walk E links stack remaining w
      else if name = ''..'' then
        (if 1 < length stack then resolve_walk E links (tl stack) remaining (closePinFd (hd stack) w)
         else resolve_walk E links stack remaining w)
      else case sys_openat E (hd stack) name False w of
             (Inl e, w) \<Rightarrow> (Inl (Errno e), close_all stack w)
           | (Inr nxt, w) \<Rightarrow>
       (case sys_fstat E nxt w of
          (Inl e, w) \<Rightarrow> (Inl (Errorf ''stat %s during bind resolution'' (Some (Errno e))),
                        close_all stack (closePinFd nxt w))
        | (Inr st, w) \<Rightarrow>
            if st_mode st AND S_IFMT \<noteq> 0xA000 then resolve_walk E links (nxt # stack) remaining w
            else if maxPinSymlinks < Suc links then (Inl (Errno ELOOP), close_all stack (closePinFd nxt w))
            else
              (case readlinkFd E nxt w of
                 (Inl e, w) \<Rightarrow> (Inl e, close_all stack (closePinFd nxt w))
               | (Inr target, w) \<Rightarrow>
                   if has_prefix target ''/''
                   then resolve_walk E (Suc links) [last stack] (split_on slash target @ remaining)
                          (close_all (butlast stack) (closePinFd nxt w))
                   else resolve_walk E (Suc links) stack (split_on slash target @ remaining)
                          (closePinFd nxt w))))"
  by pat_completeness auto
termination
  by (relation "measures [\<lambda>(E, links, stack, rem, w). Suc maxPinSymlinks - links, \<lambda>(E, links, stack, rem, w). length rem]")
     auto

definition resolveBeneathWalk :: "outside \<Rightarrow> fd \<Rightarrow> string list \<Rightarrow> fs_world \<Rightarrow> (go_error + fd) \<times> fs_world" where
  "resolveBeneathWalk E rootFd comps w =
     (case sys_dup E rootFd w of
        (Inl e, w) \<Rightarrow> (Inl (Errorf ''dup bind root'' (Some (Errno e))), w)
      | (Inr dirFd, w) \<Rightarrow> resolve_walk E 0 [dirFd] comps w)"

definition resolveBeneath :: "outside \<Rightarrow> fd \<Rightarrow> string list \<Rightarrow> fs_world \<Rightarrow> (go_error + fd) \<times> fs_world" where
  "resolveBeneath E rootFd comps w =
     (if comps = [] then
        (case sys_dup E rootFd w of (Inl e, w) \<Rightarrow> (Inl (Errno e), w) | (Inr d, w) \<Rightarrow> (Inr d, w))
      else if openat2Unsupported w then resolveBeneathWalk E rootFd comps w
      else case sys_openat2 E rootFd (str_join ''/'' comps) w of
             (Inr d, w) \<Rightarrow> (Inr d, w)
           | (Inl e, w) \<Rightarrow>
               if openat2Missing e
               then resolveBeneathWalk E rootFd comps
                      (noteOpenat2Fallback ''openat2(2) is not implemented on this kernel''
                        (w\<lparr>openat2Unsupported := True\<rparr>))
               else if openat2Blocked e
               then resolveBeneathWalk E rootFd comps
                      (noteOpenat2Fallback ''openat2(2) was refused'' w)
               else (Inl (Errno e), w))"

subsection \<open>Creating what is missing\<close>

fun create_components ::
  "outside \<Rightarrow> nat \<Rightarrow> nat \<Rightarrow> fd \<Rightarrow> string list \<Rightarrow> fs_world \<Rightarrow> (go_error + fd) \<times> fs_world" where
  "create_components E u g cur [] w = (Inr cur, w)"
| "create_components E u g cur (name # missing) w =
     (case sys_mkdirat E cur name w of (r, w) \<Rightarrow>
      if (case r of Inl e \<Rightarrow> \<not> is_ErrExist (Errno e) | Inr _ \<Rightarrow> False)
      then (Inl (Errorf ''creating bind source component'' (Some (Errno (projl r)))), closePinFd cur w)
      else
        (case sys_openat E cur name True w of
           (Inl e, w) \<Rightarrow> (Inl (Errorf ''bind source component could not be opened as a directory after creation'' (Some (Errno e))),
                         closePinFd cur w)
         | (Inr nxt, w) \<Rightarrow>
             (case sys_fchown E nxt u g w of
                (Inl e, w) \<Rightarrow> (Inl (Errorf ''chown auto-created bind source component'' (Some (Errno e))),
                              closePinFd cur (closePinFd nxt w))
              | (Inr _, w) \<Rightarrow> create_components E u g nxt missing (closePinFd cur w))))"

definition createUnder :: "outside \<Rightarrow> fd \<Rightarrow> string list \<Rightarrow> fs_world \<Rightarrow> (go_error + fd) \<times> fs_world" where
  "createUnder E parentFd missing w =
     (case sys_fstat E parentFd w of
        (Inl e, w) \<Rightarrow> (Inl (Errorf ''stat bind source ancestor'' (Some (Errno e))), closePinFd parentFd w)
      | (Inr pst, w) \<Rightarrow> create_components E (st_uid pst) (st_gid pst) parentFd missing w)"

text \<open>The loop of \<^verbatim>\<open>createBeneath\<close> over \<open>i = n - 1, ..., 0\<close>.\<close>

fun create_from :: "outside \<Rightarrow> fd \<Rightarrow> string list \<Rightarrow> nat \<Rightarrow> fs_world \<Rightarrow> (go_error + fd) \<times> fs_world" where
  "create_from E rootFd comps 0 w = (Inl (Errorf ''no existing ancestor found for bind source'' None), w)"
| "create_from E rootFd comps (Suc i) w =
     (case resolveBeneath E rootFd (take i comps) w of
        (Inl e, w) \<Rightarrow> if is_ErrNotExist e then create_from E rootFd comps i w else (Inl e, w)
      | (Inr parentFd, w) \<Rightarrow> createUnder E parentFd (drop i comps) w)"

definition createBeneath :: "outside \<Rightarrow> fd \<Rightarrow> string list \<Rightarrow> fs_world \<Rightarrow> (go_error + fd) \<times> fs_world" where
  "createBeneath E rootFd comps w = create_from E rootFd comps (length comps) w"

subsection \<open>Pins\<close>

record bindPin =
  logical :: string
  pin_mode :: "32 word"
  pin_fd :: int
  staged :: string
  unstage :: "string option"
  pin_closed :: bool

definition newBindPin :: "outside \<Rightarrow> fd \<Rightarrow> string \<Rightarrow> fs_world \<Rightarrow> (go_error + bindPin) \<times> fs_world" where
  "newBindPin E d lg w =
     (case sys_fstat E d w of
        (Inl e, w) \<Rightarrow> (Inl (Errorf ''stat pinned bind source %s'' (Some (Errno e))), closePinFd d w)
      | (Inr st, w) \<Rightarrow>
          (Inr \<lparr>logical = lg, pin_mode = fileModeFromStat (st_mode st), pin_fd = int d, staged = '''',
                unstage = None, pin_closed = False\<rparr>, w))"

definition resolve_or_create :: "outside \<Rightarrow> fd \<Rightarrow> string list \<Rightarrow> bool \<Rightarrow> fs_world \<Rightarrow> (go_error + fd) \<times> fs_world" where
  "resolve_or_create E rootFd comps autoCreate w =
     (case resolveBeneath E rootFd comps w of
        (Inr d, w) \<Rightarrow> (Inr d, w)
      | (Inl e, w) \<Rightarrow>
          if \<not> autoCreate \<or> \<not> is_ErrNotExist e then (Inl e, w) else createBeneath E rootFd comps w)"

definition pinBindSource :: "outside \<Rightarrow> string \<Rightarrow> string \<Rightarrow> bool \<Rightarrow> fs_world \<Rightarrow> (go_error + bindPin) \<times> fs_world" where
  "pinBindSource E rootPath rel autoCreate w =
     (case pathComponents rel of
        Inl e \<Rightarrow> (Inl e, w)
      | Inr comps \<Rightarrow>
          if comps = [] then
            (case open_path E rootPath w of
               (Inl e, w) \<Rightarrow> (Inl (Errorf ''opening bind root %s'' (Some (Errno e))), w)
             | (Inr d, w) \<Rightarrow> newBindPin E d (logicalPath rootPath comps) w)
          else
            (case open_dir E rootPath w of
               (Inl e, w) \<Rightarrow> (Inl (Errorf ''opening bind root %s'' (Some (Errno e))), w)
             | (Inr rootFd, w) \<Rightarrow>
                 (case resolve_or_create E rootFd comps autoCreate w of
                    (Inl e, w) \<Rightarrow> (Inl e, closePinFd rootFd w)
                  | (Inr d, w) \<Rightarrow>
                      (case newBindPin E d (logicalPath rootPath comps) w of
                         (r, w) \<Rightarrow> (r, closePinFd rootFd w)))))"

end
