(* ===== verification/Bind_Stage.thy ===== *)
theory Bind_Stage
  imports Bind_Pin
begin

text \<open>
  \<^verbatim>\<open>pkg/dind/bindstage.go\<close> and \<^verbatim>\<open>bindstage_linux.go\<close>: a pinned inode is published as a bind
  mount at a path of the daemon's own, and taken down again. The text of \<^verbatim>\<open>/proc/self/mountinfo\<close>
  is not modelled, only the list of mount points read from it. The mutex of a stager orders its own
  \<^verbatim>\<open>stage\<close>, \<^verbatim>\<open>teardown\<close> and the releases of its pins. The sweeps take no lock, and a teardown
  runs beside the stagers of other jobs, so the removal of a staging directory is given twice: as one
  function, and in the phases between which anything else can happen (\<open>sweep_step\<close>).
\<close>

subsection \<open>The mount table\<close>

text \<open>\<^verbatim>\<open>umount2(mp, MNT_DETACH)\<close>: the topmost mount at \<open>mp\<close> goes.\<close>

definition sys_umount :: "outside \<Rightarrow> string \<Rightarrow> fs_world \<Rightarrow> (errno + unit) \<times> fs_world" where
  "sys_umount E mp = syscall E (\<lambda>n w.
     if mp \<in> fst ` set (mtab w)
     then (Inr (), w\<lparr>mtab := (case find (\<lambda>m. fst m = mp) (mtab w) of None \<Rightarrow> mtab w | Some m \<Rightarrow> remove1 m (mtab w))\<rparr>)
     else (Inl EINVAL, w))"

definition sys_bind :: "outside \<Rightarrow> ino option \<Rightarrow> string \<Rightarrow> fs_world \<Rightarrow> (errno + unit) \<times> fs_world" where
  "sys_bind E i mp = syscall E (\<lambda>n w. (Inr (), w\<lparr>mtab := (mp, i) # mtab w\<rparr>))"

text \<open>A call whose only effect is on the staging directory itself.\<close>

definition sys_other :: "outside \<Rightarrow> fs_world \<Rightarrow> (errno + unit) \<times> fs_world" where
  "sys_other E = syscall E (\<lambda>n w. (Inr (), w))"

fun detach_loop :: "outside \<Rightarrow> nat \<Rightarrow> string \<Rightarrow> fs_world \<Rightarrow> fs_world" where
  "detach_loop E 0 mp w = w"
| "detach_loop E (Suc n) mp w =
     (case sys_umount E mp w of (Inl e, w) \<Rightarrow> w | (Inr _, w) \<Rightarrow> detach_loop E n mp w)"

definition detachMount :: "outside \<Rightarrow> string \<Rightarrow> fs_world \<Rightarrow> fs_world" where
  "detachMount E mp w = detach_loop E 16 mp w"

definition under_dir :: "string \<Rightarrow> string \<Rightarrow> bool" where
  "under_dir dir mp \<longleftrightarrow> mp = dir \<or> has_prefix mp (trim_suffix dir ''/'' @ ''/'')"

definition mountPointsUnder :: "outside \<Rightarrow> string \<Rightarrow> fs_world \<Rightarrow> (go_error + string list) \<times> fs_world" where
  "mountPointsUnder E dir w =
     (case sys_other E w of
        (Inl e, w) \<Rightarrow> (Inl (Errorf ''reading mount table'' (Some (Errno e))), w)
      | (Inr _, w) \<Rightarrow> (Inr (filter (under_dir dir) (map fst (mtab w))), w))"

definition unmountAndRemove :: "outside \<Rightarrow> string \<Rightarrow> fs_world \<Rightarrow> go_error option \<times> fs_world" where
  "unmountAndRemove E target w =
     (case mountPointsUnder E target (detachMount E target w) of
        (Inl e, w) \<Rightarrow> (Some e, w)
      | (Inr mounts, w) \<Rightarrow>
          if mounts \<noteq> [] then (Some (Errorf ''bind staging mount could not be detached'' None), w)
          else (case sys_other E w of
                  (Inl e, w) \<Rightarrow>
                    ((if is_ErrNotExist (Errno e) then None
                      else Some (Errorf ''removing bind staging mountpoint'' (Some (Errno e)))), w)
                | (Inr _, w) \<Rightarrow> (None, w)))"

text \<open>\<^verbatim>\<open>os.RemoveAll(dir)\<close>, which would delete through a mount: what was mounted is recorded.\<close>

definition removeAll :: "outside \<Rightarrow> string \<Rightarrow> fs_world \<Rightarrow> (errno + unit) \<times> fs_world" where
  "removeAll E dir w = sys_other E (w\<lparr>removals := removals w @ [(dir, mtab w)]\<rparr>)"

text \<open>
  \<^verbatim>\<open>unmountTreeAndRemove\<close>, with the two steps it injects into \<^verbatim>\<open>unmountTreeAndRemoveWith\<close>.
  Mount points are detached deepest first.
\<close>

definition unmountTreeAndRemove :: "outside \<Rightarrow> string \<Rightarrow> fs_world \<Rightarrow> go_error option \<times> fs_world" where
  "unmountTreeAndRemove E dir w =
     (case mountPointsUnder E dir w of
        (Inl e, w) \<Rightarrow> (Some e, w)
      | (Inr mounts, w) \<Rightarrow>
          (case mountPointsUnder E dir
                  (foldl (\<lambda>w mp. detachMount E mp w) w (sort_key (\<lambda>m. - int (length m)) mounts)) of
             (Inl e, w) \<Rightarrow> (Some e, w)
           | (Inr remaining, w) \<Rightarrow>
               if remaining \<noteq> []
               then (Some (Errorf ''bind staging mounts still present; not removing the directory'' None), w)
               else (case removeAll E dir w of
                       (Inl e, w) \<Rightarrow> (Some (Errorf ''removing bind staging dir'' (Some (Errno e))), w)
                     | (Inr _, w) \<Rightarrow> (None, w))))"

subsection \<open>Closing a pin\<close>

definition bindPin_Close :: "outside \<Rightarrow> bindPin \<Rightarrow> fs_world \<Rightarrow> bindPin \<times> fs_world" where
  "bindPin_Close E p w =
     (if pin_closed p then (p, w)
      else
        (let w1 = (case unstage p of None \<Rightarrow> w | Some target \<Rightarrow> snd (unmountAndRemove E target w)) in
         if 0 \<le> pin_fd p
         then (p\<lparr>pin_closed := True, pin_fd := - 1\<rparr>, closePinFd (nat (pin_fd p)) w1)
         else (p\<lparr>pin_closed := True\<rparr>, w1)))"

fun closeBindPins :: "outside \<Rightarrow> bindPin list \<Rightarrow> fs_world \<Rightarrow> bindPin list \<times> fs_world" where
  "closeBindPins E [] w = ([], w)"
| "closeBindPins E (p # ps) w =
     (case bindPin_Close E p w of (p', w) \<Rightarrow>
      case closeBindPins E ps w of (ps', w) \<Rightarrow> (p' # ps', w))"

subsection \<open>The stager\<close>

record mountStager =
  st_dir :: string
  st_ready :: bool
  st_closed :: bool
  st_seq :: "64 word"

definition stagingRootDir :: "string \<Rightarrow> string" where
  "stagingRootDir dataDir = path_Join [dataDir, ''dind-binds'']"

definition jobStagingDir :: "string \<Rightarrow> string \<Rightarrow> string" where
  "jobStagingDir dataDir jobID = path_Join [stagingRootDir dataDir, jobID]"

definition newBindStager :: "string \<Rightarrow> string \<Rightarrow> mountStager" where
  "newBindStager dataDir jobID =
     \<lparr>st_dir = jobStagingDir dataDir jobID, st_ready = False, st_closed = False, st_seq = 0\<rparr>"

definition sys_lstat :: "outside \<Rightarrow> string \<Rightarrow> fs_world \<Rightarrow> (errno + stat) \<times> fs_world" where
  "sys_lstat E p = syscall E (\<lambda>n w. (o_lstat E n p, w))"

text \<open>\<^verbatim>\<open>ensureTrustedAncestry\<close>, over the ancestors of an absolute path from the path itself up to \<open>/\<close>.\<close>

definition ancestor :: "string list \<Rightarrow> nat \<Rightarrow> string" where
  "ancestor cs n = slash # str_join ''/'' (take n cs)"

definition untrusted :: "nat \<Rightarrow> stat \<Rightarrow> go_error option" where
  "untrusted euid st =
     (if st_mode st AND S_IFMT = 0xA000 then Some (Errorf ''%s is a symlink'' None)
      else if st_uid st \<noteq> 0 \<and> st_uid st \<noteq> euid then Some (Errorf ''%s is owned by uid %d'' None)
      else if st_mode st AND 0x12 \<noteq> 0 \<and> st_mode st AND 0x200 = 0
      then Some (Errorf ''%s is writable by group or other without the sticky bit'' None)
      else None)"

definition trusted_at :: "outside \<Rightarrow> nat \<Rightarrow> string \<Rightarrow> fs_world \<Rightarrow> go_error option \<times> fs_world" where
  "trusted_at E euid p w =
     (case sys_lstat E p w of
        (Inl e, w) \<Rightarrow> (Some (Errorf ''stat %s'' (Some (Errno e))), w)
      | (Inr st, w) \<Rightarrow> (untrusted euid st, w))"

fun trusted_from :: "outside \<Rightarrow> nat \<Rightarrow> string list \<Rightarrow> nat \<Rightarrow> fs_world \<Rightarrow> go_error option \<times> fs_world" where
  "trusted_from E euid cs 0 w = trusted_at E euid (ancestor cs 0) w"
| "trusted_from E euid cs (Suc n) w =
     (case trusted_at E euid (ancestor cs (Suc n)) w of
        (Some e, w) \<Rightarrow> (Some e, w)
      | (None, w) \<Rightarrow> trusted_from E euid cs n w)"

definition ensureTrustedAncestry :: "outside \<Rightarrow> nat \<Rightarrow> string \<Rightarrow> fs_world \<Rightarrow> go_error option \<times> fs_world" where
  "ensureTrustedAncestry E euid dir w =
     (let cs = clean_components dir in trusted_from E euid cs (length cs) w)"

text \<open>The job directory and its parent: not symlinks, and mode 0700.\<close>

fun secure_dirs :: "outside \<Rightarrow> string list \<Rightarrow> fs_world \<Rightarrow> go_error option \<times> fs_world" where
  "secure_dirs E [] w = (None, w)"
| "secure_dirs E (d # ds) w =
     (case sys_lstat E d w of
        (Inl e, w) \<Rightarrow> (Some (Errorf ''stat bind staging dir %s'' (Some (Errno e))), w)
      | (Inr st, w) \<Rightarrow>
          if st_mode st AND S_IFMT = 0xA000 then (Some (Errorf ''bind staging dir %s is a symlink'' None), w)
          else (case sys_other E w of
                  (Inl e, w) \<Rightarrow> (Some (Errorf ''securing bind staging dir %s'' (Some (Errno e))), w)
                | (Inr _, w) \<Rightarrow> secure_dirs E ds w))"

definition stagingRootParent :: "string \<Rightarrow> string" where
  "stagingRootParent jobDir = ancestor (clean_components jobDir) (length (clean_components jobDir) - 1)"

definition ensureDirLocked :: "outside \<Rightarrow> nat \<Rightarrow> mountStager \<Rightarrow> fs_world \<Rightarrow> go_error option \<times> mountStager \<times> fs_world" where
  "ensureDirLocked E euid m w =
     (if st_ready m then (None, m, w)
      else case sys_other E w of
             (Inl e, w) \<Rightarrow> (Some (Errorf ''creating bind staging dir %s'' (Some (Errno e))), m, w)
           | (Inr _, w) \<Rightarrow>
       (case secure_dirs E [stagingRootParent (st_dir m), st_dir m] w of
          (Some e, w) \<Rightarrow> (Some e, m, w)
        | (None, w) \<Rightarrow>
       (case ensureTrustedAncestry E euid (st_dir m) w of
          (Some e, w) \<Rightarrow> (Some (Errorf ''bind staging dir %s is not safe to mount into'' (Some e)), m, w)
        | (None, w) \<Rightarrow>
            (case sys_bind E None (st_dir m) w of
               (Inl e, w) \<Rightarrow> (None, m\<lparr>st_ready := True\<rparr>, w)
             | (Inr _, w) \<Rightarrow> (None, m\<lparr>st_ready := True\<rparr>, snd (sys_other E w))))))"

definition stage ::
  "outside \<Rightarrow> nat \<Rightarrow> mountStager \<Rightarrow> bindPin \<Rightarrow> fs_world \<Rightarrow> (go_error + string) \<times> mountStager \<times> bindPin \<times> fs_world" where
  "stage E euid m p w =
     (if pin_fd p < 0 then (Inl (Errorf ''bind source was not pinned'' None), m, p, w)
      else if st_closed m then (Inl (Errorf ''bind staging directory has already been torn down'' None), m, p, w)
      else case ensureDirLocked E euid m w of
             (Some e, m, w) \<Rightarrow> (Inl e, m, p, w)
           | (None, m, w) \<Rightarrow>
       (let m = m\<lparr>st_seq := st_seq m + 1\<rparr>;
            target = path_Join [st_dir m, nat_to_dec (unat (st_seq m))] in
        case sys_other E w of
          (Inl e, w) \<Rightarrow> (Inl (Errorf ''creating bind staging mountpoint'' (Some (Errno e))), m, p, w)
        | (Inr _, w) \<Rightarrow>
            (case sys_bind E (fds w (nat (pin_fd p))) target w of
               (Inl e, w) \<Rightarrow> (Inl (Errorf ''staging bind source'' (Some (Errno e))), m, p, snd (sys_other E w))
             | (Inr _, w) \<Rightarrow> (Inr target, m, p\<lparr>staged := target, unstage := Some target\<rparr>, w))))"

definition teardown_stager :: "outside \<Rightarrow> mountStager \<Rightarrow> fs_world \<Rightarrow> mountStager \<times> fs_world" where
  "teardown_stager E m w =
     (let m' = m\<lparr>st_ready := False, st_closed := True\<rparr> in
      if \<not> st_ready m then
        (case sys_other E w of
           (Inl e, w) \<Rightarrow> (m', w)
         | (Inr _, w) \<Rightarrow> (m', snd (unmountTreeAndRemove E (st_dir m) w)))
      else (m', snd (unmountTreeAndRemove E (st_dir m) w)))"

definition sweepStagedBindsForJob :: "outside \<Rightarrow> string \<Rightarrow> string \<Rightarrow> fs_world \<Rightarrow> fs_world" where
  "sweepStagedBindsForJob E stagingRoot jobID w =
     (let dir = path_Join [stagingRoot, jobID] in
      case sys_other E w of
        (Inl e, w) \<Rightarrow> w
      | (Inr _, w) \<Rightarrow> snd (unmountTreeAndRemove E dir w))"

text \<open>\<open>entries\<close> is what \<^verbatim>\<open>os.ReadDir\<close> lists, when it can.\<close>

definition sweepStagedBinds :: "outside \<Rightarrow> string \<Rightarrow> string list option \<Rightarrow> fs_world \<Rightarrow> fs_world" where
  "sweepStagedBinds E stagingRoot entries w =
     (case entries of
        None \<Rightarrow> w
      | Some es \<Rightarrow> foldl (\<lambda>w e. snd (unmountTreeAndRemove E (path_Join [stagingRoot, e]) w)) w es)"

subsection \<open>A removal, one system call at a time\<close>

text \<open>
  \<^verbatim>\<open>unmountTreeAndRemove\<close> as it runs beside everything else: the \<^verbatim>\<open>Stat\<close> of its callers, the first
  list, one \<^verbatim>\<open>umount2\<close> after the other (with the tries left for the current mount point), the
  second list, and \<^verbatim>\<open>os.RemoveAll\<close>, which lasts from the moment \<open>SweepRemove\<close> is entered until it
  is left.
\<close>

datatype sweep_phase =
    SweepStat
  | SweepList
  | SweepDetach nat "string list"
  | SweepCheck
  | SweepRemove
  | SweepEnd

fun sweep_step :: "outside \<Rightarrow> string \<Rightarrow> sweep_phase \<Rightarrow> fs_world \<Rightarrow> sweep_phase \<times> fs_world" where
  "sweep_step E dir SweepStat w =
     (case sys_other E w of (Inl e, w) \<Rightarrow> (SweepEnd, w) | (Inr _, w) \<Rightarrow> (SweepList, w))"
| "sweep_step E dir SweepList w =
     (case mountPointsUnder E dir w of
        (Inl e, w) \<Rightarrow> (SweepEnd, w)
      | (Inr mounts, w) \<Rightarrow> (SweepDetach 16 (sort_key (\<lambda>m. - int (length m)) mounts), w))"
| "sweep_step E dir (SweepDetach n []) w = (SweepCheck, w)"
| "sweep_step E dir (SweepDetach 0 (mp # mps)) w = (SweepDetach 16 mps, w)"
| "sweep_step E dir (SweepDetach (Suc n) (mp # mps)) w =
     (case sys_umount E mp w of
        (Inl e, w) \<Rightarrow> (SweepDetach 16 mps, w)
      | (Inr _, w) \<Rightarrow> (SweepDetach n (mp # mps), w))"
| "sweep_step E dir SweepCheck w =
     (case mountPointsUnder E dir w of
        (Inl e, w) \<Rightarrow> (SweepEnd, w)
      | (Inr remaining, w) \<Rightarrow>
          if remaining \<noteq> [] then (SweepEnd, w)
          else (SweepRemove, w))"
| "sweep_step E dir SweepRemove w = (SweepEnd, snd (removeAll E dir w))"
| "sweep_step E dir SweepEnd w = (SweepEnd, w)"

abbreviation sweep_run :: "outside \<Rightarrow> string \<Rightarrow> sweep_phase \<times> fs_world \<Rightarrow> sweep_phase \<times> fs_world \<Rightarrow> bool" where
  "sweep_run E dir \<equiv> (\<lambda>x y. y = sweep_step E dir (fst x) (snd x))\<^sup>*\<^sup>*"

text \<open>Left alone, the phases are the function.\<close>

lemma sweep_run_step:
  "sweep_run E dir (sweep_step E dir ph w) y \<Longrightarrow> sweep_run E dir (ph, w) y"
  by (erule converse_rtranclp_into_rtranclp [rotated]) simp

lemma sweep_run_detach_one:
  "sweep_run E dir (SweepDetach n (mp # mps), w) (SweepDetach 16 mps, detach_loop E n mp w)"
proof (induction n arbitrary: w)
  case 0
  show ?case by (rule sweep_run_step) simp
next
  case (Suc n)
  show ?case by (rule sweep_run_step) (auto simp: Suc.IH split: prod.splits sum.splits)
qed

lemma sweep_run_detach:
  "sweep_run E dir (SweepDetach 16 mps, w) (SweepCheck, foldl (\<lambda>w mp. detachMount E mp w) w mps)"
proof (induction mps arbitrary: w)
  case Nil
  show ?case by (rule sweep_run_step) simp
next
  case (Cons mp mps)
  have "sweep_run E dir (SweepDetach 16 (mp # mps), w) (SweepDetach 16 mps, detachMount E mp w)"
    unfolding detachMount_def by (rule sweep_run_detach_one)
  with Cons.IH [of "detachMount E mp w"] show ?case by simp
qed

lemma sweep_alone: "sweep_run E dir (SweepList, w) (SweepEnd, snd (unmountTreeAndRemove E dir w))"
proof -
  obtain r w1 where l: "mountPointsUnder E dir w = (r, w1)" by force
  show ?thesis
  proof (cases r)
    case (Inl e)
    with l show ?thesis by (intro sweep_run_step) (simp add: unmountTreeAndRemove_def)
  next
    case (Inr ms)
    let ?w2 = "foldl (\<lambda>w mp. detachMount E mp w) w1 (sort_key (\<lambda>m. - int (length m)) ms)"
    obtain r2 w3 where c: "mountPointsUnder E dir ?w2 = (r2, w3)" by force
    have "sweep_run E dir (SweepCheck, ?w2) (SweepEnd, snd (unmountTreeAndRemove E dir w))"
    proof (cases "r2 = Inr []")
      case True
      obtain r3 w4 where "removeAll E dir w3 = (r3, w4)" by force
      with True l Inr c show ?thesis
        by (intro sweep_run_step) (auto simp: unmountTreeAndRemove_def split: sum.splits intro!: sweep_run_step)
    next
      case False
      with l Inr c show ?thesis
        by (intro sweep_run_step) (auto simp: unmountTreeAndRemove_def split: sum.splits)
    qed
    with sweep_run_detach have "sweep_run E dir (SweepDetach 16 (sort_key (\<lambda>m. - int (length m)) ms), w1)
        (SweepEnd, snd (unmountTreeAndRemove E dir w))" by (rule rtranclp_trans)
    with l Inr show ?thesis by (intro sweep_run_step) simp
  qed
qed

lemma sweep_job_alone:
  "sweep_run E (path_Join [stagingRoot, jobID]) (SweepStat, w)
     (SweepEnd, sweepStagedBindsForJob E stagingRoot jobID w)"
  by (rule sweep_run_step)
     (auto simp: sweepStagedBindsForJob_def Let_def sweep_alone split: prod.splits sum.splits)

text \<open>What a teardown does under the mutex first, and the phase its removal starts in.\<close>

definition close_stager :: "mountStager \<Rightarrow> mountStager \<times> sweep_phase" where
  "close_stager m =
     (m\<lparr>st_ready := False, st_closed := True\<rparr>, if st_ready m then SweepList else SweepStat)"

lemma teardown_alone:
  "fst (teardown_stager E m w) = fst (close_stager m) \<and>
   sweep_run E (st_dir m) (snd (close_stager m), w) (SweepEnd, snd (teardown_stager E m w))"
proof (cases "st_ready m")
  case True
  then show ?thesis by (simp add: teardown_stager_def close_stager_def Let_def sweep_alone)
next
  case False
  then have "sweep_run E (st_dir m) (SweepStat, w) (SweepEnd, snd (teardown_stager E m w))"
    by (intro sweep_run_step)
       (auto simp: teardown_stager_def Let_def sweep_alone split: prod.splits sum.splits)
  with False show ?thesis
    by (auto simp: teardown_stager_def close_stager_def Let_def split: prod.splits sum.splits)
qed

end
