(* ===== verification/Bind_Translate.thy ===== *)
theory Bind_Translate
  imports Bind_Stage
begin

text \<open>
  \<^verbatim>\<open>pkg/dind/bindtranslate.go\<close> and \<^verbatim>\<open>buildBindMounts\<close> of \<^verbatim>\<open>containers.go\<close>: every \<^verbatim>\<open>-v\<close> source of a
  sibling container is translated from the runner's mount namespace, pinned and staged, and the
  bind mounts of the container's OCI spec are made from what was staged.

  The bind table is a Go map. It is modelled by the list of its entries in the order a
  \<^verbatim>\<open>range\<close> visits them, which Go leaves open; the results below do not depend on it. The upper
  and lower directories of the runner's snapshot come from containerd and are arguments.
\<close>

subsection \<open>The bind table\<close>

fun match_keys :: "string \<Rightarrow> (string \<times> string) list \<Rightarrow> (string \<times> string) option" where
  "match_keys src [] = None"
| "match_keys src ((k, host) # ks) =
     (if src = k then Some (host, '''')
      else if has_prefix src (k @ ''/'') then Some (host, trim_prefix src (k @ ''/''))
      else match_keys src ks)"

definition matchBindPrefix :: "string \<Rightarrow> (string \<times> string) list \<Rightarrow> (string \<times> string) option" where
  "matchBindPrefix src binds =
     (if binds = [] then None else match_keys src (sort_key (\<lambda>(k, h). - int (length k)) binds))"

subsection \<open>Translation\<close>

record bindResolution =
  ResolvedPath :: string
  ForceReadOnly :: bool
  Pin :: "bindPin option"

definition rejectUnbindableType :: "outside \<Rightarrow> bindPin \<Rightarrow> fs_world \<Rightarrow> go_error option \<times> fs_world" where
  "rejectUnbindableType E p w =
     (if IsDir (pin_mode p) \<or> IsRegular (pin_mode p) then (None, w)
      else (Some (Errorf ''bind source resolves to something that is not a regular file or directory'' None),
            snd (bindPin_Close E p w)))"

text \<open>A pinned branch of \<^verbatim>\<open>translateBindSource\<close> that may create the source.\<close>

definition pinned_resolution ::
  "outside \<Rightarrow> string \<Rightarrow> string \<Rightarrow> bool \<Rightarrow> fs_world \<Rightarrow> (go_error + bindResolution) \<times> fs_world" where
  "pinned_resolution E rootPath rel from_rootfs w =
     (case pinBindSource E rootPath rel True w of
        (Inl e, w) \<Rightarrow>
          (Inl (if from_rootfs \<and> is_ErrNotExist e
                then Errorf ''bind source could not be resolved under the runner rootfs'' (Some e)
                else Errorf ''bind source rejected'' (Some e)), w)
      | (Inr p, w) \<Rightarrow>
          (case rejectUnbindableType E p w of
             (Some e, w) \<Rightarrow> (Inl e, w)
           | (None, w) \<Rightarrow>
               (Inr \<lparr>ResolvedPath = logical p, ForceReadOnly = False, Pin = Some p\<rparr>, w)))"

fun lower_resolution ::
  "outside \<Rightarrow> string list \<Rightarrow> string \<Rightarrow> fs_world \<Rightarrow> (go_error + bindResolution) \<times> fs_world" where
  "lower_resolution E [] cleaned w =
     (Inl (Errorf ''bind source is not visible to ephemerd dind'' None), w)"
| "lower_resolution E (lower # lowers) cleaned w =
     (if lower = '''' then lower_resolution E lowers cleaned w
      else case pinBindSource E lower cleaned False w of
             (Inr p, w) \<Rightarrow> (Inr \<lparr>ResolvedPath = logical p, ForceReadOnly = True, Pin = Some p\<rparr>, w)
           | (Inl e, w) \<Rightarrow> lower_resolution E lowers cleaned w)"

definition layer_resolution ::
  "outside \<Rightarrow> string \<Rightarrow> string list \<Rightarrow> string \<Rightarrow> fs_world \<Rightarrow> (go_error + bindResolution) \<times> fs_world" where
  "layer_resolution E upperdir lowerdirs cleaned w =
     (if upperdir = '''' then lower_resolution E lowerdirs cleaned w
      else case pinBindSource E upperdir cleaned False w of
             (Inr p, w) \<Rightarrow> (Inr \<lparr>ResolvedPath = logical p, ForceReadOnly = False, Pin = Some p\<rparr>, w)
           | (Inl e, w) \<Rightarrow> lower_resolution E lowerdirs cleaned w)"

definition translateBindSource ::
  "outside \<Rightarrow> string \<Rightarrow> (string \<times> string) list \<Rightarrow> string \<Rightarrow> string \<Rightarrow> string list \<Rightarrow> fs_world \<Rightarrow>
   (go_error + bindResolution) \<times> fs_world" where
  "translateBindSource E src runnerBinds rootfs upperdir lowerdirs w =
     (if \<not> path_IsAbs src then (Inl (Errorf ''bind source %q must be absolute'' None), w)
      else
        (let cleaned = path_Clean src in
         case matchBindPrefix cleaned runnerBinds of
           Some (host, sfx) \<Rightarrow>
             if sfx = '''' then (Inr \<lparr>ResolvedPath = host, ForceReadOnly = False, Pin = None\<rparr>, w)
             else pinned_resolution E host sfx False w
         | None \<Rightarrow>
             if rootfs \<noteq> '''' then pinned_resolution E rootfs cleaned True w
             else layer_resolution E upperdir lowerdirs cleaned w))"

subsection \<open>The mounts of a sibling container\<close>

datatype transport = TransportUnix | TransportTCP

text \<open>The fields of \<^verbatim>\<open>dind.Server\<close> that bind translation reads; \<open>on_windows\<close> is \<^verbatim>\<open>GOOS\<close>.\<close>

record bindServer =
  transport_of :: transport
  on_windows :: bool
  runnerBindMappings :: "(string \<times> string) list"
  runnerRootfsPath :: string
  stager_of :: "mountStager option"
  euid_of :: nat

record Mount =
  Destination :: string
  Source :: string
  Options :: "string list"

definition rejectUnbackedGuestBind :: "bindServer \<Rightarrow> string \<Rightarrow> go_error option" where
  "rejectUnbackedGuestBind s src =
     (if transport_of s \<noteq> TransportTCP \<or> on_windows s then None
      else if \<not> has_prefix src ''/'' then None
      else if matchBindPrefix (path_Clean src) (runnerBindMappings s) \<noteq> None then None
      else Some (Errorf ''source lives in the job container's own filesystem'' None))"

text \<open>\<^verbatim>\<open>strings.SplitN(bind, ":", 3)\<close>: two cuts at a colon.\<close>

definition splitN3 :: "string \<Rightarrow> string list" where
  "splitN3 s =
     (case cut (CHR '':'') s of
        None \<Rightarrow> [s]
      | Some (a, r) \<Rightarrow> (case cut (CHR '':'') r of None \<Rightarrow> [a, r] | Some (b, c) \<Rightarrow> [a, b, c]))"

text \<open>One \<^verbatim>\<open>-v\<close> entry. The pin is appended before it is staged, so that a failure releases it.\<close>

definition bind_one ::
  "outside \<Rightarrow> string \<Rightarrow> string list \<Rightarrow> string \<Rightarrow> string \<Rightarrow> bool \<Rightarrow> bindServer \<Rightarrow> bindPin list \<Rightarrow> fs_world \<Rightarrow>
   (go_error + Mount) \<times> bindServer \<times> bindPin list \<times> fs_world" where
  "bind_one E upperdir lowerdirs src dst requestedRO s pins w =
     (case rejectUnbackedGuestBind s src of
        Some e \<Rightarrow> (Inl (Errorf ''bind mount rejected'' (Some e)), s, pins, w)
      | None \<Rightarrow>
     (case translateBindSource E src (runnerBindMappings s) (runnerRootfsPath s) upperdir lowerdirs w of
        (Inl e, w) \<Rightarrow> (Inl (Errorf ''bind mount rejected'' (Some e)), s, pins, w)
      | (Inr res, w) \<Rightarrow>
          (let mount = (\<lambda>source. \<lparr>Destination = dst, Source = source,
                 Options = [''rbind'', if requestedRO \<or> ForceReadOnly res then ''ro'' else ''rw'']\<rparr>) in
           case Pin res of
             None \<Rightarrow> (Inr (mount (ResolvedPath res)), s, pins, w)
           | Some p \<Rightarrow>
               (case stager_of s of
                  None \<Rightarrow> (Inl (Errorf ''this dind server has no bind stager'' None), s, pins @ [p], w)
                | Some m \<Rightarrow>
                    (case stage E (euid_of s) m p w of
                       (Inl e, m, p, w) \<Rightarrow>
                         (Inl (Errorf ''bind mount rejected'' (Some e)), s\<lparr>stager_of := Some m\<rparr>, pins @ [p], w)
                     | (Inr target, m, p, w) \<Rightarrow>
                         (Inr (mount target), s\<lparr>stager_of := Some m\<rparr>, pins @ [p], w))))))"

fun bind_loop ::
  "outside \<Rightarrow> string \<Rightarrow> string list \<Rightarrow> string list \<Rightarrow> bindServer \<Rightarrow> Mount list \<Rightarrow> bindPin list \<Rightarrow> fs_world \<Rightarrow>
   (go_error + Mount list \<times> bindPin list) \<times> bindServer \<times> fs_world" where
  "bind_loop E upperdir lowerdirs [] s out pins w = (Inr (out, pins), s, w)"
| "bind_loop E upperdir lowerdirs (bind # binds) s out pins w =
     (let parts = splitN3 bind in
      if length parts < 2 then bind_loop E upperdir lowerdirs binds s out pins w
      else
        (case bind_one E upperdir lowerdirs (parts ! 0) (parts ! 1)
                (length parts = 3 \<and> parts ! 2 = ''ro'') s pins w of
           (Inl e, s, pins, w) \<Rightarrow> (Inl e, s, snd (closeBindPins E pins w))
         | (Inr mount, s, pins, w) \<Rightarrow> bind_loop E upperdir lowerdirs binds s (out @ [mount]) pins w))"

definition buildBindMounts ::
  "outside \<Rightarrow> string \<Rightarrow> string list \<Rightarrow> string list \<Rightarrow> bindServer \<Rightarrow> fs_world \<Rightarrow>
   (go_error + Mount list \<times> bindPin list) \<times> bindServer \<times> fs_world" where
  "buildBindMounts E upperdir lowerdirs binds s w =
     bind_loop E upperdir lowerdirs binds s [] [] (snd (openat2FallbackNotice w))"

end
