(* ===== verification/Bind_Pin_Laws.thy ===== *)
theory Bind_Pin_Laws
  imports Bind_Pin
begin

text \<open>
  What contained resolution promises, whatever the jobs do meanwhile. \<open>P\<close> is a set of
  protected inodes: the node's own files, which no directory a job can reach leads to.
  \<open>confines P E\<close> says that the jobs keep it that way and cannot change a protected inode
  themselves, and that \<^verbatim>\<open>openat2\<close> with \<^verbatim>\<open>RESOLVE_IN_ROOT\<close> stays in its root. The
  judgement \<open>gives P w (r, w')\<close> of a resolving operation then collects that a descriptor it
  returns is on an unprotected inode and is the only new one, that an error leaves the
  descriptor table as it was, and that no protected inode was changed.
\<close>

subsection \<open>Judgements\<close>

definition guarded :: "ino set \<Rightarrow> fsys \<Rightarrow> bool" where
  "guarded P f \<longleftrightarrow> (\<forall>i\<in>P. i < inext f) \<and>
     (\<forall>d m name j. d \<notin> P \<longrightarrow> node_of f d = Some (Directory m) \<longrightarrow> m name = Some j \<longrightarrow> j \<notin> P)"

definition confines :: "ino set \<Rightarrow> outside \<Rightarrow> bool" where
  "confines P E \<longleftrightarrow>
     (\<forall>n f. guarded P f \<longrightarrow> guarded P (o_job E n f) \<and> (\<forall>i\<in>P. itab (o_job E n f) i = itab f i)) \<and>
     (\<forall>n f d p j. guarded P f \<longrightarrow> d \<notin> P \<longrightarrow> o_openat2 E n f d p = Inr j \<longrightarrow> j \<notin> P)"

definition good :: "ino set \<Rightarrow> fs_world \<Rightarrow> bool" where
  "good P w \<longleftrightarrow> guarded P (fs w) \<and> (\<forall>d i. fds w d = Some i \<longrightarrow> d < fd_next w)"

definition kept :: "ino set \<Rightarrow> fs_world \<Rightarrow> fs_world \<Rightarrow> bool" where
  "kept P w w' \<longleftrightarrow> good P w' \<and> bad_closes w' = bad_closes w \<and> mtab w' = mtab w \<and>
     removals w' = removals w \<and> (\<forall>i\<in>P. itab (fs w') i = itab (fs w) i)"

definition gives :: "ino set \<Rightarrow> fs_world \<Rightarrow> ('e + fd) \<times> fs_world \<Rightarrow> bool" where
  "gives P w rw \<longleftrightarrow> (case rw of (r, w') \<Rightarrow> kept P w w' \<and>
     (case r of Inl e \<Rightarrow> fds w' = fds w
      | Inr d \<Rightarrow> d \<notin> dom (fds w) \<and> (\<exists>i. i \<notin> P \<and> fds w' = (fds w)(d \<mapsto> i))))"

lemma kept_refl: "good P w \<Longrightarrow> kept P w w"
  by (simp add: kept_def)

lemma kept_trans: "kept P w w' \<Longrightarrow> kept P w' w'' \<Longrightarrow> kept P w w''"
  by (auto simp: kept_def)

lemma kept_good: "kept P w w' \<Longrightarrow> good P w'"
  by (simp add: kept_def)

lemma gives_Inl: "gives P w (Inl e, w') \<longleftrightarrow> kept P w w' \<and> fds w' = fds w"
  by (simp add: gives_def)

lemma gives_Inr:
  "gives P w (Inr d, w') \<longleftrightarrow>
     kept P w w' \<and> d \<notin> dom (fds w) \<and> (\<exists>i. i \<notin> P \<and> fds w' = (fds w)(d \<mapsto> i))"
  by (simp add: gives_def)

lemmas gives_simps = gives_Inl gives_Inr

text \<open>Two steps, of which the first left the descriptor table alone.\<close>

lemma gives_after: "kept P w w1 \<Longrightarrow> fds w1 = fds w \<Longrightarrow> gives P w1 rw \<Longrightarrow> gives P w rw"
  by (auto simp: gives_def dest: kept_trans split: prod.splits sum.splits)

subsection \<open>System calls\<close>

lemma enter_simps [simp]:
  "fds (enter E w) = fds w" "fd_next (enter E w) = fd_next w" "bad_closes (enter E w) = bad_closes w"
  "mtab (enter E w) = mtab w" "removals (enter E w) = removals w"
  by (simp_all add: enter_def)

lemma kept_enter: "confines P E \<Longrightarrow> good P w \<Longrightarrow> kept P w (enter E w)"
  by (auto simp: kept_def good_def confines_def enter_def)

lemma syscallE:
  assumes "syscall E k w = (r, w')"
  obtains e where "r = Inl e" "w' = enter E w"
  | "k (clock w) (enter E w) = (r, w')"
  using assms by (auto simp: syscall_def split: option.splits)

lemma gives_new_fd:
  assumes "good P w" and "i \<notin> P"
  shows "gives P w (new_fd i w)"
proof -
  have "fds w (fd_next w) = None" using assms(1) by (cases "fds w (fd_next w)") (auto simp: good_def)
  with assms show ?thesis
    by (auto simp: new_fd_def gives_Inr kept_def good_def less_Suc_eq split: if_splits)
qed

text \<open>The rule for a call that returns a descriptor.\<close>

lemma gives_syscall:
  assumes "confines P E" and "good P w"
    and "\<And>n w1. kept P w w1 \<Longrightarrow> fds w1 = fds w \<Longrightarrow> gives P w1 (k n w1)"
  shows "gives P w (syscall E k w)"
proof -
  have "kept P w (enter E w)" using assms(1,2) by (rule kept_enter)
  with assms(3) [of "enter E w"] show ?thesis
    by (auto simp: syscall_def gives_Inl intro: gives_after split: option.splits)
qed

lemma gives_error: "good P w \<Longrightarrow> gives P w (Inl e, w)"
  by (simp add: gives_Inl kept_refl)

lemma gives_dup: "confines P E \<Longrightarrow> good P w \<Longrightarrow> (\<And>i. fds w d = Some i \<Longrightarrow> i \<notin> P) \<Longrightarrow> gives P w (sys_dup E d w)"
  unfolding sys_dup_def
  by (rule gives_syscall) (auto intro: gives_error gives_new_fd dest: kept_good split: option.splits)

lemma child_unprotected:
  assumes "guarded P f" and "d \<notin> P" and "proper_name name" and "child E n f d name = Inr j"
  shows "j \<notin> P"
proof -
  from assms(3,4) obtain m where "node_of f d = Some (Directory m)" "m name = Some j"
    by (auto simp: child_def split: option.splits node.splits)
  with assms(1,2) show ?thesis unfolding guarded_def by metis
qed

lemma gives_openat:
  assumes "confines P E" and "good P w" and "proper_name name" and "\<And>i. fds w d = Some i \<Longrightarrow> i \<notin> P"
  shows "gives P w (sys_openat E d name dir w)"
  unfolding sys_openat_def
proof (rule gives_syscall [OF assms(1,2)])
  fix n w1 assume w1: "kept P w w1" "fds w1 = fds w"
  then have g: "good P w1" "guarded P (fs w1)" by (auto simp: kept_def good_def)
  show "gives P w1 (case fds w1 d of None \<Rightarrow> (Inl EBADF, w1)
     | Some i \<Rightarrow> (case child E n (fs w1) i name of Inl e \<Rightarrow> (Inl e, w1)
          | Inr j \<Rightarrow> if dir \<and> \<not> is_directory (fs w1) j then (Inl ENOTDIR, w1) else new_fd j w1))"
    using g assms(3,4) w1(2)
    by (auto intro!: gives_error gives_new_fd dest: child_unprotected split: option.splits sum.splits)
qed

lemma gives_openat2:
  assumes "confines P E" and "good P w" and "\<And>i. fds w d = Some i \<Longrightarrow> i \<notin> P"
  shows "gives P w (sys_openat2 E d p w)"
  unfolding sys_openat2_def
proof (rule gives_syscall [OF assms(1,2)])
  fix n w1 assume w1: "kept P w w1" "fds w1 = fds w"
  then have g: "good P w1" "guarded P (fs w1)" by (auto simp: kept_def good_def)
  show "gives P w1 (case fds w1 d of None \<Rightarrow> (Inl EBADF, w1)
     | Some i \<Rightarrow> (case o_openat2 E n (fs w1) i p of Inl e \<Rightarrow> (Inl e, w1) | Inr j \<Rightarrow> new_fd j w1))"
  proof (cases "fds w1 d")
    case None
    with g show ?thesis by (simp add: gives_error)
  next
    case (Some i)
    with assms(3) w1(2) have "i \<notin> P" by simp
    with assms(1) g(2) have "\<And>j. o_openat2 E n (fs w1) i p = Inr j \<Longrightarrow> j \<notin> P"
      unfolding confines_def by metis
    with Some g(1) show ?thesis
      by (auto intro!: gives_error gives_new_fd split: sum.splits)
  qed
qed

lemma kept_fstat: "confines P E \<Longrightarrow> good P w \<Longrightarrow> sys_fstat E d w = (r, w') \<Longrightarrow> kept P w w' \<and> fds w' = fds w"
  unfolding sys_fstat_def
  by (erule syscallE) (auto simp: kept_enter split: option.splits)

lemma kept_readlink: "confines P E \<Longrightarrow> good P w \<Longrightarrow> readlinkFd E d w = (r, w') \<Longrightarrow> kept P w w' \<and> fds w' = fds w"
  unfolding readlinkFd_def sys_readlink_def
  by (auto simp: syscall_def kept_enter split: option.splits node.splits prod.splits sum.splits if_splits)

text \<open>Calls that change the file system change an inode the caller holds a descriptor of.\<close>

lemma kept_put_inode:
  assumes "good P w" and "i \<notin> P" and "node_of (fs w) i = Some (i_node x)"
  shows "kept P w (w\<lparr>fs := put_inode i x (fs w)\<rparr>)"
proof -
  have "node_of (put_inode i x (fs w)) = node_of (fs w)"
    using assms(3) by (auto simp: put_inode_def node_of_def)
  with assms show ?thesis
    by (auto simp: kept_def good_def guarded_def) (auto simp: put_inode_def)
qed

lemma kept_make_dir:
  assumes "good P w" and "i \<notin> P" and "itab (fs w) i = Some x" and "i_node x = Directory m"
  shows "kept P w (w\<lparr>fs := make_dir i name x m (fs w)\<rparr>)"
proof -
  let ?f = "make_dir i name x m (fs w)"
  have g: "guarded P (fs w)" using assms(1) by (simp add: good_def)
  then have new: "inext (fs w) \<notin> P" and lt: "\<And>j. j \<in> P \<Longrightarrow> j < inext (fs w)"
    by (auto simp: guarded_def)
  have m: "node_of (fs w) i = Some (Directory m)" using assms by (simp add: node_of_def)
  have nodes: "node_of ?f = (node_of (fs w))(inext (fs w) \<mapsto> Directory Map.empty, i \<mapsto> Directory (m(name \<mapsto> inext (fs w))))"
    by (auto simp: make_dir_def put_inode_def node_of_def)
  have "guarded P ?f" unfolding guarded_def
  proof (intro conjI ballI allI impI)
    fix j assume "j \<in> P" then show "j < inext ?f" using lt by (simp add: make_dir_def put_inode_def less_SucI)
  next
    fix d m' nm j assume "d \<notin> P" "node_of ?f d = Some (Directory m')" "m' nm = Some j"
    then show "j \<notin> P"
      using g m new unfolding nodes guarded_def by (auto split: if_splits)
  qed
  moreover have "itab ?f j = itab (fs w) j" if "j \<in> P" for j
    using that assms(2) new by (auto simp: make_dir_def put_inode_def)
  ultimately show ?thesis using assms(1) by (auto simp: kept_def good_def)
qed

lemma kept_mkdirat:
  assumes "confines P E" and "good P w" and "proper_name name" and "\<And>i. fds w d = Some i \<Longrightarrow> i \<notin> P"
    and "sys_mkdirat E d name w = (r, w')"
  shows "kept P w w' \<and> fds w' = fds w"
proof -
  have k: "kept P w (enter E w)" using assms(1,2) by (rule kept_enter)
  have mk: "kept P w (enter E w\<lparr>fs := make_dir i name x m (fs (enter E w))\<rparr>)"
    if "i \<notin> P" "itab (fs (enter E w)) i = Some x" "i_node x = Directory m" for i x m
    using kept_trans [OF k kept_make_dir] kept_good [OF k] that by blast
  from assms(5) show ?thesis
    unfolding sys_mkdirat_def
    by (rule syscallE) (use k mk assms(3,4) in \<open>auto split: option.splits node.splits if_splits\<close>)
qed

lemma kept_fchown:
  assumes "confines P E" and "good P w" and "\<And>i. fds w d = Some i \<Longrightarrow> i \<notin> P"
    and "sys_fchown E d u g w = (r, w')"
  shows "kept P w w' \<and> fds w' = fds w"
proof -
  have k: "kept P w (enter E w)" using assms(1,2) by (rule kept_enter)
  have ch: "kept P w (enter E w\<lparr>fs := put_inode i (x\<lparr>i_uid := u, i_gid := g\<rparr>) (fs (enter E w))\<rparr>)"
    if "i \<notin> P" "itab (fs (enter E w)) i = Some x" for i x
    using kept_trans [OF k kept_put_inode] kept_good [OF k] that by (simp add: node_of_def)
  from assms(4) show ?thesis
    unfolding sys_fchown_def
    by (rule syscallE) (use k ch assms(3) in \<open>auto split: option.splits\<close>)
qed

subsection \<open>Closing\<close>

lemma kept_close: "good P w \<Longrightarrow> d \<in> dom (fds w) \<Longrightarrow> kept P w (closePinFd d w)"
  by (auto simp: closePinFd_def kept_def good_def)

lemma fds_close: "fds (closePinFd d w) = (fds w)(d := None)"
  by (auto simp: closePinFd_def)

lemma close_all_simps [simp]:
  "close_all [] w = w" "close_all (d # ds) w = close_all ds (closePinFd d w)"
  by (simp_all add: close_all_def)

lemma fds_close_all: "fds (close_all ds w) = (\<lambda>d. if d \<in> set ds then None else fds w d)"
  by (induction ds arbitrary: w) (auto simp: fds_close)

lemma kept_close_all:
  "good P w \<Longrightarrow> distinct ds \<Longrightarrow> set ds \<subseteq> dom (fds w) \<Longrightarrow> kept P w (close_all ds w)"
proof (induction ds arbitrary: w)
  case (Cons d ds)
  have k: "kept P w (closePinFd d w)" using Cons.prems by (simp add: kept_close)
  moreover have "kept P (closePinFd d w) (close_all ds (closePinFd d w))"
    using Cons.prems kept_good [OF k] by (intro Cons.IH) (auto simp: fds_close)
  ultimately show ?case by (simp add: kept_trans)
qed (simp add: kept_refl)

subsection \<open>Held descriptors\<close>

text \<open>\<open>owns P B ds w\<close>: beyond the table \<open>B\<close>, exactly the descriptors \<open>ds\<close> are open, on unprotected inodes.\<close>

definition owns :: "ino set \<Rightarrow> (fd \<rightharpoonup> ino) \<Rightarrow> fd list \<Rightarrow> fs_world \<Rightarrow> bool" where
  "owns P B ds w \<longleftrightarrow> distinct ds \<and> (\<forall>d\<in>set ds. B d = None \<and> (\<exists>i. i \<notin> P \<and> fds w d = Some i)) \<and>
     (\<forall>d. d \<notin> set ds \<longrightarrow> fds w d = B d)"

lemma owns_Nil: "owns P B [] w \<longleftrightarrow> fds w = B"
  by (auto simp: owns_def)

lemma owns_same: "owns P B ds w \<Longrightarrow> fds w' = fds w \<Longrightarrow> owns P B ds w'"
  by (simp add: owns_def)

lemma owns_unprotected: "owns P B ds w \<Longrightarrow> d \<in> set ds \<Longrightarrow> fds w d = Some i \<Longrightarrow> i \<notin> P"
  by (auto simp: owns_def)

lemma owns_open:
  assumes "owns P B ds w" and "gives P w (Inr d, w')"
  shows "owns P B (d # ds) w'"
proof -
  from assms(2) obtain i where "i \<notin> P" "fds w' = (fds w)(d \<mapsto> i)" "fds w d = None"
    by (auto simp: gives_Inr)
  with assms(1) show ?thesis by (auto simp: owns_def split: if_splits)
qed

lemma owns_close: "owns P B (d # ds) w \<Longrightarrow> owns P B ds (closePinFd d w)"
  by (auto simp: owns_def fds_close)

lemma owns_close_all: "owns P B (as @ bs) w \<Longrightarrow> owns P B bs (close_all as w)"
  by (induction as arbitrary: w) (auto dest: owns_close)

lemma kept_close_held:
  assumes "good P w" and "owns P B ds w" and "distinct as" and "set as \<subseteq> set ds"
  shows "kept P w (close_all as w)"
  using assms by (intro kept_close_all) (auto simp: owns_def)

lemma gives_owns:
  "gives P w (r, w') \<longleftrightarrow> kept P w w' \<and>
     (case r of Inl e \<Rightarrow> owns P (fds w) [] w' | Inr d \<Rightarrow> owns P (fds w) [d] w')"
proof (cases r)
  case (Inr d)
  have "fds w' = (fds w)(d \<mapsto> i)" if "\<forall>x. x \<noteq> d \<longrightarrow> fds w' x = fds w x" "fds w' d = Some i" for i
    using that by auto
  with Inr show ?thesis by (auto simp: gives_Inr owns_def)
qed (simp add: gives_Inl owns_Nil)

text \<open>Giving up: everything held is closed. Returning: everything but the result is.\<close>

lemma gives_give_up:
  assumes "kept P w0 w" and "owns P (fds w0) ds w"
  shows "gives P w0 (Inl e, close_all ds w)"
proof -
  have "kept P w (close_all ds w)"
    using assms by (intro kept_close_held [OF kept_good assms(2)]) (auto simp: owns_def)
  with assms owns_close_all [of P "fds w0" ds "[]" w] show ?thesis
    by (auto simp: gives_owns intro: kept_trans)
qed

lemma gives_return:
  assumes "kept P w0 w" and "owns P (fds w0) (d # ds) w"
  shows "gives P w0 (Inr d, close_all ds w)"
proof -
  from assms(2) have "owns P (fds w0) (ds @ [d]) w" by (auto simp: owns_def)
  then have "owns P (fds w0) [d] (close_all ds w)" by (rule owns_close_all)
  moreover have "kept P w (close_all ds w)"
    using assms by (intro kept_close_held [OF kept_good assms(2)]) (auto simp: owns_def)
  ultimately show ?thesis using assms(1) by (auto simp: gives_owns intro: kept_trans)
qed

subsection \<open>The walk\<close>

lemma is_symlink_iff: "st_mode (stat_of x) AND S_IFMT = 0xA000 \<longleftrightarrow> (\<exists>t. i_node x = Symlink t)"
  by (simp add: stat_type S_IF_symlink)

lemma walk_gives:
  assumes "confines P E" and "kept P w0 w" and "owns P (fds w0) stack w" and "stack \<noteq> []"
    and "\<forall>c\<in>set rem. slash \<notin> set c"
  shows "gives P w0 (resolve_walk E links stack rem w)"
  using assms
proof (induction E links stack rem w rule: resolve_walk.induct)
  case (1 E links stack w)
  then show ?case by (cases stack) (auto intro: gives_return)
next
  case (2 E links stack name remaining w)
  note IH = "2.IH" and conf = "2.prems"(1)
  have g: "good P w" using "2.prems"(2) by (rule kept_good)
  obtain d ds where s: "stack = d # ds" using "2.prems"(4) by (cases stack) auto
  have rem: "\<forall>c\<in>set remaining. slash \<notin> set c" using "2.prems"(5) by simp
  consider (dot) "name = '''' \<or> name = ''.''" | (up) "\<not> (name = '''' \<or> name = ''.'')" "name = ''..''"
    | (name) "\<not> (name = '''' \<or> name = ''.'')" "name \<noteq> ''..''" by blast
  then show ?case
  proof cases
    case dot
    with IH(1) "2.prems" show ?thesis by simp
  next
    case up
    show ?thesis
    proof (cases "1 < length stack")
      case True
      have "kept P w (closePinFd d w)" using g "2.prems"(3) s by (intro kept_close) (auto simp: owns_def)
      with IH(2) [OF up True] "2.prems" up True s rem show ?thesis
        by (auto intro: kept_trans dest: owns_close)
    next
      case False
      with IH(3) "2.prems" up show ?thesis by simp
    qed
  next
    case name
    have pn: "proper_name name" using name "2.prems"(5) by (simp add: proper_name_def)
    obtain r1 w1 where o: "sys_openat E (hd stack) name False w = (r1, w1)"
      by (cases "sys_openat E (hd stack) name False w")
    have og: "gives P w (r1, w1)"
      unfolding o [symmetric] using owns_unprotected [OF "2.prems"(3)] s
      by (intro gives_openat [OF conf g pn]) auto
    have k1: "kept P w0 w1" using og "2.prems"(2) by (auto simp: gives_def intro: kept_trans)
    show ?thesis
    proof (cases r1)
      case (Inl e)
      with og "2.prems"(3) have "owns P (fds w0) stack w1" by (auto simp: gives_Inl intro: owns_same)
      with gives_give_up [OF k1 this] name o Inl show ?thesis by simp
    next
      case (Inr nxt)
      have h1: "owns P (fds w0) (nxt # stack) w1" using owns_open "2.prems"(3) og Inr by blast
      obtain r2 w2 where f: "sys_fstat E nxt w1 = (r2, w2)" by (cases "sys_fstat E nxt w1")
      with conf k1 have k12: "kept P w1 w2" "fds w2 = fds w1" using kept_fstat kept_good by blast+
      then have k2: "kept P w0 w2" and h2: "owns P (fds w0) (nxt # stack) w2"
        using k1 h1 by (blast intro: kept_trans owns_same)+
      show ?thesis
      proof (cases r2)
        case (Inl e)
        with name o Inr f gives_give_up [OF k2 h2] show ?thesis by simp
      next
        case st: (Inr st)
        show ?thesis
        proof (cases "st_mode st AND S_IFMT \<noteq> 0xA000")
          case True
          with IH(4) [OF name o [symmetric] Inr f [symmetric] st True] conf name o Inr f st k2 h2 rem
          show ?thesis by simp
        next
          case link: False
          obtain r3 w3 where l: "readlinkFd E nxt w2 = (r3, w3)" by (cases "readlinkFd E nxt w2")
          with conf k2 have k23: "kept P w2 w3" "fds w3 = fds w2" using kept_readlink kept_good by blast+
          then have k3: "kept P w0 w3" and h3: "owns P (fds w0) (nxt # stack) w3"
            using k2 h2 by (blast intro: kept_trans owns_same)+
          show ?thesis
          proof (cases "maxPinSymlinks < Suc links")
            case True
            with name o Inr f st link gives_give_up [OF k2 h2] show ?thesis by simp
          next
            case few: False
            show ?thesis
            proof (cases r3)
              case (Inl e)
              with name o Inr f st link few l gives_give_up [OF k3 h3] show ?thesis by simp
            next
              case t: (Inr target)
              let ?w4 = "closePinFd nxt w3"
              have h4: "owns P (fds w0) stack ?w4" using h3 by (rule owns_close)
              have k4: "kept P w0 ?w4"
                using kept_trans [OF k3 kept_close] kept_good [OF k3] h3 by (auto simp: owns_def)
              have sl: "\<forall>c\<in>set (split_on slash target @ remaining). slash \<notin> set c"
                using rem by (auto dest: split_on_no_sep)
              show ?thesis
              proof (cases "has_prefix target ''/''")
                case True
                have eq: "butlast stack @ [last stack] = stack" using s by simp
                have "owns P (fds w0) [last stack] (close_all (butlast stack) ?w4)"
                  by (rule owns_close_all) (simp only: eq h4)
                moreover have "kept P ?w4 (close_all (butlast stack) ?w4)"
                  using h4 by (intro kept_close_held [OF kept_good [OF k4] h4])
                    (auto simp: owns_def distinct_butlast dest: in_set_butlastD)
                ultimately show ?thesis
                  using IH(5) [OF name o [symmetric] Inr f [symmetric] st link few l [symmetric] t True]
                    conf name o Inr f st link few l t True k4 sl
                  by (auto intro: kept_trans)
              next
                case False
                then show ?thesis
                  using IH(6) [OF name o [symmetric] Inr f [symmetric] st link few l [symmetric] t False]
                    conf name o Inr f st link few l t h4 k4 sl s
                  by auto
              qed
            qed
          qed
        qed
      qed
    qed
  qed
qed

declare resolve_walk.simps [simp del]

lemma resolveBeneathWalk_gives:
  assumes "confines P E" and "good P w" and "\<And>i. fds w rootFd = Some i \<Longrightarrow> i \<notin> P"
    and "\<forall>c\<in>set comps. proper_name c"
  shows "gives P w (resolveBeneathWalk E rootFd comps w)"
proof -
  obtain r w1 where d: "sys_dup E rootFd w = (r, w1)" by (cases "sys_dup E rootFd w")
  with gives_dup [OF assms(1,2), of rootFd] assms(3) have g: "gives P w (r, w1)" by simp
  show ?thesis
  proof (cases r)
    case (Inl e)
    with d g show ?thesis by (simp add: resolveBeneathWalk_def gives_Inl)
  next
    case (Inr d1)
    with g have "owns P (fds w) [d1] w1" "kept P w w1"
      by (simp_all add: gives_owns)
    with walk_gives [OF assms(1), of w w1 "[d1]" comps 0] d Inr assms(4) show ?thesis
      by (auto simp: resolveBeneathWalk_def proper_name_def)
  qed
qed

lemma kept_note: "good P w \<Longrightarrow> kept P w (noteOpenat2Fallback s w) \<and> fds (noteOpenat2Fallback s w) = fds w"
  by (simp add: noteOpenat2Fallback_def kept_def good_def)

lemma kept_latch: "good P w \<Longrightarrow> kept P w (w\<lparr>openat2Unsupported := b\<rparr>)"
  by (simp add: kept_def good_def)

lemma resolveBeneath_gives:
  assumes "confines P E" and "good P w" and "\<And>i. fds w rootFd = Some i \<Longrightarrow> i \<notin> P"
    and "\<forall>c\<in>set comps. proper_name c"
  shows "gives P w (resolveBeneath E rootFd comps w)"
proof -
  obtain r w1 where d: "sys_dup E rootFd w = (r, w1)" by (cases "sys_dup E rootFd w")
  with gives_dup [OF assms(1,2), of rootFd] assms(3) have g: "gives P w (r, w1)" by simp
  obtain r2 w2 where o: "sys_openat2 E rootFd (str_join ''/'' comps) w = (r2, w2)"
    by (cases "sys_openat2 E rootFd (str_join ''/'' comps) w")
  with gives_openat2 [OF assms(1,2), of rootFd] assms(3) have g2: "gives P w (r2, w2)" by (metis)
  have walk: "gives P w (resolveBeneathWalk E rootFd comps w3)" if "kept P w w3" "fds w3 = fds w" for w3
    using resolveBeneathWalk_gives [OF assms(1) kept_good [OF that(1)], of rootFd comps] that assms(3,4)
    by (auto intro: gives_after)
  have fallback: "gives P w (resolveBeneathWalk E rootFd comps (noteOpenat2Fallback s w2))"
    "gives P w (resolveBeneathWalk E rootFd comps (noteOpenat2Fallback s (w2\<lparr>openat2Unsupported := True\<rparr>)))"
    if "kept P w w2" "fds w2 = fds w" for s
  proof -
    have l: "kept P w (w2\<lparr>openat2Unsupported := True\<rparr>)"
      using kept_trans [OF that(1) kept_latch [OF kept_good [OF that(1)]]] .
    show "gives P w (resolveBeneathWalk E rootFd comps (noteOpenat2Fallback s w2))"
      using that kept_note [OF kept_good [OF that(1)]] by (auto intro!: walk intro: kept_trans)
    show "gives P w (resolveBeneathWalk E rootFd comps (noteOpenat2Fallback s (w2\<lparr>openat2Unsupported := True\<rparr>)))"
      using l that(2) kept_note [OF kept_good [OF l]] by (auto intro!: walk intro: kept_trans)
  qed
  show ?thesis
    using g g2 d o walk [OF kept_refl [OF assms(2)]] fallback
    by (auto simp: resolveBeneath_def gives_simps split: sum.splits)
qed

subsection \<open>Creation\<close>

lemma create_components_gives:
  assumes "confines P E" and "kept P w0 w" and "owns P (fds w0) [cur] w" and "\<forall>c\<in>set missing. proper_name c"
  shows "gives P w0 (create_components E u g cur missing w)"
  using assms
proof (induction E u g cur missing w rule: create_components.induct)
  case (1 E u g cur w)
  then show ?case using gives_return [of P w0 w cur "[]"] by simp
next
  case (2 E u g cur name missing w)
  note conf = "2.prems"(1) and IH = "2.IH"
  have good: "good P w" using "2.prems"(2) by (rule kept_good)
  have pn: "proper_name name" using "2.prems"(4) by simp
  obtain r1 w1 where m: "sys_mkdirat E cur name w = (r1, w1)" by (cases "sys_mkdirat E cur name w")
  have "kept P w w1 \<and> fds w1 = fds w"
    by (rule kept_mkdirat [OF conf good pn _ m]) (use owns_unprotected [OF "2.prems"(3)] in auto)
  then have k1: "kept P w0 w1" and h1: "owns P (fds w0) [cur] w1"
    using "2.prems"(2,3) by (blast intro: kept_trans owns_same)+
  let ?fatal = "case r1 of Inl e \<Rightarrow> \<not> is_ErrExist (Errno e) | Inr _ \<Rightarrow> False"
  show ?case
  proof (cases ?fatal)
    case True
    with m gives_give_up [OF k1 h1] show ?thesis by simp
  next
    case nf: False
    obtain r2 w2 where o: "sys_openat E cur name True w1 = (r2, w2)" by (cases "sys_openat E cur name True w1")
    have og: "gives P w1 (r2, w2)"
      unfolding o [symmetric] using owns_unprotected [OF h1]
      by (intro gives_openat [OF conf kept_good [OF k1] pn]) auto
    have k2: "kept P w0 w2" using og k1 by (auto simp: gives_def intro: kept_trans)
    show ?thesis
    proof (cases r2)
      case (Inl e)
      with og h1 have "owns P (fds w0) [cur] w2" by (auto simp: gives_Inl intro: owns_same)
      with m nf o Inl gives_give_up [OF k2 this] show ?thesis by simp
    next
      case nxt: (Inr nxt)
      have h2: "owns P (fds w0) [nxt, cur] w2" using owns_open [OF h1] og nxt by blast
      obtain r3 w3 where c: "sys_fchown E nxt u g w2 = (r3, w3)" by (cases "sys_fchown E nxt u g w2")
      have "kept P w2 w3 \<and> fds w3 = fds w2"
        by (rule kept_fchown [OF conf kept_good [OF k2] _ c]) (use owns_unprotected [OF h2] in auto)
      then have k3: "kept P w0 w3" and h3: "owns P (fds w0) [nxt, cur] w3"
        using k2 h2 by (blast intro: kept_trans owns_same)+
      have h3': "owns P (fds w0) [cur, nxt] w3" using h3 by (auto simp: owns_def)
      show ?thesis
      proof (cases r3)
        case (Inl e)
        with m nf o nxt c gives_give_up [OF k3 h3] show ?thesis by simp
      next
        case (Inr x)
        have "kept P w0 (closePinFd cur w3)"
          using kept_trans [OF k3 kept_close] kept_good [OF k3] h3 by (auto simp: owns_def)
        then show ?thesis
          using IH [OF m [symmetric] nf o [symmetric] nxt c [symmetric] Inr] conf m nf o nxt c Inr
            owns_close [OF h3'] "2.prems"(4) by simp
      qed
    qed
  qed
qed

lemma createUnder_gives:
  assumes "confines P E" and "kept P w0 w" and "owns P (fds w0) [parentFd] w"
    and "\<forall>c\<in>set missing. proper_name c"
  shows "gives P w0 (createUnder E parentFd missing w)"
proof -
  obtain r w1 where f: "sys_fstat E parentFd w = (r, w1)" by (cases "sys_fstat E parentFd w")
  with kept_fstat [OF assms(1) kept_good [OF assms(2)] f] assms(2,3)
  have k: "kept P w0 w1" and h: "owns P (fds w0) [parentFd] w1" by (blast intro: kept_trans owns_same)+
  show ?thesis
    using f gives_give_up [OF k h] create_components_gives [OF assms(1) k h assms(4)]
    by (auto simp: createUnder_def split: sum.splits)
qed

lemma create_from_gives:
  assumes "confines P E" and "good P w" and "\<And>i. fds w rootFd = Some i \<Longrightarrow> i \<notin> P"
    and "\<forall>c\<in>set comps. proper_name c"
  shows "gives P w (create_from E rootFd comps i w)"
  using assms(2,3)
proof (induction i arbitrary: w)
  case 0
  then show ?case by (simp add: gives_error)
next
  case (Suc i)
  obtain r w1 where b: "resolveBeneath E rootFd (take i comps) w = (r, w1)"
    by (cases "resolveBeneath E rootFd (take i comps) w")
  have g: "gives P w (r, w1)"
    unfolding b [symmetric] using assms(4) Suc.prems
    by (intro resolveBeneath_gives [OF assms(1)]) (auto dest: in_set_takeD)
  show ?case
  proof (cases r)
    case (Inl e)
    with g have k: "kept P w w1" "fds w1 = fds w" by (auto simp: gives_Inl)
    with Suc.IH [of w1] Suc.prems(2) kept_good [OF k(1)] b Inl g show ?thesis
      by (auto intro: gives_after)
  next
    case (Inr d)
    with g have "owns P (fds w) [d] w1" "kept P w w1"
      by (simp_all add: gives_owns)
    moreover have "\<forall>c\<in>set (drop i comps). proper_name c" using assms(4) by (auto dest: in_set_dropD)
    ultimately show ?thesis
      using createUnder_gives [OF assms(1), of w w1 d "drop i comps"] b Inr by simp
  qed
qed

lemma resolve_or_create_gives:
  assumes "confines P E" and "good P w" and "\<And>i. fds w rootFd = Some i \<Longrightarrow> i \<notin> P"
    and "\<forall>c\<in>set comps. proper_name c"
  shows "gives P w (resolve_or_create E rootFd comps autoCreate w)"
proof -
  obtain r w1 where b: "resolveBeneath E rootFd comps w = (r, w1)" by (cases "resolveBeneath E rootFd comps w")
  with resolveBeneath_gives [OF assms(1,2) _ assms(4), of rootFd] assms(3) have g: "gives P w (r, w1)" by simp
  show ?thesis
  proof (cases r)
    case (Inl e)
    with g have k: "kept P w w1" "fds w1 = fds w" by (auto simp: gives_Inl)
    with create_from_gives [OF assms(1) kept_good [OF k(1)], of rootFd comps "length comps"] assms(3,4) g b Inl
    show ?thesis by (auto simp: resolve_or_create_def createBeneath_def intro: gives_after)
  qed (use b g in \<open>simp add: resolve_or_create_def\<close>)
qed

subsection \<open>Components of a bind source\<close>

lemma component_list_proper: "\<forall>c\<in>set cs. proper_name c \<Longrightarrow> component_list cs = Inr cs"
  by (induction cs) (auto simp: proper_name_def)

lemma pathComponents_eq: "pathComponents rel = Inr (clean_components rel)"
proof -
  let ?cs = "clean_components rel"
  have pr: "\<forall>c\<in>set ?cs. proper_name c" using clean_components_proper by blast
  have r: "trim_prefix (path_Clean (slash # rel)) ''/'' = str_join ''/'' ?cs"
    by (simp add: path_Clean_rooted)
  have "str_join ''/'' ?cs \<noteq> ''.''"
    using clean_components_join [OF pr] by (auto simp: clean_components_def clean_step_def)
  moreover have "str_join ''/'' ?cs = '''' \<longleftrightarrow> ?cs = []"
    using pr by (intro str_join_Nil_iff) (auto simp: proper_name_def)
  moreover have "split_on slash (str_join ''/'' ?cs) = ?cs" if "?cs \<noteq> []"
    using that pr by (intro split_on_join) (auto simp: proper_name_def)
  ultimately show ?thesis
    using component_list_proper [OF pr] by (auto simp: pathComponents_def Let_def r)
qed

text \<open>
  \<^verbatim>\<open>pathComponents\<close> of a bind source never fails: whatever the job wrote, what is left is
  a list of proper names, none of them empty, \<open>.\<close> or \<open>..\<close>, none containing a slash, so every
  name later handed to \<^verbatim>\<open>openat\<close> or \<^verbatim>\<open>mkdirat\<close> is that of a directory entry. They are the
  components the rooted lexical cleaning keeps: a leading \<open>..\<close> is clamped at the root, and the
  traversal error of the code is never returned.
\<close>

lemma pathComponents_are_names:
  "pathComponents rel = Inr (clean_components rel) \<and> list_all proper_name (clean_components rel)"
  using pathComponents_eq clean_components_proper by (auto simp: list_all_iff)

subsection \<open>Pinning\<close>

text \<open>The judgement of an operation that returns a pin: \<open>pin_of P w p w'\<close> when it is fresh.\<close>

definition pin_gives :: "ino set \<Rightarrow> fs_world \<Rightarrow> ('e + bindPin) \<times> fs_world \<Rightarrow> bool" where
  "pin_gives P w rw \<longleftrightarrow> (case rw of (r, w') \<Rightarrow> kept P w w' \<and>
     (case r of Inl e \<Rightarrow> fds w' = fds w
      | Inr p \<Rightarrow> \<exists>d i. pin_fd p = int d \<and> unstage p = None \<and> staged p = '''' \<and> \<not> pin_closed p \<and>
                   fds w d = None \<and> i \<notin> P \<and> fds w' = (fds w)(d \<mapsto> i)))"

lemma newBindPin_gives:
  assumes "confines P E" and "kept P w0 w" and "owns P B [d] w"
  shows "case newBindPin E d lg w of (r, w') \<Rightarrow> kept P w0 w' \<and>
     (case r of Inl e \<Rightarrow> fds w' = B
      | Inr p \<Rightarrow> pin_fd p = int d \<and> unstage p = None \<and> staged p = '''' \<and> \<not> pin_closed p \<and> owns P B [d] w')"
proof -
  obtain r w1 where f: "sys_fstat E d w = (r, w1)" by (cases "sys_fstat E d w")
  with kept_fstat [OF assms(1) kept_good [OF assms(2)] f] assms(2,3)
  have k: "kept P w0 w1" and h: "owns P B [d] w1" by (blast intro: kept_trans owns_same)+
  have "kept P w0 (closePinFd d w1)"
    using kept_trans [OF k kept_close] kept_good [OF k] h by (auto simp: owns_def)
  moreover have "fds (closePinFd d w1) = B" using owns_close [OF h] by (simp add: owns_Nil)
  ultimately show ?thesis using f k h by (simp add: newBindPin_def split: sum.splits)
qed

definition roots_unprotected :: "ino set \<Rightarrow> outside \<Rightarrow> string set \<Rightarrow> bool" where
  "roots_unprotected P E R \<longleftrightarrow> (\<forall>r\<in>R. \<forall>n f i. guarded P f \<longrightarrow> o_open E n f r = Inr i \<longrightarrow> i \<notin> P)"

lemma gives_open_path:
  assumes "confines P E" and "good P w" and "roots_unprotected P E R" and "r \<in> R"
  shows "gives P w (open_path E r w)" and "gives P w (open_dir E r w)"
proof -
  have u: "i \<notin> P" if "good P w1" "o_open E n (fs w1) r = Inr i" for n w1 i
    using that assms(3,4) unfolding roots_unprotected_def good_def by metis
  show "gives P w (open_path E r w)" unfolding open_path_def
    by (rule gives_syscall [OF assms(1,2)])
       (auto intro!: gives_error gives_new_fd dest: kept_good u split: sum.splits)
  show "gives P w (open_dir E r w)" unfolding open_dir_def
    by (rule gives_syscall [OF assms(1,2)])
       (auto intro!: gives_error gives_new_fd dest: kept_good u split: sum.splits option.splits node.splits)
qed

lemma pinBindSource_gives:
  assumes "confines P E" and "good P w" and "roots_unprotected P E R" and "rootPath \<in> R"
  shows "pin_gives P w (pinBindSource E rootPath rel autoCreate w)"
proof -
  let ?cs = "clean_components rel" and ?lg = "logicalPath rootPath (clean_components rel)"
  have pr: "\<forall>c\<in>set ?cs. proper_name c" using clean_components_proper by blast
  obtain r1 w1 where o1: "open_path E rootPath w = (r1, w1)" by (cases "open_path E rootPath w")
  obtain r2 w2 where o2: "open_dir E rootPath w = (r2, w2)" by (cases "open_dir E rootPath w")
  from gives_open_path [OF assms] o1 o2 have g: "gives P w (r1, w1)" "gives P w (r2, w2)" by simp_all
  show ?thesis
  proof (cases "?cs = []")
    case True
    show ?thesis
    proof (cases r1)
      case (Inl e)
      with True o1 g(1) show ?thesis
        by (simp add: pinBindSource_def pathComponents_eq pin_gives_def gives_Inl)
    next
      case (Inr d)
      with g(1) have "kept P w w1" "owns P (fds w) [d] w1" by (simp_all add: gives_owns)
      from newBindPin_gives [OF assms(1) this, of "logicalPath rootPath []"] True o1 Inr show ?thesis
        by (auto simp: pinBindSource_def pathComponents_eq pin_gives_def gives_owns [symmetric]
            owns_def fun_eq_iff split: prod.splits sum.splits)
    qed
  next
    case False
    show ?thesis
    proof (cases r2)
      case (Inl e)
      with False o2 g(2) show ?thesis
        by (simp add: pinBindSource_def pathComponents_eq pin_gives_def gives_Inl)
    next
      case rootFd: (Inr rootFd)
      with g(2) have k2: "kept P w w2" and h2: "owns P (fds w) [rootFd] w2" by (simp_all add: gives_owns)
      obtain r3 w3 where rc: "resolve_or_create E rootFd ?cs autoCreate w2 = (r3, w3)"
        by (cases "resolve_or_create E rootFd ?cs autoCreate w2")
      have g3: "gives P w2 (r3, w3)"
        unfolding rc [symmetric] using owns_unprotected [OF h2]
        by (intro resolve_or_create_gives [OF assms(1) kept_good [OF k2] _ pr]) auto
      have k3: "kept P w w3" using g3 k2 by (auto simp: gives_def intro: kept_trans)
      show ?thesis
      proof (cases r3)
        case (Inl e)
        with g3 h2 have h3: "owns P (fds w) [rootFd] w3" by (auto simp: gives_Inl intro: owns_same)
        with False o2 rootFd rc Inl gives_give_up [OF k3 h3] show ?thesis
          by (simp add: pinBindSource_def pathComponents_eq pin_gives_def gives_Inl)
      next
        case d: (Inr d)
        have h3: "owns P (fds w) [d, rootFd] w3" using owns_open [OF h2] g3 d by blast
        then have hb: "owns P (fds w2) [d] w3" using h2 g3 d by (simp add: gives_owns)
        obtain r4 w4 where p: "newBindPin E d ?lg w3 = (r4, w4)" by (cases "newBindPin E d ?lg w3")
        have n: "kept P w w4 \<and> (case r4 of Inl e \<Rightarrow> fds w4 = fds w2
          | Inr p \<Rightarrow> pin_fd p = int d \<and> unstage p = None \<and> staged p = '''' \<and> \<not> pin_closed p \<and> owns P (fds w2) [d] w4)"
          using newBindPin_gives [OF assms(1) k3 hb, of ?lg] p by simp
        have open4: "rootFd \<in> dom (fds w4)"
          using n h2 hb by (auto simp: owns_def split: sum.splits)
        have k5: "kept P w (closePinFd rootFd w4)"
          using kept_trans [of P w w4] kept_close [OF kept_good, of P w w4] n open4 by blast
        have "pin_gives P w (r4, closePinFd rootFd w4)"
        proof (cases r4)
          case (Inl e)
          with n h2 have "owns P (fds w) [rootFd] w4" by (auto intro: owns_same)
          with k5 Inl show ?thesis by (auto simp: pin_gives_def owns_Nil dest: owns_close)
        next
          case (Inr q)
          with n h2 h3 have "owns P (fds w) [rootFd, d] w4" by (auto simp: owns_def split: if_splits)
          then have "owns P (fds w) [d] (closePinFd rootFd w4)" by (rule owns_close)
          with k5 Inr n show ?thesis
            by (auto simp: pin_gives_def owns_def fun_eq_iff)
        qed
        with False o2 rootFd rc d p show ?thesis
          by (simp add: pinBindSource_def pathComponents_eq)
      qed
    qed
  qed
qed

end
