(* ===== verification/Bind_Translate_Laws.thy ===== *)
theory Bind_Translate_Laws
  imports Bind_Translate Bind_Pin_Laws
begin

text \<open>
  What bind translation promises: the bind table is searched for its longest entry whatever the
  order of the map, staging and closing keep the mount table free of protected inodes and never
  remove a directory that still has a mount below it, and the mounts of a sibling container
  come from the bind table or from inodes outside the protected ones.
\<close>

subsection \<open>The longest entry\<close>

definition covers :: "string \<Rightarrow> string \<Rightarrow> bool" where
  "covers src k \<longleftrightarrow> src = k \<or> has_prefix src (k @ ''/'')"

definition rest_of :: "string \<Rightarrow> string \<Rightarrow> string" where
  "rest_of src k = (if src = k then '''' else trim_prefix src (k @ ''/''))"

lemma match_keys_find:
  "match_keys src ks = map_option (\<lambda>(k, h). (h, rest_of src k)) (find (\<lambda>(k, h). covers src k) ks)"
  by (induction ks rule: match_keys.induct) (auto simp: covers_def rest_of_def)

lemma covers_prefix: "covers src k \<Longrightarrow> prefix k src"
  by (auto simp: covers_def has_prefix_iff prefix_def)

lemma covers_unique: "covers src k \<Longrightarrow> covers src k' \<Longrightarrow> length k = length k' \<Longrightarrow> k = k'"
  by (auto dest!: covers_prefix simp: prefix_def append_eq_append_conv)

lemma sorted_find:
  assumes "sorted (map f xs)" and "find P xs = Some x" and "y \<in> set xs" and "P y"
  shows "f x \<le> (f y :: 'b :: linorder)"
  using assms by (induction xs) (auto split: if_splits)

lemma find_SomeD: "find P xs = Some x \<Longrightarrow> x \<in> set xs \<and> P x"
  by (induction xs) (auto split: if_splits)

lemma match_longest:
  assumes "matchBindPrefix src binds = Some (h, sfx)"
  obtains k where "(k, h) \<in> set binds" "covers src k" "sfx = rest_of src k"
    "\<And>k' h'. (k', h') \<in> set binds \<Longrightarrow> covers src k' \<Longrightarrow> length k' \<le> length k"
proof -
  let ?s = "sort_key (\<lambda>(k, h :: string). - int (length k)) binds"
  from assms obtain k where f: "find (\<lambda>(k, h). covers src k) ?s = Some (k, h)" and sfx: "sfx = rest_of src k"
    by (auto simp: matchBindPrefix_def match_keys_find split: if_splits)
  from f have k: "(k, h) \<in> set binds" "covers src k"
    by (auto dest!: find_SomeD)
  have "length k' \<le> length k" if "(k', h') \<in> set binds" "covers src k'" for k' h'
    using sorted_find [OF sorted_sort_key f, of "(k', h')"] that by simp
  with k sfx that show ?thesis by blast
qed

lemma match_None: "matchBindPrefix src binds = None \<longleftrightarrow> (\<forall>(k, h)\<in>set binds. \<not> covers src k)"
  by (auto simp: matchBindPrefix_def match_keys_find find_None_iff)

lemma match_order_irrelevant:
  assumes "set binds = set binds'" and "distinct (map fst binds)" and "distinct (map fst binds')"
  shows "matchBindPrefix src binds = matchBindPrefix src binds'"
proof (cases "matchBindPrefix src binds")
  case None
  with assms(1) show ?thesis by (metis match_None)
next
  case (Some r)
  then have "matchBindPrefix src binds' \<noteq> None" by (metis assms(1) match_None option.distinct(1))
  then obtain h sfx h' sfx' where m: "matchBindPrefix src binds = Some (h, sfx)" "matchBindPrefix src binds' = Some (h', sfx')"
    using Some by (cases r) auto
  from match_longest [OF m(1)] obtain k where k: "(k, h) \<in> set binds" "covers src k" "sfx = rest_of src k"
    "\<And>k' h'. (k', h') \<in> set binds \<Longrightarrow> covers src k' \<Longrightarrow> length k' \<le> length k" by blast
  from match_longest [OF m(2)] obtain k' where k': "(k', h') \<in> set binds'" "covers src k'" "sfx' = rest_of src k'"
    "\<And>k h. (k, h) \<in> set binds' \<Longrightarrow> covers src k \<Longrightarrow> length k \<le> length k'" by blast
  have "k = k'" using k(1,2,4) k'(1,2,4) assms(1) by (metis covers_unique le_antisym)
  moreover have "h = h'" using k(1) k'(1) \<open>k = k'\<close> assms by (metis eq_key_imp_eq_value)
  ultimately show ?thesis using m k(3) k'(3) by simp
qed

subsection \<open>Mounts and removals\<close>

definition mounts_ok :: "ino set \<Rightarrow> (string \<times> ino option) list \<Rightarrow> bool" where
  "mounts_ok P mt \<longleftrightarrow> (\<forall>mp j. (mp, Some j) \<in> set mt \<longrightarrow> j \<notin> P)"

definition removals_ok :: "(string \<times> (string \<times> ino option) list) list \<Rightarrow> bool" where
  "removals_ok rs \<longleftrightarrow> (\<forall>(d, mt)\<in>set rs. \<forall>m\<in>set mt. \<not> under_dir d (fst m))"

definition safe :: "ino set \<Rightarrow> fs_world \<Rightarrow> fs_world \<Rightarrow> bool" where
  "safe P w w' \<longleftrightarrow> good P w' \<and> bad_closes w' = bad_closes w \<and> (\<forall>i\<in>P. itab (fs w') i = itab (fs w) i) \<and>
     (mounts_ok P (mtab w) \<longrightarrow> mounts_ok P (mtab w')) \<and> (removals_ok (removals w) \<longrightarrow> removals_ok (removals w'))"

lemma safe_refl: "good P w \<Longrightarrow> safe P w w"
  by (simp add: safe_def)

lemma safe_trans: "safe P w w' \<Longrightarrow> safe P w' w'' \<Longrightarrow> safe P w w''"
  by (auto simp: safe_def)

lemma safe_good: "safe P w w' \<Longrightarrow> good P w'"
  by (simp add: safe_def)

lemma kept_safe: "kept P w w' \<Longrightarrow> safe P w w'"
  by (simp add: safe_def kept_def)

text \<open>The steps of staging leave the descriptors alone.\<close>

definition calm :: "ino set \<Rightarrow> fs_world \<Rightarrow> fs_world \<Rightarrow> bool" where
  "calm P w w' \<longleftrightarrow> safe P w w' \<and> fds w' = fds w"

lemma calm_refl: "good P w \<Longrightarrow> calm P w w"
  by (simp add: calm_def safe_refl)

lemma calm_trans [trans]: "calm P w w' \<Longrightarrow> calm P w' w'' \<Longrightarrow> calm P w w''"
  by (auto simp: calm_def intro: safe_trans)

lemma calm_good: "calm P w w' \<Longrightarrow> good P w'"
  by (auto simp: calm_def dest: safe_good)

lemma calm_enter: "confines P E \<Longrightarrow> good P w \<Longrightarrow> calm P w (enter E w)"
  by (simp add: calm_def kept_safe kept_enter)

lemma calm_syscall:
  assumes "confines P E" and "good P w" and "syscall E k w = (r, w')"
    and "\<And>n w1 r w2. good P w1 \<Longrightarrow> fds w1 = fds w \<Longrightarrow> k n w1 = (r, w2) \<Longrightarrow> calm P w1 w2"
  shows "calm P w w'"
proof -
  have e: "calm P w (enter E w)" using assms(1,2) by (rule calm_enter)
  from assms(3) show ?thesis
  proof (rule syscallE)
    assume "k (clock w) (enter E w) = (r, w')"
    then show ?thesis using calm_trans [OF e assms(4)] calm_good [OF e] by simp
  qed (use e in simp)
qed

lemma calm_other: "confines P E \<Longrightarrow> good P w \<Longrightarrow> sys_other E w = (r, w') \<Longrightarrow> calm P w w'"
  unfolding sys_other_def by (erule (2) calm_syscall) (auto intro: calm_refl)

lemma calm_lstat: "confines P E \<Longrightarrow> good P w \<Longrightarrow> sys_lstat E p w = (r, w') \<Longrightarrow> calm P w w'"
  unfolding sys_lstat_def by (erule (2) calm_syscall) (auto intro: calm_refl)

lemma calm_push:
  "good P w \<Longrightarrow> (\<And>j. i = Some j \<Longrightarrow> j \<notin> P) \<Longrightarrow> calm P w (w\<lparr>mtab := (mp, i) # mtab w\<rparr>)"
  by (auto simp: calm_def safe_def good_def mounts_ok_def)

lemma calm_bind:
  "confines P E \<Longrightarrow> good P w \<Longrightarrow> (\<And>j. i = Some j \<Longrightarrow> j \<notin> P) \<Longrightarrow> sys_bind E i mp w = (r, w') \<Longrightarrow> calm P w w'"
  unfolding sys_bind_def by (erule (1) calm_syscall, assumption) (auto intro: calm_push)

lemma calm_shrink: "good P w \<Longrightarrow> set mt \<subseteq> set (mtab w) \<Longrightarrow> calm P w (w\<lparr>mtab := mt\<rparr>)"
  by (auto simp: calm_def safe_def good_def mounts_ok_def)

lemma calm_umount: "confines P E \<Longrightarrow> good P w \<Longrightarrow> sys_umount E mp w = (r, w') \<Longrightarrow> calm P w w'"
  unfolding sys_umount_def
  by (erule (2) calm_syscall)
     (auto intro!: calm_shrink calm_refl set_remove1_subset split: if_splits option.splits)

lemma calm_detach: "confines P E \<Longrightarrow> good P w \<Longrightarrow> calm P w (detachMount E mp w)"
proof -
  have "calm P w (detach_loop E n mp w)" if "confines P E" "good P w" for n
    using that(2)
  proof (induction n arbitrary: w)
    case (Suc n)
    obtain r w1 where u: "sys_umount E mp w = (r, w1)" by (cases "sys_umount E mp w")
    with calm_umount [OF that(1) Suc.prems] have "calm P w w1" by simp
    with Suc.IH [OF calm_good [OF this]] u show ?case by (auto split: sum.splits intro: calm_trans)
  qed (simp add: calm_refl)
  then show "confines P E \<Longrightarrow> good P w \<Longrightarrow> calm P w (detachMount E mp w)" by (simp add: detachMount_def)
qed

lemma calm_mountPoints:
  "confines P E \<Longrightarrow> good P w \<Longrightarrow> mountPointsUnder E dir w = (r, w') \<Longrightarrow> calm P w w'"
  unfolding mountPointsUnder_def by (auto split: prod.splits sum.splits dest: calm_other)

lemma mountPoints_Inr:
  assumes "mountPointsUnder E dir w = (Inr ms, w')"
  shows "ms = filter (under_dir dir) (map fst (mtab w'))"
  using assms unfolding mountPointsUnder_def by (auto split: prod.splits sum.splits)

lemma calm_unmountAndRemove: "confines P E \<Longrightarrow> good P w \<Longrightarrow> calm P w (snd (unmountAndRemove E target w))"
proof -
  assume a: "confines P E" "good P w"
  have d: "calm P w (detachMount E target w)" using a by (rule calm_detach)
  obtain r w1 where m: "mountPointsUnder E target (detachMount E target w) = (r, w1)"
    by (cases "mountPointsUnder E target (detachMount E target w)")
  have c1: "calm P w w1" using calm_trans [OF d calm_mountPoints [OF a(1) calm_good [OF d] m]] .
  obtain r2 w2 where o: "sys_other E w1 = (r2, w2)" by (cases "sys_other E w1")
  have "calm P w w2" using calm_trans [OF c1 calm_other [OF a(1) calm_good [OF c1] o]] .
  with c1 m o show ?thesis by (auto simp: unmountAndRemove_def split: sum.splits)
qed

text \<open>The tree is removed only when no mount point is left at or below it.\<close>

lemma calm_removeAll:
  assumes "confines P E" and "good P w" and "filter (under_dir dir) (map fst (mtab w)) = []"
    and "removeAll E dir w = (r, w')"
  shows "calm P w w'"
proof -
  have "calm P w (w\<lparr>removals := removals w @ [(dir, mtab w)]\<rparr>)"
    using assms(2,3) by (auto simp: calm_def safe_def good_def removals_ok_def filter_empty_conv)
  from calm_trans [OF this calm_other [OF assms(1) calm_good [OF this]]] assms(4) show ?thesis
    by (simp add: removeAll_def)
qed

lemma calm_unmountTreeAndRemove:
  assumes "confines P E" and "good P w"
  shows "calm P w (snd (unmountTreeAndRemove E dir w))"
proof -
  obtain r1 w1 where m1: "mountPointsUnder E dir w = (r1, w1)" by (cases "mountPointsUnder E dir w")
  have c1: "calm P w w1" using calm_mountPoints [OF assms m1] .
  show ?thesis
  proof (cases r1)
    case (Inl e)
    with m1 c1 show ?thesis by (simp add: unmountTreeAndRemove_def)
  next
    case (Inr ms)
    let ?w2 = "foldl (\<lambda>w mp. detachMount E mp w) w1 (sort_key (\<lambda>m. - int (length m)) ms)"
    have fold: "calm P v (foldl (\<lambda>w mp. detachMount E mp w) v xs)" if "good P v" for v xs
      using that
    proof (induction xs arbitrary: v)
      case (Cons x xs)
      have "calm P v (detachMount E x v)" using assms(1) Cons.prems by (rule calm_detach)
      with Cons.IH [OF calm_good [OF this]] show ?case by (auto intro: calm_trans)
    qed (simp add: calm_refl)
    have c2: "calm P w ?w2" using c1 fold [OF calm_good [OF c1]] by (rule calm_trans)
    obtain r3 w3 where m3: "mountPointsUnder E dir ?w2 = (r3, w3)" by (cases "mountPointsUnder E dir ?w2")
    have c3: "calm P w w3" using calm_trans [OF c2 calm_mountPoints [OF assms(1) calm_good [OF c2] m3]] .
    obtain r4 w4 where rm: "removeAll E dir w3 = (r4, w4)" by (cases "removeAll E dir w3")
    show ?thesis
    proof (cases "r3 = Inr []")
      case True
      with mountPoints_Inr m3 have "filter (under_dir dir) (map fst (mtab w3)) = []" by metis
      from calm_trans [OF c3 calm_removeAll [OF assms(1) calm_good [OF c3] this rm]] m1 Inr m3 rm True c3
      show ?thesis by (auto simp: unmountTreeAndRemove_def split: sum.splits)
    next
      case False
      with m1 Inr m3 c3 show ?thesis by (auto simp: unmountTreeAndRemove_def split: sum.splits)
    qed
  qed
qed

subsection \<open>The phases of a removal\<close>

definition clear_below :: "string \<Rightarrow> fs_world \<Rightarrow> bool" where
  "clear_below dir w \<longleftrightarrow> list_all (\<lambda>m. \<not> under_dir dir (fst m)) (mtab w)"

lemma clear_below_mono: "clear_below dir w \<Longrightarrow> set (mtab w') \<subseteq> set (mtab w) \<Longrightarrow> clear_below dir w'"
  by (auto simp: clear_below_def list_all_iff)

lemma mtab_syscall:
  assumes "syscall E k w = (r, w')" and "\<And>n w1 r w2. k n w1 = (r, w2) \<Longrightarrow> mtab w2 = mtab w1"
  shows "mtab w' = mtab w"
  using assms(1) by (rule syscallE) (auto dest: assms(2))

lemma mtab_other: "sys_other E w = (r, w') \<Longrightarrow> mtab w' = mtab w"
  unfolding sys_other_def by (erule mtab_syscall) simp

lemma mtab_mountPoints: "mountPointsUnder E dir w = (r, w') \<Longrightarrow> mtab w' = mtab w"
  unfolding mountPointsUnder_def by (auto split: prod.splits sum.splits dest: mtab_other)

lemma mtab_umount: "sys_umount E mp w = (r, w') \<Longrightarrow> set (mtab w') \<subseteq> set (mtab w)"
  unfolding sys_umount_def
  by (erule syscallE) (use set_remove1_subset in \<open>fastforce split: if_splits option.splits\<close>)+

lemma mtab_detach: "set (mtab (detachMount E mp w)) \<subseteq> set (mtab w)"
proof -
  have "set (mtab (detach_loop E n mp w)) \<subseteq> set (mtab w)" for n
  proof (induction n arbitrary: w)
    case (Suc n)
    obtain r w1 where u: "sys_umount E mp w = (r, w1)" by force
    with mtab_umount [OF u] Suc.IH [of w1] show ?case by (auto split: sum.splits)
  qed simp
  then show ?thesis by (simp add: detachMount_def)
qed

lemma mtab_unmountAndRemove: "set (mtab (snd (unmountAndRemove E target w))) \<subseteq> set (mtab w)"
proof -
  obtain r w1 where m: "mountPointsUnder E target (detachMount E target w) = (r, w1)" by force
  obtain r2 w2 where o: "sys_other E w1 = (r2, w2)" by force
  have "set (mtab w1) \<subseteq> set (mtab w)" using mtab_mountPoints [OF m] mtab_detach by simp
  with m o mtab_other [OF o] show ?thesis by (auto simp: unmountAndRemove_def split: sum.splits)
qed

text \<open>
  A phase changes nothing that matters as long as \<^verbatim>\<open>RemoveAll\<close> meets no mount point, mounts nothing,
  and enters the removal only when no mount point is left.
\<close>

lemma sweep_step_frame:
  assumes "confines P E" and "good P w" and "ph = SweepRemove \<Longrightarrow> clear_below dir w"
    and "sweep_step E dir ph w = (ph', w')"
  shows "calm P w w' \<and> set (mtab w') \<subseteq> set (mtab w) \<and> (ph' = SweepRemove \<longrightarrow> clear_below dir w')"
proof (cases ph)
  case SweepStat
  with assms show ?thesis by (auto split: prod.splits sum.splits dest: calm_other mtab_other)
next
  case SweepList
  with assms show ?thesis
    by (auto split: prod.splits sum.splits dest: calm_mountPoints mtab_mountPoints)
next
  case (SweepDetach n mps)
  show ?thesis
  proof (cases "\<exists>k mp ms. n = Suc k \<and> mps = mp # ms")
    case True
    then obtain k mp ms where d: "n = Suc k" "mps = mp # ms" by blast
    obtain r w1 where u: "sys_umount E mp w = (r, w1)" by force
    from SweepDetach d u assms(4) have "w' = w1" "ph' \<noteq> SweepRemove" by (auto split: sum.splits)
    with calm_umount [OF assms(1,2) u] mtab_umount [OF u] show ?thesis by simp
  next
    case False
    then consider "mps = []" | "n = 0" "mps \<noteq> []" by (cases n; cases mps) auto
    then show ?thesis
      using SweepDetach assms(2,4) by cases (auto simp: neq_Nil_conv calm_refl)
  qed
next
  case SweepCheck
  obtain r w1 where m: "mountPointsUnder E dir w = (r, w1)" by force
  with SweepCheck assms(4) have "w' = w1" and "ph' = SweepRemove \<Longrightarrow> r = Inr []"
    by (auto split: sum.splits if_splits)
  moreover have "clear_below dir w1" if "r = Inr []"
    using mountPoints_Inr [of E dir w "[]" w1, symmetric] m that
    by (auto simp: clear_below_def list_all_iff filter_empty_conv)
  ultimately show ?thesis using calm_mountPoints [OF assms(1,2) m] mtab_mountPoints [OF m] by auto
next
  case SweepRemove
  obtain r w1 where rm: "removeAll E dir w = (r, w1)" by force
  have "filter (under_dir dir) (map fst (mtab w)) = []"
    using assms(3) SweepRemove by (auto simp: clear_below_def list_all_iff filter_empty_conv)
  from calm_removeAll [OF assms(1,2) this rm] mtab_other [of E] rm SweepRemove assms(4) show ?thesis
    by (auto simp: removeAll_def)
next
  case SweepEnd
  with assms show ?thesis by (simp add: calm_refl)
qed

subsection \<open>Closing pins\<close>

abbreviation pfd :: "bindPin \<Rightarrow> fd" where "pfd p \<equiv> nat (pin_fd p)"

definition live :: "bindPin \<Rightarrow> bool" where
  "live p \<longleftrightarrow> \<not> pin_closed p \<and> 0 \<le> pin_fd p"

definition pin_wf :: "bindPin \<Rightarrow> bool" where
  "pin_wf p \<longleftrightarrow> pin_closed p \<or> 0 \<le> pin_fd p"

lemma close_dead: "\<not> live p \<Longrightarrow> pin_wf p \<Longrightarrow> bindPin_Close E p w = (p, w)"
  by (auto simp: bindPin_Close_def live_def pin_wf_def)

lemma close_live:
  assumes "confines P E" and "good P w" and "live p" and "owns P B (pfd p # ds) w"
    and "bindPin_Close E p w = (p', w')"
  shows "safe P w w'" and "owns P B ds w'" and "pin_closed p'"
proof -
  let ?w1 = "case unstage p of None \<Rightarrow> w | Some target \<Rightarrow> snd (unmountAndRemove E target w)"
  have c: "calm P w ?w1" using calm_unmountAndRemove [OF assms(1,2)] calm_refl [OF assms(2)]
    by (simp split: option.splits)
  then have h: "owns P B (pfd p # ds) ?w1" using assms(4) by (auto simp: calm_def intro: owns_same)
  have r: "w' = closePinFd (pfd p) ?w1" "pin_closed p'"
    using assms(3,5) by (auto simp: bindPin_Close_def live_def Let_def)
  have "safe P ?w1 (closePinFd (pfd p) ?w1)"
    using h by (intro kept_safe kept_close calm_good [OF c]) (auto simp: owns_def)
  with c r show "safe P w w'" by (auto simp: calm_def intro: safe_trans)
  show "owns P B ds w'" using owns_close [OF h] r by simp
  show "pin_closed p'" by fact
qed

lemma close_pins:
  assumes "confines P E" and "good P w" and "\<forall>p\<in>set ps. pin_wf p"
    and "owns P B (map pfd (filter live ps) @ ds) w" and "closeBindPins E ps w = (ps', w')"
  shows "safe P w w'" and "owns P B ds w'" and "\<forall>p\<in>set ps'. pin_closed p"
proof -
  have "safe P w w' \<and> owns P B ds w' \<and> (\<forall>p\<in>set ps'. pin_closed p)"
    using assms(2-)
  proof (induction ps arbitrary: w ps')
    case Nil
    then show ?case by (simp add: safe_refl)
  next
    case (Cons p ps)
    obtain p1 w1 where c: "bindPin_Close E p w = (p1, w1)" by (cases "bindPin_Close E p w")
    obtain qs w2 where cs: "closeBindPins E ps w1 = (qs, w2)" by (cases "closeBindPins E ps w1")
    have one: "safe P w w1 \<and> owns P B (map pfd (filter live ps) @ ds) w1 \<and> pin_closed p1"
    proof (cases "live p")
      case True
      with Cons.prems(3) close_live [OF assms(1) Cons.prems(1) True _ c, of B "map pfd (filter live ps) @ ds"]
      show ?thesis by simp
    next
      case False
      then have "pin_closed p" using Cons.prems(2) by (auto simp: live_def pin_wf_def)
      with False Cons.prems c close_dead [of p E w] show ?thesis by (simp add: safe_refl)
    qed
    then have "good P w1" by (blast dest: safe_good)
    with Cons.IH [of w1 qs] Cons.prems c cs one have "safe P w1 w2 \<and> owns P B ds w2 \<and> (\<forall>p\<in>set qs. pin_closed p)"
      by simp
    with one Cons.prems(4) c cs show ?case by (auto intro: safe_trans)
  qed
  then show "safe P w w'" and "owns P B ds w'" and "\<forall>p\<in>set ps'. pin_closed p" by auto
qed

subsection \<open>Staging\<close>

lemma mtab_lstat: "sys_lstat E p w = (r, w') \<Longrightarrow> mtab w' = mtab w"
  unfolding sys_lstat_def by (erule mtab_syscall) simp

lemma mtab_bind:
  "sys_bind E i mp w = (r, w') \<Longrightarrow> set (mtab w) \<subseteq> set (mtab w') \<and> (r = Inr () \<longrightarrow> (mp, i) \<in> set (mtab w'))"
  unfolding sys_bind_def by (erule syscallE) auto

definition builds :: "ino set \<Rightarrow> fs_world \<Rightarrow> fs_world \<Rightarrow> bool" where
  "builds P w w' \<longleftrightarrow> calm P w w' \<and> set (mtab w) \<subseteq> set (mtab w')"

lemma builds_trans: "builds P w w' \<Longrightarrow> builds P w' w'' \<Longrightarrow> builds P w w''"
  by (auto simp: builds_def intro: calm_trans)

lemma builds_refl: "good P w \<Longrightarrow> builds P w w"
  by (simp add: builds_def calm_refl)

lemma builds_good: "builds P w w' \<Longrightarrow> good P w'"
  by (auto simp: builds_def dest: calm_good)

lemma builds_other: "confines P E \<Longrightarrow> good P w \<Longrightarrow> sys_other E w = (r, w') \<Longrightarrow> builds P w w'"
  using calm_other mtab_other by (fastforce simp: builds_def)

lemma builds_lstat: "confines P E \<Longrightarrow> good P w \<Longrightarrow> sys_lstat E p w = (r, w') \<Longrightarrow> builds P w w'"
  using calm_lstat mtab_lstat by (fastforce simp: builds_def)

lemma builds_bind:
  "confines P E \<Longrightarrow> good P w \<Longrightarrow> (\<And>j. i = Some j \<Longrightarrow> j \<notin> P) \<Longrightarrow> sys_bind E i mp w = (r, w') \<Longrightarrow> builds P w w'"
  using calm_bind mtab_bind by (fastforce simp: builds_def)

lemma builds_trusted_at: "confines P E \<Longrightarrow> good P w \<Longrightarrow> trusted_at E u p w = (r, w') \<Longrightarrow> builds P w w'"
  by (auto simp: trusted_at_def split: prod.splits sum.splits dest: builds_lstat)

lemma builds_trusted: "confines P E \<Longrightarrow> good P w \<Longrightarrow> trusted_from E u cs n w = (r, w') \<Longrightarrow> builds P w w'"
proof (induction n arbitrary: w r w')
  case 0
  then show ?case by (auto dest: builds_trusted_at)
next
  case (Suc n)
  obtain r1 w1 where l: "trusted_at E u (ancestor cs (Suc n)) w = (r1, w1)"
    by (cases "trusted_at E u (ancestor cs (Suc n)) w")
  have b: "builds P w w1" using builds_trusted_at [OF Suc.prems(1,2) l] .
  with Suc.IH [OF Suc.prems(1) builds_good [OF b]] Suc.prems(3) l show ?case
    by (auto split: option.splits intro: builds_trans)
qed

lemma builds_secure: "confines P E \<Longrightarrow> good P w \<Longrightarrow> secure_dirs E ds w = (r, w') \<Longrightarrow> builds P w w'"
proof (induction ds arbitrary: w)
  case (Cons d ds)
  obtain r1 w1 where l: "sys_lstat E d w = (r1, w1)" by (cases "sys_lstat E d w")
  have b: "builds P w w1" using builds_lstat [OF Cons.prems(1,2) l] .
  obtain r2 w2 where o: "sys_other E w1 = (r2, w2)" by (cases "sys_other E w1")
  have b2: "builds P w w2" using builds_trans [OF b builds_other [OF Cons.prems(1) builds_good [OF b] o]] .
  from Cons.IH [OF Cons.prems(1) builds_good [OF b2]] Cons.prems(3) l o b b2 show ?case
    by (auto split: sum.splits if_splits intro: builds_trans)
qed (simp add: builds_refl)

lemma builds_ensureDir:
  assumes "confines P E" and "good P w" and "ensureDirLocked E u m w = (r, m', w')"
  shows "builds P w w'"
proof (cases "st_ready m")
  case True
  with assms show ?thesis by (simp add: ensureDirLocked_def builds_refl)
next
  case False
  obtain r1 w1 where o1: "sys_other E w = (r1, w1)" by (cases "sys_other E w")
  have b1: "builds P w w1" using builds_other [OF assms(1,2) o1] .
  obtain r2 w2 where o2: "secure_dirs E [stagingRootParent (st_dir m), st_dir m] w1 = (r2, w2)"
    by (cases "secure_dirs E [stagingRootParent (st_dir m), st_dir m] w1")
  have b2: "builds P w w2" using builds_trans [OF b1 builds_secure [OF assms(1) builds_good [OF b1] o2]] .
  obtain r3 w3 where o3: "ensureTrustedAncestry E u (st_dir m) w2 = (r3, w3)"
    by (cases "ensureTrustedAncestry E u (st_dir m) w2")
  have b3: "builds P w w3"
    using builds_trans [OF b2 builds_trusted [OF assms(1) builds_good [OF b2]]] o3
    by (simp add: ensureTrustedAncestry_def Let_def)
  obtain r4 w4 where o4: "sys_bind E None (st_dir m) w3 = (r4, w4)" by (cases "sys_bind E None (st_dir m) w3")
  have b4: "builds P w w4" using builds_trans [OF b3 builds_bind [OF assms(1) builds_good [OF b3] _ o4]] by simp
  obtain r5 w5 where o5: "sys_other E w4 = (r5, w5)" by (cases "sys_other E w4")
  have b5: "builds P w w5" using builds_trans [OF b4 builds_other [OF assms(1) builds_good [OF b4] o5]] .
  from assms(3) False o1 o2 o3 o4 o5 b1 b2 b3 b4 b5 show ?thesis
    unfolding ensureDirLocked_def by (auto split: sum.splits option.splits)
qed

lemma stage_builds:
  assumes "confines P E" and "good P w" and "fds w (pfd p) = Some i" and "i \<notin> P"
    and "stage E u m p w = (r, m', p', w')"
  shows "builds P w w' \<and> pin_fd p' = pin_fd p \<and> pin_closed p' = pin_closed p \<and>
    (\<forall>t. r = Inr t \<longrightarrow> (t, Some i) \<in> set (mtab w'))"
proof (cases "pin_fd p < 0 \<or> st_closed m")
  case True
  then have "w' = w \<and> p' = p \<and> (\<forall>t. r \<noteq> Inr t)"
    using assms(5) unfolding stage_def by (auto split: if_splits)
  with assms(2) show ?thesis by (simp add: builds_refl)
next
  case False
  obtain r1 m1 w1 where o1: "ensureDirLocked E u m w = (r1, m1, w1)" by (cases "ensureDirLocked E u m w")
  have b1: "builds P w w1" using builds_ensureDir [OF assms(1,2) o1] .
  obtain r2 w2 where o2: "sys_other E w1 = (r2, w2)" by (cases "sys_other E w1")
  have b2: "builds P w w2" using builds_trans [OF b1 builds_other [OF assms(1) builds_good [OF b1] o2]] .
  have f2: "fds w2 (pfd p) = Some i" using b2 assms(3) by (simp add: builds_def calm_def)
  let ?m = "m1\<lparr>st_seq := st_seq m1 + 1\<rparr>"
  let ?t = "path_Join [st_dir ?m, nat_to_dec (unat (st_seq ?m))]"
  obtain r3 w3 where o3: "sys_bind E (fds w2 (pfd p)) ?t w2 = (r3, w3)" by (cases "sys_bind E (fds w2 (pfd p)) ?t w2")
  have b3: "builds P w w3"
    using builds_trans [OF b2 builds_bind [OF assms(1) builds_good [OF b2] _ o3]] f2 assms(4) by simp
  have in3: "r3 = Inr () \<Longrightarrow> (?t, Some i) \<in> set (mtab w3)" using mtab_bind [OF o3] f2 by simp
  obtain r4 w4 where o4: "sys_other E w3 = (r4, w4)" by (cases "sys_other E w3")
  have b4: "builds P w w4" using builds_trans [OF b3 builds_other [OF assms(1) builds_good [OF b3] o4]] .
  from assms(5) False o1 o2 o3 o4 b1 b2 b3 b4 in3 show ?thesis
    unfolding stage_def Let_def by (auto split: option.splits sum.splits)
qed

text \<open>The staging directories of two jobs: neither lies in the other, nor does what is mounted there.\<close>

lemma trim_suffix_last: "s \<noteq> [] \<Longrightarrow> last s \<noteq> c \<Longrightarrow> trim_suffix s [c] = s"
  by (cases s rule: rev_cases) (auto simp: trim_suffix_def has_suffix_def)

lemma under_rooted:
  assumes "list_all proper_name (ds @ [a])" and "list_all proper_name es"
    and "under_dir (rooted (ds @ [a])) (rooted es)"
  shows "\<exists>zs. es = ds @ a # zs"
proof (cases "rooted es = rooted (ds @ [a])")
  case True
  with rooted_last [OF assms(1)] have "es \<noteq> []" by auto
  with rooted_inj [OF assms(2) _ assms(1)] True show ?thesis by auto
next
  case False
  have "trim_suffix (rooted (ds @ [a])) ''/'' = rooted (ds @ [a])"
    using rooted_last [OF assms(1)] by (intro trim_suffix_last) simp_all
  with False assms(3) obtain rest where "rooted es = rooted (ds @ [a]) @ slash # rest"
    by (auto simp: under_dir_def has_prefix_iff prefix_def)
  from rooted_prefix [OF assms(1) _ assms(2) this] show ?thesis by auto
qed

lemma proper_dec: "proper_name (nat_to_dec n)"
proof -
  have "digit_value CHR ''/'' = None" "digit_value CHR ''.'' = None" by (simp_all add: digit_value_def)
  with nat_to_dec_shape [of n] show ?thesis by (auto simp: proper_name_def)
qed

lemma jobStagingDir_rooted:
  assumes "has_prefix dataDir ''/''" and "proper_name a"
  shows "\<exists>ds. list_all proper_name ds \<and> (\<forall>a. proper_name a \<longrightarrow> jobStagingDir dataDir a = rooted (ds @ [a]))"
proof -
  obtain ds where "stagingRootDir dataDir = rooted ds" "list_all proper_name ds"
    using path_Join_abs [OF assms(1)] unfolding stagingRootDir_def by blast
  then show ?thesis by (auto simp: jobStagingDir_def path_Join_rooted)
qed

lemma jobs_apart:
  assumes "has_prefix dataDir ''/''" and "proper_name a" "proper_name b" and "a \<noteq> b"
    and "st_dir m = jobStagingDir dataDir b" and "mp = st_dir m \<or> (\<exists>n. mp = path_Join [st_dir m, nat_to_dec n])"
  shows "\<not> under_dir (jobStagingDir dataDir a) mp"
proof -
  obtain ds where ds: "list_all proper_name ds" "\<And>a. proper_name a \<Longrightarrow> jobStagingDir dataDir a = rooted (ds @ [a])"
    using jobStagingDir_rooted [OF assms(1,2)] by blast
  have "\<exists>zs. mp = rooted (ds @ b # zs) \<and> list_all proper_name zs"
  proof -
    have b: "st_dir m = rooted (ds @ [b])" using assms(3,5) ds(2) by simp
    have "path_Join [rooted (ds @ [b]), nat_to_dec n] = rooted ((ds @ [b]) @ [nat_to_dec n])" for n
      using ds(1) assms(3) proper_dec by (intro path_Join_rooted) auto
    with b assms(6) show ?thesis
      by (elim disjE exE) (force intro: exI [of _ "[]"], force intro: exI [of _ "[nat_to_dec _]"] simp: proper_dec)
  qed
  then obtain zs where zs: "mp = rooted (ds @ b # zs)" "list_all proper_name zs" by blast
  show ?thesis
  proof
    assume "under_dir (jobStagingDir dataDir a) mp"
    with under_rooted [of ds a "ds @ b # zs"] ds assms(2,3,4) zs show False by auto
  qed
qed

text \<open>Where a stager mounts: at its own directory and at numbered paths in it, and nowhere once closed.\<close>

definition mounted_by :: "mountStager \<Rightarrow> string \<Rightarrow> bool" where
  "mounted_by m mp \<longleftrightarrow> \<not> st_closed m \<and> (mp = st_dir m \<or> (\<exists>n. mp = path_Join [st_dir m, nat_to_dec n]))"

definition adds :: "(string \<Rightarrow> bool) \<Rightarrow> fs_world \<Rightarrow> fs_world \<Rightarrow> bool" where
  "adds Q w w' \<longleftrightarrow> (\<forall>m\<in>set (mtab w'). m \<in> set (mtab w) \<or> Q (fst m))"

lemma adds_subset: "set (mtab w') \<subseteq> set (mtab w) \<Longrightarrow> adds Q w w'"
  by (auto simp: adds_def)

lemma adds_same: "mtab w' = mtab w \<Longrightarrow> adds Q w w'"
  by (auto simp: adds_def)

lemma adds_trans: "adds Q w w' \<Longrightarrow> adds Q w' w'' \<Longrightarrow> adds Q w w''"
  by (auto simp: adds_def)

lemma adds_bind: "sys_bind E i mp w = (r, w') \<Longrightarrow> Q mp \<Longrightarrow> adds Q w w'"
  unfolding sys_bind_def adds_def by (erule syscallE) auto

lemma mtab_trusted_at: "trusted_at E u p w = (r, w') \<Longrightarrow> mtab w' = mtab w"
  by (auto simp: trusted_at_def split: prod.splits sum.splits dest: mtab_lstat)

lemma mtab_trusted: "trusted_from E u cs n w = (r, w') \<Longrightarrow> mtab w' = mtab w"
proof (induction n arbitrary: w)
  case 0
  then show ?case by (auto dest: mtab_trusted_at)
next
  case (Suc n)
  obtain r1 w1 where l: "trusted_at E u (ancestor cs (Suc n)) w = (r1, w1)" by force
  with Suc mtab_trusted_at [OF l] show ?case by (auto split: option.splits)
qed

lemma mtab_secure: "secure_dirs E ds w = (r, w') \<Longrightarrow> mtab w' = mtab w"
proof (induction ds arbitrary: w)
  case (Cons d ds)
  obtain r1 w1 where l: "sys_lstat E d w = (r1, w1)" by force
  obtain r2 w2 where o: "sys_other E w1 = (r2, w2)" by force
  from Cons l o mtab_lstat [OF l] mtab_other [OF o] show ?case by (auto split: sum.splits if_splits)
qed simp

lemma ensureDir_adds:
  assumes "ensureDirLocked E u m w = (r, m', w')" and "\<not> st_closed m"
  shows "adds (mounted_by m) w w' \<and> st_dir m' = st_dir m \<and> st_closed m' = st_closed m"
proof (cases "st_ready m")
  case True
  with assms show ?thesis by (simp add: ensureDirLocked_def adds_same)
next
  case False
  obtain r1 w1 where o1: "sys_other E w = (r1, w1)" by force
  obtain r2 w2 where o2: "secure_dirs E [stagingRootParent (st_dir m), st_dir m] w1 = (r2, w2)" by force
  obtain r3 w3 where o3: "ensureTrustedAncestry E u (st_dir m) w2 = (r3, w3)" by force
  obtain r4 w4 where o4: "sys_bind E None (st_dir m) w3 = (r4, w4)" by force
  obtain r5 w5 where o5: "sys_other E w4 = (r5, w5)" by force
  have e: "mtab w1 = mtab w" "mtab w2 = mtab w" "mtab w3 = mtab w"
    using mtab_other [OF o1] mtab_secure [OF o2] mtab_trusted o3 by (auto simp: ensureTrustedAncestry_def Let_def)
  have "mounted_by m (st_dir m)" using assms(2) by (simp add: mounted_by_def)
  with adds_bind [OF o4] adds_same [OF e(3)] have a4: "adds (mounted_by m) w w4" by (blast intro: adds_trans)
  with adds_same [OF mtab_other [OF o5]] have a5: "adds (mounted_by m) w w5" by (blast intro: adds_trans)
  note a = adds_same [OF e(1)] adds_same [OF e(2)] adds_same [OF e(3)]
  from assms(1) False o1 o2 o3 o4 o5 a4 a5 a [of "mounted_by m"] show ?thesis
    unfolding ensureDirLocked_def by (auto split: sum.splits option.splits)
qed

lemma stage_adds:
  assumes "stage E u m p w = (r, m', p', w')"
  shows "adds (mounted_by m) w w' \<and> st_dir m' = st_dir m \<and> st_closed m' = st_closed m"
proof (cases "pin_fd p < 0 \<or> st_closed m")
  case True
  with assms have "w' = w \<and> m' = m" unfolding stage_def by (auto split: if_splits)
  then show ?thesis by (simp add: adds_same)
next
  case False
  obtain r1 m1 w1 where o1: "ensureDirLocked E u m w = (r1, m1, w1)" by (cases "ensureDirLocked E u m w")
  from ensureDir_adds [OF o1] False
  have a1: "adds (mounted_by m) w w1" and m1: "st_dir m1 = st_dir m" "st_closed m1 = st_closed m" by auto
  obtain r2 w2 where o2: "sys_other E w1 = (r2, w2)" by force
  let ?m = "m1\<lparr>st_seq := st_seq m1 + 1\<rparr>"
  let ?t = "path_Join [st_dir ?m, nat_to_dec (unat (st_seq ?m))]"
  obtain r3 w3 where o3: "sys_bind E (fds w2 (pfd p)) ?t w2 = (r3, w3)" by force
  obtain r4 w4 where o4: "sys_other E w3 = (r4, w4)" by force
  have a2: "adds (mounted_by m) w w2" using adds_trans [OF a1 adds_same [OF mtab_other [OF o2]]] .
  have "mounted_by m ?t" using False m1 by (auto simp: mounted_by_def)
  from adds_trans [OF a2 adds_bind [where Q = "mounted_by m", OF o3 this]] have a3: "adds (mounted_by m) w w3" .
  have a4: "adds (mounted_by m) w w4" using adds_trans [OF a3 adds_same [OF mtab_other [OF o4]]] .
  from assms False o1 o2 o3 o4 a1 a2 a3 a4 m1 show ?thesis
    unfolding stage_def Let_def by (auto split: option.splits sum.splits)
qed

lemma close_pin_mtab: "bindPin_Close E p w = (p', w') \<Longrightarrow> set (mtab w') \<subseteq> set (mtab w)"
  by (auto simp: bindPin_Close_def Let_def closePinFd_def split: if_splits option.splits
      dest: subsetD [OF mtab_unmountAndRemove])

lemma close_pins_mtab: "closeBindPins E ps w = (ps', w') \<Longrightarrow> set (mtab w') \<subseteq> set (mtab w)"
proof (induction ps arbitrary: w ps' w')
  case (Cons p ps)
  obtain p1 w1 where c: "bindPin_Close E p w = (p1, w1)" by force
  obtain qs w2 where cs: "closeBindPins E ps w1 = (qs, w2)" by force
  from Cons.IH [OF cs] close_pin_mtab [OF c] Cons.prems c cs show ?case by auto
qed simp

subsection \<open>Translating one source\<close>

definition res_gives :: "ino set \<Rightarrow> fs_world \<Rightarrow> ('e + bindResolution) \<times> fs_world \<Rightarrow> bool" where
  "res_gives P w rw \<longleftrightarrow> (case rw of (r, w') \<Rightarrow> kept P w w' \<and>
     (case r of Inl e \<Rightarrow> fds w' = fds w
      | Inr res \<Rightarrow>
          (case Pin res of None \<Rightarrow> fds w' = fds w
           | Some p \<Rightarrow> live p \<and> unstage p = None \<and> fds w (pfd p) = None \<and>
               (\<exists>i. i \<notin> P \<and> fds w' = (fds w)(pfd p \<mapsto> i)))))"

lemma res_gives_Inl: "res_gives P w (Inl e, w') \<longleftrightarrow> kept P w w' \<and> fds w' = fds w"
  by (simp add: res_gives_def)

lemma res_gives_after: "kept P w w1 \<Longrightarrow> fds w1 = fds w \<Longrightarrow> res_gives P w1 rw \<Longrightarrow> res_gives P w rw"
  by (auto simp: res_gives_def dest: kept_trans split: prod.splits sum.splits option.splits)

lemma pin_gives_res:
  "pin_gives P w (Inr p, w') \<Longrightarrow> Pin res = Some p \<Longrightarrow> res_gives P w (Inr res, w')"
  by (auto simp: pin_gives_def res_gives_def live_def)

lemma pin_gives_Inl: "pin_gives P w (Inl e, w') \<longleftrightarrow> kept P w w' \<and> fds w' = fds w"
  by (simp add: pin_gives_def)

lemma close_unstaged:
  assumes "pin_gives P w (Inr p, w1)"
  shows "kept P w (snd (bindPin_Close E p w1)) \<and> fds (snd (bindPin_Close E p w1)) = fds w"
proof -
  from assms obtain d i where p: "pin_fd p = int d" "unstage p = None" "\<not> pin_closed p" "fds w d = None"
    "fds w1 = (fds w)(d \<mapsto> i)" and k: "kept P w w1" by (auto simp: pin_gives_def)
  have "kept P w1 (closePinFd d w1)" using p(5) kept_good [OF k] by (intro kept_close) auto
  with k p show ?thesis by (auto simp: bindPin_Close_def fds_close intro: kept_trans)
qed

lemma pinned_resolution_gives:
  assumes "confines P E" and "good P w" and "roots_unprotected P E R" and "rootPath \<in> R"
  shows "res_gives P w (pinned_resolution E rootPath rel b w)"
proof -
  obtain r w1 where p: "pinBindSource E rootPath rel True w = (r, w1)"
    by (cases "pinBindSource E rootPath rel True w")
  with pinBindSource_gives [OF assms, of rel True] have g: "pin_gives P w (r, w1)" by simp
  show ?thesis
  proof (cases r)
    case (Inl e)
    with g p show ?thesis by (simp add: pinned_resolution_def pin_gives_Inl res_gives_Inl)
  next
    case (Inr q)
    with g p close_unstaged [of P w q w1 E] show ?thesis
      by (auto simp: pinned_resolution_def rejectUnbindableType_def res_gives_Inl intro: pin_gives_res)
  qed
qed

lemma lower_resolution_gives:
  "confines P E \<Longrightarrow> good P w \<Longrightarrow> roots_unprotected P E R \<Longrightarrow> set lowers \<subseteq> R \<Longrightarrow>
   res_gives P w (lower_resolution E lowers cleaned w)"
proof (induction lowers arbitrary: w)
  case (Cons l ls)
  obtain r w1 where p: "pinBindSource E l cleaned False w = (r, w1)" by (cases "pinBindSource E l cleaned False w")
  with pinBindSource_gives [OF Cons.prems(1-3), of l cleaned False] Cons.prems(4)
  have g: "pin_gives P w (r, w1)" by simp
  show ?case
  proof (cases r)
    case (Inl e)
    with g have k: "kept P w w1" "fds w1 = fds w" by (auto simp: pin_gives_Inl)
    with Cons.IH [OF Cons.prems(1) kept_good [OF k(1)] Cons.prems(3)] Cons.IH [OF Cons.prems(1-3)] Cons.prems(4) p Inl
    show ?thesis by (auto intro: res_gives_after)
  next
    case (Inr q)
    with Cons.IH [OF Cons.prems(1-3)] Cons.prems(4) g p show ?thesis by (auto intro: pin_gives_res)
  qed
qed (simp add: res_gives_Inl kept_refl)

definition bind_roots :: "bindServer \<Rightarrow> string \<Rightarrow> string list \<Rightarrow> string set" where
  "bind_roots s upperdir lowerdirs =
     insert (runnerRootfsPath s) (insert upperdir (snd ` set (runnerBindMappings s) \<union> set lowerdirs))"

lemma translate_gives:
  assumes "confines P E" and "good P w" and "roots_unprotected P E (bind_roots s upperdir lowerdirs)"
  shows "res_gives P w (translateBindSource E src (runnerBindMappings s) (runnerRootfsPath s) upperdir lowerdirs w)"
proof -
  have host: "h \<in> bind_roots s upperdir lowerdirs"
    if "matchBindPrefix x (runnerBindMappings s) = Some (h, y)" for x h y
  proof -
    from match_longest [OF that] obtain k where "(k, h) \<in> set (runnerBindMappings s)" by metis
    then have "h \<in> snd ` set (runnerBindMappings s)" by (rule image_eqI [rotated]) simp
    then show ?thesis by (simp add: bind_roots_def)
  qed
  have upper: "res_gives P w (layer_resolution E upperdir lowerdirs (path_Clean src) w)"
  proof -
    obtain r w1 where p: "pinBindSource E upperdir (path_Clean src) False w = (r, w1)"
      by (cases "pinBindSource E upperdir (path_Clean src) False w")
    with pinBindSource_gives [OF assms, of upperdir "path_Clean src" False]
    have g: "pin_gives P w (r, w1)" by (simp add: bind_roots_def)
    have low: "res_gives P v (lower_resolution E lowerdirs (path_Clean src) v)" if "good P v" for v
      by (rule lower_resolution_gives [OF assms(1) that assms(3)]) (auto simp: bind_roots_def)
    show ?thesis
    proof (cases r)
      case (Inl e)
      with g have k: "kept P w w1" "fds w1 = fds w" by (auto simp: pin_gives_Inl)
      with low [OF kept_good [OF k(1)]] low [OF assms(2)] p Inl show ?thesis
        by (auto simp: layer_resolution_def intro: res_gives_after)
    next
      case (Inr q)
      with g p low [OF assms(2)] show ?thesis by (auto simp: layer_resolution_def intro: pin_gives_res)
    qed
  qed
  have "runnerRootfsPath s \<in> bind_roots s upperdir lowerdirs" by (simp add: bind_roots_def)
  with upper host assms(2) show ?thesis
    by (auto simp: translateBindSource_def Let_def res_gives_def [of _ _ "(_, w)"] kept_refl
        intro!: pinned_resolution_gives [OF assms] split: option.splits)
qed

text \<open>Without a pin the resolution is an entry of the bind table, asked for by its own path.\<close>

definition table_entry :: "bindServer \<Rightarrow> string \<Rightarrow> string \<Rightarrow> bool" where
  "table_entry s src host \<longleftrightarrow>
     (\<exists>k. (k, host) \<in> set (runnerBindMappings s) \<and> path_Clean src \<in> {k, k @ ''/''})"

lemma has_prefix_trim: "has_prefix s p \<Longrightarrow> trim_prefix s p = [] \<Longrightarrow> s = p"
  by (auto simp: trim_prefix_def has_prefix_iff prefix_def)

lemma unpinned_is_table_entry:
  assumes "translateBindSource E src (runnerBindMappings s) rootfs upperdir lowerdirs w = (Inr res, w')"
    and "Pin res = None"
  shows "table_entry s src (ResolvedPath res)"
proof -
  have pinned: "pinned_resolution E r x b w \<noteq> (Inr res, w')" for r x b
    using assms(2) by (auto simp: pinned_resolution_def split: prod.splits sum.splits option.splits)
  have lower: "lower_resolution E ls c v \<noteq> (Inr res, w')" for ls c v
    using assms(2) by (induction ls arbitrary: v) (auto split: prod.splits sum.splits)
  have "layer_resolution E upperdir lowerdirs c w \<noteq> (Inr res, w')" for c
    using assms(2) lower by (auto simp: layer_resolution_def split: prod.splits sum.splits)
  with pinned assms(1) obtain host where
    "matchBindPrefix (path_Clean src) (runnerBindMappings s) = Some (host, [])" and res: "ResolvedPath res = host"
    by (auto simp: translateBindSource_def Let_def split: if_splits option.splits)
  from match_longest [OF this(1)] obtain k where
    "(k, host) \<in> set (runnerBindMappings s)" "covers (path_Clean src) k" "rest_of (path_Clean src) k = []"
    by (metis)
  then show ?thesis
    unfolding table_entry_def res by (auto simp: covers_def rest_of_def dest: has_prefix_trim split: if_splits)
qed

end
