(* ===== verification/Bind_Walk_Spec.thy ===== *)
theory Bind_Walk_Spec
  imports Bind_Pin_Laws
begin

text \<open>
  The reference for the fallback walk of \<^verbatim>\<open>bindpin_linux.go\<close>: path lookup in a directory tree whose
  process root is the bind root, as \<^verbatim>\<open>openat2\<close> with \<^verbatim>\<open>RESOLVE_IN_ROOT\<close> does it. \<open>namei\<close> steps on
  inodes and finds the directory above with the parent map \<open>par\<close> of the tree; the walk
  steps on descriptors and finds it on its stack.
\<close>

function (sequential) namei ::
  "fsys \<Rightarrow> (ino \<Rightarrow> ino) \<Rightarrow> ino \<Rightarrow> nat \<Rightarrow> ino \<Rightarrow> string list \<Rightarrow> errno + ino" where
  "namei f par r links d [] = Inr d"
| "namei f par r links d (c # cs) =
     (case node_of f d of
        Some (Directory m) \<Rightarrow>
          if c = '''' \<or> c = ''.'' then namei f par r links d cs
          else if c = ''..'' then namei f par r links (if d = r then r else par d) cs
          else (case m c of
                  None \<Rightarrow> Inl ENOENT
                | Some i \<Rightarrow>
                    (case node_of f i of
                       Some (Symlink t) \<Rightarrow>
                         if maxPinSymlinks \<le> links then Inl ELOOP
                         else namei f par r (Suc links) (if has_prefix t ''/'' then r else d) (split_on slash t @ cs)
                     | _ \<Rightarrow> namei f par r links i cs))
      | _ \<Rightarrow> Inl ENOTDIR)"
  by pat_completeness auto
termination
  by (relation "measures [\<lambda>(f, par, r, links, d, cs). maxPinSymlinks - links, \<lambda>(f, par, r, links, d, cs). length cs]")
     auto

declare namei.simps [simp del]

text \<open>
  The lookup of a kernel ends with \<open>ENOTDIR\<close> as soon as anything follows a component that is not a
  directory. \<open>lookup_lax\<close> is the same lookup with that one rule relaxed: \<open>pos\<close> is what was reached
  in the directory \<open>d\<close> when that is not a directory itself; an empty component and \<open>.\<close> stay
  there, \<open>..\<close> goes to the directory it lies in, and only a name after it is an error.
\<close>

function (sequential) lookup_lax ::
  "fsys \<Rightarrow> (ino \<Rightarrow> ino) \<Rightarrow> ino \<Rightarrow> nat \<Rightarrow> ino \<Rightarrow> ino option \<Rightarrow> string list \<Rightarrow> errno + ino" where
  "lookup_lax f par r links d pos [] = Inr (case pos of None \<Rightarrow> d | Some i \<Rightarrow> i)"
| "lookup_lax f par r links d pos (c # cs) =
     (if c = '''' \<or> c = ''.'' then lookup_lax f par r links d pos cs
      else if c = ''..'' then
        lookup_lax f par r links (if pos \<noteq> None \<or> d = r then d else par d) None cs
      else
        case (pos, node_of f d) of
          (None, Some (Directory m)) \<Rightarrow>
            (case m c of
               None \<Rightarrow> Inl ENOENT
             | Some i \<Rightarrow>
                 (case node_of f i of
                    Some (Symlink t) \<Rightarrow>
                      if maxPinSymlinks \<le> links then Inl ELOOP
                      else lookup_lax f par r (Suc links) (if has_prefix t ''/'' then r else d) None
                             (split_on slash t @ cs)
                  | Some (Directory _) \<Rightarrow> lookup_lax f par r links i None cs
                  | _ \<Rightarrow> lookup_lax f par r links d (Some i) cs))
        | _ \<Rightarrow> Inl ENOTDIR)"
  by pat_completeness auto
termination
  by (relation "measures [\<lambda>(f, par, r, links, d, pos, cs). maxPinSymlinks - links,
                          \<lambda>(f, par, r, links, d, pos, cs). length cs]")
     auto

declare lookup_lax.simps [simp del]

text \<open>
  A tree below \<open>r\<close>: entries exist, no entry is the root itself, a directory has one parent, and a
  symlink target has the length Linux gives it.
\<close>

definition tree_below :: "fsys \<Rightarrow> (ino \<Rightarrow> ino) \<Rightarrow> ino \<Rightarrow> bool" where
  "tree_below f par r \<longleftrightarrow> is_directory f r \<and>
     (\<forall>d m c i. node_of f d = Some (Directory m) \<longrightarrow> m c = Some i \<longrightarrow>
        i \<noteq> r \<and> itab f i \<noteq> None \<and> (is_directory f i \<longrightarrow> par i = d) \<and>
        (\<forall>t. node_of f i = Some (Symlink t) \<longrightarrow> t \<noteq> [] \<and> length t < 4096))"

text \<open>Nobody else moves, and no call fails for want of resources.\<close>

definition quiet :: "outside \<Rightarrow> bool" where
  "quiet E \<longleftrightarrow> (\<forall>n f. o_job E n f = f) \<and> (\<forall>n. o_fault E n = None)"

definition tick :: "fs_world \<Rightarrow> fs_world" where
  "tick w = w\<lparr>clock := Suc (clock w)\<rparr>"

lemma tick_simps [simp]: "fs (tick w) = fs w" "fds (tick w) = fds w" "fd_next (tick w) = fd_next w"
  by (simp_all add: tick_def)

lemma quiet_syscall: "quiet E \<Longrightarrow> syscall E k w = k (clock w) (tick w)"
  by (simp add: quiet_def syscall_def enter_def tick_def)

fun chain :: "fsys \<Rightarrow> (ino \<Rightarrow> ino) \<Rightarrow> ino \<Rightarrow> ino list \<Rightarrow> bool" where
  "chain f par r [] = False"
| "chain f par r [i] = (i = r)"
| "chain f par r (i # j # is) =
     (i \<noteq> r \<and> is_directory f j \<and> (is_directory f i \<longrightarrow> par i = j) \<and> chain f par r (j # is))"

text \<open>Where the lookup stands when the walk holds descriptors of \<open>is\<close>.\<close>

definition lax_from :: "fsys \<Rightarrow> (ino \<Rightarrow> ino) \<Rightarrow> ino \<Rightarrow> nat \<Rightarrow> ino list \<Rightarrow> string list \<Rightarrow> errno + ino" where
  "lax_from f par r links is cs =
     (if is_directory f (hd is) then lookup_lax f par r links (hd is) None cs
      else lookup_lax f par r links (hd (tl is)) (Some (hd is)) cs)"

lemma chain_last: "chain f par r is \<Longrightarrow> last is = r"
  by (induction f par r "is" rule: chain.induct) auto

definition open_on :: "fsys \<Rightarrow> fd list \<Rightarrow> ino list \<Rightarrow> fs_world \<Rightarrow> bool" where
  "open_on f stack is w \<longleftrightarrow> fs w = f \<and> list_all2 (\<lambda>d i. fds w d = Some i) stack is \<and> distinct stack \<and>
     (\<forall>d i. fds w d = Some i \<longrightarrow> d < fd_next w)"

lemma open_on_tick [simp]: "open_on f stack is (tick w) = open_on f stack is w"
  by (simp add: open_on_def)

lemma open_on_new:
  assumes "open_on f stack is w"
  shows "open_on f (fd_next w # stack) (i # is) (w\<lparr>fds := (fds w)(fd_next w \<mapsto> i), fd_next := Suc (fd_next w)\<rparr>)"
    and "open_on f stack is (w\<lparr>fds := (fds w)(fd_next w \<mapsto> i), fd_next := Suc (fd_next w)\<rparr>)"
    and "fd_next w \<notin> set stack"
proof -
  from assms have a: "fs w = f" "list_all2 (\<lambda>d i. fds w d = Some i) stack is" "distinct stack"
    and lt: "\<And>d i. fds w d = Some i \<Longrightarrow> d < fd_next w" unfolding open_on_def by blast+
  show n: "fd_next w \<notin> set stack"
  proof
    assume "fd_next w \<in> set stack"
    then obtain k where k: "k < length stack" "stack ! k = fd_next w" by (auto simp: in_set_conv_nth)
    from list_all2_nthD [OF a(2) k(1)] k(2) lt [of "fd_next w" "is ! k"] show False by simp
  qed
  have "list_all2 (\<lambda>d j. ((fds w)(fd_next w \<mapsto> i)) d = Some j) stack is"
    by (rule list.rel_mono_strong [OF a(2)]) (use n in auto)
  moreover have "d < Suc (fd_next w)" if "((fds w)(fd_next w \<mapsto> i)) d = Some j" for d j
    using that lt [of d j] by (auto split: if_splits)
  ultimately show "open_on f (fd_next w # stack) (i # is) (w\<lparr>fds := (fds w)(fd_next w \<mapsto> i), fd_next := Suc (fd_next w)\<rparr>)"
    "open_on f stack is (w\<lparr>fds := (fds w)(fd_next w \<mapsto> i), fd_next := Suc (fd_next w)\<rparr>)"
    using a n by (simp_all add: open_on_def)
qed

lemma fs_close [simp]: "fs (closePinFd d w) = fs w" "fd_next (closePinFd d w) = fd_next w"
  by (simp_all add: closePinFd_def)

lemma fs_close_all [simp]: "fs (close_all ds w) = fs w" "fd_next (close_all ds w) = fd_next w"
  by (induction ds arbitrary: w) simp_all

lemma open_on_close: "open_on f stack is w \<Longrightarrow> d \<notin> set stack \<Longrightarrow> open_on f stack is (closePinFd d w)"
  by (auto simp: open_on_def fds_close elim!: list.rel_mono_strong)

lemma open_on_pop: "open_on f (d # stack) (i # is) w \<Longrightarrow> open_on f stack is (closePinFd d w)"
  by (auto simp: open_on_def fds_close elim!: list.rel_mono_strong)

lemma list_all2_last: "list_all2 R xs ys \<Longrightarrow> xs \<noteq> [] \<Longrightarrow> R (last xs) (last ys)"
  by (induction rule: list_all2_induct) (auto simp: list_all2_Cons1)

lemma open_on_bottom:
  assumes "open_on f stack is w" and "stack \<noteq> []"
  shows "open_on f [last stack] [last is] (close_all (butlast stack) w)"
proof -
  have "fds w (last stack) = Some (last is)"
    using assms by (auto simp: open_on_def dest: list_all2_last)
  moreover have "last stack \<notin> set (butlast stack)"
    using assms by (metis append_butlast_last_id distinct_append disjoint_insert(1) list.set(2) open_on_def)
  ultimately show ?thesis
    using assms(1) by (auto simp: open_on_def fds_close_all split: if_splits)
qed

text \<open>Where lookup does not end with \<open>ENOTDIR\<close> the relaxed rule changes nothing.\<close>

lemma node_of_directory: "is_directory f i \<longleftrightarrow> (\<exists>m. node_of f i = Some (Directory m))"
  by (auto simp: is_directory_def split: option.splits node.splits)

lemma namei_lax_file:
  "\<not> is_directory f i \<Longrightarrow> namei f par r links i cs \<noteq> Inl ENOTDIR \<Longrightarrow>
   lookup_lax f par r links d (Some i) cs = namei f par r links i cs"
  by (cases cs) (auto simp: namei.simps lookup_lax.simps is_directory_def split: option.splits node.splits)

lemma namei_lax_eq:
  "namei f par r links d cs \<noteq> Inl ENOTDIR \<Longrightarrow> lookup_lax f par r links d None cs = namei f par r links d cs"
proof (induction f par r links d cs rule: namei.induct)
  case (1 f par r links d)
  show ?case by (simp add: namei.simps lookup_lax.simps)
next
  case (2 f par r links d c cs)
  obtain m where m: "node_of f d = Some (Directory m)"
    using "2.prems" by (auto simp: namei.simps split: option.splits node.splits)
  consider (dot) "c = '''' \<or> c = ''.''" | (up) "\<not> (c = '''' \<or> c = ''.'')" "c = ''..''"
    | (gone) "\<not> (c = '''' \<or> c = ''.'')" "c \<noteq> ''..''" "m c = None"
    | (name) i where "\<not> (c = '''' \<or> c = ''.'')" "c \<noteq> ''..''" "m c = Some i" by (cases "m c") auto
  then show ?case
  proof cases
    case dot
    with "2.IH"(1) [OF m _ dot] "2.prems" m show ?thesis by (simp add: namei.simps lookup_lax.simps)
  next
    case up
    have e: "(if d = r then d else par d) = (if d = r then r else par d)" by simp
    from "2.IH"(2) [OF m _ up] "2.prems" m up show ?thesis
      by (simp add: namei.simps lookup_lax.simps e split del: if_split)
  next
    case gone
    with m show ?thesis by (simp add: namei.simps lookup_lax.simps)
  next
    case (name i)
    show ?thesis
    proof (cases "\<exists>t. node_of f i = Some (Symlink t)")
      case True
      then obtain t where t: "node_of f i = Some (Symlink t)" by blast
      show ?thesis
      proof (cases "maxPinSymlinks \<le> links")
        case True
        with name m t show ?thesis by (simp add: namei.simps lookup_lax.simps)
      next
        case False
        have n: "namei f par r links d (c # cs) =
            namei f par r (Suc links) (if has_prefix t ''/'' then r else d) (split_on slash t @ cs)"
          using name m t False by (simp add: namei.simps)
        from name m t False
        have "lookup_lax f par r links d None (c # cs) =
            lookup_lax f par r (Suc links) (if has_prefix t ''/'' then r else d) None (split_on slash t @ cs)"
          by (simp add: lookup_lax.simps)
        also have "\<dots> = namei f par r (Suc links) (if has_prefix t ''/'' then r else d) (split_on slash t @ cs)"
          by (rule "2.IH"(5) [OF m refl name(1,2,3) t refl False]) (use "2.prems" n in simp_all)
        finally show ?thesis using n by simp
      qed
    next
      case False
      have n: "namei f par r links d (c # cs) = namei f par r links i cs"
        using name m False by (auto simp: namei.simps split: option.splits node.splits)
      show ?thesis
      proof (cases "is_directory f i")
        case True
        then obtain k where k: "node_of f i = Some (Directory k)" by (auto simp: node_of_directory)
        have "lookup_lax f par r links d None (c # cs) = lookup_lax f par r links i None cs"
          using name m k by (simp add: lookup_lax.simps)
        also have "\<dots> = namei f par r links i cs"
          by (rule "2.IH"(4) [OF m refl name k refl]) (use "2.prems" n in simp)
        finally show ?thesis using n by simp
      next
        case dir: False
        have "lookup_lax f par r links d None (c # cs) = lookup_lax f par r links d (Some i) cs"
          using name m False dir by (auto simp: lookup_lax.simps is_directory_def split: option.splits node.splits)
        also have "\<dots> = namei f par r links i cs"
          by (rule namei_lax_file [OF dir]) (use "2.prems" n in simp)
        finally show ?thesis using n by simp
      qed
    qed
  qed
qed

subsection \<open>Calls when nobody interferes\<close>

lemma openat_quiet:
  assumes "quiet E" and "fds w d = Some i" and "proper_name c" and "node_of (fs w) i = Some (Directory m)"
  shows "sys_openat E d c False w = (case m c of None \<Rightarrow> (Inl ENOENT, tick w) | Some j \<Rightarrow> new_fd j (tick w))"
  using assms by (simp add: sys_openat_def quiet_syscall child_def split: option.splits)

lemma openat_file:
  assumes "quiet E" and "fds w d = Some i" and "proper_name c" and "\<not> is_directory (fs w) i"
  shows "sys_openat E d c False w = (Inl ENOTDIR, tick w)"
  using assms by (auto simp: sys_openat_def quiet_syscall child_def is_directory_def split: option.splits node.splits)

lemma fstat_quiet:
  "quiet E \<Longrightarrow> fds w d = Some i \<Longrightarrow> itab (fs w) i = Some x \<Longrightarrow> sys_fstat E d w = (Inr (stat_of x), tick w)"
  by (simp add: sys_fstat_def quiet_syscall)

lemma readlink_quiet:
  "quiet E \<Longrightarrow> fds w d = Some i \<Longrightarrow> node_of (fs w) i = Some (Symlink t) \<Longrightarrow> t \<noteq> [] \<Longrightarrow> length t < 4096 \<Longrightarrow>
   readlinkFd E d w = (Inr t, tick w)"
  by (simp add: readlinkFd_def sys_readlink_def quiet_syscall)

definition agrees :: "errno + ino \<Rightarrow> (go_error + fd) \<times> fs_world \<Rightarrow> bool" where
  "agrees res rw \<longleftrightarrow> (case res of Inl e \<Rightarrow> fst rw = Inl (Errno e)
                               | Inr i \<Rightarrow> \<exists>d. fst rw = Inr d \<and> fds (snd rw) d = Some i)"

lemma walk_agrees:
  assumes "quiet E" and "tree_below f par r" and "open_on f stack is w" and "chain f par r is"
    and "\<forall>c\<in>set rem. slash \<notin> set c"
  shows "agrees (lax_from f par r links is rem) (resolve_walk E links stack rem w)"
  using assms
proof (induction E links stack rem w arbitrary: "is" rule: resolve_walk.induct)
  case (1 E links stack w)
  then obtain d ds i js where s: "stack = d # ds" "is = i # js"
    by (cases "is"; cases stack) (auto simp: open_on_def)
  with 1 show ?case
    by (auto simp: agrees_def lax_from_def lookup_lax.simps resolve_walk.simps fds_close_all open_on_def)
next
  case (2 E links stack name remaining w)
  note q = "2.prems"(1) and tree = "2.prems"(2) and op = "2.prems"(3) and ch = "2.prems"(4)
  obtain d ds i js where s: "stack = d # ds" "is = i # js"
    using op ch by (cases "is"; cases stack) (auto simp: open_on_def)
  have fw: "fs w = f" and fdi: "fds w d = Some i" using op s by (auto simp: open_on_def)
  have rem: "\<forall>c\<in>set remaining. slash \<notin> set c" using "2.prems"(5) by simp
  have root: "is_directory f r" using tree by (simp add: tree_below_def)
  consider (dot) "name = '''' \<or> name = ''.''" | (up) "\<not> (name = '''' \<or> name = ''.'')" "name = ''..''"
    | (name) "\<not> (name = '''' \<or> name = ''.'')" "name \<noteq> ''..''" by blast
  then show ?case
  proof cases
    case dot
    with "2.IH"(1) [OF dot q tree op ch rem] show ?thesis
      by (simp add: lax_from_def lookup_lax.simps resolve_walk.simps split: if_splits)
  next
    case up
    show ?thesis
    proof (cases js)
      case Nil
      with op s have "ds = []" by (simp add: open_on_def)
      moreover have "i = r" using ch s Nil by simp
      ultimately show ?thesis
        using "2.IH"(3) [OF up _ q tree op ch rem] up s Nil root
        by (simp add: lax_from_def lookup_lax.simps resolve_walk.simps)
    next
      case (Cons j js')
      with op s have len: "1 < length stack" by (auto simp: open_on_def list_all2_Cons2)
      have up': "i \<noteq> r" "is_directory f j" "is_directory f i \<Longrightarrow> par i = j" using ch s Cons by auto
      have "open_on f ds js (closePinFd d w)" using op s by (auto intro: open_on_pop)
      moreover have "chain f par r js" using ch s Cons by simp
      ultimately have "agrees (lax_from f par r links js remaining)
          (resolve_walk E links (tl stack) remaining (closePinFd (hd stack) w))"
        using "2.IH"(2) [OF up len q tree, of js] s rem by simp
      moreover have "lax_from f par r links is (name # remaining) = lax_from f par r links js remaining"
        using up up' s Cons by (simp add: lax_from_def lookup_lax.simps)
      ultimately show ?thesis using up len by (simp add: resolve_walk.simps)
    qed
  next
    case name
    have pn: "proper_name name" using name "2.prems"(5) by (simp add: proper_name_def)
    show ?thesis
    proof (cases "is_directory f i")
      case False
      have "sys_openat E (hd stack) name False w = (Inl ENOTDIR, tick w)"
        using openat_file [OF q fdi pn] False s fw by simp
      moreover have "lax_from f par r links is (name # remaining) = Inl ENOTDIR"
        using name False s by (simp add: lax_from_def lookup_lax.simps)
      ultimately show ?thesis using name by (simp add: resolve_walk.simps agrees_def)
    next
      case di: True
      then obtain m where m: "node_of f i = Some (Directory m)" by (auto simp: node_of_directory)
      note o = openat_quiet [OF q fdi pn, unfolded fw, OF m]
      have here: "lax_from f par r links is (name # remaining) = lookup_lax f par r links i None (name # remaining)"
        using di s by (simp add: lax_from_def)
      show ?thesis
      proof (cases "m name")
        case None
        with o name s m here show ?thesis by (simp add: lookup_lax.simps resolve_walk.simps agrees_def)
      next
        case (Some j)
        let ?w1 = "snd (new_fd j (tick w))" and ?n = "fd_next w"
        have o': "sys_openat E (hd stack) name False w = (Inr ?n, ?w1)" using o Some s by (simp add: new_fd_def)
        have tj: "j \<noteq> r" "itab f j \<noteq> None" "is_directory f j \<Longrightarrow> par j = i"
          "\<And>t. node_of f j = Some (Symlink t) \<Longrightarrow> t \<noteq> [] \<and> length t < 4096"
          using tree m Some unfolding tree_below_def by blast+
        then obtain x where x: "itab f j = Some x" by auto
        have on: "open_on f (?n # stack) (j # is) ?w1" "open_on f stack is ?w1" and new: "?n \<notin> set stack"
          using open_on_new(1,2) [where w = "tick w" and i = j] open_on_new(3) [of f stack "is" "tick w"] op by (simp_all add: new_fd_def)
        have nj: "fds ?w1 ?n = Some j" and fw1: "fs ?w1 = f" using on(1) by (auto simp: open_on_def)
        note f' = fstat_quiet [OF q nj, unfolded fw1, OF x]
        have on2: "open_on f (?n # stack) (j # is) (tick ?w1)" using on(1) by simp
        show ?thesis
        proof (cases "\<exists>t. i_node x = Symlink t")
          case False
          then have ns: "st_mode (stat_of x) AND S_IFMT \<noteq> 0xA000" by (simp add: is_symlink_iff)
          have nn: "lookup_lax f par r links i None (name # remaining) = lax_from f par r links (j # is) remaining"
            using False name m Some x s
            by (auto simp: lookup_lax.simps lax_from_def is_directory_def node_of_def split: node.splits)
          have "chain f par r (j # is)" using ch tj(1,3) s di by simp
          with "2.IH"(4) [OF name o' [symmetric] refl f' [symmetric] refl ns q tree on2] rem s nn here
          show ?thesis using name o' f' ns by (simp add: resolve_walk.simps)
        next
          case True
          then obtain t where t: "i_node x = Symlink t" by blast
          then have sl: "\<not> st_mode (stat_of x) AND S_IFMT \<noteq> 0xA000" by (simp add: is_symlink_iff)
          have nt: "node_of f j = Some (Symlink t)" using x t by (simp add: node_of_def)
          have nn: "lax_from f par r links is (name # remaining) =
              (if maxPinSymlinks \<le> links then Inl ELOOP
               else lookup_lax f par r (Suc links) (if has_prefix t ''/'' then r else i) None (split_on slash t @ remaining))"
            using name m Some nt here by (simp add: lookup_lax.simps)
          show ?thesis
          proof (cases "maxPinSymlinks < Suc links")
            case True
            with nn name o' f' sl s show ?thesis by (simp add: resolve_walk.simps agrees_def)
          next
            case few: False
            let ?w3 = "tick (tick ?w1)"
            have l: "readlinkFd E ?n (tick ?w1) = (Inr t, ?w3)"
              using readlink_quiet [OF q, of "tick ?w1" ?n j t] nj fw1 nt tj(4) by simp
            have on4: "open_on f stack is (closePinFd ?n ?w3)" using on(2) new by (intro open_on_close) simp_all
            have slf: "\<forall>c\<in>set (split_on slash t @ remaining). slash \<notin> set c"
              using rem by (auto dest: split_on_no_sep)
            show ?thesis
            proof (cases "has_prefix t ''/''")
              case True
              have "open_on f [last stack] [r] (close_all (butlast stack) (closePinFd ?n ?w3))"
                using open_on_bottom [OF on4] s chain_last [OF ch] by simp
              with "2.IH"(5) [OF name o' [symmetric] refl f' [symmetric] refl sl few l [symmetric] refl True q tree _ _ slf, of "[r]"]
                s nn few True root
              show ?thesis using name o' f' sl l by (simp add: resolve_walk.simps lax_from_def)
            next
              case False
              with "2.IH"(6) [OF name o' [symmetric] refl f' [symmetric] refl sl few l [symmetric] refl False q tree on4 ch slf]
                s nn few di
              show ?thesis using name o' f' sl l by (simp add: resolve_walk.simps lax_from_def)
            qed
          qed
        qed
      qed
    qed
  qed
qed

text \<open>
  C39. On a directory tree at rest \<^verbatim>\<open>resolveBeneathWalk\<close>, the fallback of kernels without
  \<^verbatim>\<open>openat2\<close>, always ends as \<open>lookup_lax\<close> does, on the same inode or with the same error: it
  is path lookup with the bind root as process root, except that stepping on from a component that
  is not a directory is refused only when a name follows. So whatever the lookup of
  \<^verbatim>\<open>RESOLVE_IN_ROOT\<close> finds the walk finds, and where that lookup fails for any reason but
  \<open>ENOTDIR\<close> (a missing component, more than forty symlinks) the walk fails with the same error.
  Where lookup does end with \<open>ENOTDIR\<close> the two may differ, see \<open>walk_steps_out_of_a_file\<close>.
\<close>

theorem walk_is_chroot_lookup:
  assumes "quiet E" and "tree_below (fs w) par r" and "fds w rootFd = Some r"
    and "\<forall>d i. fds w d = Some i \<longrightarrow> d < fd_next w" and "list_all proper_name comps"
  shows "agrees (lookup_lax (fs w) par r 0 r None comps) (resolveBeneathWalk E rootFd comps w) \<and>
    (namei (fs w) par r 0 r comps = Inl ENOTDIR \<or>
     agrees (namei (fs w) par r 0 r comps) (resolveBeneathWalk E rootFd comps w))"
proof -
  have dup: "sys_dup E rootFd w = new_fd r (tick w)"
    using assms(1,3) by (simp add: sys_dup_def quiet_syscall)
  have root: "is_directory (fs w) r" using assms(2) by (simp add: tree_below_def)
  have "open_on (fs w) [] [] (tick w)" using assms(4) by (simp add: open_on_def)
  then have "open_on (fs w) [fd_next w] [r] (snd (new_fd r (tick w)))"
    using open_on_new(1) [of "fs w" "[]" "[]" "tick w" r] by (simp add: new_fd_def)
  with walk_agrees [OF assms(1,2) this, of comps 0] assms(5) dup root
  have lax: "agrees (lookup_lax (fs w) par r 0 r None comps) (resolveBeneathWalk E rootFd comps w)"
    by (auto simp: resolveBeneathWalk_def new_fd_def list_all_iff proper_name_def lax_from_def)
  with namei_lax_eq [of "fs w" par r 0 r comps] show ?thesis by metis
qed

text \<open>A small root file system with merged \<^verbatim>\<open>/usr\<close>, and a link that steps up from a file.\<close>

definition plain_inode :: "node \<Rightarrow> inode" where
  "plain_inode n = \<lparr>i_node = n, i_perm = 0x1ED, i_uid = 1001, i_gid = 1001\<rparr>"

definition merged_usr :: fsys where
  "merged_usr = \<lparr>itab = [0 \<mapsto> plain_inode (Directory [''usr'' \<mapsto> 1, ''bin'' \<mapsto> 2, ''odd'' \<mapsto> 5]),
     1 \<mapsto> plain_inode (Directory [''bin'' \<mapsto> 3]), 2 \<mapsto> plain_inode (Symlink ''/usr/bin''),
     3 \<mapsto> plain_inode (Directory [''sh'' \<mapsto> 4]), 4 \<mapsto> plain_inode Regular,
     5 \<mapsto> plain_inode (Symlink ''bin/sh/..'')], inext = 6\<rparr>"

definition merged_usr_parent :: "ino \<Rightarrow> ino" where
  "merged_usr_parent i = (if i = 3 then 1 else 0)"

definition at_rest :: outside where
  "at_rest = \<lparr>o_job = \<lambda>n f. f, o_fault = \<lambda>n. None, o_open = \<lambda>n f p. Inl ENOENT,
     o_openat2 = \<lambda>n f d p. Inl ENOSYS, o_odd_openat = \<lambda>n f d c. Inl EINVAL,
     o_odd_mkdirat = \<lambda>n f d c. (Some EINVAL, f), o_lstat = \<lambda>n p. Inl ENOENT\<rparr>"

definition world_on :: "fsys \<Rightarrow> fs_world" where
  "world_on f = \<lparr>fs = f, fds = [0 \<mapsto> 0], fd_next = 1, bad_closes = 0, clock = 0, openat2Unsupported = False,
     openat2Noted = False, openat2FallbackR = None, mtab = [], removals = []\<rparr>"

lemma quiet_at_rest: "quiet at_rest"
  by (simp add: quiet_def at_rest_def)

lemma node_of_merged:
  "node_of merged_usr d =
     [0 \<mapsto> Directory [''usr'' \<mapsto> 1, ''bin'' \<mapsto> 2, ''odd'' \<mapsto> 5], 1 \<mapsto> Directory [''bin'' \<mapsto> 3],
      2 \<mapsto> Symlink ''/usr/bin'', 3 \<mapsto> Directory [''sh'' \<mapsto> 4], 4 \<mapsto> Regular, 5 \<mapsto> Symlink ''bin/sh/..''] d"
  by (simp add: node_of_def merged_usr_def plain_inode_def)

lemma tree_merged_usr: "tree_below merged_usr merged_usr_parent 0"
proof -
  have "itab merged_usr i \<noteq> None" if "i \<le> 5" for i
    using that by (auto simp: merged_usr_def le_Suc_eq numeral_eq_Suc)
  then show ?thesis
    by (auto simp: tree_below_def is_directory_def node_of_merged merged_usr_parent_def split: if_splits)
qed

lemma namei_merged_usr: "namei merged_usr merged_usr_parent 0 0 0 [''bin'', ''sh''] = Inr 4"
  by (simp add: namei.simps node_of_merged maxPinSymlinks_def)

lemma lookup_lax_odd: "lookup_lax merged_usr merged_usr_parent 0 0 0 None [''odd''] = Inr 3"
  by (simp add: lookup_lax.simps node_of_merged maxPinSymlinks_def)

lemma walk_is_chroot_lookup_witness:
  "agrees (Inr 4) (resolveBeneathWalk at_rest 0 [''bin'', ''sh''] (world_on merged_usr)) \<and>
   agrees (Inr 3) (resolveBeneathWalk at_rest 0 [''odd''] (world_on merged_usr))"
  using walk_is_chroot_lookup [OF quiet_at_rest, of "world_on merged_usr" merged_usr_parent 0 0 "[''bin'', ''sh'']"]
    walk_is_chroot_lookup [OF quiet_at_rest, of "world_on merged_usr" merged_usr_parent 0 0 "[''odd'']"]
  by (simp add: world_on_def tree_merged_usr namei_merged_usr lookup_lax_odd proper_name_def)

text \<open>
  The kernel refuses to go up from a file; the walk goes to the directory the file is in. It does not
  leave the root, but it accepts a source the documented equivalence says it refuses.
\<close>

lemma walk_steps_out_of_a_file:
  "namei merged_usr merged_usr_parent 0 0 0 [''odd''] = Inl ENOTDIR \<and>
   (case resolveBeneathWalk at_rest 0 [''odd''] (world_on merged_usr) of
      (Inl e, w) \<Rightarrow> False | (Inr d, w) \<Rightarrow> fds w d = Some 3)"
proof -
  have "namei merged_usr merged_usr_parent 0 0 0 [''odd''] = Inl ENOTDIR"
    by (simp add: namei.simps node_of_merged maxPinSymlinks_def)
  moreover have "case resolveBeneathWalk at_rest 0 [''odd''] (world_on merged_usr) of
      (Inl e, w) \<Rightarrow> False | (Inr d, w) \<Rightarrow> fds w d = Some 3"
    by code_simp
  ultimately show ?thesis ..
qed

end
