(* ===== verification/Bind_System.thy ===== *)
theory Bind_System
  imports Bind_Translate_Laws Bind_Walk_Spec Transition_System
begin

text \<open>
  The bind mounts of one sibling container, and the life of the staged binds of all the jobs of a node
  over any interleaving of container creates, container cleanups and server stops with the system
  calls of any number of sweeps and teardowns, with the jobs moving in between. What a container's
  spec names is either an entry of the bind table asked for by its own path or a staging path on which an unprotected inode is mounted.
\<close>

definition staged_source :: "ino set \<Rightarrow> fs_world \<Rightarrow> Mount \<Rightarrow> bool" where
  "staged_source P w mt \<longleftrightarrow> (\<exists>i. i \<notin> P \<and> (Source mt, Some i) \<in> set (mtab w))"

definition mount_ok :: "ino set \<Rightarrow> bindServer \<Rightarrow> string list \<Rightarrow> fs_world \<Rightarrow> Mount \<Rightarrow> bool" where
  "mount_ok P s srcs w mt \<longleftrightarrow> list_ex (\<lambda>src. table_entry s src (Source mt)) srcs \<or> staged_source P w mt"

lemma mount_ok_mono:
  "mount_ok P s srcs w mt \<Longrightarrow> set srcs \<subseteq> set srcs' \<Longrightarrow> set (mtab w) \<subseteq> set (mtab w') \<Longrightarrow>
   mount_ok P s srcs' w' mt"
  by (auto simp: mount_ok_def staged_source_def list_ex_iff)

text \<open>What one entry, and then the loop, leaves behind.\<close>

definition extends :: "ino set \<Rightarrow> fs_world \<Rightarrow> bindPin list \<Rightarrow> fs_world \<Rightarrow> bool" where
  "extends P w ps w' \<longleftrightarrow> safe P w w' \<and> set (mtab w) \<subseteq> set (mtab w') \<and> (\<forall>p\<in>set ps. live p) \<and>
     (\<forall>B ds. owns P B ds w \<longrightarrow> owns P B (map pfd ps @ ds) w')"

lemma extends_refl: "good P w \<Longrightarrow> extends P w [] w"
  by (simp add: extends_def safe_refl)

lemma extends_trans: "extends P w ps w' \<Longrightarrow> extends P w' qs w'' \<Longrightarrow> extends P w (qs @ ps) w''"
  unfolding extends_def by (auto intro: safe_trans)

lemma extends_good: "extends P w ps w' \<Longrightarrow> good P w'"
  by (auto simp: extends_def dest: safe_good)

lemma extends_kept: "kept P w w' \<Longrightarrow> fds w' = fds w \<Longrightarrow> extends P w [] w'"
  by (auto simp: extends_def kept_safe intro: owns_same) (simp add: kept_def)

lemma extends_builds: "builds P w w' \<Longrightarrow> extends P w [] w'"
  by (auto simp: extends_def builds_def calm_def intro: owns_same)

lemma extends_pin:
  assumes "res_gives P w (Inr res, w')" and "Pin res = Some p"
  shows "extends P w [p] w'"
proof -
  from assms obtain i where a: "kept P w w'" "live p" "fds w (pfd p) = None" "i \<notin> P" "fds w' = (fds w)(pfd p \<mapsto> i)"
    by (auto simp: res_gives_def)
  have "owns P B (pfd p # ds) w'" if "owns P B ds w" for B ds
  proof (rule owns_open [OF that])
    show "gives P w (Inr (pfd p) :: go_error + fd, w')" using a by (auto simp: gives_Inr)
  qed
  with a show ?thesis by (auto simp: extends_def kept_safe) (simp add: kept_def)
qed

definition same_table :: "bindServer \<Rightarrow> bindServer \<Rightarrow> bool" where
  "same_table s s' \<longleftrightarrow> runnerBindMappings s' = runnerBindMappings s \<and> runnerRootfsPath s' = runnerRootfsPath s"

lemma bind_one_extends:
  assumes "confines P E" and "good P w" and "roots_unprotected P E (bind_roots s up lows)"
    and "bind_one E up lows src dst ro s pins w = (r, s', pins', w')"
  shows "\<exists>ps. set pins' = set (pins @ ps) \<and> pins' = pins @ ps \<and> extends P w ps w' \<and> same_table s s' \<and>
     (\<forall>mt. r = Inr mt \<longrightarrow> mount_ok P s [src] w' mt)"
proof (cases "rejectUnbackedGuestBind s src")
  case (Some e)
  with assms extends_refl [OF assms(2)] show ?thesis by (auto simp: bind_one_def same_table_def intro!: exI [of _ "[]"])
next
  case None
  obtain t w1 where tr: "translateBindSource E src (runnerBindMappings s) (runnerRootfsPath s) up lows w = (t, w1)"
    by (cases "translateBindSource E src (runnerBindMappings s) (runnerRootfsPath s) up lows w")
  have g: "res_gives P w (t, w1)" unfolding tr [symmetric] by (rule translate_gives [OF assms(1-3)])
  show ?thesis
  proof (cases t)
    case (Inl e)
    with g have "extends P w [] w1" by (auto simp: res_gives_Inl intro: extends_kept)
    with assms(4) None tr Inl show ?thesis
      by (auto simp: bind_one_def same_table_def intro!: exI [of _ "[]"])
  next
    case (Inr res)
    show ?thesis
    proof (cases "Pin res")
      case np: None
      with g Inr have "extends P w [] w1" by (auto simp: res_gives_def intro: extends_kept)
      with assms(4) None tr Inr np unpinned_is_table_entry [of E src s _ up lows w res w1] show ?thesis
        by (auto simp: bind_one_def same_table_def mount_ok_def Let_def intro!: exI [of _ "[]"])
    next
      case (Some p)
      have ext: "extends P w [p] w1" using g Inr Some by (auto intro: extends_pin)
      from g Inr Some obtain i where fi: "fds w1 (pfd p) = Some i" "i \<notin> P" and lp: "live p"
        by (auto simp: res_gives_def)
      show ?thesis
      proof (cases "stager_of s")
        case ns: None
        with assms(4) None tr Inr Some ext show ?thesis
          by (auto simp: bind_one_def same_table_def Let_def intro!: exI [of _ "[p]"])
      next
        case m: (Some m)
        obtain r2 m2 p2 w2 where st: "stage E (euid_of s) m p w1 = (r2, m2, p2, w2)"
          by (cases "stage E (euid_of s) m p w1") auto
        have sb: "builds P w1 w2" "pin_fd p2 = pin_fd p" "pin_closed p2 = pin_closed p"
          "\<And>t. r2 = Inr t \<Longrightarrow> (t, Some i) \<in> set (mtab w2)"
          using stage_builds [OF assms(1) extends_good [OF ext] fi st] by auto
        have "extends P w [p] w2" using extends_trans [OF ext extends_builds [OF sb(1)]] by simp
        then have "extends P w [p2] w2" using sb(2,3) by (simp add: extends_def live_def)
        with assms(4) None tr Inr Some m st sb(4) fi(2) show ?thesis
          by (auto simp: bind_one_def same_table_def Let_def mount_ok_def staged_source_def
              intro!: exI [of _ "[p2]"] split: sum.splits)
      qed
    qed
  qed
qed

definition bind_sources :: "string list \<Rightarrow> string list" where
  "bind_sources binds = map (\<lambda>b. splitN3 b ! 0) binds"

lemma same_table_roots: "same_table s s' \<Longrightarrow> bind_roots s' up lows = bind_roots s up lows"
  by (simp add: same_table_def bind_roots_def)

lemma same_table_mount_ok: "same_table s s' \<Longrightarrow> mount_ok P s' srcs w mt = mount_ok P s srcs w mt"
  by (simp add: same_table_def mount_ok_def table_entry_def)

lemma same_table_trans: "same_table s s' \<Longrightarrow> same_table s' s'' \<Longrightarrow> same_table s s''"
  by (simp add: same_table_def)

text \<open>The loop from pins \<open>pins\<close>, all of them live and held.\<close>

lemma bind_loop_ok:
  assumes "confines P E" and "good P w" and "roots_unprotected P E (bind_roots s up lows)"
    and "\<forall>p\<in>set pins. live p" and "owns P B (map pfd pins @ ds) w"
    and "bind_loop E up lows binds s out pins w = (r, s', w')"
  shows "safe P w w' \<and> same_table s s' \<and>
    (case r of Inl e \<Rightarrow> owns P B ds w'
     | Inr (ms, qs) \<Rightarrow> set (mtab w) \<subseteq> set (mtab w') \<and> (\<forall>p\<in>set qs. live p) \<and> owns P B (map pfd qs @ ds) w' \<and>
         (\<exists>new. ms = out @ new \<and> (\<forall>mt\<in>set new. mount_ok P s (bind_sources binds) w' mt)))"
  using assms(2-)
proof (induction binds arbitrary: s out pins w)
  case Nil
  then show ?case by (auto simp: safe_refl same_table_def)
next
  case (Cons b bs)
  let ?parts = "splitN3 b"
  have more: "mount_ok P s (bind_sources (b # bs)) w' x" if "mount_ok P s (bind_sources bs) w' x" for x
    using that by (rule mount_ok_mono) (auto simp: bind_sources_def)
  show ?case
  proof (cases "length ?parts < 2")
    case True
    with Cons.prems(5) have "bind_loop E up lows bs s out pins w = (r, s', w')" by (simp add: Let_def)
    from Cons.IH [OF Cons.prems(1-4) this] show ?thesis
      by (auto split: sum.splits) (use more in blast)
  next
    case False
    obtain r1 s1 pins1 w1 where o: "bind_one E up lows (?parts ! 0) (?parts ! 1)
        (length ?parts = 3 \<and> ?parts ! 2 = ''ro'') s pins w = (r1, s1, pins1, w1)"
      using prod_cases4 by blast
    from bind_one_extends [OF assms(1) Cons.prems(1,2) o] obtain ps where
      ps: "pins1 = pins @ ps" "extends P w ps w1" "same_table s s1"
      "\<And>mt. r1 = Inr mt \<Longrightarrow> mount_ok P s [?parts ! 0] w1 mt" by blast
    have g1: "good P w1" using ps(2) by (rule extends_good)
    have live1: "\<forall>p\<in>set pins1. live p" using Cons.prems(3) ps(1,2) by (auto simp: extends_def)
    have "owns P B (map pfd ps @ map pfd pins @ ds) w1" using Cons.prems(4) ps(2) by (auto simp: extends_def)
    then have h1: "owns P B (map pfd pins1 @ ds) w1" unfolding ps(1) by (auto simp: owns_def)
    have s01: "safe P w w1" "set (mtab w) \<subseteq> set (mtab w1)" using ps(2) by (auto simp: extends_def)
    show ?thesis
    proof (cases r1)
      case (Inl e)
      obtain qs w2 where c: "closeBindPins E pins1 w1 = (qs, w2)" by (cases "closeBindPins E pins1 w1")
      have fl: "filter live pins1 = pins1" using live1 by (simp add: filter_id_conv)
      have wf: "\<forall>p\<in>set pins1. pin_wf p" using live1 by (auto simp: live_def pin_wf_def)
      from close_pins(1,2) [OF assms(1) g1 wf _ c, of B ds] h1 fl
      have "safe P w1 w2" "owns P B ds w2" by simp_all
      with Cons.prems(5) False o Inl c s01(1) ps(3) show ?thesis by (auto simp: Let_def intro: safe_trans)
    next
      case (Inr mt)
      with Cons.prems(5) False o have l: "bind_loop E up lows bs s1 (out @ [mt]) pins1 w1 = (r, s', w')"
        by (simp add: Let_def)
      have IH: "safe P w1 w' \<and> same_table s1 s' \<and>
        (case r of Inl e \<Rightarrow> owns P B ds w'
         | Inr (ms, qs) \<Rightarrow> set (mtab w1) \<subseteq> set (mtab w') \<and> (\<forall>p\<in>set qs. live p) \<and> owns P B (map pfd qs @ ds) w' \<and>
           (\<exists>new. ms = (out @ [mt]) @ new \<and> (\<forall>mt\<in>set new. mount_ok P s1 (bind_sources bs) w' mt)))"
        using Cons.prems(2) ps(3) by (intro Cons.IH [OF g1 _ live1 h1 l]) (simp add: same_table_roots)
      have mt: "mount_ok P s [?parts ! 0] w1 mt" using ps(4) Inr by blast
      show ?thesis
      proof (cases r)
        case (Inl e)
        with IH s01(1) ps(3) show ?thesis by (auto intro: safe_trans same_table_trans)
      next
        case ms: (Inr mq)
        obtain ms qs where mq: "mq = (ms, qs)" by (cases mq)
        from IH ms mq obtain new where new: "ms = (out @ [mt]) @ new"
          "\<forall>mt\<in>set new. mount_ok P s (bind_sources bs) w' mt" and sub: "set (mtab w1) \<subseteq> set (mtab w')"
          using same_table_mount_ok [OF ps(3)] by auto
        have "mount_ok P s (bind_sources (b # bs)) w' x" if "x \<in> set (mt # new)" for x
        proof -
          have "mount_ok P s (bind_sources (b # bs)) w' mt"
            by (rule mount_ok_mono [OF mt _ sub]) (simp add: bind_sources_def)
          with that new(2) more show ?thesis by auto
        qed
        then have "\<exists>new. ms = out @ new \<and> (\<forall>x\<in>set new. mount_ok P s (bind_sources (b # bs)) w' x)"
          using new(1) by (intro exI [of _ "mt # new"]) simp
        with IH ms mq s01 ps(3) show ?thesis by (auto intro: safe_trans same_table_trans)
      qed
    qed
  qed
qed

lemma notice_kept:
  "good P w \<Longrightarrow> kept P w (snd (openat2FallbackNotice w)) \<and> fds (snd (openat2FallbackNotice w)) = fds w"
  by (auto simp: openat2FallbackNotice_def kept_def good_def split: option.splits)

lemma buildBindMounts_ok:
  assumes "confines P E" and "good P w" and "roots_unprotected P E (bind_roots s up lows)"
    and "owns P B ds w" and "buildBindMounts E up lows binds s w = (r, s', w')"
  shows "safe P w w' \<and> same_table s s' \<and>
    (case r of Inl e \<Rightarrow> owns P B ds w'
     | Inr (ms, qs) \<Rightarrow> (\<forall>p\<in>set qs. live p) \<and> owns P B (map pfd qs @ ds) w' \<and>
         list_all (mount_ok P s (bind_sources binds) w') ms)"
proof -
  let ?w = "snd (openat2FallbackNotice w)"
  from notice_kept [OF assms(2)] have k: "kept P w ?w" and h: "owns P B (map pfd [] @ ds) ?w"
    using assms(4) by (auto intro: owns_same)
  have "bind_loop E up lows binds s [] [] ?w = (r, s', w')" using assms(5) by (simp add: buildBindMounts_def)
  from bind_loop_ok [OF assms(1) kept_good [OF k] assms(3) _ h this] kept_safe [OF k]
  show ?thesis by (auto simp: list_all_iff intro: safe_trans split: sum.splits)
qed

text \<open>
  C3. Whatever the jobs do to the file system between any two system calls, and whichever calls
  fail, creating a sibling container leaves the protected inodes of the node untouched and binds
  none of them: every mount in the container's spec is either an entry of the bind table that was
  asked for by its own path, or a staging path at which an unprotected inode is mounted. No
  descriptor is closed twice, and when the request is rejected every descriptor opened for
  it is closed again.
\<close>

theorem sibling_binds_are_contained:
  assumes "confines P E" and "good P w" and "roots_unprotected P E (bind_roots s up lows)"
    and "buildBindMounts E up lows binds s w = (r, s', w')"
  shows "(\<forall>i\<in>P. itab (fs w') i = itab (fs w) i) \<and> bad_closes w' = bad_closes w \<and>
    (case r of Inl e \<Rightarrow> fds w' = fds w
     | Inr (ms, pins) \<Rightarrow> list_all (mount_ok P s (bind_sources binds) w') ms)"
proof -
  have "owns P (fds w) [] w" by (simp add: owns_Nil)
  from buildBindMounts_ok [OF assms(1-3) this assms(4)] show ?thesis
    by (auto simp: safe_def owns_Nil split: sum.splits)
qed

subsection \<open>Where a create mounts\<close>

definition points_of :: "bindServer \<Rightarrow> string \<Rightarrow> bool" where
  "points_of s mp \<longleftrightarrow> (case stager_of s of None \<Rightarrow> False | Some m \<Rightarrow> mounted_by m mp)"

definition same_stager :: "bindServer \<Rightarrow> bindServer \<Rightarrow> bool" where
  "same_stager s s' \<longleftrightarrow>
     map_option (\<lambda>m. (st_dir m, st_closed m)) (stager_of s') = map_option (\<lambda>m. (st_dir m, st_closed m)) (stager_of s)"

lemma same_stager_points: "same_stager s s' \<Longrightarrow> points_of s' = points_of s"
  by (auto simp: same_stager_def points_of_def mounted_by_def fun_eq_iff split: option.splits)

lemma same_stager_trans: "same_stager s s' \<Longrightarrow> same_stager s' s'' \<Longrightarrow> same_stager s s''"
  by (simp add: same_stager_def)

lemma bind_one_adds:
  assumes "confines P E" and "good P w" and "roots_unprotected P E (bind_roots s up lows)"
    and "bind_one E up lows src dst ro s pins w = (r, s', pins', w')"
  shows "adds (points_of s) w w' \<and> same_stager s s'"
proof -
  obtain t w1 where tr: "translateBindSource E src (runnerBindMappings s) (runnerRootfsPath s) up lows w = (t, w1)"
    by (cases "translateBindSource E src (runnerBindMappings s) (runnerRootfsPath s) up lows w")
  have "res_gives P w (t, w1)" unfolding tr [symmetric] by (rule translate_gives [OF assms(1-3)])
  then have t: "mtab w1 = mtab w" by (simp add: res_gives_def kept_def)
  have "adds (points_of s) w1 w2 \<and> st_dir m2 = st_dir m \<and> st_closed m2 = st_closed m"
    if "stage E (euid_of s) m p w1 = (r2, m2, p2, w2)" "stager_of s = Some m" for m p r2 m2 p2 w2
  proof -
    have "points_of s = mounted_by m" using that(2) by (simp add: points_of_def fun_eq_iff)
    with stage_adds [OF that(1)] show ?thesis by simp
  qed
  with assms(4) tr t show ?thesis
    by (fastforce simp: bind_one_def Let_def same_stager_def adds_def split: option.splits sum.splits prod.splits)
qed

lemma bind_loop_adds:
  assumes "confines P E" and "good P w" and "roots_unprotected P E (bind_roots s up lows)"
    and "bind_loop E up lows binds s out pins w = (r, s', w')"
  shows "adds (points_of s) w w' \<and> same_stager s s'"
  using assms(2-)
proof (induction binds arbitrary: s out pins w)
  case Nil
  then show ?case by (simp add: adds_same same_stager_def)
next
  case (Cons b bs)
  let ?parts = "splitN3 b"
  show ?case
  proof (cases "length ?parts < 2")
    case True
    with Cons.prems(3) have "bind_loop E up lows bs s out pins w = (r, s', w')" by (simp add: Let_def)
    from Cons.IH [OF Cons.prems(1,2) this] show ?thesis .
  next
    case False
    obtain r1 s1 pins1 w1 where o: "bind_one E up lows (?parts ! 0) (?parts ! 1)
        (length ?parts = 3 \<and> ?parts ! 2 = ''ro'') s pins w = (r1, s1, pins1, w1)"
      using prod_cases4 by blast
    from bind_one_extends [OF assms(1) Cons.prems(1,2) o] have "good P w1" and t: "same_table s s1"
      by (auto dest: extends_good)
    from bind_one_adds [OF assms(1) Cons.prems(1,2) o]
    have a: "adds (points_of s) w w1" and st: "same_stager s s1" by auto
    show ?thesis
    proof (cases r1)
      case (Inl e)
      obtain qs w2 where c: "closeBindPins E pins1 w1 = (qs, w2)" by force
      with Cons.prems(3) False o Inl have "w' = w2" "s' = s1" by (auto simp: Let_def)
      with adds_trans [OF a adds_subset [OF close_pins_mtab [OF c]]] st show ?thesis by simp
    next
      case (Inr mt)
      with Cons.prems(3) False o have l: "bind_loop E up lows bs s1 (out @ [mt]) pins1 w1 = (r, s', w')"
        by (simp add: Let_def)
      have "adds (points_of s1) w1 w' \<and> same_stager s1 s'"
        using Cons.prems(2) t by (intro Cons.IH [OF \<open>good P w1\<close> _ l]) (simp add: same_table_roots)
      with a st same_stager_points [OF st] show ?thesis by (auto intro: adds_trans same_stager_trans)
    qed
  qed
qed

lemma buildBindMounts_adds:
  assumes "confines P E" and "good P w" and "roots_unprotected P E (bind_roots s up lows)"
    and "buildBindMounts E up lows binds s w = (r, s', w')"
  shows "adds (points_of s) w w' \<and> same_stager s s'"
proof -
  let ?w = "snd (openat2FallbackNotice w)"
  from notice_kept [OF assms(2)] have k: "kept P w ?w" by simp
  then have "mtab ?w = mtab w" by (simp add: kept_def)
  moreover have "bind_loop E up lows binds s [] [] ?w = (r, s', w')" using assms(4) by (simp add: buildBindMounts_def)
  ultimately show ?thesis
    using bind_loop_adds [OF assms(1) kept_good [OF k] assms(3)] by (simp add: adds_def)
qed

subsection \<open>The life of the binds of a node\<close>

text \<open>
  One server per job; \<open>sweeps\<close> holds every removal of a staging directory that was begun, with the
  phase it is in. \<open>started\<close> is set when the scheduler begins to accept jobs.
\<close>

record jobBinds =
  servers :: "bindServer list"
  containers :: "bindPin list list"
  sweeps :: "(string \<times> sweep_phase) list"
  started :: bool
  world_of :: fs_world

definition after_create :: "outside \<Rightarrow> string \<Rightarrow> string list \<Rightarrow> nat \<Rightarrow> string list \<Rightarrow> jobBinds \<Rightarrow> jobBinds" where
  "after_create E up lows k binds b =
     (case buildBindMounts E up lows binds (servers b ! k) (world_of b) of
        (Inl e, s, w) \<Rightarrow> b\<lparr>servers := (servers b)[k := s], world_of := w\<rparr>
      | (Inr (ms, pins), s, w) \<Rightarrow>
          b\<lparr>servers := (servers b)[k := s], containers := containers b @ [pins], world_of := w\<rparr>)"

definition after_cleanup :: "outside \<Rightarrow> nat \<Rightarrow> jobBinds \<Rightarrow> jobBinds" where
  "after_cleanup E i b =
     (case closeBindPins E (containers b ! i) (world_of b) of
        (ps, w) \<Rightarrow> b\<lparr>containers := (containers b)[i := ps], world_of := w\<rparr>)"

text \<open>\<^verbatim>\<open>Server.Stop\<close> closes the stager under its mutex and begins to remove its directory.\<close>

definition after_stop :: "nat \<Rightarrow> jobBinds \<Rightarrow> jobBinds" where
  "after_stop k b =
     (case stager_of (servers b ! k) of
        None \<Rightarrow> b
      | Some m \<Rightarrow>
          b\<lparr>servers := (servers b)[k := (servers b ! k)\<lparr>stager_of := Some (fst (close_stager m))\<rparr>],
            sweeps := sweeps b @ [(st_dir m, snd (close_stager m))]\<rparr>)"

definition after_sweep :: "outside \<Rightarrow> nat \<Rightarrow> jobBinds \<Rightarrow> jobBinds" where
  "after_sweep E i b =
     (case sweeps b ! i of
        (dir, ph) \<Rightarrow> (case sweep_step E dir ph (world_of b) of
          (ph', w) \<Rightarrow> b\<lparr>sweeps := (sweeps b)[i := (dir, ph')], world_of := w\<rparr>))"

text \<open>The staging directories of the stagers that have not been torn down.\<close>

definition live_dirs :: "bindServer list \<Rightarrow> string list" where
  "live_dirs ss = List.map_filter (\<lambda>s. case stager_of s of
     None \<Rightarrow> None | Some m \<Rightarrow> if st_closed m then None else Some (st_dir m)) ss"

text \<open>
  The whole tree is swept at startup only, before any job is accepted; \<open>entries\<close> is what
  \<^verbatim>\<open>os.ReadDir\<close> lists. The sweep of one job is for a job whose stager is not alive. Both are what
  \<^verbatim>\<open>bindstage.go\<close> asks of its callers; the sweeps themselves check neither.
\<close>

inductive bind_step ::
  "outside \<Rightarrow> string \<Rightarrow> (nat \<Rightarrow> string) \<Rightarrow> (nat \<Rightarrow> string list) \<Rightarrow> jobBinds \<Rightarrow> jobBinds \<Rightarrow> bool"
  for E dataDir up lows where
  create: "started b \<Longrightarrow> k < length (servers b) \<Longrightarrow>
     bind_step E dataDir up lows b (after_create E (up k) (lows k) k binds b)"
| cleanup: "i < length (containers b) \<Longrightarrow> bind_step E dataDir up lows b (after_cleanup E i b)"
| stop: "k < length (servers b) \<Longrightarrow> bind_step E dataDir up lows b (after_stop k b)"
| sweep_all: "\<not> started b \<Longrightarrow>
     bind_step E dataDir up lows b
       (b\<lparr>sweeps := sweeps b @ map (\<lambda>e. (path_Join [stagingRootDir dataDir, e], SweepList)) entries\<rparr>)"
| accept_jobs: "list_all (\<lambda>(dir, ph). ph = SweepEnd) (sweeps b) \<Longrightarrow>
     bind_step E dataDir up lows b (b\<lparr>started := True\<rparr>)"
| sweep_job: "proper_name job \<Longrightarrow> jobStagingDir dataDir job \<notin> set (live_dirs (servers b)) \<Longrightarrow>
     bind_step E dataDir up lows b (b\<lparr>sweeps := sweeps b @ [(jobStagingDir dataDir job, SweepStat)]\<rparr>)"
| sweep: "i < length (sweeps b) \<Longrightarrow> bind_step E dataDir up lows b (after_sweep E i b)"

inductive_cases bind_stepE: "bind_step E dataDir up lows b b'"

text \<open>The servers of the jobs \<open>ids\<close>, each with a new stager or with none.\<close>

definition server_for :: "string \<Rightarrow> bindServer \<Rightarrow> string \<Rightarrow> bool" where
  "server_for dataDir s job \<longleftrightarrow> proper_name job \<and>
     (stager_of s = None \<or> stager_of s = Some (newBindStager dataDir job))"

definition init_binds ::
  "ino set \<Rightarrow> (fd \<rightharpoonup> ino) \<Rightarrow> string \<Rightarrow> string list \<Rightarrow> bindServer list \<Rightarrow> jobBinds \<Rightarrow> bool" where
  "init_binds P B dataDir ids ss b \<longleftrightarrow> servers b = ss \<and> list_all2 (server_for dataDir) ss ids \<and> distinct ids \<and>
     has_prefix dataDir ''/'' \<and> containers b = [] \<and> sweeps b = [] \<and> \<not> started b \<and>
     fds (world_of b) = B \<and> good P (world_of b) \<and>
     mounts_ok P (mtab (world_of b)) \<and> removals (world_of b) = [] \<and> bad_closes (world_of b) = 0"

interpretation bd: transition_system "init_binds P B dataDir ids ss" "bind_step E dataDir up lows"
  for P B dataDir ids ss E up lows .

text \<open>Every removal under way is of a directory no live stager mounts in, and \<^verbatim>\<open>RemoveAll\<close> meets no mount.\<close>

definition apart :: "string \<Rightarrow> bindServer \<Rightarrow> bool" where
  "apart dir s \<longleftrightarrow> (\<forall>mp. points_of s mp \<longrightarrow> \<not> under_dir dir mp)"

definition sweep_ok :: "jobBinds \<Rightarrow> string \<times> sweep_phase \<Rightarrow> bool" where
  "sweep_ok b sw \<longleftrightarrow> (snd sw = SweepRemove \<longrightarrow> clear_below (fst sw) (world_of b)) \<and>
     (started b \<longrightarrow> snd sw \<noteq> SweepEnd \<longrightarrow> (\<forall>s\<in>set (servers b). apart (fst sw) s))"

definition server_of_job :: "string \<Rightarrow> bindServer \<Rightarrow> string \<Rightarrow> bool" where
  "server_of_job dataDir s job \<longleftrightarrow> proper_name job \<and>
     (\<forall>m. stager_of s = Some m \<longrightarrow> st_dir m = jobStagingDir dataDir job)"

definition binds_inv ::
  "ino set \<Rightarrow> (fd \<rightharpoonup> ino) \<Rightarrow> string \<Rightarrow> string list \<Rightarrow> bindServer list \<Rightarrow> jobBinds \<Rightarrow> bool" where
  "binds_inv P B dataDir ids ss b \<longleftrightarrow> list_all2 same_table ss (servers b) \<and>
     list_all2 (server_of_job dataDir) (servers b) ids \<and> distinct ids \<and> has_prefix dataDir ''/'' \<and>
     good P (world_of b) \<and> removals_ok (removals (world_of b)) \<and> mounts_ok P (mtab (world_of b)) \<and>
     bad_closes (world_of b) = 0 \<and> (\<forall>sw\<in>set (sweeps b). sweep_ok b sw) \<and>
     (\<forall>p\<in>set (concat (containers b)). pin_wf p) \<and>
     owns P B (map pfd (filter live (concat (containers b)))) (world_of b)"

lemma sweep_ok_frame:
  assumes "sweep_ok b sw" and "set (mtab (world_of b')) \<subseteq> set (mtab (world_of b))"
    and "started b' = started b" and "servers b' = servers b"
  shows "sweep_ok b' sw"
  using assms by (auto simp: sweep_ok_def intro: clear_below_mono)

text \<open>A step that mounts nothing and leaves the servers alone.\<close>

lemma binds_inv_safe:
  assumes "binds_inv P B d ids ss b" and "safe P (world_of b) (world_of b')"
    and "set (mtab (world_of b')) \<subseteq> set (mtab (world_of b))"
    and "servers b' = servers b" "started b' = started b" "sweeps b' = sweeps b"
    and "\<forall>p\<in>set (concat (containers b')). pin_wf p"
    and "owns P B (map pfd (filter live (concat (containers b')))) (world_of b')"
  shows "binds_inv P B d ids ss b'"
proof -
  have "\<forall>sw\<in>set (sweeps b'). sweep_ok b' sw"
    using assms(1,6) sweep_ok_frame [OF _ assms(3,5,4)] by (auto simp: binds_inv_def)
  with assms show ?thesis by (auto simp: binds_inv_def safe_def)
qed

text \<open>What a sweep may be begun on.\<close>

lemma apart_other_job:
  assumes "has_prefix dataDir ''/''" and "server_of_job dataDir s job" and "proper_name a"
    and "stager_of s = None \<or> st_closed (the (stager_of s)) \<or> a \<noteq> job"
  shows "apart (jobStagingDir dataDir a) s"
  unfolding apart_def
proof (intro allI impI)
  fix mp assume p: "points_of s mp"
  then obtain m where m: "stager_of s = Some m" "\<not> st_closed m"
    and mp: "mp = st_dir m \<or> (\<exists>n. mp = path_Join [st_dir m, nat_to_dec n])"
    by (auto simp: points_of_def mounted_by_def split: option.splits)
  have "st_dir m = jobStagingDir dataDir job" "proper_name job" using assms(2) m by (auto simp: server_of_job_def)
  with jobs_apart [OF assms(1,3) _ _ _ mp] assms(4) m show "\<not> under_dir (jobStagingDir dataDir a) mp" by auto
qed

lemma apart_dead_job:
  assumes "has_prefix dataDir ''/''" and "list_all2 (server_of_job dataDir) ss ids" and "proper_name a"
    and "jobStagingDir dataDir a \<notin> set (live_dirs ss)" and "s \<in> set ss"
  shows "apart (jobStagingDir dataDir a) s"
proof -
  from assms(5) obtain k where k: "k < length ss" "s = ss ! k" by (auto simp: in_set_conv_nth)
  with assms(2) have j: "server_of_job dataDir s (ids ! k)" by (auto dest: list_all2_nthD)
  show ?thesis
  proof (cases "stager_of s = None \<or> st_closed (the (stager_of s))")
    case True
    then show ?thesis using apart_other_job [OF assms(1) j assms(3)] by blast
  next
    case False
    then obtain m where m: "stager_of s = Some m" "\<not> st_closed m" by auto
    then have "st_dir m \<in> set (live_dirs ss)"
      using assms(5) by (force simp: live_dirs_def List.map_filter_def)
    with assms(4) j m have "a \<noteq> ids ! k" by (auto simp: server_of_job_def)
    then show ?thesis using apart_other_job [OF assms(1) j assms(3)] by blast
  qed
qed

lemma apart_stopped:
  assumes "has_prefix dataDir ''/''" and "list_all2 (server_of_job dataDir) ss ids" and "distinct ids"
    and "k < length ss" and "stager_of (ss ! k) = Some m"
    and "s \<in> set (ss[k := (ss ! k)\<lparr>stager_of := Some (fst (close_stager m))\<rparr>])"
  shows "apart (st_dir m) s"
proof -
  have len: "length ids = length ss" using assms(2) by (auto dest: list_all2_lengthD)
  have jk: "server_of_job dataDir (ss ! k) (ids ! k)" using assms(2,4) by (auto dest: list_all2_nthD)
  then have d: "st_dir m = jobStagingDir dataDir (ids ! k)" "proper_name (ids ! k)"
    using assms(5) by (auto simp: server_of_job_def)
  from assms(6) obtain j where j: "j < length ss" "s = ss[k := (ss ! k)\<lparr>stager_of := Some (fst (close_stager m))\<rparr>] ! j"
    by (auto simp: in_set_conv_nth)
  show ?thesis
  proof (cases "j = k")
    case True
    with j assms(4) have "\<not> points_of s mp" for mp
      by (simp add: points_of_def mounted_by_def close_stager_def)
    then show ?thesis by (simp add: apart_def)
  next
    case False
    with j have s: "s = ss ! j" by simp
    have "server_of_job dataDir s (ids ! j)" using assms(2) j(1) s by (auto dest: list_all2_nthD)
    moreover have "ids ! k \<noteq> ids ! j" using False assms(3,4) j(1) len by (simp add: nth_eq_iff_index_eq)
    ultimately show ?thesis using apart_other_job [OF assms(1) _ d(2)] d(1) by simp
  qed
qed

lemma concat_update:
  assumes "i < length xss"
  shows "\<exists>as bs. concat xss = as @ xss ! i @ bs \<and> concat (xss[i := ys]) = as @ ys @ bs"
proof -
  have "xss = take i xss @ xss ! i # drop (Suc i) xss" using assms by (simp add: id_take_nth_drop)
  moreover have "xss[i := ys] = take i xss @ ys # drop (Suc i) xss" using assms by (simp add: upd_conv_take_nth_drop)
  ultimately show ?thesis by (metis concat.simps(2) concat_append)
qed

lemma owns_perm: "owns P B ds w \<Longrightarrow> mset ds = mset ds' \<Longrightarrow> owns P B ds' w"
  by (auto simp: owns_def dest: mset_eq_setD mset_eq_imp_distinct_iff)

lemma list_all2_update_right: "list_all2 R xs ys \<Longrightarrow> k < length ys \<Longrightarrow> R (xs ! k) y \<Longrightarrow> list_all2 R xs (ys[k := y])"
  using list_all2_update_cong [of R xs ys "xs ! k" y k] by simp

lemma list_all2_update_left: "list_all2 R xs ys \<Longrightarrow> k < length xs \<Longrightarrow> R x (ys ! k) \<Longrightarrow> list_all2 R (xs[k := x]) ys"
  using list_all2_update_cong [of R xs ys x "ys ! k" k] by simp

text \<open>A create mounts in no directory that is being removed.\<close>

lemma sweep_ok_create:
  assumes "sweep_ok b sw" and "started b" and "k < length (servers b)"
    and "adds (points_of (servers b ! k)) (world_of b) w'" and "same_stager (servers b ! k) s'"
    and "world_of b' = w'" "servers b' = (servers b)[k := s']" "started b' = started b"
  shows "sweep_ok b' sw"
proof (cases "snd sw = SweepEnd")
  case False
  then have ap: "\<forall>s\<in>set (servers b). apart (fst sw) s" and cl: "snd sw = SweepRemove \<longrightarrow> clear_below (fst sw) (world_of b)"
    using assms(1,2) by (auto simp: sweep_ok_def)
  have k: "apart (fst sw) (servers b ! k)" using ap assms(3) by simp
  have "clear_below (fst sw) w'" if "clear_below (fst sw) (world_of b)"
    using that assms(4) k by (auto simp: clear_below_def list_all_iff adds_def apart_def)
  moreover have "apart (fst sw) s'" using k same_stager_points [OF assms(5)] by (simp add: apart_def)
  ultimately show ?thesis
    using cl ap assms(6-8) by (auto simp: sweep_ok_def dest: set_update_subset_insert [THEN subsetD])
qed (simp add: sweep_ok_def)

lemma create_inv:
  assumes "confines P E" and "\<And>k. k < length ss \<Longrightarrow> roots_unprotected P E (bind_roots (ss ! k) (up k) (lows k))"
    and inv: "binds_inv P B d ids ss b" and "started b" and k: "k < length (servers b)"
  shows "binds_inv P B d ids ss (after_create E (up k) (lows k) k binds b)"
proof -
  let ?s = "servers b ! k"
  have g: "good P (world_of b)" and wf: "\<forall>p\<in>set (concat (containers b)). pin_wf p"
    and h: "owns P B (map pfd (filter live (concat (containers b)))) (world_of b)"
    and st: "list_all2 same_table ss (servers b)" and js: "list_all2 (server_of_job d) (servers b) ids"
    using inv by (auto simp: binds_inv_def)
  have kss: "k < length ss" using st k by (auto dest: list_all2_lengthD)
  have t: "same_table (ss ! k) ?s" using st kss by (auto dest: list_all2_nthD)
  have roots: "roots_unprotected P E (bind_roots ?s (up k) (lows k))"
    using assms(2) [OF kss] same_table_roots [OF t] by simp
  obtain r s' w' where c: "buildBindMounts E (up k) (lows k) binds ?s (world_of b) = (r, s', w')"
    using prod_cases3 by blast
  have ok: "safe P (world_of b) w'" "same_table ?s s'"
    using buildBindMounts_ok [OF assms(1) g roots h c] by auto
  have ad: "adds (points_of ?s) (world_of b) w'" "same_stager ?s s'"
    using buildBindMounts_adds [OF assms(1) g roots c] by auto
  have tables: "list_all2 same_table ss ((servers b)[k := s'])"
    using list_all2_update_right [OF st k same_table_trans [OF t ok(2)]] .
  have "server_of_job d s' (ids ! k)"
    using list_all2_nthD [OF js k] ad(2)
    by (cases "stager_of ?s") (auto simp: server_of_job_def same_stager_def)
  then have jobs: "list_all2 (server_of_job d) ((servers b)[k := s']) ids"
    using list_all2_update_left [OF js k] by blast
  have keep: "binds_inv P B d ids ss b'"
    if b': "world_of b' = w'" "servers b' = (servers b)[k := s']" "started b' = started b" "sweeps b' = sweeps b"
      "\<forall>p\<in>set (concat (containers b')). pin_wf p" "owns P B (map pfd (filter live (concat (containers b')))) w'" for b'
  proof -
    have "\<forall>sw\<in>set (sweeps b'). sweep_ok b' sw"
      using inv b' sweep_ok_create [OF _ assms(4) k ad b'(1-3)] by (auto simp: binds_inv_def)
    with inv ok(1) tables jobs b' show ?thesis by (auto simp: binds_inv_def safe_def)
  qed
  show ?thesis
  proof (cases r)
    case (Inl e)
    with buildBindMounts_ok [OF assms(1) g roots h c] wf c
    show ?thesis by (intro keep) (simp_all add: after_create_def)
  next
    case (Inr mp)
    obtain ms qs where mp: "mp = (ms, qs)" by (cases mp)
    with Inr buildBindMounts_ok [OF assms(1) g roots h c] have q: "\<forall>p\<in>set qs. live p"
      "owns P B (map pfd qs @ map pfd (filter live (concat (containers b)))) w'" by auto
    have "owns P B (map pfd (filter live (concat (containers b @ [qs])))) w'"
      using q(1) by (intro owns_perm [OF q(2)]) (simp add: filter_id_conv [THEN iffD2])
    moreover have "\<forall>p\<in>set (concat (containers b @ [qs])). pin_wf p"
      using wf q(1) by (auto simp: live_def pin_wf_def)
    ultimately show ?thesis using c Inr mp by (intro keep) (simp_all add: after_create_def)
  qed
qed

lemma cleanup_inv:
  assumes "confines P E" and inv: "binds_inv P B d ids ss b" and i: "i < length (containers b)"
  shows "binds_inv P B d ids ss (after_cleanup E i b)"
proof -
  have g: "good P (world_of b)" and wf: "\<forall>p\<in>set (concat (containers b)). pin_wf p"
    and h: "owns P B (map pfd (filter live (concat (containers b)))) (world_of b)"
    using inv by (auto simp: binds_inv_def)
  obtain ps w' where c: "closeBindPins E (containers b ! i) (world_of b) = (ps, w')"
    by (cases "closeBindPins E (containers b ! i) (world_of b)")
  obtain xs ys where cc: "concat (containers b) = xs @ containers b ! i @ ys"
    "concat ((containers b)[i := ps]) = xs @ ps @ ys"
    using concat_update [OF i] by blast
  have hp: "owns P B (map pfd (filter live (containers b ! i)) @ map pfd (filter live (xs @ ys))) (world_of b)"
    by (rule owns_perm [OF h]) (simp add: cc)
  have wfi: "\<forall>p\<in>set (containers b ! i). pin_wf p" using wf cc by auto
  note cl = close_pins [OF assms(1) g wfi hp c]
  have "filter live ps = []" using cl(3) by (auto simp: filter_empty_conv live_def)
  then have "owns P B (map pfd (filter live (concat ((containers b)[i := ps])))) w'" using cl(2) by (simp add: cc)
  moreover have "\<forall>p\<in>set (concat ((containers b)[i := ps])). pin_wf p"
    using wf cl(3) by (auto simp: cc pin_wf_def)
  ultimately show ?thesis using cl(1) c close_pins_mtab [OF c]
    by (intro binds_inv_safe [OF inv]) (simp_all add: after_cleanup_def)
qed

lemma stop_inv:
  assumes inv: "binds_inv P B d ids ss b" and k: "k < length (servers b)"
  shows "binds_inv P B d ids ss (after_stop k b)"
proof (cases "stager_of (servers b ! k)")
  case None
  with inv show ?thesis by (simp add: after_stop_def)
next
  case (Some m)
  let ?s = "(servers b ! k)\<lparr>stager_of := Some (fst (close_stager m))\<rparr>"
  have st: "list_all2 same_table ss (servers b)" and js: "list_all2 (server_of_job d) (servers b) ids"
    and abs: "has_prefix d ''/''" "distinct ids"
    using inv by (auto simp: binds_inv_def)
  have kss: "k < length ss" using st k by (auto dest: list_all2_lengthD)
  have "same_table (ss ! k) ?s" using list_all2_nthD [OF st kss] by (simp add: same_table_def)
  then have tables: "list_all2 same_table ss ((servers b)[k := ?s])" using list_all2_update_right [OF st k] by blast
  have "server_of_job d ?s (ids ! k)"
    using list_all2_nthD [OF js k] Some by (simp add: server_of_job_def close_stager_def)
  then have jobs: "list_all2 (server_of_job d) ((servers b)[k := ?s]) ids" using list_all2_update_left [OF js k] by blast
  let ?b = "after_stop k b"
  have b: "world_of ?b = world_of b" "servers ?b = (servers b)[k := ?s]" "started ?b = started b"
    "containers ?b = containers b" "sweeps ?b = sweeps b @ [(st_dir m, snd (close_stager m))]"
    using Some by (simp_all add: after_stop_def)
  have "points_of ?s mp \<Longrightarrow> points_of (servers b ! k) mp" for mp
    by (simp add: points_of_def mounted_by_def close_stager_def)
  then have "apart dir ?s" if "apart dir (servers b ! k)" for dir using that by (auto simp: apart_def)
  then have "sweep_ok ?b sw" if "sweep_ok b sw" for sw
    using that k unfolding sweep_ok_def b by (auto dest!: set_update_subset_insert [THEN subsetD])
  moreover have "sweep_ok ?b (st_dir m, snd (close_stager m))"
    using apart_stopped [OF abs(1) js abs(2) k Some] unfolding sweep_ok_def b by (auto simp: close_stager_def)
  ultimately have "\<forall>sw\<in>set (sweeps ?b). sweep_ok ?b sw" using inv b(5) by (auto simp: binds_inv_def)
  with inv tables jobs b show ?thesis by (simp add: binds_inv_def)
qed

lemma sweep_inv:
  assumes "confines P E" and inv: "binds_inv P B d ids ss b" and i: "i < length (sweeps b)"
  shows "binds_inv P B d ids ss (after_sweep E i b)"
proof -
  obtain dir ph where sw: "sweeps b ! i = (dir, ph)" by force
  obtain ph' w' where step: "sweep_step E dir ph (world_of b) = (ph', w')" by force
  let ?b = "after_sweep E i b"
  have b: "world_of ?b = w'" "servers ?b = servers b" "started ?b = started b" "containers ?b = containers b"
    "sweeps ?b = (sweeps b)[i := (dir, ph')]"
    using sw step by (simp_all add: after_sweep_def)
  have g: "good P (world_of b)" using inv by (simp add: binds_inv_def)
  have ok: "sweep_ok b (dir, ph)" using inv i sw by (metis binds_inv_def nth_mem)
  then have fr: "calm P (world_of b) w'" "set (mtab w') \<subseteq> set (mtab (world_of b))" "ph' = SweepRemove \<longrightarrow> clear_below dir w'"
    using sweep_step_frame [OF assms(1) g _ step] by (auto simp: sweep_ok_def)
  have "ph = SweepEnd \<Longrightarrow> ph' = SweepEnd" using step by auto
  with ok fr(3) have "sweep_ok ?b (dir, ph')" by (auto simp: sweep_ok_def b)
  moreover have "sweep_ok ?b x" if "sweep_ok b x" for x
    using sweep_ok_frame [OF that, of ?b] fr(2) b by simp
  ultimately have "\<forall>sw\<in>set (sweeps ?b). sweep_ok ?b sw"
    using inv unfolding b(5) by (auto simp: binds_inv_def dest!: set_update_subset_insert [THEN subsetD])
  with inv fr(1) b show ?thesis by (auto simp: binds_inv_def calm_def safe_def intro: owns_same)
qed

lemma bind_step_inv:
  assumes "confines P E" and "\<And>k. k < length ss \<Longrightarrow> roots_unprotected P E (bind_roots (ss ! k) (up k) (lows k))"
    and inv: "binds_inv P B d ids ss b" and "bind_step E d up lows b b'"
  shows "binds_inv P B d ids ss b'"
  using assms(4)
proof (cases rule: bind_step.cases)
  case (create k binds)
  with create_inv [OF assms(1,2) inv] show ?thesis by blast
next
  case (cleanup i)
  with cleanup_inv [OF assms(1) inv] show ?thesis by blast
next
  case (stop k)
  with stop_inv [OF inv] show ?thesis by blast
next
  case (sweep_all entries)
  then show ?thesis using inv by (auto simp: binds_inv_def sweep_ok_def)
next
  case accept_jobs
  then show ?thesis using inv by (auto simp: binds_inv_def sweep_ok_def list_all_iff)
next
  case (sweep_job job)
  then show ?thesis using inv apart_dead_job [of d "servers b" ids job]
    by (auto simp: binds_inv_def sweep_ok_def)
next
  case (sweep i)
  with sweep_inv [OF assms(1) inv] show ?thesis by blast
qed

text \<open>
  C9. Over any interleaving of container creates, cleanups (run once or again) and server stops with
  the single system calls of any number of teardowns and sweeps, for any number of jobs that change
  the file system in between and whichever calls fail: from the moment a removal of a staging
  directory has found it free of mounts until its \<^verbatim>\<open>RemoveAll\<close> returns, no mount point is at or
  below that directory, so a removal never deletes through a live bind; no protected inode
  is ever mounted; no descriptor is closed that was not open; and the descriptors open beyond those
  of the rest of the daemon are exactly the ones of pins not yet released, each on an unprotected
  inode. The sweeps take no lock; what keeps them apart is the contract of \<^verbatim>\<open>bindstage.go\<close> that is
  part of the steps: the whole tree is swept before jobs are accepted, and the sweep of one job is
  for a job with no live stager (see \<open>sweep_of_live_job\<close> for what happens otherwise).
\<close>

theorem staged_binds_stay_clean:
  assumes "confines P E" and "\<And>k. k < length ss \<Longrightarrow> roots_unprotected P E (bind_roots (ss ! k) (up k) (lows k))"
    and "bd.reachable P B dataDir ids ss E up lows b"
  shows "list_all (\<lambda>(dir, ph). clear_below dir (world_of b)) (filter (\<lambda>(dir, ph). ph = SweepRemove) (sweeps b)) \<and>
    removals_ok (removals (world_of b)) \<and> mounts_ok P (mtab (world_of b)) \<and>
    bad_closes (world_of b) = 0 \<and>
    owns P B (map pfd (filter live (concat (containers b)))) (world_of b)"
proof -
  have "binds_inv P B dataDir ids ss b"
  proof (rule bd.reachable_invariant [OF assms(3)])
    fix b0 assume i: "init_binds P B dataDir ids ss b0"
    have "list_all2 (server_of_job dataDir) ss ids"
      using i by (auto simp: init_binds_def server_for_def server_of_job_def newBindStager_def elim!: list.rel_mono_strong)
    moreover have "list_all2 same_table ss ss" by (simp add: list.rel_refl_strong same_table_def)
    ultimately show "binds_inv P B dataDir ids ss b0"
      using i by (auto simp: init_binds_def binds_inv_def removals_ok_def owns_Nil)
  qed (use bind_step_inv [OF assms(1,2)] in blast)
  then show ?thesis by (auto simp: binds_inv_def sweep_ok_def list_all_iff)
qed

subsection \<open>A job that plants a link\<close>

text \<open>
  The container's root holds one directory \<^verbatim>\<open>w\<close>; a directory of the node and a file in it are
  protected. After the daemon opened the root, the job replaces \<^verbatim>\<open>w\<close> by a link out of its root.
\<close>

definition node_fs :: fsys where
  "node_fs = \<lparr>itab = [0 \<mapsto> plain_inode (Directory [''w'' \<mapsto> 1]), 1 \<mapsto> plain_inode (Directory Map.empty),
     8 \<mapsto> plain_inode (Directory [''s'' \<mapsto> 9]), 9 \<mapsto> plain_inode Regular], inext = 10\<rparr>"

definition node_world :: fs_world where
  "node_world = (world_on node_fs)\<lparr>fds := Map.empty\<rparr>"

definition link_planter :: outside where
  "link_planter = at_rest\<lparr>
     o_job := \<lambda>n f. if n = 2 then put_inode 1 (plain_inode (Symlink ''/..'')) f else f,
     o_open := \<lambda>n f p. if p = ''/r'' then Inr 0 else Inl ENOENT,
     o_lstat := \<lambda>n p. Inr \<lparr>st_mode = 0x41C0, st_uid = 0, st_gid = 0\<rparr>\<rparr>"

definition demo_server :: bindServer where
  "demo_server = \<lparr>transport_of = TransportUnix, on_windows = False,
     runnerBindMappings = [(''/s'', ''/h'')],
     runnerRootfsPath = ''/r'', stager_of = Some (newBindStager ''/d'' ''j''), euid_of = 0\<rparr>"

abbreviation demo_binds :: "string list" where
  "demo_binds \<equiv> [''/s:/s'', ''/w:/x:ro'']"

lemma guarded_put:
  assumes "guarded P f" and "i \<notin> P" and "\<And>m. i_node x \<noteq> Directory m"
  shows "guarded P (put_inode i x f)"
  using assms by (auto simp: guarded_def put_inode_def node_of_def split: if_splits)

lemma confines_planter: "confines {8, 9} link_planter"
  by (auto simp: confines_def link_planter_def at_rest_def plain_inode_def intro!: guarded_put)
     (auto simp: put_inode_def)

lemma good_node_world: "good {8, 9} node_world"
  by (auto simp: good_def guarded_def node_world_def world_on_def node_fs_def node_of_def
      plain_inode_def split: if_splits)

lemma roots_planter: "roots_unprotected {8, 9} link_planter R"
  by (auto simp: roots_unprotected_def link_planter_def split: if_splits)

text \<open>The planted link is followed, and ends at the root it starts from: the pin is on inode 0.\<close>

lemma planted_link_stays_inside:
  "case pinBindSource link_planter ''/r'' ''/w'' True node_world of
     (Inl e, w) \<Rightarrow> False | (Inr p, w) \<Rightarrow> fds w (pfd p) = Some 0"
  by code_simp

lemma sibling_binds_are_contained_witness:
  "case buildBindMounts link_planter '''' [] demo_binds demo_server node_world of
     (r, s', w') \<Rightarrow> itab (fs w') 9 = Some (plain_inode Regular) \<and> bad_closes w' = 0 \<and>
       (case r of Inl e \<Rightarrow> fds w' = Map.empty
        | Inr (ms, pins) \<Rightarrow> list_all (mount_ok {8, 9} demo_server (bind_sources demo_binds) w') ms)"
proof -
  obtain r s' w' where b: "buildBindMounts link_planter '''' [] demo_binds demo_server node_world = (r, s', w')"
    using prod_cases3 by blast
  have "itab (fs node_world) 9 = Some (plain_inode Regular)" "bad_closes node_world = 0" "fds node_world = Map.empty"
    by (simp_all add: node_world_def world_on_def node_fs_def)
  with sibling_binds_are_contained [OF confines_planter good_node_world roots_planter b] b
  show ?thesis by (auto split: sum.splits)
qed

abbreviation demo_start :: jobBinds where
  "demo_start \<equiv> \<lparr>servers = [demo_server], containers = [], sweeps = [], started = False, world_of = node_world\<rparr>"

abbreviation demo_created :: jobBinds where
  "demo_created \<equiv> after_create link_planter '''' [] 0 demo_binds (demo_start\<lparr>started := True\<rparr>)"

abbreviation demo_reach :: "jobBinds \<Rightarrow> bool" where
  "demo_reach \<equiv> bd.reachable {8, 9} Map.empty ''/d'' [''j''] [demo_server] link_planter (\<lambda>_. '''') (\<lambda>_. [])"

lemma demo_reach_created: "demo_reach demo_created"
proof -
  have "init_binds {8, 9} Map.empty ''/d'' [''j''] [demo_server] demo_start"
    using good_node_world
    by (simp add: init_binds_def node_world_def world_on_def mounts_ok_def server_for_def demo_server_def proper_name_def)
  then have "demo_reach demo_start" by (rule bd.reachable_init)
  then have "demo_reach (demo_start\<lparr>started := True\<rparr>)"
    by (rule bd.reachable_step) (rule bind_step.accept_jobs, simp)
  then show ?thesis
    by (rule bd.reachable_step) (rule bind_step.create [where up = "\<lambda>_. ''''" and lows = "\<lambda>_. []"], simp_all)
qed

text \<open>The job is stopped, and its directory removed call by call.\<close>

lemma staged_binds_stay_clean_witness:
  "removals_ok (removals (world_of (after_sweep link_planter 0 (after_stop 0 demo_created)))) \<and>
   mounts_ok {8, 9} (mtab (world_of (after_sweep link_planter 0 (after_stop 0 demo_created))))"
proof -
  obtain r s' w' where c: "buildBindMounts link_planter '''' [] demo_binds demo_server node_world = (r, s', w')"
    using prod_cases3 by blast
  then have sv: "servers demo_created = [s']"
    by (auto simp: after_create_def split: sum.splits)
  then have n: "length (servers demo_created) = 1" by simp
  have "same_stager demo_server s'"
    using buildBindMounts_adds [OF confines_planter good_node_world roots_planter c] by blast
  then have "stager_of (servers demo_created ! 0) \<noteq> None"
    using sv by (cases "stager_of s'") (auto simp: same_stager_def demo_server_def)
  then obtain m where "stager_of (servers demo_created ! 0) = Some m" by blast
  then have l: "0 < length (sweeps (after_stop 0 demo_created))" by (simp add: after_stop_def)
  have "demo_reach (after_stop 0 demo_created)"
    using demo_reach_created by (rule bd.reachable_step) (rule bind_step.stop, unfold n, simp)
  then have "demo_reach (after_sweep link_planter 0 (after_stop 0 demo_created))"
    by (rule bd.reachable_step) (rule bind_step.sweep [OF l])
  from staged_binds_stay_clean [OF confines_planter _ this] roots_planter show ?thesis by blast
qed

text \<open>
  Why the contract is needed: a sweep holds no lock and does not look again. Say the sweep of a
  live job has found its directory free of mounts; then the job stages one more bind, and the
  \<^verbatim>\<open>RemoveAll\<close> of the sweep deletes through it.
\<close>

lemma under_dir_entry:
  assumes "has_prefix dataDir ''/''" and "proper_name job"
  shows "under_dir (jobStagingDir dataDir job) (path_Join [jobStagingDir dataDir job, nat_to_dec n])"
proof -
  obtain ds where ds: "list_all proper_name ds" "jobStagingDir dataDir job = rooted (ds @ [job])"
    using jobStagingDir_rooted [OF assms] assms(2) by blast
  have pr: "list_all proper_name (ds @ [job])" using ds(1) assms(2) by simp
  have "trim_suffix (rooted (ds @ [job])) ''/'' = rooted (ds @ [job])"
    using rooted_last [OF pr] by (intro trim_suffix_last) simp_all
  moreover have "rooted ((ds @ [job]) @ [nat_to_dec n]) = rooted (ds @ [job]) @ ''/'' @ nat_to_dec n"
    by (subst str_join_snoc) simp
  ultimately show ?thesis
    using path_Join_rooted [OF pr proper_dec] by (simp add: ds(2) under_dir_def has_prefix_iff)
qed

lemma sweep_of_live_job:
  assumes "quiet E" and "has_prefix dataDir ''/''" and "proper_name job" and "st_dir m = jobStagingDir dataDir job"
    and "st_ready m" and "\<not> st_closed m" and "0 \<le> pin_fd p"
  shows "case stage E u m p w of (r, m', p', w') \<Rightarrow>
    (\<exists>target. r = Inr target) \<and> \<not> removals_ok (removals (snd (sweep_step E (st_dir m) SweepRemove w')))"
proof -
  let ?t = "path_Join [st_dir m, nat_to_dec (unat (st_seq m + 1))]"
  have other: "sys_other E v = (Inr (), tick v)" for v using assms(1) by (simp add: sys_other_def quiet_syscall)
  have bind: "sys_bind E i mp v = (Inr (), (tick v)\<lparr>mtab := (mp, i) # mtab (tick v)\<rparr>)" for i mp v
    using assms(1) by (simp add: sys_bind_def quiet_syscall)
  obtain m' p' w' where st: "stage E u m p w = (Inr ?t, m', p', w')" and mt: "?t \<in> fst ` set (mtab w')"
    using assms(5-7) by (simp add: stage_def ensureDirLocked_def other bind Let_def)
  have "under_dir (st_dir m) ?t" using under_dir_entry [OF assms(2,3)] assms(4) by simp
  moreover have "removals (snd (sweep_step E (st_dir m) SweepRemove w')) = removals w' @ [(st_dir m, mtab w')]"
    by (simp add: removeAll_def other tick_def)
  ultimately have "\<not> removals_ok (removals (snd (sweep_step E (st_dir m) SweepRemove w')))"
    using mt by (fastforce simp: removals_ok_def)
  with st show ?thesis by simp
qed

text \<open>
  The mount options of a bind are compared as a whole: with another flag next to \<^verbatim>\<open>ro\<close>, as in
  \<^verbatim>\<open>-v /s:/t:ro,z\<close>, the mount is made read-write.
\<close>

lemma read_only_with_a_flag_is_writable:
  "fst (bind_loop link_planter '''' [] [''/s:/t:ro,z''] demo_server [] [] node_world) =
     Inr ([\<lparr>Destination = ''/t'', Source = ''/h'', Options = [''rbind'', ''rw'']\<rparr>], [])"
  by code_simp

end
