(* ===== verification/Bufio.thy ===== *)
theory Bufio
  imports Posix_Path
begin

text \<open>
  The line scanner of Go's \<^verbatim>\<open>bufio\<close> and \<^verbatim>\<open>strings.Fields\<close>, which the packages that read
  command files, checksum files and the output of programs share.
\<close>

abbreviation newline :: char where "newline \<equiv> CHR 0x0A"

definition drop_cr :: "string \<Rightarrow> string" where
  "drop_cr s = (if s \<noteq> [] \<and> last s = CHR 0x0D then butlast s else s)"

text \<open>
  The lines a \<^verbatim>\<open>bufio.Scanner\<close> with a token limit returns, and whether it stopped at one too long
  for its buffer, which has to hold the line and its end.
\<close>

fun scan_raw :: "nat \<Rightarrow> string list \<Rightarrow> string list \<times> bool" where
  "scan_raw limit [] = ([], False)"
| "scan_raw limit [l] =
     (if l = [] then ([], False) else if length l < limit then ([drop_cr l], False) else ([], True))"
| "scan_raw limit (l # k # ls) =
     (if length l < limit then (case scan_raw limit (k # ls) of (xs, e) \<Rightarrow> (drop_cr l # xs, e)) else ([], True))"

definition scan_lines :: "nat \<Rightarrow> string \<Rightarrow> string list \<times> bool" where
  "scan_lines limit s = scan_raw limit (split_on newline s)"

definition MaxScanTokenSize :: nat where "MaxScanTokenSize = 65536"

text \<open>Lines that are short enough and carry no line end of their own are read back as written.\<close>

definition plain_line :: "nat \<Rightarrow> string \<Rightarrow> bool" where
  "plain_line limit l \<longleftrightarrow> newline \<notin> set l \<and> length l < limit \<and> CHR 0x0D \<notin> set l"

lemma drop_cr_plain: "plain_line limit l \<Longrightarrow> drop_cr l = l"
  by (cases "l = []") (auto simp: drop_cr_def plain_line_def dest: last_in_set)

lemma scan_lines_concat:
  assumes "list_all (plain_line limit) ls"
  shows "scan_lines limit (concat (map (\<lambda>l. l @ [newline]) ls)) = (ls, False)"
  using assms
proof (induction ls)
  case Nil
  then show ?case by (simp add: scan_lines_def)
next
  case (Cons l ls)
  then have l: "newline \<notin> set l" "length l < limit" "drop_cr l = l"
    by (auto simp: plain_line_def drop_cr_plain)
  define rest where "rest = split_on newline (concat (map (\<lambda>l. l @ [newline]) ls))"
  obtain k ks where r: "rest = k # ks" unfolding rest_def by (metis split_on_ne list.exhaust)
  have "scan_raw limit rest = (ls, False)" using Cons by (simp add: scan_lines_def rest_def)
  with l r have "scan_raw limit (l # rest) = (l # ls, False)" by simp
  moreover have "split_on newline (concat (map (\<lambda>l. l @ [newline]) (l # ls))) = l # rest"
    using split_on_append [OF l(1)] by (simp add: rest_def)
  ultimately show ?case by (simp add: scan_lines_def)
qed

subsection \<open>Fields\<close>

text \<open>\<^verbatim>\<open>strings.Fields\<close>: the maximal runs of bytes that are not white space.\<close>

function Fields :: "string \<Rightarrow> string list" where
  "Fields s =
     (case dropWhile is_space s of
        [] \<Rightarrow> []
      | c # cs \<Rightarrow> (c # takeWhile (\<lambda>x. \<not> is_space x) cs) # Fields (dropWhile (\<lambda>x. \<not> is_space x) cs))"
  by pat_completeness auto
termination
proof (relation "measure length")
  fix s c cs
  assume "dropWhile is_space s = c # cs"
  then have "length (c # cs) \<le> length s" by (metis length_dropWhile_le)
  then show "(dropWhile (\<lambda>x. \<not> is_space x) cs, s) \<in> measure length"
    using length_dropWhile_le [of "\<lambda>x. \<not> is_space x" cs] by simp
qed simp

declare Fields.simps [simp del]

definition spaceless :: "string \<Rightarrow> bool" where
  "spaceless s \<longleftrightarrow> (\<forall>c\<in>set s. \<not> is_space c)"

lemma dropWhile_spaceless: "spaceless s \<Longrightarrow> dropWhile is_space (s @ t) = (if s = [] then dropWhile is_space t else s @ t)"
  by (cases s) (auto simp: spaceless_def)

lemma fields_space: "is_space c \<Longrightarrow> Fields (c # s) = Fields s"
  by (subst (1 2) Fields.simps) simp

lemma fields_word:
  assumes "spaceless x" and "x \<noteq> []" and "is_space c"
  shows "Fields (x @ c # s) = x # Fields s"
proof -
  from assms(2) obtain a y where x: "x = a # y" by (cases x) auto
  with assms(1) have a: "\<not> is_space a" and y: "\<forall>c\<in>set y. \<not> is_space c" by (auto simp: spaceless_def)
  from y assms(3) have "takeWhile (\<lambda>x. \<not> is_space x) (y @ c # s) = y"
    "dropWhile (\<lambda>x. \<not> is_space x) (y @ c # s) = c # s"
    by (simp_all add: takeWhile_append dropWhile_append)
  with x a assms(3) show ?thesis by (subst Fields.simps) (simp add: fields_space)
qed

lemma fields_last:
  assumes "spaceless x" and "x \<noteq> []"
  shows "Fields x = [x]"
proof -
  from assms(2) obtain a y where x: "x = a # y" by (cases x) auto
  with assms(1) have a: "\<not> is_space a" and y: "\<forall>c\<in>set y. \<not> is_space c" by (auto simp: spaceless_def)
  from y have tw: "takeWhile (\<lambda>x. \<not> is_space x) y = y" and dw: "dropWhile (\<lambda>x. \<not> is_space x) y = []"
    by simp_all
  have "Fields [] = []" by (subst Fields.simps) simp
  with x a show ?thesis by (subst Fields.simps) (simp only: x dropWhile.simps list.case if_False tw dw)
qed

lemma trim_space_spaceless:
  assumes "spaceless s" shows "trim_space s = s"
proof -
  have d: "dropWhile is_space t = t" if "spaceless t" for t
    using that by (cases t) (auto simp: spaceless_def)
  have "spaceless (rev s)" using assms by (simp add: spaceless_def)
  with assms show ?thesis by (simp add: trim_space_def d)
qed

end
