(* ===== verification/Forge_Commands.thy ===== *)
theory Forge_Commands
  imports Bufio
begin

text \<open>
  \<^verbatim>\<open>pkg/forgerunner/commands.go\<close>: the workflow commands a step prints, the key-value files it
  writes, and the masking of secrets in its log, with the functions of Go's \<^verbatim>\<open>strings\<close> and
  \<^verbatim>\<open>bufio\<close> packages they use. A file is the bytes it holds; \<^const>\<open>None\<close> is a file that does
  not exist, and any other read error is a string of its own.
\<close>

subsection \<open>Library functions\<close>

text \<open>\<^verbatim>\<open>strings.Cut\<close> at a separator of any length; \<^verbatim>\<open>strings.Index\<close> finds the same place.\<close>

fun cut_str :: "string \<Rightarrow> string \<Rightarrow> (string \<times> string) option" where
  "cut_str sep [] = (if sep = [] then Some ([], []) else None)"
| "cut_str sep (c # s) =
     (if has_prefix (c # s) sep then Some ([], drop (length sep) (c # s))
      else case cut_str sep s of None \<Rightarrow> None | Some (a, b) \<Rightarrow> Some (c # a, b))"

text \<open>\<^verbatim>\<open>strings.ReplaceAll\<close> on bytes; an empty \<open>old\<close> matches before every byte and at the end.\<close>

function replaceAll :: "string \<Rightarrow> string \<Rightarrow> string \<Rightarrow> string" where
  "replaceAll old new s =
     (if old = [] then new @ concat (map (\<lambda>c. c # new) s)
      else if has_prefix s old then new @ replaceAll old new (drop (length old) s)
      else case s of [] \<Rightarrow> [] | c # cs \<Rightarrow> c # replaceAll old new cs)"
  by pat_completeness auto
termination
  by (relation "measure (\<lambda>(old, new, s). length s)") (auto simp: has_prefix_iff prefix_def)

declare replaceAll.simps [simp del]

lemma replaceAll_match:
  "old \<noteq> [] \<Longrightarrow> has_prefix s old \<Longrightarrow> replaceAll old new s = new @ replaceAll old new (drop (length old) s)"
  by (subst replaceAll.simps) simp

lemma replaceAll_Nil: "old \<noteq> [] \<Longrightarrow> replaceAll old new [] = []"
  by (subst replaceAll.simps) (simp add: has_prefix_iff)

lemma replaceAll_Cons:
  "old \<noteq> [] \<Longrightarrow> \<not> has_prefix (c # cs) old \<Longrightarrow> replaceAll old new (c # cs) = c # replaceAll old new cs"
  by (subst replaceAll.simps) simp

subsection \<open>Commands\<close>

record Command =
  cmd_Name :: string
  cmd_Params :: "string \<rightharpoonup> string"
  cmd_Value :: string

fun parse_params :: "string list \<Rightarrow> (string \<rightharpoonup> string) \<Rightarrow> (string \<rightharpoonup> string)" where
  "parse_params [] ps = ps"
| "parse_params (kv # kvs) ps =
     parse_params kvs (case cut (CHR ''='') kv of None \<Rightarrow> ps | Some (k, v) \<Rightarrow> ps(k \<mapsto> v))"

definition ParseCommand :: "string \<Rightarrow> Command option" where
  "ParseCommand line =
     (if \<not> has_prefix line ''::'' then None
      else case cut_str ''::'' (drop 2 line) of
             None \<Rightarrow> None
           | Some (head, val) \<Rightarrow>
               (let (name, params) =
                  (case cut (CHR '' '') head of
                     None \<Rightarrow> (head, Map.empty)
                   | Some (n, paramStr) \<Rightarrow> (n, parse_params (split_on (CHR '','') paramStr) Map.empty)) in
                if name = [] then None
                else Some \<lparr>cmd_Name = name, cmd_Params = params, cmd_Value = val\<rparr>))"

subsection \<open>Key-value files\<close>

text \<open>The body of a heredoc: up to the delimiter line, or to the end of the file.\<close>

fun heredoc :: "string \<Rightarrow> string list \<Rightarrow> string \<Rightarrow> string \<times> string list" where
  "heredoc delim [] sb = (sb, [])"
| "heredoc delim (l # ls) sb =
     (if l = delim then (sb, ls)
      else heredoc delim ls ((if sb \<noteq> [] then sb @ [newline] else sb) @ l))"

lemma heredoc_length: "length (snd (heredoc delim ls sb)) \<le> length ls"
  by (induction delim ls sb rule: heredoc.induct) auto

function parse_lines :: "string list \<Rightarrow> (string \<rightharpoonup> string) \<Rightarrow> (string \<rightharpoonup> string)" where
  "parse_lines [] m = m"
| "parse_lines (l # ls) m =
     (case cut_str ''<<'' l of
        Some (k, delim) \<Rightarrow>
          parse_lines (snd (heredoc (trim_space delim) ls []))
            (m(trim_space k \<mapsto> fst (heredoc (trim_space delim) ls [])))
      | None \<Rightarrow>
          (case cut (CHR ''='') l of
             None \<Rightarrow> parse_lines ls m
           | Some (k, v) \<Rightarrow> parse_lines ls (if trim_space k \<noteq> [] then m(trim_space k \<mapsto> v) else m)))"
  by pat_completeness auto
termination
  by (relation "measure (\<lambda>(ls, m). length ls)") (auto simp: le_imp_less_Suc heredoc_length)

text \<open>What \<^verbatim>\<open>os.ReadFile\<close> returned.\<close>

datatype file_read = Missing | Unreadable string | Content string

definition parseKeyValueFile :: "file_read \<Rightarrow> string + (string \<rightharpoonup> string)" where
  "parseKeyValueFile f =
     (case f of
        Missing \<Rightarrow> Inr Map.empty
      | Unreadable e \<Rightarrow> Inl e
      | Content d \<Rightarrow>
          if d = [] then Inr Map.empty
          else (case scan_lines MaxScanTokenSize d of
                  (ls, too_long) \<Rightarrow>
                    if too_long then Inl ''bufio.Scanner: token too long'' else Inr (parse_lines ls Map.empty)))"

definition readNonEmptyLines :: "file_read \<Rightarrow> string + string list" where
  "readNonEmptyLines f =
     (case f of
        Missing \<Rightarrow> Inr []
      | Unreadable e \<Rightarrow> Inl e
      | Content d \<Rightarrow> Inr (filter (\<lambda>l. l \<noteq> []) (map trim_space (split_on newline d))))"

record FileCommands =
  fc_Outputs :: "string \<rightharpoonup> string"
  fc_EnvVars :: "string \<rightharpoonup> string"
  fc_PathAdds :: "string list"

text \<open>An empty path skips its file.\<close>

definition ParseFileCommands ::
  "(string \<Rightarrow> file_read) \<Rightarrow> string \<Rightarrow> string \<Rightarrow> string \<Rightarrow> string + FileCommands" where
  "ParseFileCommands read outputPath envPath pathPath =
     (case (if outputPath = [] then Inr Map.empty else parseKeyValueFile (read outputPath)) of
        Inl e \<Rightarrow> Inl (''parse GITHUB_OUTPUT: '' @ e)
      | Inr outs \<Rightarrow>
     (case (if envPath = [] then Inr Map.empty else parseKeyValueFile (read envPath)) of
        Inl e \<Rightarrow> Inl (''parse GITHUB_ENV: '' @ e)
      | Inr envs \<Rightarrow>
     (case (if pathPath = [] then Inr [] else readNonEmptyLines (read pathPath)) of
        Inl e \<Rightarrow> Inl (''parse GITHUB_PATH: '' @ e)
      | Inr adds \<Rightarrow> Inr \<lparr>fc_Outputs = outs, fc_EnvVars = envs, fc_PathAdds = adds\<rparr>)))"

subsection \<open>Masking\<close>

record SecretMasker =
  secrets :: "string list"

definition NewSecretMasker :: "string list \<Rightarrow> SecretMasker" where
  "NewSecretMasker ss = \<lparr>secrets = filter (\<lambda>s. 3 \<le> length s) ss\<rparr>"

definition AddSecret :: "string \<Rightarrow> SecretMasker \<Rightarrow> SecretMasker" where
  "AddSecret s m = (if 3 \<le> length s then m\<lparr>secrets := secrets m @ [s]\<rparr> else m)"

definition Mask :: "SecretMasker \<Rightarrow> string \<Rightarrow> string" where
  "Mask m s = foldl (\<lambda>s secret. replaceAll secret ''***'' s) s (secrets m)"

definition masker_wf :: "SecretMasker \<Rightarrow> bool" where
  "masker_wf m \<longleftrightarrow> list_all (\<lambda>s. 3 \<le> length s) (secrets m)"

lemma masker_wf_New: "masker_wf (NewSecretMasker ss)"
  by (simp add: masker_wf_def NewSecretMasker_def list_all_iff)

lemma masker_wf_AddSecret: "masker_wf m \<Longrightarrow> masker_wf (AddSecret s m)"
  by (simp add: masker_wf_def AddSecret_def)

text \<open>What a star-free string can match in a text whose replacements are stars.\<close>

definition star_free :: "string \<Rightarrow> bool" where
  "star_free q \<longleftrightarrow> CHR ''*'' \<notin> set q"

lemma prefix_of_replaced:
  "old \<noteq> [] \<Longrightarrow> star_free q \<Longrightarrow> prefix q (replaceAll old ''***'' s) \<Longrightarrow> prefix q s"
proof (induction q arbitrary: s)
  case (Cons c q)
  show ?case
  proof (cases "has_prefix s old")
    case True
    with Cons.prems show ?thesis by (simp add: replaceAll_match star_free_def)
  next
    case False
    with Cons.prems obtain d cs where "s = d # cs" "prefix (c # q) (d # replaceAll old ''***'' cs)"
      by (cases s) (simp_all add: replaceAll_Nil replaceAll_Cons)
    with Cons.IH [of cs] Cons.prems show ?thesis by (simp add: star_free_def)
  qed
qed simp

lemma sublist_stars:
  assumes "star_free q" and "q \<noteq> []" and "sublist q (''***'' @ r)"
  shows "sublist q r"
  using assms by (cases q) (auto simp: sublist_Cons_right star_free_def)

lemma sublist_of_replaced:
  assumes "old \<noteq> []" and "star_free q" and "q \<noteq> []" and "sublist q (replaceAll old ''***'' s)"
  shows "sublist q s \<and> q \<noteq> old"
  using assms(4)
proof (induction "length s" arbitrary: s rule: less_induct)
  case less
  show ?case
  proof (cases "has_prefix s old")
    case True
    let ?r = "drop (length old) s"
    have "replaceAll old ''***'' s = ''***'' @ replaceAll old ''***'' ?r"
      using True assms(1) by (rule replaceAll_match [rotated])
    with less.prems sublist_stars [OF assms(2,3)] have "sublist q (replaceAll old ''***'' ?r)" by simp
    moreover have "length ?r < length s" using True assms(1) by (auto simp: has_prefix_iff prefix_def)
    ultimately have "sublist q ?r \<and> q \<noteq> old" by (intro less.hyps)
    then show ?thesis by (metis sublist_drop sublist_order.order_trans)
  next
    case False
    with less.prems assms(1,3) obtain d cs where s: "s = d # cs" and
      sub: "sublist q (d # replaceAll old ''***'' cs)"
      by (cases s) (simp_all add: replaceAll_Nil replaceAll_Cons)
    from sub consider (pre) "prefix q (d # replaceAll old ''***'' cs)" | (rest) "sublist q (replaceAll old ''***'' cs)"
      by (auto simp: sublist_Cons_right)
    then show ?thesis
    proof cases
      case pre
      then have "prefix q (replaceAll old ''***'' s)" using False assms(1) s
        by (simp add: replaceAll_Cons)
      then have "prefix q s" using prefix_of_replaced assms(1,2) by blast
      with False show ?thesis by (auto simp: has_prefix_iff)
    next
      case rest
      with less.hyps [of cs] s show ?thesis by (simp add: sublist_Cons_right)
    qed
  qed
qed

lemma replaced_absent:
  "old \<noteq> [] \<Longrightarrow> star_free q \<Longrightarrow> q \<noteq> [] \<Longrightarrow> q = old \<or> \<not> str_contains s q \<Longrightarrow>
   \<not> str_contains (replaceAll old ''***'' s) q"
  unfolding str_contains_iff using sublist_of_replaced by blast

lemma mask_absent:
  assumes "list_all (\<lambda>s. 3 \<le> length s) ss" and "star_free q" and "q \<noteq> []"
    and "q \<in> set ss \<or> \<not> str_contains s q"
  shows "\<not> str_contains (foldl (\<lambda>s secret. replaceAll secret ''***'' s) s ss) q"
  using assms(1,4)
proof (induction ss arbitrary: s)
  case (Cons x ss)
  have x: "x \<noteq> []" using Cons.prems(1) by auto
  have "q \<in> set ss \<or> \<not> str_contains (replaceAll x ''***'' s) q"
    using Cons.prems(2) replaced_absent [OF x assms(2,3)] by auto
  with Cons.IH Cons.prems(1) show ?case by simp
qed simp

lemma Mask_hides:
  assumes "masker_wf m" and "q \<in> set (secrets m)" and "star_free q"
  shows "\<not> str_contains (Mask m s) q"
proof -
  have "q \<noteq> []" using assms(1,2) by (auto simp: masker_wf_def list_all_iff)
  with assms show ?thesis unfolding Mask_def masker_wf_def by (intro mask_absent) simp_all
qed

subsection \<open>Heredocs\<close>

lemma heredoc_run:
  assumes "delim \<notin> set ls" and "sb \<noteq> []"
  shows "heredoc delim (ls @ delim # rest) sb = (sb @ concat (map (\<lambda>l. newline # l) ls), rest)"
  using assms by (induction ls arbitrary: sb) auto

lemma str_join_concat: "str_join [c] (l # ls) = l @ concat (map (\<lambda>l. c # l) ls)"
  by (induction ls arbitrary: l) auto

text \<open>A heredoc gives back the lines written between its delimiters, when the first is not empty.\<close>

lemma heredoc_roundtrip:
  assumes "delim \<notin> set ls" and "ls = [] \<or> hd ls \<noteq> []"
  shows "heredoc delim (ls @ delim # rest) [] = (str_join [newline] ls, rest)"
proof (cases ls)
  case (Cons l ls')
  with assms heredoc_run [of delim ls' l rest] show ?thesis by (auto simp: str_join_concat)
qed simp

text \<open>
  Four places where the code is not what its comments and the Actions format promise: empty lines at
  the start of a heredoc are lost, a value containing \<^verbatim>\<open><<\<close> is taken for a heredoc, one without
  its delimiter swallows the rest of the file, and masking a secret that another one starts with
  leaves the end of the longer one.
\<close>

lemma heredoc_loses_leading_lines: "fst (heredoc ''E'' ['''', '''', ''a'', ''E''] []) = ''a''"
  by simp

lemma shift_in_value_is_heredoc:
  "parse_lines [''k=a<<b'', ''x=1''] Map.empty = [''k=a'' \<mapsto> ''x=1'']"
  by (simp add: trim_space_def is_space_def)

lemma longer_secret_leaks: "Mask (NewSecretMasker [''abc'', ''abcdef'']) ''abcdef'' = ''***def''"
  by code_simp

end
