(* ===== verification/Forge_Run.thy ===== *)
theory Forge_Run
  imports Forge_Commands
begin

text \<open>
  The runner for Forgejo and Gitea jobs, \<^verbatim>\<open>pkg/forgerunner\<close>: the log reporter (\<^verbatim>\<open>log.go\<close>), a
  step's script (\<^verbatim>\<open>step_script.go\<close>), the environment of a task (\<^verbatim>\<open>context.go\<close>) and the loop over
  the steps of a job (\<^verbatim>\<open>executor.go\<close>). The forge's answers, the processes and the JSON and YAML
  decoders are arguments. Timestamps are not modelled, nor is the goroutine structure: the
  executor runs its steps, and everything they log, one after the other.
\<close>

subsection \<open>Log reporter\<close>

text \<open>
  The state of one job: the masker the reporter and the scripts share, the reporter's fields, the
  number of calls made to the forge, and the requests sent with \<^verbatim>\<open>UpdateLog\<close> and \<^verbatim>\<open>UpdateTask\<close>.
\<close>

datatype TaskResult = ResultUnspecified | ResultSuccess | ResultFailure | ResultCancelled | ResultSkipped

record StepState =
  ss_Step :: int
  ss_Result :: TaskResult
  ss_LogIndex :: int
  ss_LogLength :: int

record runState =
  rs_masker :: SecretMasker
  rs_rows :: "string list"
  rs_sent :: int
  rs_total :: int
  rs_ackIndex :: int
  rs_calls :: nat
  rs_log :: "(int \<times> string list \<times> bool) list"
  rs_task :: "(TaskResult \<times> StepState list) list"

type_synonym updateLog = "nat \<Rightarrow> int \<Rightarrow> string list \<Rightarrow> bool \<Rightarrow> string + int"

definition NewLogReporter :: "SecretMasker \<Rightarrow> runState" where
  "NewLogReporter m = \<lparr>rs_masker = m, rs_rows = [], rs_sent = 0, rs_total = 0, rs_ackIndex = 0,
     rs_calls = 0, rs_log = [], rs_task = []\<rparr>"

definition AddLine :: "string \<Rightarrow> runState \<Rightarrow> runState" where
  "AddLine c s = s\<lparr>rs_rows := rs_rows s @ [Mask (rs_masker s) c], rs_total := rs_total s + 1\<rparr>"

definition send :: "int \<Rightarrow> string list \<Rightarrow> bool \<Rightarrow> runState \<Rightarrow> runState" where
  "send index rows noMore s = s\<lparr>rs_calls := Suc (rs_calls s), rs_log := rs_log s @ [(index, rows, noMore)]\<rparr>"

text \<open>A failed flush puts its rows back in front of what came meanwhile.\<close>

definition Flush :: "updateLog \<Rightarrow> runState \<Rightarrow> string option \<times> runState" where
  "Flush C s =
     (let rows = rs_rows s; index = rs_ackIndex s; s1 = s\<lparr>rs_rows := []\<rparr> in
      if rows = [] then (None, s1)
      else case C (rs_calls s1) index rows False of
             Inl e \<Rightarrow> (let s2 = send index rows False s1 in (Some e, s2\<lparr>rs_rows := rows @ rs_rows s2\<rparr>))
           | Inr ack \<Rightarrow>
               (let s2 = send index rows False s1 in
                (None, s2\<lparr>rs_ackIndex := ack, rs_sent := rs_sent s2 + int (length rows)\<rparr>)))"

definition Close :: "updateLog \<Rightarrow> runState \<Rightarrow> string option \<times> runState" where
  "Close C s =
     (let rows = rs_rows s; index = rs_ackIndex s; s1 = s\<lparr>rs_rows := []\<rparr> in
      ((case C (rs_calls s1) index rows True of Inl e \<Rightarrow> Some e | Inr _ \<Rightarrow> None), send index rows True s1))"

subsection \<open>A script's output\<close>

fun processLines :: "string list \<Rightarrow> runState \<Rightarrow> runState" where
  "processLines [] s = s"
| "processLines (line # ls) s =
     processLines ls
       (case ParseCommand line of
          None \<Rightarrow> AddLine line s
        | Some cmd \<Rightarrow>
            if cmd_Name cmd = ''add-mask'' then s\<lparr>rs_masker := AddSecret (cmd_Value cmd) (rs_masker s)\<rparr>
            else if cmd_Name cmd \<in> {''error'', ''warning'', ''notice'', ''debug''}
            then AddLine (''['' @ cmd_Name cmd @ ''] '' @ cmd_Value cmd) s
            else if cmd_Name cmd = ''group'' then AddLine (''##[group]'' @ cmd_Value cmd) s
            else if cmd_Name cmd = ''endgroup'' then AddLine ''##[endgroup]'' s
            else if cmd_Name cmd \<in> {''stop-commands'', ''set-output'', ''set-env'', ''add-path''} then s
            else AddLine line s)"

text \<open>The scanner's buffer grows to a megabyte; its error is not looked at.\<close>

definition processOutput :: "string \<Rightarrow> runState \<Rightarrow> runState" where
  "processOutput output s = processLines (fst (scan_lines (1024 * 1024) output)) s"

subsection \<open>Steps\<close>

record Step =
  st_ID :: string
  st_Name :: string
  st_Run :: string
  st_Shell :: string
  st_Env :: "string \<rightharpoonup> string"
  st_WorkingDirectory :: string
  st_If :: string
  st_Uses :: string

definition DisplayName :: "Step \<Rightarrow> nat \<Rightarrow> string" where
  "DisplayName s index =
     (if st_Name s \<noteq> [] then st_Name s
      else if st_ID s \<noteq> [] then st_ID s
      else if st_Uses s \<noteq> [] then st_Uses s
      else if st_Run s \<noteq> [] then
        ''Run '' @ (if 40 < length (st_Run s) then take 40 (st_Run s) @ ''...'' else st_Run s)
      else ''Step '' @ nat_to_dec (index + 1))"

text \<open>\<^verbatim>\<open>defaultShell\<close> of each platform; the flags say which shells \<^verbatim>\<open>exec.LookPath\<close> finds.\<close>

definition bash_args :: "string list" where
  "bash_args = [''--noprofile'', ''--norc'', ''-eo'', ''pipefail'']"

definition pwsh_args :: "string list" where
  "pwsh_args = [''-NoProfile'', ''-NonInteractive'', ''-ExecutionPolicy'', ''Bypass'', ''-File'']"

definition cmd_args :: "string list" where
  "cmd_args = [''/D'', ''/E:ON'', ''/V:OFF'', ''/S'', ''/C'', ''call'']"

definition defaultShell_unix :: "bool \<Rightarrow> string \<times> string list \<times> string" where
  "defaultShell_unix has_bash = (if has_bash then (''bash'', bash_args, ''.sh'') else (''sh'', [''-e''], ''.sh''))"

definition defaultShell_windows :: "bool \<Rightarrow> bool \<Rightarrow> string \<times> string list \<times> string" where
  "defaultShell_windows has_pwsh has_powershell =
     (if has_pwsh then (''pwsh'', pwsh_args, ''.ps1'')
      else if has_powershell then (''powershell'', pwsh_args, ''.ps1'')
      else (''cmd'', cmd_args, ''.cmd''))"

definition resolveShell :: "string \<times> string list \<times> string \<Rightarrow> string \<Rightarrow> string \<times> string list \<times> string" where
  "resolveShell dflt shell =
     (let l = to_lower shell in
      if l = ''bash'' then (''bash'', bash_args, ''.sh'')
      else if l = ''sh'' then (''sh'', [''-e''], ''.sh'')
      else if l = ''pwsh'' \<or> l = ''powershell'' then (shell, pwsh_args, ''.ps1'')
      else if l = ''cmd'' then (''cmd'', cmd_args, ''.cmd'')
      else if l = ''python'' then (''python'', [], ''.py'')
      else if l = '''' then dflt
      else (shell, [], ''.sh''))"

record ScriptResult =
  sr_ExitCode :: int
  sr_Outputs :: "string \<rightharpoonup> string"
  sr_EnvChanges :: "string \<rightharpoonup> string"
  sr_PathAdds :: "string list"

text \<open>
  What the operating system does with a script: whether its directory and files can be made, the
  pipe opened and the process started, what it prints, how it ends, and what it leaves in the
  command files. The environment is a map, the last of duplicate entries counting.
\<close>

datatype wait_result = Exited int | WaitFailed string

record scriptRun =
  x_files :: "string option"
  x_script :: "string option"
  x_pipe :: "string option"
  x_start :: "string option"
  x_output :: string
  x_wait :: wait_result
  x_read :: "string \<Rightarrow> file_read"
  x_removeAll :: "string option"

record scriptWorld =
  w_default :: "string \<times> string list \<times> string"
  w_environ :: "string \<rightharpoonup> string"
  w_tmpDir :: "nat \<Rightarrow> string + string"
  w_run :: "nat \<Rightarrow> Step \<Rightarrow> string \<Rightarrow> string list \<Rightarrow> (string \<rightharpoonup> string) \<Rightarrow> string \<Rightarrow> scriptRun"

definition script_env :: "scriptWorld \<Rightarrow> (string \<rightharpoonup> string) \<Rightarrow> Step \<Rightarrow> string \<Rightarrow> (string \<rightharpoonup> string)" where
  "script_env W env step tmp =
     w_environ W ++ env ++ st_Env step ++
     [''GITHUB_OUTPUT'' \<mapsto> path_Join [tmp, ''output''], ''GITHUB_ENV'' \<mapsto> path_Join [tmp, ''env''],
      ''GITHUB_PATH'' \<mapsto> path_Join [tmp, ''path''], ''GITHUB_STEP_SUMMARY'' \<mapsto> path_Join [tmp, ''summary''],
      ''GITHUB_STATE'' \<mapsto> path_Join [tmp, ''state'']]"

text \<open>After the process ended: its exit code and the files it wrote.\<close>

definition script_result :: "scriptRun \<Rightarrow> string \<Rightarrow> runState \<Rightarrow> (string + ScriptResult) \<times> runState" where
  "script_result x tmp s =
     (case x_wait x of
        WaitFailed e \<Rightarrow> (Inl (''wait: '' @ e), s)
      | Exited code \<Rightarrow>
          (case ParseFileCommands (x_read x) (path_Join [tmp, ''output'']) (path_Join [tmp, ''env'']) (path_Join [tmp, ''path'']) of
             Inl e \<Rightarrow>
               (Inr \<lparr>sr_ExitCode = code, sr_Outputs = Map.empty, sr_EnvChanges = Map.empty, sr_PathAdds = []\<rparr>,
                AddLine (''warning: failed to parse file commands: '' @ e) s)
           | Inr fc \<Rightarrow>
               (Inr \<lparr>sr_ExitCode = code, sr_Outputs = fc_Outputs fc, sr_EnvChanges = fc_EnvVars fc,
                     sr_PathAdds = fc_PathAdds fc\<rparr>, s)))"

definition script_body :: "scriptRun \<Rightarrow> string \<Rightarrow> runState \<Rightarrow> (string + ScriptResult) \<times> runState" where
  "script_body x tmp s =
     (case x_files x of Some e \<Rightarrow> (Inl (''create file command file '' @ e), s)
      | None \<Rightarrow>
     (case x_script x of Some e \<Rightarrow> (Inl (''write script: '' @ e), s)
      | None \<Rightarrow>
     (case x_pipe x of Some e \<Rightarrow> (Inl (''stdout pipe: '' @ e), s)
      | None \<Rightarrow>
     (case x_start x of Some e \<Rightarrow> (Inl (''start process: '' @ e), s)
      | None \<Rightarrow> script_result x tmp (processOutput (x_output x) s)))))"

text \<open>The deferred removal of the temporary directory runs on every way out.\<close>

definition RunScript ::
  "scriptWorld \<Rightarrow> nat \<Rightarrow> Step \<Rightarrow> (string \<rightharpoonup> string) \<Rightarrow> string \<Rightarrow> runState \<Rightarrow> (string + ScriptResult) \<times> runState" where
  "RunScript W i step env workDir s =
     (if st_Run step = [] then
        (Inr \<lparr>sr_ExitCode = 0, sr_Outputs = Map.empty, sr_EnvChanges = Map.empty, sr_PathAdds = []\<rparr>, s)
      else
        (case w_tmpDir W i of
           Inl e \<Rightarrow> (Inl (''create temp dir: '' @ e), s)
         | Inr d \<Rightarrow>
             (let (shell, args, ext) = resolveShell (w_default W) (st_Shell step);
                  x = w_run W i step shell (args @ [path_Join [d, ''script'' @ ext]]) (script_env W env step d) workDir in
              case script_body x d s of
                (r, s) \<Rightarrow>
                  (r, case x_removeAll x of None \<Rightarrow> s
                      | Some e \<Rightarrow> AddLine (''warning: failed to clean temp dir: '' @ e) s))))"

subsection \<open>The environment of a task\<close>

text \<open>
  A value of the task's \<^verbatim>\<open>github\<close> context: a string, a number as \<^verbatim>\<open>%g\<close> prints it, or something
  else. The decoded context has the \<^verbatim>\<open>github\<close> object, and the secrets and variables in the
  order the maps are visited; each part is missing when it cannot be decoded.
\<close>

datatype json_value = JString string | JNumber string | JOther

record taskContext =
  ctx_github :: "(string \<rightharpoonup> json_value) option"
  ctx_secrets :: "(string \<times> string) list option"
  ctx_vars :: "(string \<times> string) list option"

definition setIfStr ::
  "string \<Rightarrow> (string \<rightharpoonup> json_value) \<Rightarrow> string \<Rightarrow> (string \<rightharpoonup> string) \<Rightarrow> (string \<rightharpoonup> string)" where
  "setIfStr key m field env =
     (case m field of
        Some (JString v) \<Rightarrow> if v \<noteq> [] then env(key \<mapsto> v) else env
      | Some (JNumber v) \<Rightarrow> env(key \<mapsto> v)
      | _ \<Rightarrow> env)"

definition github_fields :: "(string \<times> string) list" where
  "github_fields =
     [(''GITHUB_REPOSITORY'', ''repository''), (''GITHUB_REF'', ''ref''), (''GITHUB_SHA'', ''sha''),
      (''GITHUB_REF_NAME'', ''ref_name''), (''GITHUB_REF_TYPE'', ''ref_type''), (''GITHUB_ACTOR'', ''actor''),
      (''GITHUB_EVENT_NAME'', ''event_name''), (''GITHUB_SERVER_URL'', ''server_url''),
      (''GITHUB_API_URL'', ''api_url''), (''GITHUB_WORKSPACE'', ''workspace''), (''GITHUB_RUN_ID'', ''run_id''),
      (''GITHUB_RUN_NUMBER'', ''run_number''), (''GITHUB_WORKFLOW'', ''workflow''), (''GITHUB_JOB'', ''job''),
      (''GITHUB_TOKEN'', ''token'')]"

definition set_owner :: "(string \<rightharpoonup> json_value) \<Rightarrow> (string \<rightharpoonup> string) \<Rightarrow> (string \<rightharpoonup> string)" where
  "set_owner gh env =
     (case gh ''repository'' of
        Some (JString repo) \<Rightarrow>
          (case cut slash repo of None \<Rightarrow> env | Some (owner, _) \<Rightarrow> env(''GITHUB_REPOSITORY_OWNER'' \<mapsto> owner))
      | _ \<Rightarrow> env)"

text \<open>\<open>os\<close>, \<open>arch\<close> and \<open>tmp\<close> are \<^verbatim>\<open>runnerOS()\<close>, \<^verbatim>\<open>runnerArch()\<close> and \<^verbatim>\<open>os.TempDir()\<close>.\<close>

definition runnerOS :: "string \<Rightarrow> string" where
  "runnerOS goos = (if goos = ''darwin'' then ''macOS'' else if goos = ''windows'' then ''Windows'' else ''Linux'')"

definition runnerArch :: "string \<Rightarrow> string" where
  "runnerArch goarch = (if goarch = ''amd64'' then ''X64'' else if goarch = ''arm64'' then ''ARM64'' else goarch)"

definition BuildEnv ::
  "string \<Rightarrow> string \<Rightarrow> string \<Rightarrow> taskContext option \<Rightarrow> string \<Rightarrow> (string \<rightharpoonup> string)" where
  "BuildEnv goos goarch tmp ctx runnerName =
     (let env = [''RUNNER_OS'' \<mapsto> runnerOS goos, ''RUNNER_ARCH'' \<mapsto> runnerArch goarch,
                 ''RUNNER_NAME'' \<mapsto> runnerName, ''RUNNER_TOOL_CACHE'' \<mapsto> ''/opt/hostedtoolcache'',
                 ''RUNNER_TEMP'' \<mapsto> tmp, ''CI'' \<mapsto> ''true'', ''ACTIONS'' \<mapsto> ''true''] in
      case ctx of
        None \<Rightarrow> env
      | Some c \<Rightarrow>
          (let env = (case ctx_github c of
               None \<Rightarrow> env
             | Some gh \<Rightarrow> set_owner gh (foldl (\<lambda>env (key, field). setIfStr key gh field env) env github_fields));
               env = (case ctx_secrets c of
               None \<Rightarrow> env
             | Some ss \<Rightarrow> foldl (\<lambda>env (k, v). if to_lower k = ''github_token'' \<and> v \<noteq> [] then env(''GITHUB_TOKEN'' \<mapsto> v) else env) env ss)
           in case ctx_vars c of
               None \<Rightarrow> env
             | Some vs \<Rightarrow> foldl (\<lambda>env (k, v). env(''VARS_'' @ k \<mapsto> v)) env vs))"

definition SecretsFromContext :: "taskContext option \<Rightarrow> string list" where
  "SecretsFromContext ctx =
     (case ctx of
        None \<Rightarrow> []
      | Some c \<Rightarrow> (case ctx_secrets c of None \<Rightarrow> [] | Some ss \<Rightarrow> filter (\<lambda>v. v \<noteq> []) (map snd ss)))"

subsection \<open>The executor\<close>

record Job =
  job_Steps :: "Step list"
  job_Env :: "string \<rightharpoonup> string"

text \<open>
  What the executor is given: the forge's answers, the scripts, whether the context is cancelled
  before a step, whether a directory exists, the working directory, and the list separator.
\<close>

record execWorld =
  e_updateLog :: updateLog
  e_scripts :: scriptWorld
  e_cancelled :: "nat \<Rightarrow> bool"
  e_isDir :: "string \<Rightarrow> bool"
  e_workDir :: string
  e_listSep :: string

definition set_step :: "nat \<Rightarrow> (StepState \<Rightarrow> StepState) \<Rightarrow> StepState list \<Rightarrow> StepState list" where
  "set_step i f ss = (if i < length ss then ss[i := f (ss ! i)] else ss)"

text \<open>The end of a failed step: the line that says so, the group's end, and a flush.\<close>

definition fail_step :: "updateLog \<Rightarrow> string \<Rightarrow> runState \<Rightarrow> runState" where
  "fail_step C msg s = snd (Flush C (AddLine ''##[endgroup]'' (AddLine msg s)))"

definition env_after :: "execWorld \<Rightarrow> ScriptResult \<Rightarrow> (string \<rightharpoonup> string) \<Rightarrow> (string \<rightharpoonup> string)" where
  "env_after X r env =
     (let env = env ++ sr_EnvChanges r in
      if sr_PathAdds r = [] then env
      else env(''PATH'' \<mapsto> str_join (e_listSep X) (sr_PathAdds r) @ e_listSep X @ (case env ''PATH'' of None \<Rightarrow> '''' | Some p \<Rightarrow> p)))"

text \<open>The steps from the \<open>i\<close>-th on, with the result of the job so far being a success.\<close>

fun run_steps ::
  "execWorld \<Rightarrow> string \<Rightarrow> nat \<Rightarrow> Step list \<Rightarrow> (string \<rightharpoonup> string) \<Rightarrow> StepState list \<Rightarrow> runState \<Rightarrow>
   TaskResult \<times> StepState list \<times> runState" where
  "run_steps X dir i [] env sts s = (ResultSuccess, sts, s)"
| "run_steps X dir i (step # steps) env sts s =
     (if e_cancelled X i then (ResultCancelled, sts, s)
      else if st_Uses step \<noteq> [] then
        run_steps X dir (Suc i) steps env
          (set_step i (\<lambda>st. st\<lparr>ss_Step := int i, ss_Result := ResultSkipped\<rparr>) sts)
          (AddLine (''::warning::Skipping action step: '' @ st_Uses step @ '' (not yet supported)'') s)
      else
        (let s1 = AddLine (''##[group]Run '' @ DisplayName step i) s;
             start = rs_total s1 in
         case RunScript (e_scripts X) i step env
                (if st_WorkingDirectory step \<noteq> [] then st_WorkingDirectory step else dir) s1 of
           (r, s2) \<Rightarrow>
             (let done = (\<lambda>res st. st\<lparr>ss_Step := int i, ss_LogIndex := start,
                            ss_LogLength := rs_total s2 - start, ss_Result := res\<rparr>) in
              case r of
                Inl e \<Rightarrow>
                  (ResultFailure, set_step i (done ResultFailure) sts,
                   fail_step (e_updateLog X) (''::error::Step failed: '' @ e) s2)
              | Inr res \<Rightarrow>
                  if sr_ExitCode res \<noteq> 0 then
                    (ResultFailure, set_step i (done ResultFailure) sts,
                     fail_step (e_updateLog X) (''::error::Process exited with code '' @ int_to_dec (sr_ExitCode res)) s2)
                  else
                    run_steps X dir (Suc i) steps (env_after X res env) (set_step i (done ResultSuccess) sts)
                      (snd (Flush (e_updateLog X) (AddLine ''##[endgroup]'' s2))))))"

definition UpdateTask :: "TaskResult \<Rightarrow> StepState list \<Rightarrow> runState \<Rightarrow> runState" where
  "UpdateTask r sts s = s\<lparr>rs_calls := Suc (rs_calls s), rs_task := rs_task s @ [(r, sts)]\<rparr>"

text \<open>\<^verbatim>\<open>Executor.Run\<close> on a decoded workflow: the jobs in the order the map is visited.\<close>

definition Executor_Run ::
  "execWorld \<Rightarrow> (string \<rightharpoonup> string) \<Rightarrow> taskContext option \<Rightarrow> string + (string \<times> Job option) list \<Rightarrow>
   string option \<times> runState option" where
  "Executor_Run X taskEnv ctx workflow =
     (case workflow of
        Inl e \<Rightarrow> (Some e, None)
      | Inr jobs \<Rightarrow>
          (case jobs of
             [] \<Rightarrow> (Some ''no jobs in workflow'', None)
           | (name, None) # _ \<Rightarrow> (Some ''no jobs in workflow'', None)
           | (name, Some job) # _ \<Rightarrow>
               (let env = taskEnv(''GITHUB_JOB'' \<mapsto> name) ++ job_Env job;
                    sts = replicate (length (job_Steps job))
                            \<lparr>ss_Step = 0, ss_Result = ResultUnspecified, ss_LogIndex = 0, ss_LogLength = 0\<rparr>;
                    s0 = UpdateTask ResultUnspecified sts (NewLogReporter (NewSecretMasker (SecretsFromContext ctx)));
                    dir = (case env ''GITHUB_WORKSPACE'' of
                             Some ws \<Rightarrow> if ws \<noteq> [] \<and> e_isDir X ws then ws else e_workDir X
                           | None \<Rightarrow> e_workDir X) in
                case run_steps X dir 0 (job_Steps job) env sts s0 of
                  (result, sts, s) \<Rightarrow>
                    ((if result \<noteq> ResultSuccess then Some (''job '' @ name @ '' failed'') else None),
                     Some (snd (Close (e_updateLog X) (UpdateTask result sts s)))))))"

end
