(* ===== verification/Forge_Run_Laws.thy ===== *)
theory Forge_Run_Laws
  imports Forge_Run
begin

text \<open>
  Nothing the runner sends to the forge's log contains a registered secret without an asterisk (the
  masker registers secrets of three bytes and more only). \<open>hides q s\<close> is the
  invariant: the masker knows \<open>q\<close>, and neither the buffered rows nor the rows of any request
  sent so far contain it.
\<close>

definition clean_rows :: "string \<Rightarrow> string list \<Rightarrow> bool" where
  "clean_rows q rows \<longleftrightarrow> list_all (\<lambda>r. \<not> str_contains r q) rows"

definition hides :: "string \<Rightarrow> runState \<Rightarrow> bool" where
  "hides q s \<longleftrightarrow> masker_wf (rs_masker s) \<and> q \<in> set (secrets (rs_masker s)) \<and> clean_rows q (rs_rows s) \<and>
     list_all (\<lambda>(ix, rows, noMore). clean_rows q rows) (rs_log s)"

named_theorems hides_intros \<open>the invariant is kept\<close>

lemma hides_AddLine [hides_intros]: "star_free q \<Longrightarrow> hides q s \<Longrightarrow> hides q (AddLine c s)"
  by (simp add: hides_def AddLine_def clean_rows_def Mask_hides)

lemma hides_AddSecret [hides_intros]:
  "hides q s \<Longrightarrow> hides q (s\<lparr>rs_masker := AddSecret v (rs_masker s)\<rparr>)"
  by (simp add: hides_def masker_wf_AddSecret) (simp add: AddSecret_def)

lemma hides_Flush [hides_intros]: "hides q s \<Longrightarrow> hides q (snd (Flush C s))"
  by (simp add: hides_def Flush_def send_def clean_rows_def Let_def split: sum.splits)

lemma hides_Close [hides_intros]: "hides q s \<Longrightarrow> hides q (snd (Close C s))"
  by (simp add: hides_def Close_def send_def clean_rows_def Let_def)

lemma hides_UpdateTask [hides_intros]: "hides q s \<Longrightarrow> hides q (UpdateTask r sts s)"
  by (simp add: hides_def UpdateTask_def)

lemma hides_processLines [hides_intros]: "star_free q \<Longrightarrow> hides q s \<Longrightarrow> hides q (processLines ls s)"
  by (induction ls arbitrary: s) (auto intro: hides_intros split: option.splits)

lemma hides_RunScript:
  assumes "star_free q" and "hides q s" and "RunScript W i step env dir s = (r, s')"
  shows "hides q s'"
proof -
  have result: "hides q (snd (script_result x d u))" if "hides q u" for x d u
    using that assms(1) by (auto simp: script_result_def intro: hides_intros split: wait_result.splits sum.splits)
  have body: "hides q (snd (script_body x d u))" if "hides q u" for x d u
    using that assms(1)
    by (auto simp: script_body_def processOutput_def intro!: result intro: hides_intros split: option.splits)
  show ?thesis
  proof (cases "st_Run step = []")
    case True
    with assms show ?thesis by (simp add: RunScript_def)
  next
    case False
    show ?thesis
    proof (cases "w_tmpDir W i")
      case (Inl e)
      with assms False show ?thesis by (simp add: RunScript_def)
    next
      case (Inr d)
      obtain sh args ext where sh: "resolveShell (w_default W) (st_Shell step) = (sh, args, ext)"
        using prod_cases3 by blast
      let ?x = "w_run W i step sh (args @ [path_Join [d, ''script'' @ ext]]) (script_env W env step d) dir"
      obtain r1 s1 where b: "script_body ?x d s = (r1, s1)" by (cases "script_body ?x d s")
      with body [OF assms(2), of ?x d] have "hides q s1" by simp
      moreover have "s' = (case x_removeAll ?x of None \<Rightarrow> s1
          | Some e \<Rightarrow> AddLine (''warning: failed to clean temp dir: '' @ e) s1)"
        using assms(3) False Inr sh b by (simp add: RunScript_def Let_def)
      ultimately show ?thesis using assms(1) by (auto intro: hides_intros split: option.splits)
    qed
  qed
qed

lemma hides_fail_step [hides_intros]: "star_free q \<Longrightarrow> hides q s \<Longrightarrow> hides q (fail_step C m s)"
  unfolding fail_step_def by (intro hides_intros)

lemma hides_run_steps:
  assumes "star_free q" and "hides q s" and "run_steps X dir i steps env sts s = (r, sts', s')"
  shows "hides q s'"
  using assms(2,3)
proof (induction steps arbitrary: i env sts s)
  case (Cons step steps)
  let ?wd = "if st_WorkingDirectory step \<noteq> [] then st_WorkingDirectory step else dir"
  let ?s1 = "AddLine (''##[group]Run '' @ DisplayName step i) s"
  have h1: "hides q ?s1" using assms(1) Cons.prems(1) by (rule hides_AddLine)
  consider (stop) "e_cancelled X i" | (uses) "\<not> e_cancelled X i" "st_Uses step \<noteq> []"
    | (run) "\<not> e_cancelled X i" "st_Uses step = []" by blast
  then show ?case
  proof cases
    case stop
    with Cons.prems show ?thesis by simp
  next
    case uses
    with Cons.IH [OF hides_AddLine [OF assms(1) Cons.prems(1)]] Cons.prems(2) show ?thesis by simp
  next
    case run
    obtain r1 s2 where rs: "RunScript (e_scripts X) i step env ?wd ?s1 = (r1, s2)"
      by (cases "RunScript (e_scripts X) i step env ?wd ?s1")
    have h2: "hides q s2" using hides_RunScript [OF assms(1) h1 rs] .
    show ?thesis
    proof (cases r1)
      case (Inl e)
      with Cons.prems(2) run rs h2 assms(1) show ?thesis by (auto simp: Let_def intro: hides_intros)
    next
      case (Inr res)
      show ?thesis
      proof (cases "sr_ExitCode res = 0")
        case True
        have "hides q (snd (Flush (e_updateLog X) (AddLine ''##[endgroup]'' s2)))"
          using assms(1) h2 by (intro hides_intros)
        from Cons.IH [OF this] Cons.prems(2) run rs Inr True show ?thesis by (simp add: Let_def)
      next
        case False
        with Cons.prems(2) run rs Inr h2 assms(1) show ?thesis by (auto simp: Let_def intro: hides_intros)
      qed
    qed
  qed
qed simp

text \<open>
  C10. The secrets that the masker takes stay out of the forge's log. Whatever the scripts print
  and however they end, whatever masks they add, and however often sending fails and is repeated,
  no row of any log request of the job contains a secret of the task context that has at least
  three bytes and no asterisk. The two limits are the code's: shorter secrets are not registered
  and are logged as they are, and the mask \<^verbatim>\<open>***\<close> may itself complete a secret with asterisks. A
  secret of several lines is not contained in a row either, but its lines are not masked.
\<close>

theorem secrets_stay_out_of_the_log:
  assumes "Executor_Run X taskEnv ctx workflow = (err, Some s)"
    and "q \<in> set (SecretsFromContext ctx)" and "3 \<le> length q" and "star_free q"
  shows "list_all (\<lambda>(ix, rows, noMore). list_all (\<lambda>row. \<not> str_contains row q) rows) (rs_log s)"
proof -
  let ?m = "NewSecretMasker (SecretsFromContext ctx)"
  have "hides q (NewLogReporter ?m)"
    using assms(2,3) masker_wf_New [of "SecretsFromContext ctx"]
    by (simp add: hides_def NewLogReporter_def clean_rows_def) (simp add: NewSecretMasker_def)
  then have init: "hides q (UpdateTask r sts (NewLogReporter ?m))" for r sts by (rule hides_UpdateTask)
  from assms(1) obtain name job jobs where w: "workflow = Inr ((name, Some job) # jobs)"
    by (auto simp: Executor_Run_def split: sum.splits list.splits option.splits prod.splits)
  let ?env = "taskEnv(''GITHUB_JOB'' \<mapsto> name) ++ job_Env job"
  let ?sts = "replicate (length (job_Steps job))
      \<lparr>ss_Step = 0, ss_Result = ResultUnspecified, ss_LogIndex = 0, ss_LogLength = 0\<rparr>"
  let ?dir = "case ?env ''GITHUB_WORKSPACE'' of
      Some ws \<Rightarrow> if ws \<noteq> [] \<and> e_isDir X ws then ws else e_workDir X | None \<Rightarrow> e_workDir X"
  obtain r sts' s1 where rs: "run_steps X ?dir 0 (job_Steps job) ?env ?sts
      (UpdateTask ResultUnspecified ?sts (NewLogReporter ?m)) = (r, sts', s1)"
    using prod_cases3 by blast
  have s: "s = snd (Close (e_updateLog X) (UpdateTask r sts' s1))"
    using assms(1) rs by (simp add: Executor_Run_def w Let_def)
  have "hides q s" unfolding s
    using hides_run_steps [OF assms(4) init rs] by (intro hides_intros)
  then show ?thesis by (simp add: hides_def clean_rows_def)
qed

text \<open>A job whose one step prints the secret \<^verbatim>\<open>pw1\<close>; the first flush fails.\<close>

definition leaky_step :: Step where
  "leaky_step = \<lparr>st_ID = '''', st_Name = ''s'', st_Run = ''r'', st_Shell = '''', st_Env = Map.empty,
     st_WorkingDirectory = '''', st_If = '''', st_Uses = ''''\<rparr>"

definition leaky_run :: scriptRun where
  "leaky_run = \<lparr>x_files = None, x_script = None, x_pipe = None, x_start = None,
     x_output = ''a pw1'' @ [newline], x_wait = Exited 0, x_read = \<lambda>f. Missing, x_removeAll = None\<rparr>"

definition leaky_exec :: execWorld where
  "leaky_exec = \<lparr>e_updateLog = \<lambda>n ix rows noMore. if n = 1 then Inl ''down'' else Inr (ix + int (length rows)),
     e_scripts = \<lparr>w_default = (''sh'', [], ''''), w_environ = Map.empty, w_tmpDir = \<lambda>i. Inr ''/t'',
                  w_run = \<lambda>i st sh args env dir. leaky_run\<rparr>,
     e_cancelled = \<lambda>i. False, e_isDir = \<lambda>d. False, e_workDir = ''/w'', e_listSep = '':''\<rparr>"

abbreviation leaky_context :: "taskContext option" where
  "leaky_context \<equiv> Some \<lparr>ctx_github = None, ctx_secrets = Some [(''K'', ''pw1'')], ctx_vars = None\<rparr>"

abbreviation leaky_workflow :: "string + (string \<times> Job option) list" where
  "leaky_workflow \<equiv> Inr [(''j'', Some \<lparr>job_Steps = [leaky_step], job_Env = Map.empty\<rparr>)]"

lemmas output_simps = processOutput_def scan_lines_def drop_cr_def ParseCommand_def AddLine_def Mask_def
  NewSecretMasker_def NewLogReporter_def replaceAll_match replaceAll_Nil replaceAll_Cons

lemma leaky_log:
  "map_option rs_log (snd (Executor_Run leaky_exec Map.empty leaky_context leaky_workflow)) =
     Some [(0, [''##[group]Run s'', ''a ***'', ''##[endgroup]''], False),
           (0, [''##[group]Run s'', ''a ***'', ''##[endgroup]''], True)]"
  by (simp add: Executor_Run_def leaky_exec_def leaky_run_def leaky_step_def SecretsFromContext_def UpdateTask_def
      Let_def RunScript_def script_body_def script_result_def resolveShell_def DisplayName_def to_lower_def
      ParseFileCommands_def parseKeyValueFile_def readNonEmptyLines_def Flush_def Close_def send_def output_simps)

lemma secrets_stay_out_of_the_log_witness:
  "list_all (\<lambda>(ix, rows, noMore). list_all (\<lambda>row. \<not> str_contains row ''pw1'') rows)
     [(0 :: int, [''##[group]Run s'', ''a ***'', ''##[endgroup]''], False),
      (0, [''##[group]Run s'', ''a ***'', ''##[endgroup]''], True)]"
proof -
  obtain err so where r: "Executor_Run leaky_exec Map.empty leaky_context leaky_workflow = (err, so)"
    by (cases "Executor_Run leaky_exec Map.empty leaky_context leaky_workflow")
  with leaky_log obtain s where so: "so = Some s" and log: "rs_log s =
      [(0, [''##[group]Run s'', ''a ***'', ''##[endgroup]''], False),
       (0, [''##[group]Run s'', ''a ***'', ''##[endgroup]''], True)]" by (cases so) auto
  have "list_all (\<lambda>(ix, rows, noMore). list_all (\<lambda>row. \<not> str_contains row ''pw1'') rows) (rs_log s)"
    using r so by (intro secrets_stay_out_of_the_log) (auto simp: SecretsFromContext_def star_free_def)
  then show ?thesis by (simp only: log)
qed

text \<open>A secret of several lines is matched against one line at a time: its lines are logged as they are.\<close>

lemma multi_line_secret_is_logged:
  "rs_rows (processOutput (''ab'' @ [newline] @ ''cd'')
     (NewLogReporter (NewSecretMasker [''ab'' @ [newline] @ ''cd'']))) = [''ab'', ''cd'']"
  by (simp add: output_simps)

end
