(* ===== verification/Upgrade_Names.thy ===== *)
theory Upgrade_Names
  imports Bufio Sha256
begin

text \<open>
  The names and files of a release in \<^verbatim>\<open>pkg/upgrade/upgrade.go\<close>: version tags, the asset of a
  platform, the download directory, \<^verbatim>\<open>checksums.txt\<close> and the output of \<^verbatim>\<open>ephemerd --version\<close>.
\<close>

subsection \<open>Version tags\<close>

definition is_digit :: "char \<Rightarrow> bool" where
  "is_digit c \<longleftrightarrow> (let n = of_char c :: nat in 48 \<le> n \<and> n \<le> 57)"

definition tag_char :: "char \<Rightarrow> bool" where
  "tag_char c \<longleftrightarrow>
     (let n = of_char c :: nat in is_digit c \<or> 65 \<le> n \<and> n \<le> 90 \<or> 97 \<le> n \<and> n \<le> 122 \<or> c = CHR ''.'')"

text \<open>
  The pattern \<^verbatim>\<open>^v[0-9]+\.[0-9]+\.[0-9]+(-[A-Za-z0-9.]+)?$\<close> as a matcher: no digit can also
  be read as what follows the digits, so each run of digits is the longest one.
\<close>

definition match_number :: "string \<Rightarrow> string option" where
  "match_number s =
     (if takeWhile is_digit s = [] then None else Some (dropWhile is_digit s))"

definition match_char :: "char \<Rightarrow> string \<Rightarrow> string option" where
  "match_char c s = (case s of x # r \<Rightarrow> if x = c then Some r else None | [] \<Rightarrow> None)"

definition match_tail :: "string \<Rightarrow> bool" where
  "match_tail s =
     (case s of [] \<Rightarrow> True | c # t \<Rightarrow> c = CHR ''-'' \<and> t \<noteq> [] \<and> list_all tag_char t)"

definition versionRe :: "string \<Rightarrow> bool" where
  "versionRe s =
     (case Option.bind (match_char CHR ''v'' s) (\<lambda>s. Option.bind (match_number s) (\<lambda>s.
           Option.bind (match_char CHR ''.'' s) (\<lambda>s. Option.bind (match_number s) (\<lambda>s.
           Option.bind (match_char CHR ''.'' s) match_number)))) of
        None \<Rightarrow> False
      | Some t \<Rightarrow> match_tail t)"

definition NormalizeVersion :: "string \<Rightarrow> string" where
  "NormalizeVersion v =
     (let v = trim_space v in
      if v = '''' then '''' else if has_prefix v ''v'' then v else ''v'' @ v)"

definition ValidVersion :: "string \<Rightarrow> bool" where
  "ValidVersion v = versionRe (NormalizeVersion v)"

definition SameVersion :: "string \<Rightarrow> string \<Rightarrow> bool" where
  "SameVersion a b \<longleftrightarrow>
     (let na = NormalizeVersion a; nb = NormalizeVersion b in na \<noteq> '''' \<and> nb \<noteq> '''' \<and> na = nb)"

subsection \<open>Release files\<close>

definition assetExt :: "string \<Rightarrow> string" where
  "assetExt goos = (if goos = ''windows'' then ''zip'' else ''tar.gz'')"

definition binaryEntryName :: "string \<Rightarrow> string" where
  "binaryEntryName goos = (if goos = ''windows'' then ''ephemerd.exe'' else ''ephemerd'')"

definition AssetName :: "string \<Rightarrow> string \<Rightarrow> string \<Rightarrow> string" where
  "AssetName version goos goarch =
     ''ephemerd_'' @ NormalizeVersion version @ ''_'' @ goos @ ''_'' @ goarch @ ''.'' @ assetExt goos"

definition defaultRepoBase :: string where
  "defaultRepoBase = ''https://github.com/ephpm/ephemerd/releases/download''"

definition checksumsName :: string where "checksumsName = ''checksums.txt''"

definition trim_right_slashes :: "string \<Rightarrow> string" where
  "trim_right_slashes s = rev (dropWhile (\<lambda>c. c = slash) (rev s))"

definition baseURL :: "string \<Rightarrow> string \<Rightarrow> string" where
  "baseURL version override =
     (if override \<noteq> '''' then trim_right_slashes override
      else defaultRepoBase @ ''/'' @ NormalizeVersion version)"

text \<open>\<^verbatim>\<open>ParseChecksums\<close>; a line that is not a digest and a name is skipped, a later line wins.\<close>

definition checksum_entry :: "string \<Rightarrow> (string \<times> string) option" where
  "checksum_entry l =
     (case Fields (trim_space l) of
        [d, n] \<Rightarrow> Some (trim_prefix n ''*'', to_lower d)
      | _ \<Rightarrow> None)"

definition ParseChecksums :: "string \<Rightarrow> string + (string \<rightharpoonup> string)" where
  "ParseChecksums data =
     (case scan_lines MaxScanTokenSize data of
        (ls, err) \<Rightarrow>
          let entries = List.map_filter checksum_entry ls in
          if err then Inl ''bufio.Scanner: token too long''
          else if entries = [] then Inl ''no checksum entries found''
          else Inr (map_of (rev entries)))"

text \<open>\<^verbatim>\<open>parseVersionOutput\<close>: the first field that is a tag, else the last field.\<close>

definition parseVersionOutput :: "string \<Rightarrow> string" where
  "parseVersionOutput out =
     (case List.find ValidVersion (Fields out) of
        Some f \<Rightarrow> NormalizeVersion f
      | None \<Rightarrow> if Fields out \<noteq> [] then trim_space (last (Fields out)) else trim_space out)"

subsection \<open>What the names are\<close>

definition number :: "string \<Rightarrow> bool" where
  "number a \<longleftrightarrow> a \<noteq> [] \<and> list_all is_digit a"

lemma match_numberD:
  assumes "match_number s = Some r" obtains a where "s = a @ r" "number a"
proof
  from assms have "r = dropWhile is_digit s" by (simp add: match_number_def split: if_splits)
  then show "s = takeWhile is_digit s @ r" by simp
  from assms show "number (takeWhile is_digit s)"
    by (auto simp: match_number_def number_def list_all_iff split: if_splits dest: set_takeWhileD)
qed

lemma match_number_append:
  assumes "number a" and "r = [] \<or> \<not> is_digit (hd r)" shows "match_number (a @ r) = Some r"
proof -
  have "\<And>x. x \<in> set a \<Longrightarrow> is_digit x" using assms(1) by (simp add: number_def list_all_iff)
  moreover have "takeWhile is_digit r = []" "dropWhile is_digit r = r" using assms(2) by (cases r; simp)+
  ultimately have "takeWhile is_digit (a @ r) = a" "dropWhile is_digit (a @ r) = r" by simp_all
  with assms(1) show ?thesis by (simp add: match_number_def number_def)
qed

text \<open>The matcher accepts exactly the strings of the pattern.\<close>

lemma versionRe_iff:
  "versionRe s \<longleftrightarrow>
   (\<exists>a b c t. s = ''v'' @ a @ ''.'' @ b @ ''.'' @ c @ t \<and> number a \<and> number b \<and> number c \<and> match_tail t)"
  (is "?l = ?r")
proof
  assume ?l
  then show ?r
    by (auto simp: versionRe_def match_char_def split: list.splits if_splits option.splits Option.bind_splits
        elim!: match_numberD)
next
  assume ?r
  then obtain a b c t where s: "s = ''v'' @ a @ ''.'' @ b @ ''.'' @ c @ t"
    and n: "number a" "number b" "number c" and t: "match_tail t" by blast
  have dot: "\<not> is_digit CHR ''.''" by (simp add: is_digit_def)
  have "t = [] \<or> \<not> is_digit (hd t)" using t by (auto simp: match_tail_def is_digit_def split: list.splits)
  then show ?l
    using n t dot by (simp add: s versionRe_def match_char_def match_number_append)
qed

lemma tag_chars:
  assumes "versionRe s" and "c \<in> set s" shows "c \<noteq> slash" and "\<not> is_space c"
proof -
  have d: "c \<noteq> slash \<and> \<not> is_space c" if "tag_char c" for c
    using that by (auto simp: tag_char_def is_digit_def is_space_def Let_def)
  have n: "c \<noteq> slash \<and> \<not> is_space c" if "number a" "c \<in> set a" for a c
    using that d by (auto simp: number_def list_all_iff tag_char_def Let_def)
  from assms(1) obtain a b e t where s: "s = ''v'' @ a @ ''.'' @ b @ ''.'' @ e @ t"
    and nn: "number a" "number b" "number e" and t: "match_tail t" unfolding versionRe_iff by blast
  have "c \<noteq> slash \<and> \<not> is_space c" if "c \<in> set t"
    using t that d by (auto simp: match_tail_def list_all_iff is_space_def split: list.splits)
  with assms(2) n nn show "c \<noteq> slash" "\<not> is_space c"
    by (auto simp: s is_space_def)
qed

lemma tag_chars_plain:
  assumes "versionRe s" and "c \<in> set s" shows "tag_char c \<or> c = CHR ''-''"
proof -
  have n: "tag_char c" if "number a" "c \<in> set a" for a c
    using that by (auto simp: number_def list_all_iff tag_char_def Let_def)
  have p: "tag_char CHR ''v''" "tag_char CHR ''.''" by (simp_all add: tag_char_def Let_def is_digit_def)
  from assms(1) obtain a b e t where s: "s = ''v'' @ a @ ''.'' @ b @ ''.'' @ e @ t"
    and nn: "number a" "number b" "number e" and t: "match_tail t" unfolding versionRe_iff by blast
  have "tag_char c \<or> c = CHR ''-''" if "c \<in> set t"
    using t that by (auto simp: match_tail_def list_all_iff split: list.splits)
  with assms(2) n [OF nn(1)] n [OF nn(2)] n [OF nn(3)] p show ?thesis by (auto simp: s)
qed

lemma tag_spaceless: "versionRe s \<Longrightarrow> spaceless s"
  using tag_chars by (simp add: spaceless_def)

lemma tag_no_slash: "versionRe s \<Longrightarrow> slash \<notin> set s"
  using tag_chars by blast

lemma NormalizeVersion_tag:
  assumes "versionRe s" shows "NormalizeVersion s = s"
proof -
  have "s \<noteq> ''''" "has_prefix s ''v''" using assms by (auto simp: versionRe_iff)
  then show ?thesis
    using trim_space_spaceless [OF tag_spaceless [OF assms]] by (simp add: NormalizeVersion_def)
qed

lemma ValidVersion_tag: "versionRe s \<Longrightarrow> ValidVersion s"
  by (simp add: ValidVersion_def NormalizeVersion_tag)

lemma SameVersion_refl: "ValidVersion v \<Longrightarrow> SameVersion v v"
  by (auto simp: ValidVersion_def SameVersion_def versionRe_iff)

text \<open>What \<^verbatim>\<open>--version\<close> prints is read back.\<close>

lemma parseVersionOutput_valid:
  assumes "ValidVersion v"
  shows "parseVersionOutput (''ephemerd version '' @ trim_space v @ [newline]) = NormalizeVersion v"
proof -
  let ?t = "trim_space v"
  have re: "versionRe (NormalizeVersion v)" using assms by (simp add: ValidVersion_def)
  have ne: "?t \<noteq> ''''" using re by (auto simp: NormalizeVersion_def versionRe_iff)
  have t: "spaceless ?t"
    using tag_spaceless [OF re] ne by (auto simp: NormalizeVersion_def spaceless_def Let_def split: if_splits)
  have same: "NormalizeVersion ?t = NormalizeVersion v"
    using trim_space_spaceless [OF t] by (simp add: NormalizeVersion_def)
  have sp: "is_space CHR '' ''" "is_space newline" by (simp_all add: is_space_def)
  have w: "spaceless ''ephemerd''" "spaceless ''version''" by (simp_all add: spaceless_def is_space_def)
  have "Fields [] = []" by (subst Fields.simps) simp
  then have "Fields (?t @ [newline]) = [?t]" using fields_word [OF t ne sp(2)] by simp
  then have f: "Fields (''ephemerd version '' @ ?t @ [newline]) = [''ephemerd'', ''version'', ?t]"
    using fields_word [OF w(1) _ sp(1), of "''version '' @ ?t @ [newline]"]
      fields_word [OF w(2) _ sp(1), of "?t @ [newline]"] by simp
  have "\<not> ValidVersion ''ephemerd''" "\<not> ValidVersion ''version''"
    by code_simp+
  with assms same show ?thesis
    unfolding parseVersionOutput_def f by (simp add: ValidVersion_def)
qed

lemma parseVersionOutput_banner:
  assumes "versionRe v"
  shows "parseVersionOutput (''ephemerd version '' @ v @ [newline]) = v"
  using parseVersionOutput_valid [OF ValidVersion_tag [OF assms]]
  by (simp add: NormalizeVersion_tag [OF assms] trim_space_spaceless [OF tag_spaceless [OF assms]])

text \<open>\<^verbatim>\<open>ParseChecksums\<close> reads what \<^verbatim>\<open>sha256sum\<close> writes.\<close>

definition checksum_text :: "string \<times> string \<Rightarrow> string" where
  "checksum_text e = fst e @ ''  '' @ snd e"

definition checksum_item :: "string \<times> string \<Rightarrow> bool" where
  "checksum_item e \<longleftrightarrow> fst e \<noteq> '''' \<and> snd e \<noteq> '''' \<and> spaceless (fst e) \<and> spaceless (snd e) \<and>
     length (fst e) + length (snd e) + 2 < MaxScanTokenSize"

lemma checksum_text_line: "checksum_item e \<Longrightarrow> plain_line MaxScanTokenSize (checksum_text e)"
  by (auto simp: checksum_item_def checksum_text_def plain_line_def spaceless_def is_space_def)

text \<open>A digest, then a gap of white space, then a name.\<close>

lemma checksum_entry_gap:
  assumes d: "d \<noteq> ''''" "spaceless d" and n: "n \<noteq> ''''" "spaceless n"
    and gap: "gap \<noteq> ''''" "list_all is_space gap"
  shows "checksum_entry (d @ gap @ n) = Some (trim_prefix n ''*'', to_lower d)"
proof -
  have ne: "c \<in> set n \<Longrightarrow> \<not> is_space c" "c \<in> set d \<Longrightarrow> \<not> is_space c" for c
    using d n by (auto simp: spaceless_def)
  have "dropWhile is_space (d @ gap @ n) = d @ gap @ n"
    using d ne(2) by (cases d) auto
  moreover have "dropWhile is_space (rev (d @ gap @ n)) = rev (d @ gap @ n)"
    using n ne(1) by (cases n rule: rev_cases) auto
  ultimately have t: "trim_space (d @ gap @ n) = d @ gap @ n" by (simp add: trim_space_def)
  have g: "list_all is_space h \<Longrightarrow> Fields (h @ n) = [n]" for h
    by (induction h) (simp_all add: fields_space fields_last n)
  obtain c h where c: "gap = c # h" using gap(1) by (cases gap) auto
  with gap(2) have "Fields (d @ gap @ n) = [d, n]"
    using fields_word [OF d(2,1), of c "h @ n"] g [of h] by simp
  with t show ?thesis by (simp add: checksum_entry_def)
qed

lemma checksum_text_entry:
  assumes "checksum_item e"
  shows "checksum_entry (checksum_text e) = Some (trim_prefix (snd e) ''*'', to_lower (fst e))"
  unfolding checksum_text_def
  by (rule checksum_entry_gap) (use assms in \<open>auto simp: checksum_item_def is_space_def\<close>)

lemma ParseChecksums_sha256sum:
  assumes "list_all checksum_item es" and "es \<noteq> []"
  shows "ParseChecksums (concat (map (\<lambda>e. checksum_text e @ [newline]) es)) =
         Inr (map_of (rev (map (\<lambda>e. (trim_prefix (snd e) ''*'', to_lower (fst e))) es)))"
proof -
  have p: "list_all (plain_line MaxScanTokenSize) (map checksum_text es)"
    using assms(1) by (auto simp: list_all_iff checksum_text_line)
  have s: "scan_lines MaxScanTokenSize (concat (map (\<lambda>e. checksum_text e @ [newline]) es)) = (map checksum_text es, False)"
    using scan_lines_concat [OF p] by (simp add: comp_def)
  have "List.map_filter checksum_entry (map checksum_text es) = map (\<lambda>e. (trim_prefix (snd e) ''*'', to_lower (fst e))) es"
    using assms(1) by (induction es) (auto simp: List.map_filter_simps checksum_text_entry)
  with assms(2) s show ?thesis by (simp add: ParseChecksums_def)
qed


text \<open>
  The lines of a checksums file: a digest and a name in text or in binary mode (\<open>*\<close> before the
  name), or a line that does not have two fields.
\<close>

datatype sums_line = Sum string bool string | Junk string

fun sums_text :: "sums_line \<Rightarrow> string" where
  "sums_text (Sum d binary n) = d @ (if binary then '' *'' else ''  '') @ n"
| "sums_text (Junk l) = l"

fun sums_ok :: "sums_line \<Rightarrow> bool" where
  "sums_ok (Sum d binary n) \<longleftrightarrow> d \<noteq> '''' \<and> n \<noteq> '''' \<and> spaceless d \<and> spaceless n \<and>
     (binary \<or> \<not> has_prefix n ''*'') \<and> length d + length n + 2 < MaxScanTokenSize"
| "sums_ok (Junk l) \<longleftrightarrow> plain_line MaxScanTokenSize l \<and> length (Fields (trim_space l)) \<noteq> 2"

fun sums_pair :: "sums_line \<Rightarrow> (string \<times> string) option" where
  "sums_pair (Sum d binary n) = Some (n, to_lower d)"
| "sums_pair (Junk l) = None"

lemma sums_text_line: "sums_ok l \<Longrightarrow> plain_line MaxScanTokenSize (sums_text l)"
  by (cases l) (auto simp: plain_line_def spaceless_def is_space_def)

lemma sums_text_entry:
  assumes "sums_ok l" shows "checksum_entry (sums_text l) = sums_pair l"
proof (cases l)
  case (Junk j)
  with assms show ?thesis by (auto simp: checksum_entry_def split: list.splits)
next
  case (Sum d binary n)
  with assms have dn: "d \<noteq> ''''" "spaceless d" "n \<noteq> ''''" "spaceless n" "binary \<or> \<not> has_prefix n ''*''" by auto
  show ?thesis
  proof (cases binary)
    case True
    have "checksum_entry (d @ '' '' @ CHR ''*'' # n) = Some (trim_prefix (CHR ''*'' # n) ''*'', to_lower d)"
      by (rule checksum_entry_gap) (use dn in \<open>auto simp: spaceless_def is_space_def\<close>)
    with True Sum show ?thesis by (simp add: trim_prefix_def)
  next
    case False
    have "checksum_entry (d @ ''  '' @ n) = Some (trim_prefix n ''*'', to_lower d)"
      by (rule checksum_entry_gap) (use dn in \<open>auto simp: is_space_def\<close>)
    with False Sum dn(5) show ?thesis by (simp add: trim_prefix_def)
  qed
qed





end
