(* ===== verification/Upgrade_World.thy ===== *)
theory Upgrade_World
  imports Upgrade_Names
begin

text \<open>
  What \<^verbatim>\<open>pkg/upgrade\<close> runs on: errors, panics and calls that never return as outcomes; files as a
  map from paths to bytes; the scheduler behind the \<^verbatim>\<open>Drainer\<close> interface; progress messages; the
  context of the call with the install budget that can cancel it. Before every call the rest of
  the world moves: other goroutines change the scheduler, other processes the files, the caller
  or the budget may cancel the context. All of that, and the answer of every call, is a field of
  the record \<open>upenv\<close>, read at a tick counter, so a different answer is possible at every call.
  Logging and the texts of the messages are left out.
\<close>

subsection \<open>Outcomes\<close>

datatype up_error = Uerr string "up_error list" | Sys string | CtxCanceled

datatype 'a outcome = Ret 'a | Fail up_error | Panicked | Hung

subsection \<open>The world\<close>

datatype upgradeState = StatePreflight | StateUpToDate | StateDraining | StateDownloading
  | StateVerifying | StateStaging | StateSwapping | StateRestarting | StateFailed

record Progress =
  pg_State :: upgradeState
  pg_CurrentVersion :: string
  pg_TargetVersion :: string
  pg_ActiveJobs :: int
  pg_BytesDownloaded :: int
  pg_BytesTotal :: int

record 's Drainer =
  d_Cordon :: "'s \<Rightarrow> int \<times> 's"
  d_Uncordon :: "'s \<Rightarrow> int \<times> 's"
  d_ActiveJobs :: "'s \<Rightarrow> int"

datatype drain_call = CallCordon | CallUncordon

type_synonym files = "string \<rightharpoonup> string"

text \<open>
  \<open>uw_drained\<close> is the sequence of calls made on the drainer; \<open>uw_didCordon\<close> and
  \<open>uw_undrained\<close> are the variable and the \<^verbatim>\<open>sync.Once\<close> of \<^verbatim>\<open>undrain\<close>; \<open>uw_spawned\<close> holds the
  backup path once the restart supervisor runs; \<open>uw_slept\<close> adds up its waits.
\<close>

record 's upworld =
  uw_fs :: files
  uw_sched :: 's
  uw_cancelled :: bool
  uw_armed :: bool
  uw_expired :: bool
  uw_tick :: nat
  uw_emitted :: "Progress list"
  uw_drained :: "drain_call list"
  uw_didCordon :: bool
  uw_undrained :: bool
  uw_spawned :: "string option"
  uw_slept :: time

text \<open>
  An HTTP answer: the reads of the body with the time of each, and how the body goes on after
  them. \<open>RSilent\<close> is a connection on which nothing arrives any more, \<open>RDribble\<close> one on which bytes
  keep arriving without ever reaching the end.
\<close>

datatype read_end = REof | RError | RSilent | RDribble

record http_response =
  rs_status :: int
  rs_length :: int
  rs_chunks :: "(string \<times> time) list"
  rs_last :: "string \<times> time"
  rs_end :: read_end

datatype do_answer = DoError | DoSilent | DoResponse http_response

text \<open>
  The archive formats are parameters. An entry carries its bytes and whether reading them ends
  well; a \<^verbatim>\<open>tar\<close> reader ends at the end of the file or with an error.
\<close>

record archive_entry =
  ae_name :: string
  ae_plain :: bool
  ae_opens :: bool
  ae_bytes :: string
  ae_ok :: bool

record 's upenv =
  ue_sched :: "nat \<Rightarrow> 's \<Rightarrow> 's"
  ue_fs :: "nat \<Rightarrow> files \<Rightarrow> files"
  ue_cancel :: "nat \<Rightarrow> bool"
  ue_expire :: "nat \<Rightarrow> bool"
  ue_emit_panics :: "nat \<Rightarrow> bool"
  ue_err :: "nat \<Rightarrow> string option"
  ue_written :: "nat \<Rightarrow> nat"
  ue_keep :: "nat \<Rightarrow> string \<Rightarrow> bool"
  ue_late :: "nat \<Rightarrow> nat"
  ue_done_first :: "nat \<Rightarrow> bool"
  ue_get :: "nat \<Rightarrow> string \<Rightarrow> do_answer"
  ue_zip :: "string \<Rightarrow> archive_entry list option"
  ue_targz :: "string \<Rightarrow> (archive_entry list \<times> bool) option"
  ue_exec :: "nat \<Rightarrow> string \<Rightarrow> string + string"
  ue_restart :: "nat \<Rightarrow> string option"
  ue_shutdown :: "nat \<Rightarrow> bool"
  ue_GOOS :: string
  ue_GOARCH :: string
  ue_executable :: "string option"
  ue_evalSymlinks :: "string \<Rightarrow> string option"

definition up_move :: "'s upenv \<Rightarrow> 's upworld \<Rightarrow> 's upworld" where
  "up_move E w =
     (let n = uw_tick w; expires = uw_armed w \<and> ue_expire E n in
      w\<lparr>uw_tick := Suc n, uw_sched := ue_sched E n (uw_sched w), uw_fs := ue_fs E n (uw_fs w),
        uw_cancelled := uw_cancelled w \<or> ue_cancel E n \<or> expires,
        uw_expired := uw_expired w \<or> expires\<rparr>)"

subsection \<open>Sequencing\<close>

type_synonym ('s, 'a) up = "'s upworld \<Rightarrow> 'a outcome \<times> 's upworld"

definition ret :: "'a \<Rightarrow> ('s, 'a) up" where "ret x w = (Ret x, w)"

definition throw :: "up_error \<Rightarrow> ('s, 'a) up" where "throw e w = (Fail e, w)"

definition andThen :: "('s, 'a) up \<Rightarrow> ('a \<Rightarrow> ('s, 'b) up) \<Rightarrow> ('s, 'b) up" where
  "andThen m f w =
     (case m w of
        (Ret x, w) \<Rightarrow> f x w
      | (Fail e, w) \<Rightarrow> (Fail e, w)
      | (Panicked, w) \<Rightarrow> (Panicked, w)
      | (Hung, w) \<Rightarrow> (Hung, w))"

text \<open>Handling the error of a call, as \<^verbatim>\<open>if err != nil\<close> does.\<close>

definition onError :: "('s, 'a) up \<Rightarrow> (up_error \<Rightarrow> ('s, 'a) up) \<Rightarrow> ('s, 'a) up" where
  "onError m h w = (case m w of (Fail e, w) \<Rightarrow> h e w | r \<Rightarrow> r)"

definition attempt :: "('s, 'a) up \<Rightarrow> ('s, up_error + 'a) up" where
  "attempt m w =
     (case m w of
        (Ret x, w) \<Rightarrow> (Ret (Inr x), w)
      | (Fail e, w) \<Rightarrow> (Ret (Inl e), w)
      | (Panicked, w) \<Rightarrow> (Panicked, w)
      | (Hung, w) \<Rightarrow> (Hung, w))"

text \<open>A deferred call sees how the function ends; it does not run when it never ends.\<close>

definition deferred :: "('s, 'a) up \<Rightarrow> ('a outcome \<Rightarrow> ('s, 'a) up) \<Rightarrow> ('s, 'a) up" where
  "deferred m d w = (case m w of (r, w) \<Rightarrow> (case r of Hung \<Rightarrow> (Hung, w) | _ \<Rightarrow> d r w))"

subsection \<open>Calls\<close>

definition up_emit :: "'s upenv \<Rightarrow> Progress \<Rightarrow> ('s, unit) up" where
  "up_emit E p w =
     (let w' = up_move E w in
      if ue_emit_panics E (uw_tick w) then (Panicked, w')
      else (Ret (), w'\<lparr>uw_emitted := uw_emitted w' @ [p]\<rparr>))"

text \<open>\<^verbatim>\<open>ctx.Err()\<close>.\<close>

definition ctx_check :: "'s upenv \<Rightarrow> ('s, unit) up" where
  "ctx_check E w = (let w' = up_move E w in if uw_cancelled w' then (Fail CtxCanceled, w') else (Ret (), w'))"

definition fs_call :: "'s upenv \<Rightarrow> (files \<Rightarrow> ('a \<times> files) option) \<Rightarrow> ('s, 'a) up" where
  "fs_call E f w =
     (let w' = up_move E w in
      case ue_err E (uw_tick w) of
        Some e \<Rightarrow> (Fail (Sys e), w')
      | None \<Rightarrow> (case f (uw_fs w') of
                  None \<Rightarrow> (Fail (Sys ''no such file or directory''), w')
                | Some (x, fs) \<Rightarrow> (Ret x, w'\<lparr>uw_fs := fs\<rparr>)))"

definition os_call :: "'s upenv \<Rightarrow> ('s, unit) up" where
  "os_call E = fs_call E (\<lambda>fs. Some ((), fs))"

definition os_Rename :: "'s upenv \<Rightarrow> string \<Rightarrow> string \<Rightarrow> ('s, unit) up" where
  "os_Rename E a b =
     fs_call E (\<lambda>fs. case fs a of None \<Rightarrow> None | Some c \<Rightarrow> Some ((), (fs(a := None))(b := Some c)))"

definition os_Remove :: "'s upenv \<Rightarrow> string \<Rightarrow> ('s, unit) up" where
  "os_Remove E p = fs_call E (\<lambda>fs. case fs p of None \<Rightarrow> None | Some c \<Rightarrow> Some ((), fs(p := None)))"

definition os_Create :: "'s upenv \<Rightarrow> string \<Rightarrow> ('s, unit) up" where
  "os_Create E p = fs_call E (\<lambda>fs. Some ((), fs(p := Some [])))"

definition os_ReadFile :: "'s upenv \<Rightarrow> string \<Rightarrow> ('s, string) up" where
  "os_ReadFile E p = fs_call E (\<lambda>fs. case fs p of None \<Rightarrow> None | Some c \<Rightarrow> Some (c, fs))"

text \<open>A write that fails may have written a part.\<close>

definition file_Write :: "'s upenv \<Rightarrow> string \<Rightarrow> string \<Rightarrow> ('s, unit) up" where
  "file_Write E p s w =
     (let w' = up_move E w; n = uw_tick w; old = (case uw_fs w' p of None \<Rightarrow> [] | Some c \<Rightarrow> c) in
      case ue_err E n of
        Some e \<Rightarrow> (Fail (Sys e), w'\<lparr>uw_fs := (uw_fs w')(p := Some (old @ take (ue_written E n) s))\<rparr>)
      | None \<Rightarrow> (Ret (), w'\<lparr>uw_fs := (uw_fs w')(p := Some (old @ s))\<rparr>))"

text \<open>\<^verbatim>\<open>os.RemoveAll\<close>, whose error is dropped: some of the files below may stay.\<close>

definition inside_dir :: "string \<Rightarrow> string \<Rightarrow> bool" where
  "inside_dir dir p \<longleftrightarrow> p = dir \<or> has_prefix p (dir @ ''/'')"

definition os_RemoveAll :: "'s upenv \<Rightarrow> string \<Rightarrow> 's upworld \<Rightarrow> 's upworld" where
  "os_RemoveAll E dir w =
     (let w' = up_move E w in
      w'\<lparr>uw_fs := (\<lambda>p. if inside_dir dir p \<and> \<not> ue_keep E (uw_tick w) p then None else uw_fs w' p)\<rparr>)"

end
