(* ===== verification/Upgrade_Run.thy ===== *)
theory Upgrade_Run
  imports Upgrade_World
begin

text \<open>
  \<^verbatim>\<open>pkg/upgrade\<close>: the download with its stall watchdog, the extraction of the binary, the swap,
  \<^verbatim>\<open>Run\<close> with its deferred clean-up, and the supervision of the restart. The test seams of
  \<^verbatim>\<open>RunOptions\<close> that replace code (\<^verbatim>\<open>Probe\<close>, \<^verbatim>\<open>Restart\<close>, \<^verbatim>\<open>HTTPClient\<close>) are not modelled; the
  host is a POSIX one. \<^verbatim>\<open>triggerRestart\<close>, a request to the service manager, is an answer.
\<close>

subsection \<open>Paths\<close>

definition path_Dir :: "string \<Rightarrow> string" where
  "path_Dir p = path_Clean (rev (dropWhile (\<lambda>c. c \<noteq> slash) (rev p)))"

definition path_Base :: "string \<Rightarrow> string" where
  "path_Base p =
     (if p = '''' then ''.''
      else let q = trim_right_slashes p in
           if q = '''' then ''/'' else rev (takeWhile (\<lambda>c. c \<noteq> slash) (rev q)))"

subsection \<open>Options\<close>

record 's RunOptions =
  o_TargetVersion :: string
  o_CurrentVersion :: string
  o_BaseURLOverride :: string
  o_NoDrain :: bool
  o_Force :: bool
  o_DrainTimeout :: time
  o_DrainPoll :: time
  o_Drainer :: "'s Drainer option"
  o_hasShutdown :: bool
  o_StallTimeout :: time
  o_InstallTimeout :: time
  o_InstallPath :: string
  o_StageDir :: string
  o_GOOS :: string
  o_GOARCH :: string
  o_RestartDelay :: time
  o_RestartWatchdog :: time

definition defaultDrainTimeout :: time where "defaultDrainTimeout = 45 * minute"
definition defaultDrainPoll :: time where "defaultDrainPoll = 5 * second"
definition restartDelay :: time where "restartDelay = 2 * second"
definition restartWatchdog :: time where "restartWatchdog = 90 * second"
definition restartRetryDelay :: time where "restartRetryDelay = 5 * second"
definition restartAttempts :: nat where "restartAttempts = 2"
definition defaultStallTimeout :: time where "defaultStallTimeout = 2 * minute"
definition defaultInstallTimeout :: time where "defaultInstallTimeout = 30 * minute"

definition orDuration :: "time \<Rightarrow> time \<Rightarrow> time" where
  "orDuration v d = (if v = 0 then d else v)"

definition orString :: "string \<Rightarrow> string \<Rightarrow> string" where
  "orString v d = (if v = '''' then d else v)"

definition progress :: "('s, 'z) RunOptions_scheme \<Rightarrow> upgradeState \<Rightarrow> Progress" where
  "progress opt st =
     \<lparr>pg_State = st, pg_CurrentVersion = o_CurrentVersion opt,
      pg_TargetVersion = NormalizeVersion (o_TargetVersion opt),
      pg_ActiveJobs = 0, pg_BytesDownloaded = 0, pg_BytesTotal = 0\<rparr>"

subsection \<open>Waiting for the node to drain\<close>

text \<open>
  The loop of \<^verbatim>\<open>waitDrain\<close>. The \<open>k\<close>-th tick arrives at \<open>k * poll\<close> after the start or later; when
  the context is done as well, \<^verbatim>\<open>select\<close> may take either arm. A ticker needs a positive period.
\<close>

function drain_loop ::
  "'s upenv \<Rightarrow> 's Drainer \<Rightarrow> time \<Rightarrow> time \<Rightarrow> (int \<Rightarrow> Progress) \<Rightarrow> nat \<Rightarrow> ('s, unit) up" where
  "drain_loop E D timeout poll onTick k w =
     (if poll \<le> 0 then (Panicked, w)
      else
        (let n = uw_tick w; w1 = up_move E w in
         if uw_cancelled w1 \<and> ue_done_first E n then (Fail CtxCanceled, w1)
         else
           (let a = d_ActiveJobs D (uw_sched w1) in
            case up_emit E (onTick a) w1 of
              (Ret _, w2) \<Rightarrow>
                if a = 0 then (Ret (), w2)
                else if timeout < (int k + 1) * poll + int (ue_late E n)
                then (Fail (Uerr ''drain timed out after %s with %d job(s) still running'' []), w2)
                else drain_loop E D timeout poll onTick (Suc k) w2
            | (Fail e, w2) \<Rightarrow> (Fail e, w2)
            | (Panicked, w2) \<Rightarrow> (Panicked, w2)
            | (Hung, w2) \<Rightarrow> (Hung, w2))))"
  by pat_completeness auto
termination
proof (relation "measure (\<lambda>(E, D, timeout, poll, onTick, k, w). nat (timeout - int k * poll + poll))")
  fix E :: "'s upenv" and D :: "'s Drainer" and timeout poll onTick k and w w2 :: "'s upworld" and n w1 a r x v
  assume "\<not> poll \<le> (0::time)" "\<not> timeout < (int k + 1) * poll + int (ue_late E n)"
  then have "0 < poll" "(int k + 1) * poll \<le> timeout" by (auto simp: not_less)
  then show "((E, D, timeout, poll, onTick, Suc k, v), (E, D, timeout, poll, onTick, k, w)) \<in>
       measure (\<lambda>(E, D, timeout, poll, onTick, k, w). nat (timeout - int k * poll + poll))"
    by (simp add: algebra_simps)
qed simp

declare drain_loop.simps [simp del]

definition waitDrain ::
  "'s upenv \<Rightarrow> 's Drainer \<Rightarrow> time \<Rightarrow> time \<Rightarrow> (int \<Rightarrow> Progress) \<Rightarrow> ('s, unit) up" where
  "waitDrain E D timeout poll onTick w =
     (let w1 = up_move E w in
      if d_ActiveJobs D (uw_sched w1) = 0 then (Ret (), w1)
      else drain_loop E D timeout poll onTick 0 w1)"

subsection \<open>Downloading\<close>

text \<open>
  A read on a connection that will not deliver an end: the install budget or the caller can
  still cancel it, otherwise it never returns. A silent one is given up by the stall watchdog.
\<close>

definition wait_cancelled :: "'s upenv \<Rightarrow> ('s, unit) up" where
  "wait_cancelled E w =
     (let w' = up_move E w in
      if uw_cancelled w' then (Fail CtxCanceled, w')
      else if uw_armed w' then (Fail CtxCanceled, w'\<lparr>uw_cancelled := True, uw_expired := True\<rparr>)
      else (Hung, w'))"

definition wait_silent :: "'s upenv \<Rightarrow> time \<Rightarrow> ('s, unit) up" where
  "wait_silent E stallTimeout w =
     (if 0 < stallTimeout
      then (Fail (Uerr ''transfer stalled: no data for %s'' [CtxCanceled]), up_move E w)
      else wait_cancelled E w)"

text \<open>\<^verbatim>\<open>countingReader.Read\<close> after the read of \<open>s\<close> at time \<open>now\<close>; the state is \<^verbatim>\<open>done\<close> and \<^verbatim>\<open>last\<close>.\<close>

type_synonym counting = "int \<times> time option"

definition report ::
  "'s upenv \<Rightarrow> (int \<Rightarrow> Progress) option \<Rightarrow> string \<Rightarrow> time \<Rightarrow> bool \<Rightarrow> counting \<Rightarrow> ('s, counting) up" where
  "report E onProgress s now err c =
     (let d = fst c + int (length s);
          due = (case snd c of None \<Rightarrow> True | Some prev \<Rightarrow> 250 * millisecond \<le> now - prev) in
      case onProgress of
        Some f \<Rightarrow> if err \<or> due then andThen (up_emit E (f d)) (\<lambda>_. ret (d, Some now)) else ret (d, snd c)
      | None \<Rightarrow> ret (d, snd c))"

text \<open>One turn of \<^verbatim>\<open>io.Copy\<close>: read, report, write.\<close>

definition copy_turn ::
  "'s upenv \<Rightarrow> (int \<Rightarrow> Progress) option \<Rightarrow> string \<Rightarrow> string \<times> time \<Rightarrow> bool \<Rightarrow> counting \<Rightarrow> ('s, counting) up" where
  "copy_turn E onProgress dest rd err c =
     andThen (report E onProgress (fst rd) (snd rd) err c) (\<lambda>c.
       if fst rd = [] then ret c else andThen (file_Write E dest (fst rd)) (\<lambda>_. ret c))"

fun copy_chunks ::
  "'s upenv \<Rightarrow> (int \<Rightarrow> Progress) option \<Rightarrow> string \<Rightarrow> (string \<times> time) list \<Rightarrow> counting \<Rightarrow> ('s, counting) up" where
  "copy_chunks E onProgress dest [] c = ret c"
| "copy_chunks E onProgress dest (rd # rds) c =
     andThen (copy_turn E onProgress dest rd False c) (copy_chunks E onProgress dest rds)"

definition copy_end ::
  "'s upenv \<Rightarrow> (int \<Rightarrow> Progress) option \<Rightarrow> string \<Rightarrow> time \<Rightarrow> http_response \<Rightarrow> counting \<Rightarrow> ('s, unit) up" where
  "copy_end E onProgress dest stallTimeout r c =
     (case rs_end r of
        REof \<Rightarrow> andThen (copy_turn E onProgress dest (rs_last r) True c) (\<lambda>_. ret ())
      | RError \<Rightarrow> andThen (copy_turn E onProgress dest (rs_last r) True c) (\<lambda>_. throw (Sys ''read''))
      | RSilent \<Rightarrow>
          andThen (attempt (wait_silent E stallTimeout)) (\<lambda>e.
            andThen (report E onProgress [] (snd (rs_last r)) True c)
              (\<lambda>_. case e of Inl e \<Rightarrow> throw e | Inr _ \<Rightarrow> ret ()))
      | RDribble \<Rightarrow>
          andThen (attempt (wait_cancelled E)) (\<lambda>e.
            andThen (report E onProgress [] (snd (rs_last r)) True c)
              (\<lambda>_. case e of Inl e \<Rightarrow> throw e | Inr _ \<Rightarrow> ret ())))"

definition http_get :: "'s upenv \<Rightarrow> string \<Rightarrow> time \<Rightarrow> ('s, http_response) up" where
  "http_get E url stallTimeout w =
     (let w' = up_move E w in
      case ue_get E (uw_tick w) url of
        DoError \<Rightarrow> (Fail (Sys ''http''), w')
      | DoSilent \<Rightarrow> andThen (wait_silent E stallTimeout) (\<lambda>_. throw CtxCanceled) w'
      | DoResponse r \<Rightarrow>
          if rs_status r < 200 \<or> 300 \<le> rs_status r then (Fail (Uerr ''GET %s: %s'' []), w')
          else (Ret r, w'))"

definition downloadFile ::
  "'s upenv \<Rightarrow> string \<Rightarrow> string \<Rightarrow> time \<Rightarrow> (int \<Rightarrow> int \<Rightarrow> Progress) option \<Rightarrow> ('s, unit) up" where
  "downloadFile E url dest stallTimeout onProgress =
     andThen (onError (os_call E) (\<lambda>e. throw (Uerr ''building request'' [e]))) (\<lambda>_.
     andThen (http_get E url stallTimeout) (\<lambda>r.
     andThen (os_Create E dest) (\<lambda>_.
     andThen (attempt
        (andThen (copy_chunks E (map_option (\<lambda>f d. f d (rs_length r)) onProgress) dest (rs_chunks r) (0, None))
           (copy_end E (map_option (\<lambda>f d. f d (rs_length r)) onProgress) dest stallTimeout r))) (\<lambda>copied.
     case copied of
       Inl e \<Rightarrow> andThen (attempt (os_call E)) (\<lambda>_. throw e)
     | Inr _ \<Rightarrow>
         andThen (attempt (os_call E)) (\<lambda>synced.
         case synced of
           Inl e \<Rightarrow> andThen (attempt (os_call E)) (\<lambda>_. throw e)
         | Inr _ \<Rightarrow> os_call E)))))"

text \<open>\<^verbatim>\<open>verifyChecksum\<close>; \<^verbatim>\<open>strings.EqualFold\<close> against a lower-case hexadecimal string is \<open>to_lower\<close>.\<close>

definition verifyChecksum :: "'s upenv \<Rightarrow> string \<Rightarrow> string \<Rightarrow> ('s, unit) up" where
  "verifyChecksum E path want =
     andThen (os_ReadFile E path) (\<lambda>bytes.
       if hex_sha256 bytes = to_lower want then ret ()
       else throw (Uerr ''checksum mismatch for %s: got %s, want %s'' []))"

subsection \<open>Extracting the binary\<close>

definition writeBinary :: "'s upenv \<Rightarrow> archive_entry \<Rightarrow> string \<Rightarrow> ('s, unit) up" where
  "writeBinary E ent dest =
     andThen (os_Create E dest) (\<lambda>_.
     andThen (attempt (andThen (file_Write E dest (ae_bytes ent))
                (\<lambda>_. if ae_ok ent then ret () else throw (Sys ''read'')))) (\<lambda>copied.
     case copied of
       Inl e \<Rightarrow> andThen (attempt (os_call E)) (\<lambda>_. throw e)
     | Inr _ \<Rightarrow>
         andThen (attempt (os_call E)) (\<lambda>synced.
         case synced of
           Inl e \<Rightarrow> andThen (attempt (os_call E)) (\<lambda>_. throw e)
         | Inr _ \<Rightarrow> os_call E)))"

fun zip_entries :: "'s upenv \<Rightarrow> string \<Rightarrow> string \<Rightarrow> archive_entry list \<Rightarrow> ('s, unit) up" where
  "zip_entries E want dest [] = throw (Uerr ''no %s entry in archive'' [])"
| "zip_entries E want dest (ent # ents) =
     (if path_Base (ae_name ent) \<noteq> want \<or> \<not> ae_plain ent then zip_entries E want dest ents
      else if \<not> ae_opens ent then throw (Uerr ''open zip entry %s'' [])
      else onError (writeBinary E ent dest) (\<lambda>e. throw (Uerr ''extract %s'' [e])))"

definition extractZipEntry :: "'s upenv \<Rightarrow> string \<Rightarrow> string \<Rightarrow> string \<Rightarrow> ('s, unit) up" where
  "extractZipEntry E archivePath want dest =
     andThen (os_ReadFile E archivePath) (\<lambda>bytes.
       case ue_zip E bytes of
         None \<Rightarrow> throw (Uerr ''open zip'' [])
       | Some ents \<Rightarrow> zip_entries E want dest ents)"

fun tar_entries :: "'s upenv \<Rightarrow> string \<Rightarrow> string \<Rightarrow> bool \<Rightarrow> archive_entry list \<Rightarrow> ('s, unit) up" where
  "tar_entries E want dest eof [] =
     (if eof then throw (Uerr ''no %s entry in archive'' []) else throw (Uerr ''read tar'' []))"
| "tar_entries E want dest eof (ent # ents) =
     (if \<not> ae_plain ent \<or> path_Base (ae_name ent) \<noteq> want then tar_entries E want dest eof ents
      else onError (writeBinary E ent dest) (\<lambda>e. throw (Uerr ''extract %s'' [e])))"

definition extractTarGzEntry :: "'s upenv \<Rightarrow> string \<Rightarrow> string \<Rightarrow> string \<Rightarrow> ('s, unit) up" where
  "extractTarGzEntry E archivePath want dest =
     andThen (os_ReadFile E archivePath) (\<lambda>bytes.
       case ue_targz E bytes of
         None \<Rightarrow> throw (Uerr ''gunzip'' [])
       | Some (ents, eof) \<Rightarrow> tar_entries E want dest eof ents)"

definition extractBinary :: "'s upenv \<Rightarrow> string \<Rightarrow> string \<Rightarrow> string \<Rightarrow> ('s, unit) up" where
  "extractBinary E archivePath goos dest =
     (if goos = ''windows'' then extractZipEntry E archivePath (binaryEntryName goos) dest
      else extractTarGzEntry E archivePath (binaryEntryName goos) dest)"

definition probeVersion :: "'s upenv \<Rightarrow> string \<Rightarrow> ('s, string) up" where
  "probeVersion E path w =
     andThen (os_ReadFile E path) (\<lambda>bytes w.
       (case ue_exec E (uw_tick w) bytes of
          Inl e \<Rightarrow> (Fail (Sys e), up_move E w)
        | Inr out \<Rightarrow> (Ret (parseVersionOutput out), up_move E w))) w"

subsection \<open>Swapping the binary\<close>

definition swapBinary :: "'s upenv \<Rightarrow> string \<Rightarrow> string \<Rightarrow> ('s, string) up" where
  "swapBinary E installPath stagedPath =
     (let backup = installPath @ ''.old'' in
      andThen (attempt (os_Remove E backup)) (\<lambda>_.
      andThen (onError (os_Rename E installPath backup)
                 (\<lambda>e. throw (Uerr ''moving current binary aside'' [e]))) (\<lambda>_.
      andThen (attempt (os_Rename E stagedPath installPath)) (\<lambda>installed.
      case installed of
        Inr _ \<Rightarrow> ret backup
      | Inl e \<Rightarrow>
          andThen (attempt (os_Rename E backup installPath)) (\<lambda>rolledBack.
          case rolledBack of
            Inl rb \<Rightarrow> throw (Uerr ''installing new binary: %w (and rollback failed: %w)'' [e, rb])
          | Inr _ \<Rightarrow> throw (Uerr ''installing new binary: %w (rolled back)'' [e]))))))"

subsection \<open>Run\<close>

text \<open>The closure \<^verbatim>\<open>fail\<close> and the closure \<^verbatim>\<open>undrain\<close>, which acts once and only after a cordon.\<close>

definition up_fail :: "'s upenv \<Rightarrow> 's RunOptions \<Rightarrow> up_error \<Rightarrow> ('s, 'a) up" where
  "up_fail E opt e = andThen (up_emit E (progress opt StateFailed)) (\<lambda>_. throw e)"

definition undrain :: "'s upenv \<Rightarrow> 's RunOptions \<Rightarrow> 's upworld \<Rightarrow> 's upworld" where
  "undrain E opt w =
     (case o_Drainer opt of
        None \<Rightarrow> w
      | Some D \<Rightarrow>
          if \<not> uw_didCordon w \<or> uw_undrained w then w
          else (let w' = up_move E w in
                w'\<lparr>uw_sched := snd (d_Uncordon D (uw_sched w')), uw_undrained := True,
                   uw_drained := uw_drained w' @ [CallUncordon]\<rparr>))"

text \<open>The steps up to the cordon: \<^const>\<open>None\<close> when there is nothing to do, else the install path.\<close>

definition target_of :: "('s, 'z) RunOptions_scheme \<Rightarrow> string" where
  "target_of opt = NormalizeVersion (o_TargetVersion opt)"

definition install_path :: "'s upenv \<Rightarrow> 's RunOptions \<Rightarrow> string option" where
  "install_path E opt =
     (if o_InstallPath opt \<noteq> '''' then Some (o_InstallPath opt)
      else map_option (\<lambda>exe. case ue_evalSymlinks E exe of None \<Rightarrow> exe | Some r \<Rightarrow> r) (ue_executable E))"

definition preflight :: "'s upenv \<Rightarrow> 's RunOptions \<Rightarrow> ('s, string option) up" where
  "preflight E opt =
     andThen (up_emit E (progress opt StatePreflight)) (\<lambda>_.
     if trim_space (o_TargetVersion opt) = '''' then up_fail E opt (Uerr ''target_version is required'' [])
     else if o_BaseURLOverride opt = '''' \<and> \<not> ValidVersion (target_of opt)
     then up_fail E opt (Uerr ''target_version %q is not a release tag of the form vX.Y.Z'' [])
     else
       case install_path E opt of
         None \<Rightarrow> up_fail E opt (Uerr ''resolving own executable path'' [])
       | Some p \<Rightarrow>
           if \<not> o_Force opt \<and> SameVersion (o_CurrentVersion opt) (target_of opt)
           then andThen (up_emit E (progress opt StateUpToDate)) (\<lambda>_. ret None)
           else ret (Some p))"

definition positive_or :: "time \<Rightarrow> time \<Rightarrow> time" where
  "positive_or v d = (if v \<le> 0 then d else v)"

definition cordon_step :: "'s upenv \<Rightarrow> 's RunOptions \<Rightarrow> ('s, unit) up" where
  "cordon_step E opt w =
     (case o_Drainer opt of
        None \<Rightarrow> (Ret (), w)
      | Some D \<Rightarrow>
          if o_NoDrain opt then (Ret (), w)
          else
            (let w1 = up_move E w; (active, s) = d_Cordon D (uw_sched w1) in
             andThen (up_emit E (progress opt StateDraining\<lparr>pg_ActiveJobs := active\<rparr>)) (\<lambda>_.
               onError (waitDrain E D (positive_or (o_DrainTimeout opt) defaultDrainTimeout)
                          (positive_or (o_DrainPoll opt) defaultDrainPoll)
                          (\<lambda>a. progress opt StateDraining\<lparr>pg_ActiveJobs := a\<rparr>))
                 (\<lambda>e. up_fail E opt (Uerr ''draining before upgrade'' [e])))
               (w1\<lparr>uw_sched := s, uw_didCordon := True, uw_drained := uw_drained w1 @ [CallCordon]\<rparr>)))"

definition goos_of :: "'s upenv \<Rightarrow> 's RunOptions \<Rightarrow> string" where
  "goos_of E opt = orString (o_GOOS opt) (ue_GOOS E)"

definition goarch_of :: "'s upenv \<Rightarrow> 's RunOptions \<Rightarrow> string" where
  "goarch_of E opt = orString (o_GOARCH opt) (ue_GOARCH E)"

definition asset_of :: "'s upenv \<Rightarrow> 's RunOptions \<Rightarrow> string" where
  "asset_of E opt = AssetName (target_of opt) (goos_of E opt) (goarch_of E opt)"

definition stage_dir :: "'s RunOptions \<Rightarrow> string \<Rightarrow> string" where
  "stage_dir opt installPath =
     (if o_StageDir opt \<noteq> '''' then o_StageDir opt
      else path_Join [path_Dir installPath, ''.ephemerd-upgrade''])"

definition staged_binary :: "'s upenv \<Rightarrow> 's RunOptions \<Rightarrow> string \<Rightarrow> string" where
  "staged_binary E opt installPath = path_Join [stage_dir opt installPath, binaryEntryName (goos_of E opt)]"

definition archive_path :: "'s upenv \<Rightarrow> 's RunOptions \<Rightarrow> string \<Rightarrow> string" where
  "archive_path E opt installPath = path_Join [stage_dir opt installPath, asset_of E opt]"

definition sums_path :: "'s RunOptions \<Rightarrow> string \<Rightarrow> string" where
  "sums_path opt installPath = path_Join [stage_dir opt installPath, checksumsName]"

text \<open>Steps 4 and 5: both files are downloaded and the digest is compared.\<close>

definition fetch_step :: "'s upenv \<Rightarrow> 's RunOptions \<Rightarrow> string \<Rightarrow> ('s, unit) up" where
  "fetch_step E opt installPath =
     (let base = baseURL (target_of opt) (o_BaseURLOverride opt);
          stall = orDuration (o_StallTimeout opt) defaultStallTimeout;
          archive = archive_path E opt installPath; sumsPath = sums_path opt installPath in
      andThen (up_emit E (progress opt StateDownloading)) (\<lambda>_.
      andThen (onError (downloadFile E (base @ ''/'' @ asset_of E opt) archive stall
                 (Some (\<lambda>d total. progress opt StateDownloading\<lparr>pg_BytesDownloaded := d, pg_BytesTotal := total\<rparr>)))
                 (\<lambda>e. up_fail E opt (Uerr ''downloading'' [e]))) (\<lambda>_.
      andThen (up_emit E (progress opt StateVerifying)) (\<lambda>_.
      andThen (onError (downloadFile E (base @ ''/'' @ checksumsName) sumsPath stall None)
                 (\<lambda>e. up_fail E opt (Uerr ''downloading checksums.txt'' [e]))) (\<lambda>_.
      andThen (onError (os_ReadFile E sumsPath) (\<lambda>e. up_fail E opt (Uerr ''reading'' [e]))) (\<lambda>sumsData.
      case ParseChecksums sumsData of
        Inl e \<Rightarrow> up_fail E opt (Uerr ''parsing'' [Sys e])
      | Inr digests \<Rightarrow>
          (case digests (asset_of E opt) of
             None \<Rightarrow> up_fail E opt (Uerr ''%s has no entry for %s'' [])
           | Some want \<Rightarrow>
               andThen (onError (verifyChecksum E archive want) (\<lambda>e. up_fail E opt (Uerr ''refusing to install'' [e]))) (\<lambda>_.
               onError (ctx_check E) (\<lambda>e. up_fail E opt (Uerr ''aborted before staging'' [e]))))))))))"

text \<open>Step 6: extract, and probe what can run here.\<close>

definition stage_step :: "'s upenv \<Rightarrow> 's RunOptions \<Rightarrow> string \<Rightarrow> ('s, unit) up" where
  "stage_step E opt installPath =
     (let stagedBin = staged_binary E opt installPath in
      andThen (up_emit E (progress opt StateStaging)) (\<lambda>_.
      andThen (onError (extractBinary E (archive_path E opt installPath) (goos_of E opt) stagedBin)
                 (\<lambda>e. up_fail E opt (Uerr ''extracting binary'' [e]))) (\<lambda>_.
      if goos_of E opt = ue_GOOS E \<and> goarch_of E opt = ue_GOARCH E
      then andThen (onError (probeVersion E stagedBin) (\<lambda>e. up_fail E opt (Uerr ''probing staged binary'' [e]))) (\<lambda>got.
             if SameVersion got (target_of opt) then ret ()
             else up_fail E opt (Uerr ''staged binary reports version %q, expected %q'' []))
      else ret ())))"

text \<open>Steps 7 and 8: the swap, then the hand-over to the restart supervisor.\<close>

definition swap_step :: "'s upenv \<Rightarrow> 's RunOptions \<Rightarrow> string \<Rightarrow> ('s, unit) up" where
  "swap_step E opt installPath =
     andThen (onError (ctx_check E) (\<lambda>e. up_fail E opt (Uerr ''aborted before swapping the binary'' [e]))) (\<lambda>_.
     andThen (up_emit E (progress opt StateSwapping)) (\<lambda>_.
     andThen (onError (swapBinary E installPath (staged_binary E opt installPath))
                (\<lambda>e. up_fail E opt (Uerr ''swapping binary'' [e]))) (\<lambda>backup.
     andThen (\<lambda>w. (Ret (), w\<lparr>uw_armed := False\<rparr>)) (\<lambda>_.
     andThen (up_emit E (progress opt StateRestarting)) (\<lambda>_ w.
       (Ret (), w\<lparr>uw_spawned := Some backup\<rparr>))))))"

text \<open>
  The part under the install budget with its deferred calls: the staging directory goes, whatever
  happened; then the cause of an error is rewritten when the budget ran out.
\<close>

definition staged_part :: "'s upenv \<Rightarrow> 's RunOptions \<Rightarrow> string \<Rightarrow> ('s, unit) up" where
  "staged_part E opt installPath =
     andThen (onError (os_call E) (\<lambda>e. up_fail E opt (Uerr ''creating staging dir'' [e]))) (\<lambda>_.
     deferred (andThen (fetch_step E opt installPath) (\<lambda>_.
               andThen (stage_step E opt installPath) (\<lambda>_.
               swap_step E opt installPath)))
       (\<lambda>r w. (r, os_RemoveAll E (stage_dir opt installPath) w)))"

definition install_part :: "'s upenv \<Rightarrow> 's RunOptions \<Rightarrow> string \<Rightarrow> ('s, unit) up" where
  "install_part E opt installPath w =
     (if 0 < orDuration (o_InstallTimeout opt) defaultInstallTimeout
      then deferred (staged_part E opt installPath)
             (\<lambda>r w. (case r of
                       Fail e \<Rightarrow> Fail (if uw_expired w then Uerr ''upgrade exceeded its %s install budget'' [e] else e)
                     | _ \<Rightarrow> r,
                     w\<lparr>uw_armed := False, uw_cancelled := True\<rparr>))
             (w\<lparr>uw_armed := True\<rparr>)
      else staged_part E opt installPath w)"

text \<open>
  The outermost deferred function: a panic becomes an error, and an error un-cordons. A second
  panic, of the message it sends, is not recovered and ends the process.
\<close>

definition recover_undrain :: "'s upenv \<Rightarrow> 's RunOptions \<Rightarrow> 'a outcome \<Rightarrow> ('s, 'a) up" where
  "recover_undrain E opt r =
     (case r of
        Panicked \<Rightarrow>
          andThen (up_emit E (progress opt StateFailed))
            (\<lambda>_ w. (Fail (Uerr ''upgrade panicked'' []), undrain E opt w))
      | Fail e \<Rightarrow> (\<lambda>w. (Fail e, undrain E opt w))
      | Ret x \<Rightarrow> ret x
      | Hung \<Rightarrow> (\<lambda>w. (Hung, w)))"

definition upgrade_Run :: "'s upenv \<Rightarrow> 's RunOptions \<Rightarrow> ('s, unit) up" where
  "upgrade_Run E opt =
     andThen (preflight E opt) (\<lambda>p.
       case p of
         None \<Rightarrow> ret ()
       | Some installPath \<Rightarrow>
           deferred (andThen (cordon_step E opt) (\<lambda>_. install_part E opt installPath))
             (recover_undrain E opt))"

subsection \<open>Supervising the restart\<close>

text \<open>\<open>True\<close> when the wait ran to its end, \<open>False\<close> when the daemon began to go down.\<close>

definition waitUnlessShutdown :: "'s upenv \<Rightarrow> 's RunOptions \<Rightarrow> time \<Rightarrow> 's upworld \<Rightarrow> bool \<times> 's upworld" where
  "waitUnlessShutdown E opt d w =
     (if o_hasShutdown opt \<and> ue_shutdown E (uw_tick w) then (False, up_move E w)
      else (True, (up_move E w)\<lparr>uw_slept := uw_slept w + max 0 d\<rparr>))"

datatype supervised = RestartTook | GaveUp

fun restart_attempts :: "'s upenv \<Rightarrow> 's RunOptions \<Rightarrow> time \<Rightarrow> nat \<Rightarrow> 's upworld \<Rightarrow> supervised \<times> 's upworld" where
  "restart_attempts E opt watchdog 0 w = (GaveUp, undrain E opt w)"
| "restart_attempts E opt watchdog (Suc n) w =
     (let wait = (if ue_restart E (uw_tick w) = None then watchdog else min restartRetryDelay watchdog) in
      case waitUnlessShutdown E opt wait (up_move E w) of
        (False, w) \<Rightarrow> (RestartTook, w)
      | (True, w) \<Rightarrow> restart_attempts E opt watchdog n w)"

definition superviseRestart :: "'s upenv \<Rightarrow> 's RunOptions \<Rightarrow> 's upworld \<Rightarrow> supervised \<times> 's upworld" where
  "superviseRestart E opt w =
     (case waitUnlessShutdown E opt (positive_or (o_RestartDelay opt) restartDelay) w of
        (False, w) \<Rightarrow> (RestartTook, w)
      | (True, w) \<Rightarrow>
          restart_attempts E opt (positive_or (o_RestartWatchdog opt) restartWatchdog) restartAttempts w)"

text \<open>A whole upgrade: \<^verbatim>\<open>Run\<close> and the goroutine it leaves behind.\<close>

datatype upgrade_end = UpToDate | Failed up_error | Crashed | Wedged | Supervised supervised

definition upgrade_session :: "'s upenv \<Rightarrow> 's RunOptions \<Rightarrow> 's upworld \<Rightarrow> upgrade_end \<times> 's upworld" where
  "upgrade_session E opt w =
     (case upgrade_Run E opt w of
        (Fail e, w) \<Rightarrow> (Failed e, w)
      | (Panicked, w) \<Rightarrow> (Crashed, w)
      | (Hung, w) \<Rightarrow> (Wedged, w)
      | (Ret _, w) \<Rightarrow>
          (if uw_spawned w = None then (UpToDate, w)
           else case superviseRestart E opt w of (r, w) \<Rightarrow> (Supervised r, w)))"

definition upgrade_start :: "files \<Rightarrow> 's \<Rightarrow> 's upworld" where
  "upgrade_start fs s =
     \<lparr>uw_fs = fs, uw_sched = s, uw_cancelled = False, uw_armed = False, uw_expired = False, uw_tick = 0,
      uw_emitted = [], uw_drained = [], uw_didCordon = False, uw_undrained = False, uw_spawned = None,
      uw_slept = 0\<rparr>"

end
