(* ===== verification/Upgrade_Laws.thy ===== *)
theory Upgrade_Laws
  imports Upgrade_Run
begin

text \<open>
  A Hoare logic for the calls of an upgrade, with a postcondition for results, one for errors and
  panics and one for calls that never return; an interface \<open>upgrade_inv\<close> for what every part of
  \<^verbatim>\<open>Run\<close> keeps; and the interface \<open>cordon_gate\<close> that \<^verbatim>\<open>Run\<close> asks of its \<^verbatim>\<open>Drainer\<close>.
\<close>

subsection \<open>Triples\<close>

definition valid ::
  "('s upworld \<Rightarrow> bool) \<Rightarrow> ('s, 'a) up \<Rightarrow> ('a \<Rightarrow> 's upworld \<Rightarrow> bool) \<Rightarrow> ('s upworld \<Rightarrow> bool) \<Rightarrow>
   ('s upworld \<Rightarrow> bool) \<Rightarrow> bool" where
  "valid P m Q X H \<longleftrightarrow>
     (\<forall>w. P w \<longrightarrow> (case m w of
        (Ret x, w') \<Rightarrow> Q x w' | (Fail e, w') \<Rightarrow> X w' | (Panicked, w') \<Rightarrow> X w' | (Hung, w') \<Rightarrow> H w'))"

named_theorems up_rules \<open>what the calls of an upgrade keep\<close>

lemma validI:
  assumes "\<And>w. P w \<Longrightarrow> (case m w of
     (Ret x, w') \<Rightarrow> Q x w' | (Fail e, w') \<Rightarrow> X w' | (Panicked, w') \<Rightarrow> X w' | (Hung, w') \<Rightarrow> H w')"
  shows "valid P m Q X H"
  using assms by (simp add: valid_def)

lemma valid_outcome:
  assumes "valid P m Q X H" and "P w" and "m w = (r, w')"
  shows "case r of Ret x \<Rightarrow> Q x w' | Fail e \<Rightarrow> X w' | Panicked \<Rightarrow> X w' | Hung \<Rightarrow> H w'"
  using assms unfolding valid_def by (cases r) fastforce+

lemma valid_RetD: "valid P m Q X H \<Longrightarrow> P w \<Longrightarrow> m w = (Ret x, w') \<Longrightarrow> Q x w'"
  by (drule (2) valid_outcome) simp

lemma valid_conseq:
  assumes "valid P' m Q' X' H'" and "\<And>w. P w \<Longrightarrow> P' w" and "\<And>x w. Q' x w \<Longrightarrow> Q x w"
    and "\<And>w. X' w \<Longrightarrow> X w" and "\<And>w. H' w \<Longrightarrow> H w"
  shows "valid P m Q X H"
proof (rule validI)
  fix w assume "P w"
  then show "case m w of
     (Ret x, w') \<Rightarrow> Q x w' | (Fail e, w') \<Rightarrow> X w' | (Panicked, w') \<Rightarrow> X w' | (Hung, w') \<Rightarrow> H w'"
    using valid_outcome [OF assms(1), of w] assms(2-5)
    by (cases "m w") (auto split: outcome.splits)
qed

lemma valid_ret: "(\<And>w. P w \<Longrightarrow> Q x w) \<Longrightarrow> valid P (ret x) Q X H"
  by (simp add: valid_def ret_def)

lemma valid_throw: "(\<And>w. P w \<Longrightarrow> X w) \<Longrightarrow> valid P (throw e) Q X H"
  by (simp add: valid_def throw_def)

lemma valid_andThen:
  assumes "valid P m R X H" and "\<And>x. valid (R x) (f x) Q X H"
  shows "valid P (andThen m f) Q X H"
proof (rule validI)
  fix w assume "P w"
  obtain r v where m: "m w = (r, v)" by (cases "m w")
  from valid_outcome [OF assms(1) \<open>P w\<close> m] assms(2) show "case andThen m f w of
     (Ret x, w') \<Rightarrow> Q x w' | (Fail e, w') \<Rightarrow> X w' | (Panicked, w') \<Rightarrow> X w' | (Hung, w') \<Rightarrow> H w'"
    by (cases r) (auto simp: andThen_def m valid_def)
qed

lemma valid_onError:
  assumes "valid P m Q X H" and "\<And>e. valid X (h e) Q X H"
  shows "valid P (onError m h) Q X H"
proof (rule validI)
  fix w assume "P w"
  obtain r v where m: "m w = (r, v)" by (cases "m w")
  from valid_outcome [OF assms(1) \<open>P w\<close> m] assms(2) show "case onError m h w of
     (Ret x, w') \<Rightarrow> Q x w' | (Fail e, w') \<Rightarrow> X w' | (Panicked, w') \<Rightarrow> X w' | (Hung, w') \<Rightarrow> H w'"
    by (cases r) (auto simp: onError_def m valid_def)
qed

lemma valid_attempt:
  assumes "valid P m (\<lambda>x. Q (Inr x)) X H" and "\<And>e w. X w \<Longrightarrow> Q (Inl e) w"
  shows "valid P (attempt m) Q X H"
proof (rule validI)
  fix w assume "P w"
  obtain r v where m: "m w = (r, v)" by (cases "m w")
  from valid_outcome [OF assms(1) \<open>P w\<close> m] assms(2) show "case attempt m w of
     (Ret x, w') \<Rightarrow> Q x w' | (Fail e, w') \<Rightarrow> X w' | (Panicked, w') \<Rightarrow> X w' | (Hung, w') \<Rightarrow> H w'"
    by (cases r) (auto simp: attempt_def m)
qed

subsection \<open>Invariants\<close>

definition keeps_up :: "('s upworld \<Rightarrow> bool) \<Rightarrow> ('s upworld \<Rightarrow> bool) \<Rightarrow> ('s, 'a) up \<Rightarrow> bool" where
  "keeps_up I H m \<longleftrightarrow> valid I m (\<lambda>_. I) I H"

lemma keeps_ret [up_rules]: "keeps_up I H (ret x)"
  by (simp add: keeps_up_def valid_ret)

lemma keeps_throw [up_rules]: "keeps_up I H (throw e)"
  by (simp add: keeps_up_def valid_throw)

lemma keeps_andThen [up_rules]:
  "keeps_up I H m \<Longrightarrow> (\<And>x. keeps_up I H (f x)) \<Longrightarrow> keeps_up I H (andThen m f)"
  unfolding keeps_up_def by (rule valid_andThen)

lemma keeps_onError [up_rules]:
  "keeps_up I H m \<Longrightarrow> (\<And>e. keeps_up I H (h e)) \<Longrightarrow> keeps_up I H (onError m h)"
  unfolding keeps_up_def by (rule valid_onError)

lemma keeps_attempt [up_rules]: "keeps_up I H m \<Longrightarrow> keeps_up I H (attempt m)"
  unfolding keeps_up_def by (rule valid_attempt)

lemma valid_deferred:
  assumes "valid P m Q X H" and "\<And>x. valid (Q x) (d (Ret x)) Q' X' H'"
    and "\<And>e. valid X (d (Fail e)) Q' X' H'" and "valid X (d Panicked) Q' X' H'" and "\<And>w. H w \<Longrightarrow> H' w"
  shows "valid P (deferred m d) Q' X' H'"
proof (rule validI)
  fix w assume "P w"
  obtain r v where m: "m w = (r, v)" by (cases "m w")
  from valid_outcome [OF assms(1) \<open>P w\<close> m] assms(2-5) show "case deferred m d w of
     (Ret x, w') \<Rightarrow> Q' x w' | (Fail e, w') \<Rightarrow> X' w' | (Panicked, w') \<Rightarrow> X' w' | (Hung, w') \<Rightarrow> H' w'"
    by (cases r) (auto simp: deferred_def m valid_def)
qed

lemma keeps_deferred:
  assumes "keeps_up I H m" and "\<And>r. keeps_up I H (d r)"
  shows "keeps_up I H (deferred m d)"
  using assms unfolding keeps_up_def by (intro valid_deferred) auto

lemma keeps_up_if [up_rules]:
  "(b \<Longrightarrow> keeps_up I H m) \<Longrightarrow> (\<not> b \<Longrightarrow> keeps_up I H n) \<Longrightarrow> keeps_up I H (if b then m else n)"
  by simp

lemma keeps_up_option [up_rules]:
  "(x = None \<Longrightarrow> keeps_up I H m) \<Longrightarrow> (\<And>y. x = Some y \<Longrightarrow> keeps_up I H (f y)) \<Longrightarrow>
   keeps_up I H (case x of None \<Rightarrow> m | Some y \<Rightarrow> f y)"
  by (cases x) auto

lemma keeps_up_sum [up_rules]:
  "(\<And>y. x = Inl y \<Longrightarrow> keeps_up I H (f y)) \<Longrightarrow> (\<And>y. x = Inr y \<Longrightarrow> keeps_up I H (g y)) \<Longrightarrow>
   keeps_up I H (case x of Inl y \<Rightarrow> f y | Inr y \<Rightarrow> g y)"
  by (cases x) auto

lemma keeps_up_prod [up_rules]:
  "(\<And>a b. x = (a, b) \<Longrightarrow> keeps_up I H (f a b)) \<Longrightarrow> keeps_up I H (case x of (a, b) \<Rightarrow> f a b)"
  by (cases x) auto

lemma keeps_upI:
  assumes "\<And>w. I w \<Longrightarrow> (case m w of
     (Ret x, w') \<Rightarrow> I w' | (Fail e, w') \<Rightarrow> I w' | (Panicked, w') \<Rightarrow> I w' | (Hung, w') \<Rightarrow> H w')"
  shows "keeps_up I H m"
  using assms by (simp add: keeps_up_def valid_def)

lemma keeps_upD: "keeps_up I H m \<Longrightarrow> I w \<Longrightarrow> m w = (r, w') \<Longrightarrow> r \<noteq> Hung \<Longrightarrow> I w'"
  unfolding keeps_up_def by (drule (2) valid_outcome) (cases r; simp)

lemma keeps_up_hungD: "keeps_up I H m \<Longrightarrow> I w \<Longrightarrow> m w = (Hung, w') \<Longrightarrow> H w'"
  unfolding keeps_up_def by (drule (2) valid_outcome) simp

subsection \<open>What every part keeps\<close>

text \<open>
  \<open>I\<close> survives the moves of the world and the changes an upgrade makes itself, to the messages,
  to the context and to the files whose paths satisfy \<open>D\<close>; \<open>H\<close> holds when a call never returns.
\<close>

locale upgrade_frame =
  fixes E :: "'s upenv" and I H :: "'s upworld \<Rightarrow> bool" and D :: "string \<Rightarrow> bool"
  assumes I_move: "I w \<Longrightarrow> I (up_move E w)"
    and I_emit: "I w \<Longrightarrow> I (w\<lparr>uw_emitted := ps\<rparr>)"
    and I_file: "I w \<Longrightarrow> D p \<Longrightarrow> I (w\<lparr>uw_fs := (uw_fs w)(p := c)\<rparr>)"
begin

lemma emit_kept [up_rules]: "keeps_up I H (up_emit E p)"
  by (rule keeps_upI) (simp add: up_emit_def Let_def I_move I_emit)

lemma ctx_check_kept [up_rules]: "keeps_up I H (ctx_check E)"
  by (rule keeps_upI) (simp add: ctx_check_def Let_def I_move)

lemma fs_same: "I w \<Longrightarrow> uw_fs w = fs \<Longrightarrow> I (w\<lparr>uw_fs := fs\<rparr>)"
  by (cases w) simp

lemma fs_call_kept:
  assumes "\<And>fs x fs'. f fs = Some (x, fs') \<Longrightarrow>
     fs' = fs \<or> (\<exists>p c. D p \<and> fs' = fs(p := c)) \<or> (\<exists>p q c e. D p \<and> D q \<and> fs' = fs(p := c, q := e))"
  shows "keeps_up I H (fs_call E f)"
proof (rule keeps_upI)
  fix w assume "I w"
  then have m: "I (up_move E w)" by (rule I_move)
  have "I ((up_move E w)\<lparr>uw_fs := fs'\<rparr>)" if "f (uw_fs (up_move E w)) = Some (x, fs')" for x fs'
    using assms [OF that] m I_file [OF m] I_file [OF I_file [OF m]] by auto
  with m show "case fs_call E f w of
     (Ret x, w') \<Rightarrow> I w' | (Fail e, w') \<Rightarrow> I w' | (Panicked, w') \<Rightarrow> I w' | (Hung, w') \<Rightarrow> H w'"
    by (auto simp: fs_call_def Let_def split: option.splits)
qed

lemma os_call_kept [up_rules]: "keeps_up I H (os_call E)"
  unfolding os_call_def by (rule fs_call_kept) simp

lemma os_ReadFile_kept [up_rules]: "keeps_up I H (os_ReadFile E p)"
  unfolding os_ReadFile_def by (rule fs_call_kept) (simp split: option.splits)

lemma os_Create_kept [up_rules]: "D p \<Longrightarrow> keeps_up I H (os_Create E p)"
  unfolding os_Create_def by (rule fs_call_kept) auto

lemma os_Remove_kept [up_rules]: "D p \<Longrightarrow> keeps_up I H (os_Remove E p)"
  unfolding os_Remove_def by (rule fs_call_kept) (auto split: option.splits)

lemma os_Rename_kept [up_rules]: "D a \<Longrightarrow> D b \<Longrightarrow> keeps_up I H (os_Rename E a b)"
  unfolding os_Rename_def by (rule fs_call_kept) (fastforce split: option.splits)

lemma file_Write_kept [up_rules]: "D p \<Longrightarrow> keeps_up I H (file_Write E p s)"
  by (rule keeps_upI) (simp add: file_Write_def Let_def I_move I_file split: option.splits)

lemma report_kept [up_rules]: "keeps_up I H (report E f s now err c)"
  unfolding report_def Let_def by (cases f) (auto intro!: up_rules)

lemma copy_turn_kept [up_rules]: "D dest \<Longrightarrow> keeps_up I H (copy_turn E f dest rd err c)"
  unfolding copy_turn_def by (intro up_rules)

lemma copy_chunks_kept [up_rules]: "D dest \<Longrightarrow> keeps_up I H (copy_chunks E f dest rds c)"
proof (induction rds arbitrary: c)
  case (Cons rd rds)
  then show ?case by (auto intro!: up_rules)
qed (simp add: keeps_ret)

lemma verifyChecksum_kept [up_rules]: "keeps_up I H (verifyChecksum E p want)"
  unfolding verifyChecksum_def by (intro up_rules)

lemma writeBinary_kept [up_rules]: "D dest \<Longrightarrow> keeps_up I H (writeBinary E ent dest)"
  unfolding writeBinary_def by (intro up_rules)

lemma zip_entries_kept [up_rules]: "D dest \<Longrightarrow> keeps_up I H (zip_entries E want dest ents)"
  by (induction ents) (auto intro!: up_rules)

lemma tar_entries_kept [up_rules]: "D dest \<Longrightarrow> keeps_up I H (tar_entries E want dest eof ents)"
  by (induction ents) (auto intro!: up_rules)

lemma extractBinary_kept [up_rules]: "D dest \<Longrightarrow> keeps_up I H (extractBinary E p goos dest)"
  unfolding extractBinary_def extractZipEntry_def extractTarGzEntry_def by (intro up_rules)

lemma probeVersion_kept [up_rules]: "keeps_up I H (probeVersion E p)"
  unfolding probeVersion_def
  by (intro keeps_andThen os_ReadFile_kept keeps_upI) (simp add: I_move split: sum.splits)

lemma fail_kept [up_rules]: "keeps_up I H (up_fail E opt e)"
  unfolding up_fail_def by (intro up_rules)

lemma preflight_kept: "keeps_up I H (preflight E opt)"
  unfolding preflight_def by (intro up_rules)

lemma stage_step_kept:
  assumes "D (staged_binary E opt ip)"
  shows "keeps_up I H (stage_step E opt ip)"
  unfolding stage_step_def Let_def using assms by (intro up_rules)

lemma drain_loop_kept: "0 < poll \<Longrightarrow> keeps_up I H (drain_loop E Dr timeout poll f k)"
proof (induction "nat (timeout - int k * poll + poll)" arbitrary: k rule: less_induct)
  case less
  show ?case
  proof (rule keeps_upI)
    fix w assume "I w"
    then have m: "I (up_move E w)" by (rule I_move)
    let ?a = "d_ActiveJobs Dr (uw_sched (up_move E w))"
    obtain r w2 where e: "up_emit E (f ?a) (up_move E w) = (r, w2)" by (cases "up_emit E (f ?a) (up_move E w)")
    have "case r of Ret x \<Rightarrow> I w2 | Fail e \<Rightarrow> I w2 | Panicked \<Rightarrow> I w2 | Hung \<Rightarrow> H w2"
      using emit_kept m e unfolding keeps_up_def by (rule valid_outcome)
    moreover have "case drain_loop E Dr timeout poll f (Suc k) w2 of
       (Ret x, w') \<Rightarrow> I w' | (Fail e, w') \<Rightarrow> I w' | (Panicked, w') \<Rightarrow> I w' | (Hung, w') \<Rightarrow> H w'"
      if "I w2" "\<not> timeout < (int k + 1) * poll + int (ue_late E (uw_tick w))"
    proof -
      from that(2) less.prems have "(int k + 1) * poll \<le> timeout" by (simp add: not_less)
      then have "keeps_up I H (drain_loop E Dr timeout poll f (Suc k))"
        using less.prems by (intro less.hyps) (simp_all add: algebra_simps)
      with that(1) show ?thesis by (simp add: keeps_up_def valid_def)
    qed
    ultimately show "case drain_loop E Dr timeout poll f k w of
       (Ret x, w') \<Rightarrow> I w' | (Fail e, w') \<Rightarrow> I w' | (Panicked, w') \<Rightarrow> I w' | (Hung, w') \<Rightarrow> H w'"
      using m less.prems
      by (subst drain_loop.simps) (cases r; simp add: Let_def e)
  qed
qed

lemma waitDrain_kept: "0 < poll \<Longrightarrow> keeps_up I H (waitDrain E Dr timeout poll f)"
proof (rule keeps_upI)
  fix w assume "0 < poll" "I w"
  then have "I (up_move E w)" "keeps_up I H (drain_loop E Dr timeout poll f 0)"
    by (simp_all add: I_move drain_loop_kept)
  then show "case waitDrain E Dr timeout poll f w of
     (Ret x, w') \<Rightarrow> I w' | (Fail e, w') \<Rightarrow> I w' | (Panicked, w') \<Rightarrow> I w' | (Hung, w') \<Rightarrow> H w'"
    by (simp add: waitDrain_def Let_def keeps_up_def valid_def)
qed

lemma swapBinary_kept:
  assumes "D ip" and "D (ip @ ''.old'')" and "D p"
  shows "keeps_up I H (swapBinary E ip p)"
  unfolding swapBinary_def Let_def using assms by (intro up_rules)

lemma swap_step_kept:
  assumes "D ip" and "D (ip @ ''.old'')" and "D (staged_binary E opt ip)"
    and "\<And>w. I w \<Longrightarrow> I (w\<lparr>uw_armed := False\<rparr>)" and "\<And>w b. I w \<Longrightarrow> I (w\<lparr>uw_spawned := b\<rparr>)"
  shows "keeps_up I H (swap_step E opt ip)"
  unfolding swap_step_def using assms
  by (intro keeps_andThen keeps_onError fail_kept ctx_check_kept emit_kept swapBinary_kept keeps_upI) simp_all

end

text \<open>The parts that read from the network need more: their reads may be cancelled or hang.\<close>

locale upgrade_inv = upgrade_frame E I H D
  for E :: "'s upenv" and I H :: "'s upworld \<Rightarrow> bool" and D :: "string \<Rightarrow> bool" +
  assumes I_expire: "I w \<Longrightarrow> I (w\<lparr>uw_cancelled := True, uw_expired := True\<rparr>)"
    and I_hang: "I w \<Longrightarrow> \<not> uw_armed w \<Longrightarrow> H w"
begin

lemma wait_cancelled_kept [up_rules]: "keeps_up I H (wait_cancelled E)"
  by (rule keeps_upI) (simp add: wait_cancelled_def Let_def I_move I_expire I_hang)

lemma wait_silent_kept [up_rules]: "keeps_up I H (wait_silent E t)"
proof (rule keeps_upI)
  fix w assume w: "I w"
  have "case wait_cancelled E w of
     (Ret x, w') \<Rightarrow> I w' | (Fail e, w') \<Rightarrow> I w' | (Panicked, w') \<Rightarrow> I w' | (Hung, w') \<Rightarrow> H w'"
    using w wait_cancelled_kept by (simp add: keeps_up_def valid_def)
  with w show "case wait_silent E t w of
     (Ret x, w') \<Rightarrow> I w' | (Fail e, w') \<Rightarrow> I w' | (Panicked, w') \<Rightarrow> I w' | (Hung, w') \<Rightarrow> H w'"
    by (simp add: wait_silent_def I_move)
qed

lemma copy_end_kept [up_rules]: "D dest \<Longrightarrow> keeps_up I H (copy_end E f dest t r c)"
  unfolding copy_end_def by (cases "rs_end r") (auto intro!: up_rules)

lemma http_get_kept [up_rules]: "keeps_up I H (http_get E url t)"
proof (rule keeps_upI)
  fix w assume "I w"
  then have m: "I (up_move E w)" by (rule I_move)
  have "keeps_up I H (andThen (wait_silent E t) (\<lambda>_. throw CtxCanceled :: ('s, http_response) up))"
    by (intro up_rules)
  with m have "case andThen (wait_silent E t) (\<lambda>_. throw CtxCanceled :: ('s, http_response) up) (up_move E w) of
     (Ret x, w') \<Rightarrow> I w' | (Fail e, w') \<Rightarrow> I w' | (Panicked, w') \<Rightarrow> I w' | (Hung, w') \<Rightarrow> H w'"
    by (simp add: keeps_up_def valid_def)
  with m show "case http_get E url t w of
     (Ret x, w') \<Rightarrow> I w' | (Fail e, w') \<Rightarrow> I w' | (Panicked, w') \<Rightarrow> I w' | (Hung, w') \<Rightarrow> H w'"
    by (simp add: http_get_def Let_def split: do_answer.splits)
qed

lemma downloadFile_kept [up_rules]: "D dest \<Longrightarrow> keeps_up I H (downloadFile E url dest t f)"
  unfolding downloadFile_def by (intro up_rules)

lemma fetch_step_kept:
  assumes "D (archive_path E opt ip)" and "D (sums_path opt ip)"
  shows "keeps_up I H (fetch_step E opt ip)"
  unfolding fetch_step_def Let_def using assms by (intro up_rules)

end

end
