(* ===== verification/Upgrade_Cordon.thy ===== *)
theory Upgrade_Cordon
  imports Upgrade_Laws Sched_State
begin

text \<open>
  The cordon of an upgrade: \<^verbatim>\<open>Run\<close> and the restart supervisor use the \<^verbatim>\<open>Drainer\<close> in a fixed order,
  every way out of a failed upgrade un-cordons, and with an install budget every upgrade ends. The
  interface \<open>cordon_gate\<close> says what \<^verbatim>\<open>Run\<close> needs of its drainer; the scheduler provides it.
\<close>

subsection \<open>What the parts keep\<close>

definition ghost :: "'s upworld \<Rightarrow> drain_call list \<times> bool \<times> bool" where
  "ghost w = (uw_drained w, uw_didCordon w, uw_undrained w)"

lemma ghost_move [simp]: "ghost (up_move E w) = ghost w"
  by (simp add: ghost_def up_move_def Let_def)

lemma armed_move [simp]: "uw_armed (up_move E w) = uw_armed w"
  by (simp add: up_move_def Let_def)

lemma spawned_move [simp]: "uw_spawned (up_move E w) = uw_spawned w"
  by (simp add: up_move_def Let_def)

lemma slept_move [simp]: "uw_slept (up_move E w) = uw_slept w"
  by (simp add: up_move_def Let_def)

interpretation ghost: upgrade_inv E "\<lambda>w. G (ghost w)" "\<lambda>w. G (ghost w)" "\<lambda>_. True" for E G
  by unfold_locales (simp_all add: ghost_def up_move_def Let_def)

interpretation armed: upgrade_inv E uw_armed "\<lambda>_. False" "\<lambda>_. True" for E
  by unfold_locales simp_all

interpretation any: upgrade_frame E "\<lambda>_. True" "\<lambda>_. False" "\<lambda>_. True" for E
  by unfold_locales simp_all

lemma staged_part_ghost:
  "keeps_up (\<lambda>w. G (ghost w)) (\<lambda>w. G (ghost w)) (staged_part E opt ip)"
  unfolding staged_part_def
  by (intro keeps_deferred keeps_andThen keeps_onError ghost.os_call_kept ghost.fail_kept
      ghost.fetch_step_kept ghost.stage_step_kept ghost.swap_step_kept keeps_upI)
    (simp_all add: os_RemoveAll_def Let_def ghost_def up_move_def split: outcome.splits)

lemma install_part_ghost:
  "keeps_up (\<lambda>w. G (ghost w)) (\<lambda>w. G (ghost w)) (install_part E opt ip)"
proof (rule keeps_upI)
  fix w :: "'a upworld" assume "G (ghost w)"
  then have "G (ghost (w\<lparr>uw_armed := True\<rparr>))" by (simp add: ghost_def)
  moreover have "keeps_up (\<lambda>w. G (ghost w)) (\<lambda>w. G (ghost w)) (deferred (staged_part E opt ip)
      (\<lambda>r w. (case r of
          Fail e \<Rightarrow> Fail (if uw_expired w then Uerr ''upgrade exceeded its %s install budget'' [e] else e)
        | _ \<Rightarrow> r, w\<lparr>uw_armed := False, uw_cancelled := True\<rparr>)))"
    by (intro keeps_deferred staged_part_ghost keeps_upI) (simp add: ghost_def split: outcome.splits)
  ultimately show "case install_part E opt ip w of
     (Ret x, w') \<Rightarrow> G (ghost w') | (Fail e, w') \<Rightarrow> G (ghost w') | (Panicked, w') \<Rightarrow> G (ghost w')
   | (Hung, w') \<Rightarrow> G (ghost w')"
    using \<open>G (ghost w)\<close> staged_part_ghost [of G E opt ip]
    by (simp add: install_part_def keeps_up_def valid_def)
qed

subsection \<open>Nothing hangs under an install budget\<close>

abbreviation no_hang :: "('s, 'a) up \<Rightarrow> bool" where
  "no_hang m \<equiv> keeps_up (\<lambda>_. True) (\<lambda>_. False) m"

lemma no_hang_iff: "no_hang m \<longleftrightarrow> (\<forall>w. fst (m w) \<noteq> Hung)"
proof -
  have "(case m w of (Ret x, w') \<Rightarrow> True | (Fail e, w') \<Rightarrow> True | (Panicked, w') \<Rightarrow> True | (Hung, w') \<Rightarrow> False) =
        (fst (m w) \<noteq> Hung)" for w
    by (cases "m w") (simp split: outcome.split)
  then show ?thesis by (simp add: keeps_up_def valid_def)
qed

lemma no_hang_deferred: "no_hang m \<Longrightarrow> (\<And>r. r \<noteq> Hung \<Longrightarrow> no_hang (d r)) \<Longrightarrow> no_hang (deferred m d)"
  by (auto simp: no_hang_iff deferred_def split: prod.split outcome.split) (metis fst_conv)

lemma staged_part_armed: "valid uw_armed (staged_part E opt ip) (\<lambda>_ _. True) (\<lambda>_. True) (\<lambda>_. False)"
proof -
  have swap: "valid uw_armed (swap_step E opt ip) (\<lambda>_ _. True) (\<lambda>_. True) (\<lambda>_. False)"
    using any.swap_step_kept [OF TrueI TrueI TrueI TrueI TrueI] unfolding keeps_up_def by (rule valid_conseq) auto
  have keep: "valid uw_armed m (\<lambda>_. uw_armed) (\<lambda>_. True) (\<lambda>_. False)"
    if "keeps_up uw_armed (\<lambda>_. False) m" for m :: "('a, unit) up"
    using that unfolding keeps_up_def by (rule valid_conseq) auto
  have "valid uw_armed (andThen (fetch_step E opt ip) (\<lambda>_. andThen (stage_step E opt ip) (\<lambda>_. swap_step E opt ip)))
          (\<lambda>_ _. True) (\<lambda>_. True) (\<lambda>_. False)"
    by (rule valid_andThen [OF keep [OF armed.fetch_step_kept]])
      (simp_all add: valid_andThen [OF keep [OF armed.stage_step_kept]] swap)
  then have "valid uw_armed (deferred
       (andThen (fetch_step E opt ip) (\<lambda>_. andThen (stage_step E opt ip) (\<lambda>_. swap_step E opt ip)))
       (\<lambda>r w. (r, os_RemoveAll E (stage_dir opt ip) w))) (\<lambda>_ _. True) (\<lambda>_. True) (\<lambda>_. False)"
    by (rule valid_deferred) (simp_all add: valid_def)
  then show ?thesis
    unfolding staged_part_def
    by (intro valid_andThen [OF keep]) (intro keeps_onError armed.os_call_kept armed.fail_kept)
qed

lemma install_part_no_hang:
  assumes "0 \<le> o_InstallTimeout opt"
  shows "no_hang (install_part E opt ip)"
proof -
  have "0 < orDuration (o_InstallTimeout opt) defaultInstallTimeout"
    using assms by (simp add: orDuration_def defaultInstallTimeout_def)
  moreover have "valid uw_armed (deferred (staged_part E opt ip)
      (\<lambda>r w. (case r of
          Fail e \<Rightarrow> Fail (if uw_expired w then Uerr ''upgrade exceeded its %s install budget'' [e] else e)
        | _ \<Rightarrow> r, w\<lparr>uw_armed := False, uw_cancelled := True\<rparr>))) (\<lambda>_ _. True) (\<lambda>_. True) (\<lambda>_. False)"
    by (rule valid_deferred [OF staged_part_armed]) (auto simp: valid_def)
  ultimately show ?thesis
    by (simp add: install_part_def keeps_up_def valid_def)
qed

lemma positive_or_pos: "0 < d \<Longrightarrow> 0 < positive_or v d"
  by (simp add: positive_or_def)

lemma drain_step_no_hang: "no_hang (cordon_step E opt)"
proof -
  have "no_hang (andThen (up_emit E p) (\<lambda>_. onError (waitDrain E D t (positive_or v defaultDrainPoll) f)
      (\<lambda>e. up_fail E opt (Uerr m [e]))))" for p D t v f m
    by (intro keeps_andThen keeps_onError any.emit_kept any.fail_kept any.waitDrain_kept positive_or_pos)
      (simp add: defaultDrainPoll_def)
  then show ?thesis
    by (simp add: no_hang_iff cordon_step_def Let_def split: option.split prod.split)
qed

lemma upgrade_Run_no_hang:
  assumes "0 \<le> o_InstallTimeout opt"
  shows "no_hang (upgrade_Run E opt)"
proof -
  have "no_hang (recover_undrain E opt Panicked)"
    unfolding recover_undrain_def
    by (simp, intro keeps_andThen any.emit_kept) (simp add: no_hang_iff)
  then have "no_hang (recover_undrain E opt r)" if "r \<noteq> Hung" for r :: "unit outcome"
    using that by (cases r) (simp_all add: recover_undrain_def no_hang_iff ret_def)
  then have "no_hang (deferred (andThen (cordon_step E opt) (\<lambda>_. install_part E opt ip)) (recover_undrain E opt))" for ip
    by (intro no_hang_deferred keeps_andThen drain_step_no_hang install_part_no_hang [OF assms])
  then show ?thesis
    unfolding upgrade_Run_def by (intro up_rules any.preflight_kept)
qed

subsection \<open>The order of the drainer calls\<close>

abbreviation untouched :: "'s upworld \<Rightarrow> bool" where
  "untouched w \<equiv> ghost w = ([], False, False)"

abbreviation cordoned :: "'s upworld \<Rightarrow> bool" where
  "cordoned w \<equiv> ghost w = ([CallCordon], True, False)"

abbreviation released :: "'s upworld \<Rightarrow> bool" where
  "released w \<equiv> ghost w = ([CallCordon, CallUncordon], True, True)"

lemma drain_step_once:
  assumes "untouched w" and "cordon_step E opt w = (r, w')"
  shows "untouched w' \<or> cordoned w'"
proof (cases "o_Drainer opt = None \<or> o_NoDrain opt")
  case True
  with assms show ?thesis by (auto simp: cordon_step_def split: option.splits)
next
  case False
  then obtain Dr where Dr: "o_Drainer opt = Some Dr" "\<not> o_NoDrain opt" by auto
  define w1 where "w1 = (up_move E w)\<lparr>uw_sched := snd (d_Cordon Dr (uw_sched (up_move E w))), uw_didCordon := True,
      uw_drained := uw_drained (up_move E w) @ [CallCordon]\<rparr>"
  define m where "m = andThen (up_emit E (progress opt StateDraining\<lparr>pg_ActiveJobs := fst (d_Cordon Dr (uw_sched (up_move E w)))\<rparr>))
     (\<lambda>_. onError (waitDrain E Dr (positive_or (o_DrainTimeout opt) defaultDrainTimeout)
                     (positive_or (o_DrainPoll opt) defaultDrainPoll)
                     (\<lambda>a. progress opt StateDraining\<lparr>pg_ActiveJobs := a\<rparr>))
           (\<lambda>e. up_fail E opt (Uerr ''draining before upgrade'' [e])))"
  have run: "m w1 = (r, w')"
    using assms(2) Dr by (simp add: cordon_step_def m_def w1_def Let_def split: prod.splits)
  have "cordoned w1" using assms(1) by (simp add: w1_def ghost_def up_move_def Let_def)
  moreover have "keeps_up cordoned cordoned m"
    unfolding m_def
    by (intro keeps_andThen keeps_onError ghost.emit_kept ghost.fail_kept ghost.waitDrain_kept positive_or_pos)
      (simp add: defaultDrainPoll_def)
  ultimately have "cordoned w'"
    using run keeps_upD [of cordoned cordoned m w1] keeps_up_hungD [of cordoned cordoned m w1]
    by (cases "r = Hung") blast+
  then show ?thesis ..
qed

lemma keeps_ghost_any:
  assumes "keeps_up (\<lambda>w. G (ghost w)) (\<lambda>w. G (ghost w)) m" and "G (ghost w)" and "m w = (r, w')"
  shows "G (ghost w')"
  using assms keeps_upD [OF assms(1), of w r w'] keeps_up_hungD [OF assms(1), of w w'] by (cases "r = Hung") blast+

locale cordon_gate =
  fixes Dr :: "'s Drainer" and draining :: "'s \<Rightarrow> bool"
  assumes Cordon_drains: "draining (snd (d_Cordon Dr s))"
    and Uncordon_serves: "\<not> draining (snd (d_Uncordon Dr s))"
begin

lemma undrain_releases:
  assumes "o_Drainer opt = Some Dr" and "untouched w \<or> cordoned w"
  shows "untouched (undrain E opt w) \<or> released (undrain E opt w) \<and> \<not> draining (uw_sched (undrain E opt w))"
  using assms Uncordon_serves by (auto simp: undrain_def ghost_def Let_def up_move_def)

lemma guarded_part:
  assumes "o_Drainer opt = Some Dr" and "untouched w"
    and "deferred (andThen (cordon_step E opt) (\<lambda>_. install_part E opt ip)) (recover_undrain E opt) w = (r, w')"
  shows "case r of
      Fail e \<Rightarrow> untouched w' \<or> released w' \<and> \<not> draining (uw_sched w')
    | _ \<Rightarrow> untouched w' \<or> cordoned w'"
proof -
  obtain r1 w1 where m: "andThen (cordon_step E opt) (\<lambda>_. install_part E opt ip) w = (r1, w1)"
    by (cases "andThen (cordon_step E opt) (\<lambda>_. install_part E opt ip) w")
  obtain r0 w0 where d: "cordon_step E opt w = (r0, w0)" by (cases "cordon_step E opt w")
  have s0: "untouched w0 \<or> cordoned w0" using drain_step_once [OF assms(2) d] .
  have "untouched w1 \<or> cordoned w1"
  proof (cases r0)
    case (Ret x)
    with m d have "install_part E opt ip w0 = (r1, w1)" by (simp add: andThen_def)
    then show ?thesis
      by (rule keeps_ghost_any [OF install_part_ghost [of "\<lambda>g. g = ([], False, False) \<or> g = ([CallCordon], True, False)"] s0])
  qed (use m d s0 in \<open>auto simp: andThen_def\<close>)
  note s1 = this
  have rel: "untouched (undrain E opt v) \<or> released (undrain E opt v) \<and> \<not> draining (uw_sched (undrain E opt v))"
    if "ghost v = ghost w1" for v
    using undrain_releases [OF assms(1), of v E] s1 that by auto
  obtain r2 w2 where e: "up_emit E (progress opt StateFailed) w1 = (r2, w2)" by (cases "up_emit E (progress opt StateFailed) w1")
  have g2: "ghost w2 = ghost w1"
    using keeps_ghost_any [OF ghost.emit_kept [of "\<lambda>g. g = ghost w1"] refl e] .
  have "r2 = Ret () \<or> r2 = Panicked" using e by (auto simp: up_emit_def Let_def split: if_splits)
  with assms(3) m s1 rel [OF refl] rel [OF g2] e g2 show ?thesis
    by (cases r1) (auto simp: deferred_def recover_undrain_def ret_def andThen_def)
qed

lemma run_discipline:
  assumes "o_Drainer opt = Some Dr" and "untouched w" and "upgrade_Run E opt w = (r, w')"
  shows "case r of
      Fail e \<Rightarrow> untouched w' \<or> released w' \<and> \<not> draining (uw_sched w')
    | _ \<Rightarrow> untouched w' \<or> cordoned w'"
proof -
  obtain r0 w0 where p: "preflight E opt w = (r0, w0)" by (cases "preflight E opt w")
  have u: "untouched w0"
    by (rule keeps_ghost_any [OF ghost.preflight_kept [of "\<lambda>g. g = ([], False, False)"] assms(2) p])
  show ?thesis
  proof (cases r0)
    case (Ret x)
    show ?thesis
    proof (cases x)
      case None
      with assms(3) p Ret u show ?thesis by (auto simp: upgrade_Run_def andThen_def ret_def)
    next
      case (Some ip)
      with assms(3) p Ret have "deferred (andThen (cordon_step E opt) (\<lambda>_. install_part E opt ip)) (recover_undrain E opt) w0 = (r, w')"
        by (simp add: upgrade_Run_def andThen_def)
      with assms(1) u show ?thesis by (rule guarded_part)
    qed
  qed (use assms(3) p u in \<open>auto simp: upgrade_Run_def andThen_def\<close>)
qed

lemma attempts_discipline:
  assumes "o_Drainer opt = Some Dr" and "untouched w \<or> cordoned w"
    and "restart_attempts E opt wd n w = (r, w')"
  shows "case r of
      GaveUp \<Rightarrow> untouched w' \<or> released w' \<and> \<not> draining (uw_sched w')
    | RestartTook \<Rightarrow> untouched w' \<or> cordoned w'"
  using assms(2,3)
proof (induction n arbitrary: w)
  case 0
  then show ?case using undrain_releases [OF assms(1), of w E] by auto
next
  case (Suc n)
  obtain b v where wu: "waitUnlessShutdown E opt
      (if ue_restart E (uw_tick w) = None then wd else min restartRetryDelay wd) (up_move E w) = (b, v)"
    by (cases "waitUnlessShutdown E opt (if ue_restart E (uw_tick w) = None then wd else min restartRetryDelay wd) (up_move E w)")
  then have "ghost v = ghost w" by (auto simp: waitUnlessShutdown_def ghost_def up_move_def Let_def split: if_splits)
  with Suc.prems(1) have v: "untouched v \<or> cordoned v" by simp
  show ?case
  proof (cases b)
    case True
    with Suc.prems(2) wu have "restart_attempts E opt wd n v = (r, w')" by simp
    with v show ?thesis by (rule Suc.IH)
  next
    case False
    with Suc.prems(2) wu v show ?thesis by auto
  qed
qed

text \<open>Every way an upgrade can end, and the calls it has then made on its drainer.\<close>

lemma session_discipline:
  assumes "o_Drainer opt = Some Dr" and "upgrade_session E opt (upgrade_start fs s) = (e, w')"
  shows "case e of
      Failed err \<Rightarrow> uw_drained w' = [] \<or> uw_drained w' = [CallCordon, CallUncordon] \<and> \<not> draining (uw_sched w')
    | Supervised GaveUp \<Rightarrow> uw_drained w' = [] \<or> uw_drained w' = [CallCordon, CallUncordon] \<and> \<not> draining (uw_sched w')
    | _ \<Rightarrow> uw_drained w' = [] \<or> uw_drained w' = [CallCordon]"
proof -
  have u: "untouched (upgrade_start fs s)" by (simp add: ghost_def upgrade_start_def)
  obtain r w1 where run: "upgrade_Run E opt (upgrade_start fs s) = (r, w1)"
    by (cases "upgrade_Run E opt (upgrade_start fs s)")
  note d = run_discipline [OF assms(1) u run]
  obtain q w2 where sv: "superviseRestart E opt w1 = (q, w2)" by (cases "superviseRestart E opt w1")
  have "case q of
      GaveUp \<Rightarrow> untouched w2 \<or> released w2 \<and> \<not> draining (uw_sched w2)
    | RestartTook \<Rightarrow> untouched w2 \<or> cordoned w2" if "untouched w1 \<or> cordoned w1"
  proof -
    obtain b v where wu: "waitUnlessShutdown E opt (positive_or (o_RestartDelay opt) restartDelay) w1 = (b, v)"
      by (cases "waitUnlessShutdown E opt (positive_or (o_RestartDelay opt) restartDelay) w1")
    then have "ghost v = ghost w1" by (auto simp: waitUnlessShutdown_def ghost_def up_move_def Let_def split: if_splits)
    with that have v: "untouched v \<or> cordoned v" by simp
    show ?thesis
    proof (cases b)
      case True
      with sv wu have "restart_attempts E opt (positive_or (o_RestartWatchdog opt) restartWatchdog) restartAttempts v = (q, w2)"
        by (simp add: superviseRestart_def)
      then show ?thesis by (rule attempts_discipline [OF assms(1) v])
    next
      case False
      with sv wu v show ?thesis by (auto simp: superviseRestart_def)
    qed
  qed
  with d assms(2) run sv show ?thesis
    by (cases r; cases "uw_spawned w1"; cases q) (auto simp: upgrade_session_def ghost_def)
qed

end

subsection \<open>The scheduler as the drainer\<close>

definition sched_drainer :: "scheduler Drainer" where
  "sched_drainer =
     \<lparr>d_Cordon = (\<lambda>s. (int (fst (Cordon s)), snd (Cordon s))),
      d_Uncordon = (\<lambda>s. (int (fst (Uncordon s)), snd (Uncordon s))),
      d_ActiveJobs = (\<lambda>s. int (ActiveJobs s))\<rparr>"

interpretation sched_gate: cordon_gate sched_drainer s_draining
  by unfold_locales (simp_all add: sched_drainer_def Cordon_def Uncordon_def)

end
