(* ===== verification/Upgrade_Verified.thy ===== *)
theory Upgrade_Verified
  imports Upgrade_Cordon
begin

text \<open>
  Which bytes an upgrade can leave at the install path: the binary that was there, or one unpacked
  from an archive whose digest the release lists and which, on its own platform, reports the
  version asked for. The files the upgrade works on are left alone by everybody else.
\<close>

subsection \<open>Files that nobody else touches\<close>

definition settled :: "'s upenv \<Rightarrow> string \<Rightarrow> bool" where
  "settled E p \<longleftrightarrow> (\<forall>n fs. ue_fs E n fs p = fs p)"

lemma settled_move [simp]: "settled E p \<Longrightarrow> uw_fs (up_move E w) p = uw_fs w p"
  by (simp add: settled_def up_move_def Let_def)

lemma file_inv: "settled E p \<Longrightarrow> upgrade_inv E (\<lambda>w. C (uw_fs w p)) (\<lambda>_. True) (\<lambda>q. q \<noteq> p)"
  by unfold_locales simp_all

lemma file_frame: "settled E p \<Longrightarrow> upgrade_frame E (\<lambda>w. C (uw_fs w p)) (\<lambda>q. q \<noteq> p)"
  by unfold_locales simp_all

subsection \<open>When a call returns a result\<close>

lemma andThen_Ret:
  "andThen m f w = (Ret y, w') \<longleftrightarrow> (\<exists>x v. m w = (Ret x, v) \<and> f x v = (Ret y, w'))"
  by (auto simp: andThen_def split: prod.splits outcome.splits)

lemma onError_Ret:
  "onError m h w = (Ret y, w') \<longleftrightarrow> m w = (Ret y, w') \<or> (\<exists>e v. m w = (Fail e, v) \<and> h e v = (Ret y, w'))"
  by (auto simp: onError_def split: prod.splits outcome.splits)

lemma attempt_Ret:
  "attempt m w = (Ret r, w') \<longleftrightarrow> (case r of Inl e \<Rightarrow> m w = (Fail e, w') | Inr x \<Rightarrow> m w = (Ret x, w'))"
  by (cases r) (auto simp: attempt_def split: prod.splits outcome.splits)

lemma ret_Ret: "ret x w = (Ret y, w') \<longleftrightarrow> y = x \<and> w' = w"
  by (auto simp: ret_def)

lemma throw_Ret: "throw e w \<noteq> (Ret y, w')"
  by (simp add: throw_def)

lemma fail_Ret: "up_fail E opt e w \<noteq> (Ret y, w')"
  by (simp add: up_fail_def andThen_Ret throw_Ret)

lemmas outcome_simps = andThen_Ret onError_Ret attempt_Ret ret_Ret throw_Ret fail_Ret

text \<open>What is known of a file that a call does not write.\<close>

lemma file_kept:
  assumes "keeps_up (\<lambda>w. C (uw_fs w p)) (\<lambda>_. True) m" and "m w = (Ret x, w')" and "C (uw_fs w p)"
  shows "C (uw_fs w' p)"
  using keeps_upD [OF assms(1), of w "Ret x"] assms(2,3) by simp

subsection \<open>What a download leaves\<close>

definition body_of :: "http_response \<Rightarrow> string" where
  "body_of r = concat (map fst (rs_chunks r)) @ fst (rs_last r)"

text \<open>The server gave these bytes, whole and with a success status, for this URL.\<close>

definition served :: "'s upenv \<Rightarrow> string \<Rightarrow> string \<Rightarrow> bool" where
  "served E url data \<longleftrightarrow>
     (\<exists>n r. ue_get E n url = DoResponse r \<and> 200 \<le> rs_status r \<and> rs_status r < 300 \<and>
            rs_end r = REof \<and> data = body_of r)"

lemma file_Write_Ret:
  assumes "settled E p" and "file_Write E p s w = (Ret u, w')" and "uw_fs w p = Some c"
  shows "uw_fs w' p = Some (c @ s)"
  using assms by (auto simp: file_Write_def Let_def split: option.splits)

lemma os_Create_Ret: "os_Create E p w = (Ret u, w') \<Longrightarrow> uw_fs w' p = Some []"
  by (auto simp: os_Create_def fs_call_def Let_def split: option.splits)

lemma os_ReadFile_Ret:
  assumes "settled E p" and "os_ReadFile E p w = (Ret c, w')"
  shows "uw_fs w p = Some c" and "uw_fs w' = ue_fs E (uw_tick w) (uw_fs w)"
  using assms by (auto simp: os_ReadFile_def fs_call_def Let_def up_move_def settled_def split: option.splits)

lemma os_call_Ret: "os_call E w = (Ret u, w') \<Longrightarrow> settled E p \<Longrightarrow> uw_fs w' p = uw_fs w p"
  by (auto simp: os_call_def fs_call_def Let_def split: option.splits)

lemma report_Ret:
  assumes "settled E p" and "report E f s now err k w = (Ret k', w')"
  shows "uw_fs w' p = uw_fs w p"
  using file_kept [OF upgrade_frame.report_kept [OF file_frame [OF assms(1), of "\<lambda>c. c = uw_fs w p"]] assms(2)] by simp

lemma copy_turn_Ret:
  assumes "settled E p" and "copy_turn E f p rd err k w = (Ret k', w')" and "uw_fs w p = Some c"
  shows "uw_fs w' p = Some (c @ fst rd)"
proof -
  from assms(2) obtain k1 w1 where r: "report E f (fst rd) (snd rd) err k w = (Ret k1, w1)"
    and g: "(if fst rd = [] then ret k1 else andThen (file_Write E p (fst rd)) (\<lambda>_. ret k1)) w1 = (Ret k', w')"
    unfolding copy_turn_def andThen_Ret by blast
  have c: "uw_fs w1 p = Some c" using report_Ret [OF assms(1) r] assms(3) by simp
  show ?thesis
  proof (cases "fst rd = []")
    case True
    with g c show ?thesis by (simp add: ret_Ret)
  next
    case False
    with g obtain u where "file_Write E p (fst rd) w1 = (Ret u, w')" by (auto simp: outcome_simps)
    with c show ?thesis using file_Write_Ret [OF assms(1)] by blast
  qed
qed

lemma copy_chunks_Ret:
  assumes "settled E p" and "copy_chunks E f p rds k w = (Ret k', w')" and "uw_fs w p = Some c"
  shows "uw_fs w' p = Some (c @ concat (map fst rds))"
  using assms(2,3)
proof (induction rds arbitrary: w c k)
  case (Cons rd rds)
  then obtain k1 w1 where "copy_turn E f p rd False k w = (Ret k1, w1)" "copy_chunks E f p rds k1 w1 = (Ret k', w')"
    by (auto simp: outcome_simps)
  with Cons.IH Cons.prems(2) copy_turn_Ret [OF assms(1)] show ?case by fastforce
qed (simp add: outcome_simps)

lemma wait_cancelled_Ret: "wait_cancelled E w \<noteq> (Ret u, w')"
  by (simp add: wait_cancelled_def Let_def)

lemma wait_silent_Ret: "wait_silent E t w \<noteq> (Ret u, w')"
  by (simp add: wait_silent_def wait_cancelled_Ret)

lemma copy_end_Ret:
  assumes "settled E p" and "copy_end E f p t r k w = (Ret u, w')" and "uw_fs w p = Some c"
  shows "rs_end r = REof \<and> uw_fs w' p = Some (c @ fst (rs_last r))"
proof (cases "rs_end r")
  case REof
  with assms(2) obtain k' where "copy_turn E f p (rs_last r) True k w = (Ret k', w')"
    by (auto simp: copy_end_def outcome_simps)
  with REof assms(3) show ?thesis using copy_turn_Ret [OF assms(1)] by blast
next
  case RSilent
  with assms(2) obtain e v where "attempt (wait_silent E t) w = (Ret e, v)"
    and "\<exists>x. (case e of Inl e \<Rightarrow> throw e | Inr _ \<Rightarrow> ret ()) x = (Ret u, w')"
    by (auto simp: copy_end_def andThen_Ret)
  then show ?thesis by (cases e) (auto simp: outcome_simps wait_silent_Ret)
next
  case RDribble
  with assms(2) obtain e v where "attempt (wait_cancelled E) w = (Ret e, v)"
    and "\<exists>x. (case e of Inl e \<Rightarrow> throw e | Inr _ \<Rightarrow> ret ()) x = (Ret u, w')"
    by (auto simp: copy_end_def andThen_Ret)
  then show ?thesis by (cases e) (auto simp: outcome_simps wait_cancelled_Ret)
qed (use assms(2) in \<open>auto simp: copy_end_def outcome_simps\<close>)

lemma http_get_Ret:
  "http_get E url t w = (Ret r, w') \<Longrightarrow> \<exists>n. ue_get E n url = DoResponse r \<and> 200 \<le> rs_status r \<and> rs_status r < 300"
  by (auto simp: http_get_def Let_def outcome_simps not_le not_less split: do_answer.splits if_splits)

lemma sync_close_Ret:
  assumes "settled E p"
    and "andThen (attempt (os_call E)) (\<lambda>synced.
           case synced of Inl e \<Rightarrow> andThen (attempt (os_call E)) (\<lambda>_. throw e) | Inr _ \<Rightarrow> os_call E) w = (Ret u, w')"
  shows "uw_fs w' p = uw_fs w p"
proof -
  have "keeps_up (\<lambda>v. uw_fs v p = uw_fs w p) (\<lambda>_. True) (andThen (attempt (os_call E)) (\<lambda>synced.
      case synced of Inl e \<Rightarrow> andThen (attempt (os_call E)) (\<lambda>_. throw e) | Inr _ \<Rightarrow> os_call E))"
    by (intro up_rules upgrade_frame.os_call_kept [OF file_frame [OF assms(1), of "\<lambda>c. c = uw_fs w p"]])
  from file_kept [where C = "\<lambda>c. c = uw_fs w p", OF this assms(2)] show ?thesis by simp
qed

lemma downloadFile_Ret:
  assumes "settled E p" and "downloadFile E url p t f w = (Ret u, w')"
  shows "\<exists>data. served E url data \<and> uw_fs w' p = Some data"
proof -
  from assms(2) obtain w1 r w2 w3 copied w4 where
    g: "http_get E url t w1 = (Ret r, w2)" and c: "os_Create E p w2 = (Ret (), w3)"
    and body: "attempt (andThen (copy_chunks E (map_option (\<lambda>f d. f d (rs_length r)) f) p (rs_chunks r) (0, None))
           (copy_end E (map_option (\<lambda>f d. f d (rs_length r)) f) p t r)) w3 = (Ret copied, w4)"
    and rest: "(case copied of
       Inl e \<Rightarrow> andThen (attempt (os_call E)) (\<lambda>_. throw e)
     | Inr _ \<Rightarrow>
         andThen (attempt (os_call E)) (\<lambda>synced.
         case synced of
           Inl e \<Rightarrow> andThen (attempt (os_call E)) (\<lambda>_. throw e)
         | Inr _ \<Rightarrow> os_call E)) w4 = (Ret u, w')"
    unfolding downloadFile_def andThen_Ret by auto
  from rest obtain v where v: "copied = Inr v" by (cases copied) (auto simp: outcome_simps)
  with body obtain k w5 where "copy_chunks E (map_option (\<lambda>f d. f d (rs_length r)) f) p (rs_chunks r) (0, None) w3 = (Ret k, w5)"
    and e: "copy_end E (map_option (\<lambda>f d. f d (rs_length r)) f) p t r k w5 = (Ret v, w4)"
    by (auto simp: outcome_simps)
  then have "uw_fs w5 p = Some (concat (map fst (rs_chunks r)))"
    using copy_chunks_Ret [OF assms(1)] os_Create_Ret [OF c] by fastforce
  with copy_end_Ret [OF assms(1) e] have "rs_end r = REof" "uw_fs w4 p = Some (body_of r)"
    by (auto simp: body_of_def)
  moreover have "uw_fs w' p = uw_fs w4 p"
    using rest v sync_close_Ret [OF assms(1)] by simp
  ultimately show ?thesis using http_get_Ret [OF g] by (auto simp: served_def)
qed

subsection \<open>The archive that is approved, the binary that is vetted\<close>

definition release_base :: "'s RunOptions \<Rightarrow> string" where
  "release_base opt = baseURL (target_of opt) (o_BaseURLOverride opt)"

text \<open>The release serves these bytes as its archive and lists their digest.\<close>

definition approved :: "'s upenv \<Rightarrow> 's RunOptions \<Rightarrow> string \<Rightarrow> bool" where
  "approved E opt bytes \<longleftrightarrow>
     served E (release_base opt @ ''/'' @ asset_of E opt) bytes \<and>
     (\<exists>data digests want. served E (release_base opt @ ''/'' @ checksumsName) data \<and>
        ParseChecksums data = Inr digests \<and> digests (asset_of E opt) = Some want \<and>
        hex_sha256 bytes = to_lower want)"

definition binary_entry :: "string \<Rightarrow> archive_entry \<Rightarrow> bool" where
  "binary_entry goos ent \<longleftrightarrow> path_Base (ae_name ent) = binaryEntryName goos \<and> ae_plain ent"

text \<open>The first entry of the archive that is the binary, read to its end.\<close>

definition unpacked :: "'s upenv \<Rightarrow> string \<Rightarrow> string \<Rightarrow> string \<Rightarrow> bool" where
  "unpacked E goos bytes bin \<longleftrightarrow>
     (\<exists>ents ent. (if goos = ''windows'' then ue_zip E bytes = Some ents else \<exists>eof. ue_targz E bytes = Some (ents, eof)) \<and>
        List.find (binary_entry goos) ents = Some ent \<and> ae_ok ent \<and> ae_bytes ent = bin)"

definition vetted :: "'s upenv \<Rightarrow> 's RunOptions \<Rightarrow> string \<Rightarrow> bool" where
  "vetted E opt bin \<longleftrightarrow>
     (\<exists>bytes. approved E opt bytes \<and> unpacked E (goos_of E opt) bytes bin) \<and>
     (goos_of E opt = ue_GOOS E \<and> goarch_of E opt = ue_GOARCH E \<longrightarrow>
        (\<exists>n out. ue_exec E n bin = Inr out \<and> SameVersion (parseVersionOutput out) (target_of opt)))"

lemma file_same:
  assumes "keeps_up (\<lambda>v. uw_fs v p = uw_fs w p) (\<lambda>_. True) m" and "m w = (Ret x, w')"
  shows "uw_fs w' p = uw_fs w p"
  using keeps_upD [OF assms(1), of w "Ret x" w'] assms(2) by simp

lemma fetch_step_Ret:
  assumes s: "settled E (archive_path E opt ip)" "settled E (sums_path opt ip)"
    and ne: "sums_path opt ip \<noteq> archive_path E opt ip"
    and run: "fetch_step E opt ip w = (Ret u, w')"
  shows "\<exists>bytes. uw_fs w' (archive_path E opt ip) = Some bytes \<and> approved E opt bytes"
proof -
  let ?ar = "archive_path E opt ip" and ?su = "sums_path opt ip"
  let ?t = "orDuration (o_StallTimeout opt) defaultStallTimeout"
  note fr = upgrade_frame.emit_kept [OF file_frame [OF s(1), of "\<lambda>c. c = k" for k]]
  let ?tail = "\<lambda>data. case ParseChecksums data of
      Inl e \<Rightarrow> up_fail E opt (Uerr ''parsing'' [Sys e])
    | Inr digests \<Rightarrow>
        (case digests (asset_of E opt) of
           None \<Rightarrow> up_fail E opt (Uerr ''%s has no entry for %s'' [])
         | Some want \<Rightarrow>
             andThen (onError (verifyChecksum E ?ar want) (\<lambda>e. up_fail E opt (Uerr ''refusing to install'' [e]))) (\<lambda>_.
             onError (ctx_check E) (\<lambda>e. up_fail E opt (Uerr ''aborted before staging'' [e]))))"
  from run obtain w1 w2 w3 w4 w5 data where
    a: "downloadFile E (release_base opt @ ''/'' @ asset_of E opt) ?ar ?t
          (Some (\<lambda>d total. progress opt StateDownloading\<lparr>pg_BytesDownloaded := d, pg_BytesTotal := total\<rparr>)) w1 = (Ret (), w2)"
    and b: "up_emit E (progress opt StateVerifying) w2 = (Ret (), w3)"
    and c: "downloadFile E (release_base opt @ ''/'' @ checksumsName) ?su ?t None w3 = (Ret (), w4)"
    and d: "os_ReadFile E ?su w4 = (Ret data, w5)" and tl: "?tail data w5 = (Ret u, w')"
    unfolding fetch_step_def Let_def release_base_def
    by (auto simp: outcome_simps)
  from tl obtain digests where p1: "ParseChecksums data = Inr digests"
    by (cases "ParseChecksums data") (auto simp: outcome_simps)
  with tl obtain want where p2: "digests (asset_of E opt) = Some want"
    by (cases "digests (asset_of E opt)") (auto simp: outcome_simps)
  from tl p1 p2 obtain w6 where v: "verifyChecksum E ?ar want w5 = (Ret (), w6)"
    and x: "ctx_check E w6 = (Ret u, w')" by (auto simp: outcome_simps)
  note p = p1 p2
  from v obtain bytes w7 where r: "os_ReadFile E ?ar w5 = (Ret bytes, w7)"
    and h: "hex_sha256 bytes = to_lower want" and w6: "w6 = w7"
    by (auto simp: verifyChecksum_def outcome_simps split: if_splits)
  from downloadFile_Ret [OF s(1) a] obtain bs where
    bs: "served E (release_base opt @ ''/'' @ asset_of E opt) bs" "uw_fs w2 ?ar = Some bs" by blast
  have "uw_fs w3 ?ar = uw_fs w2 ?ar" by (rule file_same [OF fr b])
  moreover have "uw_fs w4 ?ar = uw_fs w3 ?ar"
    by (rule file_same [OF upgrade_inv.downloadFile_kept [OF file_inv [OF s(1), of "\<lambda>c. c = k" for k] ne] c])
  moreover have "uw_fs w5 ?ar = uw_fs w4 ?ar"
    by (rule file_same [OF upgrade_frame.os_ReadFile_kept [OF file_frame [OF s(1), of "\<lambda>c. c = k" for k]] d])
  moreover have "uw_fs w7 ?ar = uw_fs w5 ?ar"
    by (rule file_same [OF upgrade_frame.os_ReadFile_kept [OF file_frame [OF s(1), of "\<lambda>c. c = k" for k]] r])
  moreover have "uw_fs w' ?ar = uw_fs w6 ?ar"
    by (rule file_same [OF upgrade_frame.ctx_check_kept [OF file_frame [OF s(1), of "\<lambda>c. c = k" for k]] x])
  moreover have "uw_fs w5 ?ar = Some bytes" by (rule os_ReadFile_Ret [OF s(1) r])
  moreover from downloadFile_Ret [OF s(2) c] os_ReadFile_Ret(1) [OF s(2) d]
  have "served E (release_base opt @ ''/'' @ checksumsName) data" by auto
  ultimately show ?thesis
    using bs p h w6 unfolding approved_def by auto
qed

lemma writeBinary_Ret:
  assumes "settled E p" and "writeBinary E ent p w = (Ret u, w')"
  shows "ae_ok ent \<and> uw_fs w' p = Some (ae_bytes ent)"
proof -
  from assms(2) obtain w1 r w2 where c: "os_Create E p w = (Ret (), w1)"
    and b: "attempt (andThen (file_Write E p (ae_bytes ent)) (\<lambda>_. if ae_ok ent then ret () else throw (Sys ''read''))) w1 = (Ret r, w2)"
    and rest: "(case r of
       Inl e \<Rightarrow> andThen (attempt (os_call E)) (\<lambda>_. throw e)
     | Inr _ \<Rightarrow>
         andThen (attempt (os_call E)) (\<lambda>synced.
         case synced of
           Inl e \<Rightarrow> andThen (attempt (os_call E)) (\<lambda>_. throw e)
         | Inr _ \<Rightarrow> os_call E)) w2 = (Ret u, w')"
    unfolding writeBinary_def andThen_Ret by auto
  from rest obtain x where r: "r = Inr x" by (cases r) (auto simp: outcome_simps)
  with b obtain y where f: "file_Write E p (ae_bytes ent) w1 = (Ret y, w2)" and ok: "ae_ok ent"
    by (auto simp: outcome_simps split: if_splits)
  have "uw_fs w2 p = Some (ae_bytes ent)" using file_Write_Ret [OF assms(1) f os_Create_Ret [OF c]] by simp
  moreover have "uw_fs w' p = uw_fs w2 p" using rest r sync_close_Ret [OF assms(1)] by simp
  ultimately show ?thesis using ok by simp
qed

lemma zip_entries_Ret:
  assumes "settled E p" and "zip_entries E (binaryEntryName goos) p ents w = (Ret u, w')"
  shows "\<exists>ent. List.find (binary_entry goos) ents = Some ent \<and> ae_ok ent \<and> uw_fs w' p = Some (ae_bytes ent)"
  using assms(2)
proof (induction ents)
  case (Cons ent ents)
  then show ?case
    using writeBinary_Ret [OF assms(1)]
    by (auto simp: binary_entry_def outcome_simps split: if_splits)
qed (simp add: outcome_simps)

lemma tar_entries_Ret:
  assumes "settled E p" and "tar_entries E (binaryEntryName goos) p eof ents w = (Ret u, w')"
  shows "\<exists>ent. List.find (binary_entry goos) ents = Some ent \<and> ae_ok ent \<and> uw_fs w' p = Some (ae_bytes ent)"
  using assms(2)
proof (induction ents)
  case (Cons ent ents)
  then show ?case
    using writeBinary_Ret [OF assms(1)]
    by (auto simp: binary_entry_def outcome_simps split: if_splits)
qed (auto simp: outcome_simps split: if_splits)

lemma extractBinary_Ret:
  assumes "settled E a" and "settled E p" and "extractBinary E a goos p w = (Ret u, w')"
  shows "\<exists>bytes bin. uw_fs w a = Some bytes \<and> unpacked E goos bytes bin \<and> uw_fs w' p = Some bin"
proof (cases "goos = ''windows''")
  case True
  with assms(3) obtain bytes w1 ents where "os_ReadFile E a w = (Ret bytes, w1)"
    and z: "ue_zip E bytes = Some ents" and e: "zip_entries E (binaryEntryName goos) p ents w1 = (Ret u, w')"
    by (auto simp: extractBinary_def extractZipEntry_def outcome_simps split: option.splits)
  with True zip_entries_Ret [OF assms(2) e] os_ReadFile_Ret(1) [OF assms(1)] show ?thesis
    by (force simp: unpacked_def)
next
  case False
  with assms(3) obtain bytes w1 ents eof where "os_ReadFile E a w = (Ret bytes, w1)"
    and z: "ue_targz E bytes = Some (ents, eof)" and e: "tar_entries E (binaryEntryName goos) p eof ents w1 = (Ret u, w')"
    by (auto simp: extractBinary_def extractTarGzEntry_def outcome_simps split: option.splits prod.splits)
  with False tar_entries_Ret [OF assms(2) e] os_ReadFile_Ret(1) [OF assms(1)] show ?thesis
    by (force simp: unpacked_def)
qed

lemma stage_step_Ret:
  assumes s: "settled E (archive_path E opt ip)" "settled E (staged_binary E opt ip)"
    and ap: "uw_fs w (archive_path E opt ip) = Some bytes" "approved E opt bytes"
    and run: "stage_step E opt ip w = (Ret u, w')"
  shows "\<exists>bin. uw_fs w' (staged_binary E opt ip) = Some bin \<and> vetted E opt bin"
proof -
  let ?ar = "archive_path E opt ip" and ?sb = "staged_binary E opt ip"
  let ?native = "goos_of E opt = ue_GOOS E \<and> goarch_of E opt = ue_GOARCH E"
  from run obtain w1 w2 where a: "up_emit E (progress opt StateStaging) w = (Ret (), w1)"
    and b: "extractBinary E ?ar (goos_of E opt) ?sb w1 = (Ret (), w2)"
    and c: "?native \<Longrightarrow> \<exists>got. probeVersion E ?sb w2 = (Ret got, w') \<and> SameVersion got (target_of opt)"
    and d: "\<not> ?native \<Longrightarrow> w' = w2"
    unfolding stage_step_def Let_def by (auto simp: outcome_simps split: if_splits)
  have "uw_fs w1 ?ar = uw_fs w ?ar"
    by (rule file_same [OF upgrade_frame.emit_kept [OF file_frame [OF s(1), of "\<lambda>c. c = k" for k]] a])
  with ap extractBinary_Ret [OF s b] obtain bin where
    bin: "unpacked E (goos_of E opt) bytes bin" "uw_fs w2 ?sb = Some bin" by auto
  show ?thesis
  proof (cases ?native)
    case True
    with c obtain got where p: "probeVersion E ?sb w2 = (Ret got, w')" and sv: "SameVersion got (target_of opt)" by blast
    then obtain bs w3 where r: "os_ReadFile E ?sb w2 = (Ret bs, w3)"
      and g: "(case ue_exec E (uw_tick w3) bs of Inl e \<Rightarrow> (Fail (Sys e), up_move E w3)
              | Inr out \<Rightarrow> (Ret (parseVersionOutput out), up_move E w3)) = (Ret got, w')"
      unfolding probeVersion_def andThen_Ret by blast
    have bs: "bs = bin" using os_ReadFile_Ret(1) [OF s(2) r] bin by simp
    have "uw_fs w3 ?sb = uw_fs w2 ?sb"
      by (rule file_same [OF upgrade_frame.os_ReadFile_kept [OF file_frame [OF s(2), of "\<lambda>c. c = k" for k]] r])
    with g bs bin s(2) have "uw_fs w' ?sb = Some bin" and
      "\<exists>n out. ue_exec E n bin = Inr out \<and> parseVersionOutput out = got"
      by (auto split: sum.splits)
    with bin sv ap(2) show ?thesis unfolding vetted_def by blast
  next
    case False
    with d bin ap(2) show ?thesis unfolding vetted_def by blast
  qed
qed

subsection \<open>The install path through a whole upgrade\<close>

text \<open>
  The staging directory holds neither the binary nor its backup, and nobody else writes any of the
  files an upgrade works on: no second upgrade runs.
\<close>

definition separated :: "'s upenv \<Rightarrow> 's RunOptions \<Rightarrow> string \<Rightarrow> bool" where
  "separated E opt ip \<longleftrightarrow>
     (let d = stage_dir opt ip in
      \<not> inside_dir d ip \<and> \<not> inside_dir d (ip @ ''.old'') \<and> inside_dir d (archive_path E opt ip) \<and>
      inside_dir d (sums_path opt ip) \<and> inside_dir d (staged_binary E opt ip) \<and>
      sums_path opt ip \<noteq> archive_path E opt ip)"

definition alone :: "'s upenv \<Rightarrow> 's RunOptions \<Rightarrow> string \<Rightarrow> bool" where
  "alone E opt ip \<longleftrightarrow> settled E ip \<and> settled E (ip @ ''.old'') \<and>
     (\<forall>p. inside_dir (stage_dir opt ip) p \<longrightarrow> settled E p)"

definition installed :: "'s upenv \<Rightarrow> 's RunOptions \<Rightarrow> string \<Rightarrow> string \<Rightarrow> 's upworld \<Rightarrow> bool" where
  "installed E opt ip old w \<longleftrightarrow>
     (\<exists>bin. uw_fs w ip = Some bin \<and> uw_fs w (ip @ ''.old'') = Some old \<and> vetted E opt bin)"

definition set_aside :: "string \<Rightarrow> string \<Rightarrow> 's upworld \<Rightarrow> bool" where
  "set_aside ip old w \<longleftrightarrow> uw_fs w ip = None \<and> uw_fs w (ip @ ''.old'') = Some old"

definition binary_safe :: "'s upenv \<Rightarrow> 's RunOptions \<Rightarrow> string \<Rightarrow> string \<Rightarrow> 's upworld \<Rightarrow> bool" where
  "binary_safe E opt ip old w \<longleftrightarrow> uw_fs w ip = Some old \<or> set_aside ip old w \<or> installed E opt ip old w"

text \<open>All of these only depend on the two files.\<close>

lemma two_files_inv:
  assumes "settled E p" and "settled E q" and "\<And>v w. uw_fs v p = uw_fs w p \<Longrightarrow> uw_fs v q = uw_fs w q \<Longrightarrow> I v \<Longrightarrow> I w"
  shows "upgrade_inv E I I (\<lambda>r. r \<noteq> p \<and> r \<noteq> q)"
proof unfold_locales
  fix w assume "I w"
  then show "I (up_move E w)" using assms(3) [of w "up_move E w"] assms(1,2) by simp
  show "I (w\<lparr>uw_emitted := ps\<rparr>)" for ps using \<open>I w\<close> assms(3) [of w] by simp
  show "I (w\<lparr>uw_cancelled := True, uw_expired := True\<rparr>)" using \<open>I w\<close> assms(3) [of w] by simp
  show "I (w\<lparr>uw_fs := (uw_fs w)(r := c)\<rparr>)" if "r \<noteq> p \<and> r \<noteq> q" for r c
    using \<open>I w\<close> assms(3) [of w "w\<lparr>uw_fs := (uw_fs w)(r := c)\<rparr>"] that by auto
qed

lemma valid_result:
  assumes "keeps_up I I m" and "\<And>w x w'. I w \<Longrightarrow> m w = (Ret x, w') \<Longrightarrow> R x w'"
  shows "valid I m (\<lambda>x w. I w \<and> R x w) I I"
proof (rule validI)
  fix w assume w: "I w"
  obtain r v where m: "m w = (r, v)" by (cases "m w")
  from valid_outcome [OF assms(1) [unfolded keeps_up_def] w m] assms(2) [OF w]
  show "case m w of
     (Ret x, w') \<Rightarrow> I w' \<and> R x w' | (Fail e, w') \<Rightarrow> I w' | (Panicked, w') \<Rightarrow> I w' | (Hung, w') \<Rightarrow> I w'"
    by (cases r) (simp_all add: m)
qed

definition layout :: "'s upenv \<Rightarrow> 's RunOptions \<Rightarrow> string \<Rightarrow> bool" where
  "layout E opt ip \<longleftrightarrow> alone E opt ip \<and> separated E opt ip"

lemma settled_ip: "layout E opt ip \<Longrightarrow> settled E ip" and settled_bk: "layout E opt ip \<Longrightarrow> settled E (ip @ ''.old'')"
  by (simp_all add: layout_def alone_def)

lemma layout_paths:
  assumes "layout E opt ip"
  shows "settled E (archive_path E opt ip)" "settled E (sums_path opt ip)" "settled E (staged_binary E opt ip)"
    "sums_path opt ip \<noteq> archive_path E opt ip"
  using assms by (simp_all add: layout_def separated_def alone_def Let_def)

lemma staged_ne: "layout E opt ip \<Longrightarrow> inside_dir (stage_dir opt ip) p \<Longrightarrow> p \<noteq> ip \<and> p \<noteq> ip @ ''.old''"
  unfolding layout_def separated_def Let_def by blast

lemma layout_ne:
  assumes "layout E opt ip"
  shows "archive_path E opt ip \<noteq> ip \<and> archive_path E opt ip \<noteq> ip @ ''.old''"
    "sums_path opt ip \<noteq> ip \<and> sums_path opt ip \<noteq> ip @ ''.old''"
    "staged_binary E opt ip \<noteq> ip \<and> staged_binary E opt ip \<noteq> ip @ ''.old''"
  using assms staged_ne [OF assms] unfolding layout_def separated_def Let_def by blast+

abbreviation original :: "string \<Rightarrow> string \<Rightarrow> 's upworld \<Rightarrow> bool" where
  "original ip old w \<equiv> uw_fs w ip = Some old"

abbreviation others :: "string \<Rightarrow> string \<Rightarrow> bool" where
  "others ip r \<equiv> r \<noteq> ip \<and> r \<noteq> ip @ ''.old''"

lemma original_inv:
  "layout E opt ip \<Longrightarrow> upgrade_inv E (original ip old) (original ip old) (others ip)"
  by (rule two_files_inv [OF settled_ip settled_bk]) simp_all

lemma installed_inv:
  "layout E opt ip \<Longrightarrow> upgrade_inv E (installed E opt ip old) (installed E opt ip old) (others ip)"
  by (rule two_files_inv [OF settled_ip settled_bk]) (simp_all add: installed_def)

lemma safe_inv:
  "layout E opt ip \<Longrightarrow> upgrade_inv E (binary_safe E opt ip old) (binary_safe E opt ip old) (others ip)"
  by (rule two_files_inv [OF settled_ip settled_bk]) (simp_all add: binary_safe_def set_aside_def installed_def)

lemma original_safe: "original ip old w \<Longrightarrow> binary_safe E opt ip old w"
  by (simp add: binary_safe_def)

lemma installed_safe: "installed E opt ip old w \<Longrightarrow> binary_safe E opt ip old w"
  by (simp add: binary_safe_def)

abbreviation ready :: "'s upenv \<Rightarrow> 's RunOptions \<Rightarrow> string \<Rightarrow> string \<Rightarrow> 's upworld \<Rightarrow> bool" where
  "ready E opt ip old w \<equiv>
     original ip old w \<and> (\<exists>bin. uw_fs w (staged_binary E opt ip) = Some bin \<and> vetted E opt bin)"

lemma prepare_valid:
  assumes lay: "layout E opt ip"
  shows "valid (original ip old) (andThen (fetch_step E opt ip) (\<lambda>_. stage_step E opt ip))
           (\<lambda>_. ready E opt ip old) (original ip old) (original ip old)"
proof -
  note inv = original_inv [OF lay, of old]
  have keep: "keeps_up (original ip old) (original ip old) (andThen (fetch_step E opt ip) (\<lambda>_. stage_step E opt ip))"
    by (intro keeps_andThen upgrade_inv.fetch_step_kept [OF inv] upgrade_frame.stage_step_kept [OF upgrade_inv.axioms(1) [OF inv]]
        layout_ne [OF lay])
  show ?thesis
  proof (rule valid_result [OF keep])
    fix w u w'
    assume "andThen (fetch_step E opt ip) (\<lambda>_. stage_step E opt ip) w = (Ret u, w')"
    then obtain w1 where f: "fetch_step E opt ip w = (Ret (), w1)" and g: "stage_step E opt ip w1 = (Ret u, w')"
      by (auto simp: andThen_Ret)
    from fetch_step_Ret [OF layout_paths(1,2,4) [OF lay] f] obtain bytes where
      "uw_fs w1 (archive_path E opt ip) = Some bytes" "approved E opt bytes" by blast
    then show "\<exists>bin. uw_fs w' (staged_binary E opt ip) = Some bin \<and> vetted E opt bin"
      using stage_step_Ret [OF layout_paths(1,3) [OF lay] _ _ g] by blast
  qed
qed

subsection \<open>The swap\<close>

lemma rename_aside:
  assumes lay: "layout E opt ip"
  shows "valid (ready E opt ip old) (os_Rename E ip (ip @ ''.old''))
     (\<lambda>_ w. set_aside ip old w \<and> (\<exists>bin. uw_fs w (staged_binary E opt ip) = Some bin \<and> vetted E opt bin))
     (original ip old) H"
  using settled_ip [OF lay] settled_bk [OF lay] layout_paths(3) [OF lay] layout_ne(3) [OF lay]
  by (intro validI) (auto simp: os_Rename_def fs_call_def Let_def set_aside_def split: option.splits)

lemma rename_in:
  assumes lay: "layout E opt ip"
  shows "valid (\<lambda>w. set_aside ip old w \<and> (\<exists>bin. uw_fs w (staged_binary E opt ip) = Some bin \<and> vetted E opt bin))
     (os_Rename E (staged_binary E opt ip) ip) (\<lambda>_. installed E opt ip old) (set_aside ip old) H"
  using settled_ip [OF lay] settled_bk [OF lay] layout_paths(3) [OF lay] layout_ne(3) [OF lay]
  by (intro validI) (auto simp: os_Rename_def fs_call_def Let_def set_aside_def installed_def split: option.splits)

lemma rename_back:
  assumes lay: "layout E opt ip"
  shows "valid (set_aside ip old) (os_Rename E (ip @ ''.old'') ip) (\<lambda>_. original ip old) (set_aside ip old) H"
  using settled_ip [OF lay] settled_bk [OF lay]
  by (intro validI) (auto simp: os_Rename_def fs_call_def Let_def set_aside_def split: option.splits)

lemma remove_backup:
  assumes lay: "layout E opt ip"
  shows "valid (ready E opt ip old) (attempt (os_Remove E (ip @ ''.old''))) (\<lambda>_. ready E opt ip old) X H"
  using settled_ip [OF lay] settled_bk [OF lay] layout_paths(3) [OF lay] layout_ne(3) [OF lay]
  by (intro validI) (auto simp: attempt_def os_Remove_def fs_call_def Let_def split: option.splits)

lemma swapBinary_valid:
  assumes lay: "layout E opt ip"
  shows "valid (ready E opt ip old) (swapBinary E ip (staged_binary E opt ip))
     (\<lambda>_. installed E opt ip old) (binary_safe E opt ip old) H"
proof -
  let ?safe = "binary_safe E opt ip old"
  have aside_safe: "set_aside ip old w \<Longrightarrow> ?safe w" for w by (simp add: binary_safe_def)
  have undo: "valid (set_aside ip old) (andThen (attempt (os_Rename E (ip @ ''.old'') ip)) (\<lambda>rolledBack.
      case rolledBack of
        Inl rb \<Rightarrow> throw (Uerr ''installing new binary: %w (and rollback failed: %w)'' [e, rb])
      | Inr _ \<Rightarrow> throw (Uerr ''installing new binary: %w (rolled back)'' [e]))) Q ?safe H" for e and Q :: "string \<Rightarrow> _"
  proof (rule valid_andThen [where R = "\<lambda>_. ?safe"])
    show "valid (set_aside ip old) (attempt (os_Rename E (ip @ ''.old'') ip)) (\<lambda>_. ?safe) ?safe H"
      by (rule valid_attempt)
        (auto intro: valid_conseq [OF rename_back [OF lay]] original_safe aside_safe)
    show "valid ?safe (case x of
        Inl rb \<Rightarrow> throw (Uerr ''installing new binary: %w (and rollback failed: %w)'' [e, rb])
      | Inr _ \<Rightarrow> throw (Uerr ''installing new binary: %w (rolled back)'' [e])) Q ?safe H" for x :: "up_error + unit"
      by (cases x) (simp_all add: valid_throw)
  qed
  have rin: "valid (\<lambda>w. set_aside ip old w \<and> (\<exists>bin. uw_fs w (staged_binary E opt ip) = Some bin \<and> vetted E opt bin))
     (attempt (os_Rename E (staged_binary E opt ip) ip))
     (\<lambda>r w. case r of Inr _ \<Rightarrow> installed E opt ip old w | Inl _ \<Rightarrow> set_aside ip old w) ?safe H" (is "valid ?P ?m ?Q _ _")
  proof -
    have "valid ?P ?m ?Q (set_aside ip old) H"
      by (rule valid_attempt) (simp_all add: rename_in [OF lay])
    then show ?thesis by (rule valid_conseq) (auto intro: aside_safe)
  qed
  have aside: "valid (ready E opt ip old) (onError (os_Rename E ip (ip @ ''.old''))
        (\<lambda>e. throw (Uerr ''moving current binary aside'' [e])))
     (\<lambda>_ w. set_aside ip old w \<and> (\<exists>bin. uw_fs w (staged_binary E opt ip) = Some bin \<and> vetted E opt bin)) ?safe H"
    by (rule valid_onError) (auto intro: valid_conseq [OF rename_aside [OF lay]] valid_throw original_safe)
  show ?thesis
    unfolding swapBinary_def Let_def
    by (rule valid_andThen [OF remove_backup [OF lay]], rule valid_andThen [OF aside], rule valid_andThen [OF rin])
      (auto split: sum.split intro: undo valid_ret)
qed

subsection \<open>Run and its clean-up\<close>

lemma andThen_assoc: "andThen (andThen m f) g = andThen m (\<lambda>x. andThen (f x) g)"
  by (rule ext) (simp add: andThen_def split: prod.split outcome.split)

lemma fail_valid:
  assumes "upgrade_frame E I D" shows "valid I (up_fail E opt e) Q I H"
  unfolding up_fail_def
  by (rule valid_andThen [OF upgrade_frame.emit_kept [OF assms, unfolded keeps_up_def]]) (rule valid_throw)

lemma ready_frame:
  assumes lay: "layout E opt ip"
  shows "upgrade_frame E (ready E opt ip old) (\<lambda>_. False)"
  using settled_ip [OF lay] layout_paths(3) [OF lay] by unfold_locales simp_all

definition done_at :: "'s upenv \<Rightarrow> 's RunOptions \<Rightarrow> string \<Rightarrow> string \<Rightarrow> 's upworld \<Rightarrow> bool" where
  "done_at E opt ip old w \<longleftrightarrow> installed E opt ip old w \<and> uw_spawned w \<noteq> None"

lemma swap_step_valid:
  assumes lay: "layout E opt ip"
  shows "valid (ready E opt ip old) (swap_step E opt ip) (\<lambda>_. done_at E opt ip old)
           (binary_safe E opt ip old) (binary_safe E opt ip old)"
proof -
  note rf = ready_frame [OF lay, of old] and sf = upgrade_inv.axioms(1) [OF safe_inv [OF lay, of old]]
    and nf = upgrade_inv.axioms(1) [OF installed_inv [OF lay, of old]]
  let ?s = "binary_safe E opt ip old"
  have rs: "ready E opt ip old w \<Longrightarrow> ?s w" for w by (simp add: binary_safe_def)
  have keep: "valid (ready E opt ip old) m (\<lambda>_. ready E opt ip old) ?s ?s"
    if "keeps_up (ready E opt ip old) (ready E opt ip old) m" for m :: "('a, unit) up"
    using that unfolding keeps_up_def by (rule valid_conseq) (auto intro: rs)
  have restarting: "valid (installed E opt ip old) (up_emit E p) (\<lambda>_. installed E opt ip old) ?s ?s" for p
    using upgrade_frame.emit_kept [OF nf, of "installed E opt ip old" p] unfolding keeps_up_def
    by (rule valid_conseq) (auto intro: installed_safe)
  have tail: "valid (installed E opt ip old) (andThen (\<lambda>w. (Ret (), w\<lparr>uw_armed := False\<rparr>)) (\<lambda>_.
      andThen (up_emit E (progress opt StateRestarting)) (\<lambda>_ w. (Ret (), w\<lparr>uw_spawned := Some b\<rparr>))))
      (\<lambda>_. done_at E opt ip old) ?s ?s" for b
    by (rule valid_andThen [where R = "\<lambda>_. installed E opt ip old"], simp add: valid_def installed_def,
        rule valid_andThen [OF restarting], simp add: valid_def done_at_def installed_def)
  have swap: "valid (ready E opt ip old) (onError (swapBinary E ip (staged_binary E opt ip))
      (\<lambda>e. up_fail E opt (Uerr ''swapping binary'' [e]))) (\<lambda>_. installed E opt ip old) ?s ?s"
    by (rule valid_onError [OF swapBinary_valid [OF lay] fail_valid [OF sf]])
  show ?thesis
    unfolding swap_step_def
    by (rule valid_andThen [OF keep], intro keeps_onError upgrade_frame.ctx_check_kept [OF rf] upgrade_frame.fail_kept [OF rf],
        rule valid_andThen [OF keep [OF upgrade_frame.emit_kept [OF rf]]],
        rule valid_andThen [OF swap], rule tail)
qed

lemma os_RemoveAll_files:
  assumes "layout E opt ip"
  shows "uw_fs (os_RemoveAll E (stage_dir opt ip) w) ip = uw_fs w ip"
    and "uw_fs (os_RemoveAll E (stage_dir opt ip) w) (ip @ ''.old'') = uw_fs w (ip @ ''.old'')"
    and "uw_spawned (os_RemoveAll E (stage_dir opt ip) w) = uw_spawned w"
  using assms settled_ip [OF assms] settled_bk [OF assms]
  by (auto simp: os_RemoveAll_def Let_def layout_def separated_def)

lemma undrain_files:
  assumes "layout E opt ip"
  shows "uw_fs (undrain E opt w) ip = uw_fs w ip" and "uw_fs (undrain E opt w) (ip @ ''.old'') = uw_fs w (ip @ ''.old'')"
    and "uw_spawned (undrain E opt w) = uw_spawned w"
  using settled_ip [OF assms] settled_bk [OF assms] by (auto simp: undrain_def Let_def split: option.splits)

lemma staged_part_valid:
  assumes lay: "layout E opt ip"
  shows "valid (original ip old) (staged_part E opt ip) (\<lambda>_. done_at E opt ip old)
           (binary_safe E opt ip old) (binary_safe E opt ip old)"
proof -
  note oi = original_inv [OF lay, of old]
  let ?s = "binary_safe E opt ip old"
  have keep: "valid (original ip old) m (\<lambda>_. original ip old) ?s ?s"
    if "keeps_up (original ip old) (original ip old) m" for m :: "('a, unit) up"
    using that unfolding keeps_up_def by (rule valid_conseq) (auto intro: original_safe)
  have "valid (original ip old) (andThen (andThen (fetch_step E opt ip) (\<lambda>_. stage_step E opt ip)) (\<lambda>_. swap_step E opt ip))
     (\<lambda>_. done_at E opt ip old) ?s ?s"
    by (rule valid_andThen [OF valid_conseq [OF prepare_valid [OF lay]] swap_step_valid [OF lay]])
      (auto intro: original_safe)
  then have "valid (original ip old)
     (deferred (andThen (fetch_step E opt ip) (\<lambda>_. andThen (stage_step E opt ip) (\<lambda>_. swap_step E opt ip)))
        (\<lambda>r w. (r, os_RemoveAll E (stage_dir opt ip) w))) (\<lambda>_. done_at E opt ip old) ?s ?s"
    unfolding andThen_assoc
    by (rule valid_deferred)
      (auto simp: valid_def done_at_def binary_safe_def set_aside_def installed_def os_RemoveAll_files [OF lay])
  then show ?thesis
    unfolding staged_part_def
    by (intro valid_andThen [OF keep])
      (intro keeps_onError upgrade_frame.os_call_kept [OF upgrade_inv.axioms(1) [OF oi]] upgrade_frame.fail_kept [OF upgrade_inv.axioms(1) [OF oi]])
qed

lemma install_part_valid:
  assumes lay: "layout E opt ip"
  shows "valid (original ip old) (install_part E opt ip) (\<lambda>_. done_at E opt ip old)
           (binary_safe E opt ip old) (binary_safe E opt ip old)"
proof (rule validI)
  fix w :: "'a upworld" assume w: "original ip old w"
  have "valid (original ip old) (deferred (staged_part E opt ip)
      (\<lambda>r w. (case r of
          Fail e \<Rightarrow> Fail (if uw_expired w then Uerr ''upgrade exceeded its %s install budget'' [e] else e)
        | _ \<Rightarrow> r, w\<lparr>uw_armed := False, uw_cancelled := True\<rparr>)))
      (\<lambda>_. done_at E opt ip old) (binary_safe E opt ip old) (binary_safe E opt ip old)"
    by (rule valid_deferred [OF staged_part_valid [OF lay]])
      (auto simp: valid_def done_at_def binary_safe_def set_aside_def installed_def)
  with w staged_part_valid [OF lay, of old]
  show "case install_part E opt ip w of
      (Ret x, w') \<Rightarrow> done_at E opt ip old w' | (Fail e, w') \<Rightarrow> binary_safe E opt ip old w'
    | (Panicked, w') \<Rightarrow> binary_safe E opt ip old w' | (Hung, w') \<Rightarrow> binary_safe E opt ip old w'"
    by (simp add: install_part_def valid_def)
qed

lemma drain_step_original:
  assumes "settled E ip" and "original ip old w" and "cordon_step E opt w = (r, w')"
  shows "original ip old w'"
proof (cases "o_Drainer opt = None \<or> o_NoDrain opt")
  case True
  with assms show ?thesis by (auto simp: cordon_step_def split: option.splits)
next
  case False
  then obtain Dr where Dr: "o_Drainer opt = Some Dr" "\<not> o_NoDrain opt" by auto
  note ff = file_frame [OF assms(1), of "\<lambda>c. c = Some old"]
  define w1 where "w1 = (up_move E w)\<lparr>uw_sched := snd (d_Cordon Dr (uw_sched (up_move E w))), uw_didCordon := True,
      uw_drained := uw_drained (up_move E w) @ [CallCordon]\<rparr>"
  define m where "m = andThen (up_emit E (progress opt StateDraining\<lparr>pg_ActiveJobs := fst (d_Cordon Dr (uw_sched (up_move E w)))\<rparr>))
     (\<lambda>_. onError (waitDrain E Dr (positive_or (o_DrainTimeout opt) defaultDrainTimeout)
                     (positive_or (o_DrainPoll opt) defaultDrainPoll)
                     (\<lambda>a. progress opt StateDraining\<lparr>pg_ActiveJobs := a\<rparr>))
           (\<lambda>e. up_fail E opt (Uerr ''draining before upgrade'' [e])))"
  have run: "m w1 = (r, w')"
    using assms(3) Dr by (simp add: cordon_step_def m_def w1_def Let_def split: prod.splits)
  have "keeps_up (original ip old) (original ip old) m"
    unfolding m_def
    by (intro keeps_andThen keeps_onError upgrade_frame.emit_kept [OF ff] upgrade_frame.fail_kept [OF ff]
        upgrade_frame.waitDrain_kept [OF ff] positive_or_pos) (simp add: defaultDrainPoll_def)
  moreover have "original ip old w1" using assms(1,2) by (simp add: w1_def)
  ultimately show ?thesis
    using run keeps_upD keeps_up_hungD by (cases "r = Hung") blast+
qed

lemma recover_valid:
  assumes lay: "layout E opt ip"
  shows "valid (done_at E opt ip old) (recover_undrain E opt (Ret u)) (\<lambda>_. done_at E opt ip old) X H"
    and "valid (binary_safe E opt ip old) (recover_undrain E opt (Fail e)) Q (binary_safe E opt ip old) H"
    and "valid (binary_safe E opt ip old) (recover_undrain E opt Panicked) Q (binary_safe E opt ip old) H"
proof -
  note sf = upgrade_inv.axioms(1) [OF safe_inv [OF lay, of old]]
  have u: "binary_safe E opt ip old w \<Longrightarrow> binary_safe E opt ip old (undrain E opt w)" for w
    by (simp add: binary_safe_def set_aside_def installed_def undrain_files [OF lay])
  show "valid (done_at E opt ip old) (recover_undrain E opt (Ret u)) (\<lambda>_. done_at E opt ip old) X H"
    by (simp add: recover_undrain_def valid_ret)
  show "valid (binary_safe E opt ip old) (recover_undrain E opt (Fail e)) Q (binary_safe E opt ip old) H"
    by (simp add: recover_undrain_def valid_def u)
  show "valid (binary_safe E opt ip old) (recover_undrain E opt Panicked) Q (binary_safe E opt ip old) H"
    unfolding recover_undrain_def outcome.case
    by (rule valid_andThen [OF upgrade_frame.emit_kept [OF sf, unfolded keeps_up_def]]) (simp add: valid_def u)
qed

lemma Run_valid:
  assumes ip: "install_path E opt = Some ip" and lay: "layout E opt ip"
  shows "valid (\<lambda>w. original ip old w \<and> uw_spawned w = None) (upgrade_Run E opt)
           (\<lambda>_ w. original ip old w \<and> uw_spawned w = None \<or> done_at E opt ip old w)
           (binary_safe E opt ip old) (binary_safe E opt ip old)"
proof -
  let ?s = "binary_safe E opt ip old" and ?o = "\<lambda>w :: 'a upworld. original ip old w \<and> uw_spawned w = None"
  have pf: "upgrade_frame E ?o (\<lambda>_. False)"
    using settled_ip [OF lay] by unfold_locales simp_all
  have pre: "valid ?o (preflight E opt) (\<lambda>p w. ?o w \<and> (p = None \<or> p = Some ip)) ?s ?s"
  proof (rule valid_conseq [OF valid_result [OF upgrade_frame.preflight_kept [OF pf]]])
    fix w p w' assume "preflight E opt w = (Ret p, w')"
    then show "p = None \<or> p = Some ip"
      using ip by (auto simp: preflight_def outcome_simps split: if_splits)
  qed (auto intro: original_safe)
  have drain: "valid ?o (cordon_step E opt) (\<lambda>_. original ip old) ?s ?s"
  proof (rule validI)
    fix w assume "?o w"
    moreover obtain r v where "cordon_step E opt w = (r, v)" by (cases "cordon_step E opt w")
    ultimately have "original ip old v" using drain_step_original [OF settled_ip [OF lay]] by blast
    then show "case cordon_step E opt w of
        (Ret x, w') \<Rightarrow> original ip old w' | (Fail e, w') \<Rightarrow> ?s w' | (Panicked, w') \<Rightarrow> ?s w' | (Hung, w') \<Rightarrow> ?s w'"
      using \<open>cordon_step E opt w = (r, v)\<close> by (simp add: original_safe split: outcome.split)
  qed
  have guarded: "valid ?o (deferred (andThen (cordon_step E opt) (\<lambda>_. install_part E opt ip)) (recover_undrain E opt))
     (\<lambda>_. done_at E opt ip old) ?s ?s"
    by (rule valid_deferred [OF valid_andThen [OF drain install_part_valid [OF lay]]])
      (simp_all add: recover_valid [OF lay])
  show ?thesis
    unfolding upgrade_Run_def
  proof (rule valid_andThen [OF pre])
    fix p
    show "valid (\<lambda>w. ?o w \<and> (p = None \<or> p = Some ip))
       (case p of None \<Rightarrow> ret () | Some ip \<Rightarrow> deferred (andThen (cordon_step E opt) (\<lambda>_. install_part E opt ip)) (recover_undrain E opt))
       (\<lambda>_ w. ?o w \<or> done_at E opt ip old w) ?s ?s"
    proof (cases p)
      case None
      then show ?thesis by (simp add: valid_ret)
    next
      case (Some q)
      show ?thesis
      proof (cases "q = ip")
        case True
        with Some show ?thesis by (simp add: valid_conseq [OF guarded])
      next
        case False
        with Some show ?thesis by (simp add: valid_def)
      qed
    qed
  qed
qed

lemma waitUnlessShutdown_files:
  "settled E p \<Longrightarrow> waitUnlessShutdown E opt d w = (b, w') \<Longrightarrow> uw_fs w' p = uw_fs w p"
  by (auto simp: waitUnlessShutdown_def split: if_splits)

lemma restart_attempts_files:
  assumes "layout E opt ip" and "p \<in> {ip, ip @ ''.old''}" and "restart_attempts E opt wd n w = (r, w')"
  shows "uw_fs w' p = uw_fs w p"
proof -
  have s: "settled E p" using assms(1,2) settled_ip settled_bk by blast
  show ?thesis using assms(3)
  proof (induction n arbitrary: w)
    case 0
    with assms(2) undrain_files [OF assms(1)] show ?case by auto
  next
    case (Suc n)
    then show ?case
      using waitUnlessShutdown_files [OF s] s by (auto simp: Let_def split: prod.splits bool.splits)
  qed
qed

lemma superviseRestart_files:
  assumes "layout E opt ip" and "p \<in> {ip, ip @ ''.old''}" and "superviseRestart E opt w = (r, w')"
  shows "uw_fs w' p = uw_fs w p"
proof -
  have s: "settled E p" using assms(1,2) settled_ip settled_bk by blast
  obtain b v where w: "waitUnlessShutdown E opt (positive_or (o_RestartDelay opt) restartDelay) w = (b, v)"
    by (cases "waitUnlessShutdown E opt (positive_or (o_RestartDelay opt) restartDelay) w")
  with assms(3) restart_attempts_files [OF assms(1,2)] waitUnlessShutdown_files [OF s w] show ?thesis
    by (cases b) (auto simp: superviseRestart_def)
qed

text \<open>The binary after a whole upgrade, however it ends.\<close>

lemma session_binary:
  assumes ip: "install_path E opt = Some ip" and lay: "layout E opt ip" and old: "fs ip = Some old"
    and run: "upgrade_session E opt (upgrade_start fs s) = (e, w')"
  shows "binary_safe E opt ip old w' \<and> (e = UpToDate \<longrightarrow> uw_fs w' ip = Some old) \<and>
         ((\<exists>q. e = Supervised q) \<longrightarrow> installed E opt ip old w')"
proof -
  obtain r w1 where r: "upgrade_Run E opt (upgrade_start fs s) = (r, w1)"
    by (cases "upgrade_Run E opt (upgrade_start fs s)")
  have st: "original ip old (upgrade_start fs s) \<and> uw_spawned (upgrade_start fs s) = None"
    using old by (simp add: upgrade_start_def)
  note v = valid_outcome [OF Run_valid [OF ip lay] st r]
  show ?thesis
  proof (cases r)
    case (Ret u)
    show ?thesis
    proof (cases "uw_spawned w1")
      case None
      with Ret r run v show ?thesis by (auto simp: upgrade_session_def done_at_def original_safe)
    next
      case (Some b)
      obtain q w2 where sv: "superviseRestart E opt w1 = (q, w2)" by (cases "superviseRestart E opt w1")
      from Some Ret v have "installed E opt ip old w1" by (simp add: done_at_def)
      then have "installed E opt ip old w2"
        using superviseRestart_files [OF lay _ sv] by (simp add: installed_def)
      with Some Ret r run sv show ?thesis by (auto simp: upgrade_session_def installed_safe)
    qed
  qed (use r run v in \<open>auto simp: upgrade_session_def\<close>)
qed

subsection \<open>The default staging directory\<close>

lemma path_Dir_rooted:
  assumes "list_all proper_name (ds @ [b])"
  shows "path_Dir (rooted (ds @ [b])) = rooted ds"
proof -
  have b: "slash \<notin> set b" and ds: "\<forall>d\<in>set ds. proper_name d"
    using assms by (auto simp: proper_name_def list_all_iff)
  let ?up = "if ds = [] then [] else str_join ''/'' ds @ ''/''"
  have "rooted (ds @ [b]) = (slash # ?up) @ b" by (simp add: str_join_snoc)
  moreover have "dropWhile (\<lambda>c. c \<noteq> slash) (rev ((slash # ?up) @ b)) = rev (slash # ?up)"
  proof -
    have "\<And>x. x \<in> set (rev b) \<Longrightarrow> x \<noteq> slash" using b by auto
    then have "dropWhile (\<lambda>c. c \<noteq> slash) (rev b @ rev (slash # ?up)) = dropWhile (\<lambda>c. c \<noteq> slash) (rev (slash # ?up))"
      by (rule dropWhile_append2)
    also have "\<dots> = rev (slash # ?up)" by (cases "ds = []") simp_all
    finally show ?thesis by simp
  qed
  ultimately have "path_Dir (rooted (ds @ [b])) = path_Clean (slash # ?up)"
    by (simp only: path_Dir_def rev_rev_ident)
  also have "\<dots> = rooted ds"
  proof (cases "ds = []")
    case False
    have ns: "slash \<notin> set x" if "x \<in> set (ds @ [[]])" for x
    proof (cases "x = []")
      case False
      with that ds have "proper_name x" by auto
      then show ?thesis by (simp add: proper_name_def)
    qed simp
    have "split_on slash (str_join [slash] (ds @ [[]])) = ds @ [[]]"
      by (rule split_on_join) (simp, erule ns)
    with False have "split_on slash (str_join ''/'' ds @ ''/'') = ds @ [[]]"
      by (simp add: str_join_snoc)
    then have "clean_components (str_join ''/'' ds @ ''/'') = ds"
      using foldl_clean_id [OF ds] by (simp add: clean_components_def clean_step_def)
    with False show ?thesis by (simp add: path_Clean_rooted)
  qed (simp add: path_Clean_rooted clean_components_def clean_step_def)
  finally show ?thesis .
qed

lemma under_dir_rooted:
  assumes "slash \<notin> set b" and "slash \<notin> set c"
  shows "inside_dir (rooted (ds @ [c])) (rooted (ds @ [b])) \<longleftrightarrow> b = c"
proof -
  have "\<not> prefix (c @ ''/'') b" using assms(1) by (auto simp: prefix_def)
  then show ?thesis
    by (auto simp: inside_dir_def has_prefix_iff str_join_snoc)
qed

lemma under_dir_child: "cs \<noteq> [] \<Longrightarrow> inside_dir (rooted cs) (rooted (cs @ [x]))"
  by (simp add: inside_dir_def has_prefix_iff prefix_def str_join_snoc)

lemma default_separated:
  assumes ip: "ip = rooted (ds @ [b])" and pr: "list_all proper_name (ds @ [b])"
    and b: "b \<noteq> ''.ephemerd-upgrade''" and sd: "o_StageDir opt = ''''"
    and tag: "ValidVersion (target_of opt)"
    and os: "slash \<notin> set (goos_of E opt)" "slash \<notin> set (goarch_of E opt)"
  shows "separated E opt ip"
proof -
  let ?st = "''.ephemerd-upgrade''"
  have st: "proper_name ?st" by (simp add: proper_name_def)
  have d: "stage_dir opt ip = rooted (ds @ [?st])"
    using path_Join_rooted [of ds ?st] pr st sd path_Dir_rooted [OF pr] by (simp add: stage_dir_def ip)
  have all: "list_all proper_name (ds @ [?st])" using pr st by simp
  have "slash \<notin> set (asset_of E opt)"
    using os tag_no_slash [OF tag [unfolded ValidVersion_def]] by (auto simp: asset_of_def AssetName_def assetExt_def)
  then have a: "proper_name (asset_of E opt)" by (simp add: proper_name_def asset_of_def AssetName_def)
  have n: "proper_name checksumsName" "proper_name (binaryEntryName (goos_of E opt))"
    by (simp_all add: proper_name_def checksumsName_def binaryEntryName_def)
  have paths: "archive_path E opt ip = rooted ((ds @ [?st]) @ [asset_of E opt])"
    "sums_path opt ip = rooted ((ds @ [?st]) @ [checksumsName])"
    "staged_binary E opt ip = rooted ((ds @ [?st]) @ [binaryEntryName (goos_of E opt)])"
    using path_Join_rooted [OF all a] path_Join_rooted [OF all n(1)] path_Join_rooted [OF all n(2)]
    by (simp_all add: archive_path_def sums_path_def staged_binary_def d)
  have "checksumsName \<noteq> asset_of E opt" by (simp add: checksumsName_def asset_of_def AssetName_def)
  then have ne: "sums_path opt ip \<noteq> archive_path E opt ip"
    unfolding paths str_join_snoc by simp
  have sb: "slash \<notin> set b" "slash \<notin> set (b @ ''.old'')" using pr by (auto simp: proper_name_def)
  have old: "ip @ ''.old'' = rooted (ds @ [b @ ''.old''])" by (simp add: ip str_join_snoc)
  have "b @ ''.old'' \<noteq> ?st"
  proof
    assume "b @ ''.old'' = ?st"
    then have "rev (b @ ''.old'') = rev ?st" by (rule arg_cong)
    then show False by simp
  qed
  then have "\<not> inside_dir (rooted (ds @ [?st])) (ip @ ''.old'')"
    unfolding old by (subst under_dir_rooted) (use sb in simp_all)
  moreover have "\<not> inside_dir (rooted (ds @ [?st])) ip"
    unfolding ip by (subst under_dir_rooted) (use sb b in simp_all)
  moreover have "inside_dir (rooted (ds @ [?st])) (rooted ((ds @ [?st]) @ [x]))" for x
    by (rule under_dir_child) simp
  ultimately show ?thesis
    using ne unfolding separated_def Let_def d by (simp add: paths)
qed

end
