(* ===== verification/Upgrade_Ends.thy ===== *)
theory Upgrade_Ends
  imports Upgrade_Cordon
begin

text \<open>
  How an upgrade ends and how long it takes: the polls of the drain, the waits of the restart
  supervisor, and where a panic can come from.
\<close>

subsection \<open>The drain\<close>

lemma tick_up_move [simp]: "uw_tick (up_move E w) = Suc (uw_tick w)"
  by (simp add: up_move_def Let_def)

lemma up_emit_tick: "up_emit E p w = (r, w') \<Longrightarrow> uw_tick w' = Suc (uw_tick w)"
  by (auto simp: up_emit_def Let_def split: if_splits)

lemma up_fail_tick: "up_fail E opt e w = (r, w') \<Longrightarrow> uw_tick w' = Suc (uw_tick w)"
  by (auto simp: up_fail_def andThen_def throw_def up_emit_tick split: prod.splits outcome.splits)

lemma drain_loop_ticks:
  assumes "0 < poll" and "int k \<le> timeout div poll" and "drain_loop E D timeout poll f k w = (r, w')"
  shows "int (uw_tick w') \<le> int (uw_tick w) + 2 * (timeout div poll - int k + 1)"
  using assms(2,3)
proof (induction "nat (timeout div poll - int k)" arbitrary: k w rule: less_induct)
  case less
  let ?a = "d_ActiveJobs D (uw_sched (up_move E w))"
  obtain q w2 where e: "up_emit E (f ?a) (up_move E w) = (q, w2)" by (cases "up_emit E (f ?a) (up_move E w)")
  have t: "uw_tick w2 = uw_tick w + 2" using up_emit_tick [OF e] by simp
  have more: "int k + 1 \<le> timeout div poll" if "\<not> timeout < (int k + 1) * poll + int (ue_late E (uw_tick w))"
  proof -
    from that have "(int k + 1) * poll \<le> timeout" by (simp add: not_less)
    then have "(int k + 1) * poll div poll \<le> timeout div poll" using assms(1) by (rule zdiv_mono1)
    with assms(1) show ?thesis by simp
  qed
  have IH: "int (uw_tick w') \<le> int (uw_tick w2) + 2 * (timeout div poll - int (Suc k) + 1)"
    if "\<not> timeout < (int k + 1) * poll + int (ue_late E (uw_tick w))"
      and "drain_loop E D timeout poll f (Suc k) w2 = (r, w')"
    using less.hyps [OF _ _ that(2)] more [OF that(1)] by simp
  from less.prems show ?case
    using assms(1) t IH
    by (subst (asm) drain_loop.simps) (auto simp: Let_def e split: if_splits outcome.splits)
qed

lemma waitDrain_ticks:
  assumes "0 < poll" and "0 \<le> timeout" and "waitDrain E D timeout poll f w = (r, w')"
  shows "int (uw_tick w') \<le> int (uw_tick w) + 2 * (timeout div poll) + 3"
proof -
  have "0 \<le> timeout div poll" using assms(1,2) by (simp add: pos_imp_zdiv_nonneg_iff)
  with assms(3) drain_loop_ticks [OF assms(1), of 0 timeout E D f "up_move E w" r w'] show ?thesis
    by (auto simp: waitDrain_def Let_def split: if_splits)
qed

text \<open>The most calls on the scheduler and messages that a drain takes, from the cordon on.\<close>

definition drain_budget :: "'s RunOptions \<Rightarrow> int" where
  "drain_budget opt =
     2 * (positive_or (o_DrainTimeout opt) defaultDrainTimeout div positive_or (o_DrainPoll opt) defaultDrainPoll) + 6"

lemma cordon_step_ticks:
  assumes "cordon_step E opt w = (r, w')"
  shows "int (uw_tick w') \<le> int (uw_tick w) + drain_budget opt"
proof (cases "o_Drainer opt = None \<or> o_NoDrain opt")
  case True
  have "0 \<le> drain_budget opt"
    using positive_or_pos [of defaultDrainTimeout "o_DrainTimeout opt"] positive_or_pos [of defaultDrainPoll "o_DrainPoll opt"]
    by (simp add: drain_budget_def pos_imp_zdiv_nonneg_iff defaultDrainTimeout_def defaultDrainPoll_def)
  with True assms show ?thesis by (auto simp: cordon_step_def split: option.splits)
next
  case False
  let ?t = "positive_or (o_DrainTimeout opt) defaultDrainTimeout" and ?p = "positive_or (o_DrainPoll opt) defaultDrainPoll"
  have pos: "0 < ?t" "0 < ?p"
    by (rule positive_or_pos, simp add: defaultDrainTimeout_def defaultDrainPoll_def)+
  then have nn: "0 \<le> ?t div ?p" by (simp add: pos_imp_zdiv_nonneg_iff)
  from False obtain Dr where Dr: "o_Drainer opt = Some Dr" "\<not> o_NoDrain opt" by auto
  obtain a s where c: "d_Cordon Dr (uw_sched (up_move E w)) = (a, s)" by (cases "d_Cordon Dr (uw_sched (up_move E w))")
  obtain q v where e: "up_emit E (progress opt StateDraining\<lparr>pg_ActiveJobs := a\<rparr>)
      ((up_move E w)\<lparr>uw_sched := s, uw_didCordon := True, uw_drained := uw_drained (up_move E w) @ [CallCordon]\<rparr>) = (q, v)"
    by (cases "up_emit E (progress opt StateDraining\<lparr>pg_ActiveJobs := a\<rparr>)
      ((up_move E w)\<lparr>uw_sched := s, uw_didCordon := True, uw_drained := uw_drained (up_move E w) @ [CallCordon]\<rparr>)")
  obtain q2 v2 where d: "waitDrain E Dr ?t ?p (\<lambda>a. progress opt StateDraining\<lparr>pg_ActiveJobs := a\<rparr>) v = (q2, v2)"
    by (cases "waitDrain E Dr ?t ?p (\<lambda>a. progress opt StateDraining\<lparr>pg_ActiveJobs := a\<rparr>) v")
  have "uw_tick v = uw_tick w + 2" using up_emit_tick [OF e] by simp
  moreover have "int (uw_tick v2) \<le> int (uw_tick v) + 2 * (?t div ?p) + 3"
    using waitDrain_ticks [OF pos(2) _ d] pos(1) by simp
  moreover have "w' = v \<or> w' = v2 \<or> uw_tick w' = Suc (uw_tick v2)"
    using assms Dr c e d
    by (cases q; cases q2) (auto simp: cordon_step_def Let_def andThen_def onError_def dest: up_fail_tick)
  ultimately show ?thesis using nn by (auto simp: drain_budget_def)
qed

subsection \<open>The restart supervisor\<close>

interpretation slept: upgrade_inv E "\<lambda>w. uw_slept w = 0" "\<lambda>_. True" "\<lambda>_. True" for E
  by unfold_locales simp_all

lemma install_part_slept:
  "keeps_up (\<lambda>w. uw_slept w = 0) (\<lambda>_. True) (install_part E opt ip)"
proof -
  have s: "keeps_up (\<lambda>w. uw_slept w = 0) (\<lambda>_. True) (staged_part E opt ip)"
    unfolding staged_part_def
    by (intro keeps_deferred keeps_andThen keeps_onError slept.os_call_kept slept.fail_kept
        slept.fetch_step_kept slept.stage_step_kept slept.swap_step_kept keeps_upI)
      (simp_all add: os_RemoveAll_def Let_def up_move_def split: outcome.splits)
  have "keeps_up (\<lambda>w. uw_slept w = 0) (\<lambda>_. True) (deferred (staged_part E opt ip)
      (\<lambda>r w. (case r of
          Fail e \<Rightarrow> Fail (if uw_expired w then Uerr ''upgrade exceeded its %s install budget'' [e] else e)
        | _ \<Rightarrow> r, w\<lparr>uw_armed := False, uw_cancelled := True\<rparr>)))"
    by (intro keeps_deferred s keeps_upI) (simp split: outcome.splits)
  with s show ?thesis by (simp add: install_part_def keeps_up_def valid_def)
qed

lemma undrain_slept [simp]: "uw_slept (undrain E opt w) = uw_slept w"
  by (simp add: undrain_def Let_def split: option.split)

lemma cordon_step_slept: "keeps_up (\<lambda>w. uw_slept w = 0) (\<lambda>_. True) (cordon_step E opt)"
proof -
  have "keeps_up (\<lambda>w. uw_slept w = 0) (\<lambda>_. True) (andThen (up_emit E p) (\<lambda>_. onError (waitDrain E D t (positive_or v defaultDrainPoll) f)
      (\<lambda>e. up_fail E opt (Uerr m [e]))))" for p D t v f m
    by (intro keeps_andThen keeps_onError slept.emit_kept slept.fail_kept slept.waitDrain_kept positive_or_pos)
      (simp add: defaultDrainPoll_def)
  note drain = this
  show ?thesis
  proof (rule keeps_upI)
    fix w :: "'a upworld" assume w: "uw_slept w = 0"
    let ?D = "the (o_Drainer opt)"
    obtain a s where c: "d_Cordon ?D (uw_sched (up_move E w)) = (a, s)"
      by (cases "d_Cordon ?D (uw_sched (up_move E w))")
    show "case cordon_step E opt w of
       (Ret x, w') \<Rightarrow> uw_slept w' = 0 | (Fail e, w') \<Rightarrow> uw_slept w' = 0 | (Panicked, w') \<Rightarrow> uw_slept w' = 0
     | (Hung, w') \<Rightarrow> True"
      using w c drain [unfolded keeps_up_def valid_def]
      by (cases "o_Drainer opt") (simp_all add: cordon_step_def Let_def)
  qed
qed

lemma upgrade_Run_slept: "keeps_up (\<lambda>w. uw_slept w = 0) (\<lambda>_. True) (upgrade_Run E opt)"
proof -
  have "keeps_up (\<lambda>w. uw_slept w = 0) (\<lambda>_. True) (recover_undrain E opt r)" for r :: "unit outcome"
    unfolding recover_undrain_def
    by (cases r; simp; (intro keeps_andThen slept.emit_kept keeps_ret)?; simp add: keeps_up_def valid_def)
  then show ?thesis
    unfolding upgrade_Run_def
    by (intro up_rules slept.preflight_kept keeps_deferred cordon_step_slept install_part_slept)
qed

lemma waitUnlessShutdown_slept:
  "waitUnlessShutdown E opt d w = (b, w') \<Longrightarrow> 0 \<le> d \<Longrightarrow> uw_slept w' \<le> uw_slept w + d"
  by (auto simp: waitUnlessShutdown_def split: if_splits)

lemma restart_attempts_slept:
  assumes "0 < wd" and "restart_attempts E opt wd n w = (r, w')"
  shows "uw_slept w' \<le> uw_slept w + int n * wd"
  using assms(2)
proof (induction n arbitrary: w)
  case (Suc n)
  let ?d = "if ue_restart E (uw_tick w) = None then wd else min restartRetryDelay wd"
  obtain b v where wu: "waitUnlessShutdown E opt ?d (up_move E w) = (b, v)" by (cases "waitUnlessShutdown E opt ?d (up_move E w)")
  have "0 \<le> ?d" "?d \<le> wd" using assms(1) by (simp_all add: restartRetryDelay_def)
  then have "uw_slept v \<le> uw_slept w + wd" using waitUnlessShutdown_slept [OF wu] by simp
  moreover have "w' = v \<or> uw_slept w' \<le> uw_slept v + int n * wd"
    using Suc.prems wu Suc.IH [of v] by (cases b) auto
  moreover have "0 \<le> int n * wd" using assms(1) by simp
  ultimately show ?case by (auto simp: algebra_simps)
qed auto

definition restart_budget :: "'s RunOptions \<Rightarrow> time" where
  "restart_budget opt =
     positive_or (o_RestartDelay opt) restartDelay + 2 * positive_or (o_RestartWatchdog opt) restartWatchdog"

lemma superviseRestart_slept:
  assumes "superviseRestart E opt w = (r, w')"
  shows "uw_slept w' \<le> uw_slept w + restart_budget opt"
proof -
  let ?d = "positive_or (o_RestartDelay opt) restartDelay" and ?wd = "positive_or (o_RestartWatchdog opt) restartWatchdog"
  have pos: "0 < ?d" "0 < ?wd" by (rule positive_or_pos, simp add: restartDelay_def restartWatchdog_def)+
  obtain b v where wu: "waitUnlessShutdown E opt ?d w = (b, v)" by (cases "waitUnlessShutdown E opt ?d w")
  have "uw_slept v \<le> uw_slept w + ?d" using waitUnlessShutdown_slept [OF wu] pos by simp
  moreover have "w' = v \<or> uw_slept w' \<le> uw_slept v + 2 * ?wd"
    using assms wu restart_attempts_slept [OF pos(2), of E opt restartAttempts v r w']
    by (cases b) (auto simp: superviseRestart_def restartAttempts_def)
  ultimately show ?thesis using pos by (auto simp: restart_budget_def)
qed

subsection \<open>The end\<close>

lemma upgrade_Run_panic:
  assumes "upgrade_Run E opt w = (Panicked, w')"
  shows "\<exists>n. ue_emit_panics E n"
proof (rule ccontr)
  assume n: "\<nexists>n. ue_emit_panics E n"
  have e: "up_emit E p v = (Ret (), (up_move E v)\<lparr>uw_emitted := uw_emitted (up_move E v) @ [p]\<rparr>)" for p v
    using n by (simp add: up_emit_def Let_def)
  have "preflight E opt w \<noteq> (Panicked, v)" for v
    by (simp add: preflight_def up_fail_def andThen_def e throw_def ret_def split: option.split)
  moreover have "deferred m (recover_undrain E opt) u \<noteq> (Panicked, v)" for m u v
    by (simp add: deferred_def recover_undrain_def ret_def andThen_def e split: prod.split outcome.split)
  ultimately show False
    using assms by (auto simp: upgrade_Run_def andThen_def ret_def split: prod.splits outcome.splits option.splits)
qed

lemma session_ends:
  assumes "0 \<le> o_InstallTimeout opt" and "upgrade_session E opt (upgrade_start fs s) = (e, w')"
  shows "e \<noteq> Wedged \<and> (e = Crashed \<longrightarrow> (\<exists>n. ue_emit_panics E n)) \<and> uw_slept w' \<le> restart_budget opt"
proof -
  have b: "0 \<le> restart_budget opt"
    using positive_or_pos [of restartDelay "o_RestartDelay opt"] positive_or_pos [of restartWatchdog "o_RestartWatchdog opt"]
    by (simp add: restart_budget_def restartDelay_def restartWatchdog_def)
  obtain r w1 where run: "upgrade_Run E opt (upgrade_start fs s) = (r, w1)"
    by (cases "upgrade_Run E opt (upgrade_start fs s)")
  have nh: "r \<noteq> Hung" using upgrade_Run_no_hang [OF assms(1), of E] run by (metis no_hang_iff fst_conv)
  have z: "uw_slept w1 = 0"
    using keeps_upD [OF upgrade_Run_slept _ run nh] by (simp add: upgrade_start_def)
  show ?thesis
  proof (cases r)
    case (Ret x)
    obtain q w2 where sv: "superviseRestart E opt w1 = (q, w2)" by (cases "superviseRestart E opt w1")
    with Ret run assms(2) z b superviseRestart_slept [OF sv] show ?thesis
      by (auto simp: upgrade_session_def split: if_splits)
  next
    case Panicked
    with run upgrade_Run_panic [of E opt] have "\<exists>n. ue_emit_panics E n" by blast
    with Panicked run assms(2) z b show ?thesis by (auto simp: upgrade_session_def)
  qed (use run assms(2) z b nh in \<open>auto simp: upgrade_session_def\<close>)
qed

end
