(* ===== verification/Upgrade_System.thy ===== *)
theory Upgrade_System
  imports Upgrade_Verified Upgrade_Ends Demo
begin

text \<open>
  The properties of an upgrade of a node, a concrete upgrade on which they are applied, and what
  modelling it showed.
\<close>

subsection \<open>A concrete upgrade\<close>

definition demo_archive :: string where "demo_archive = ''PK''"

definition demo_sums :: "(string \<times> string) list" where
  "demo_sums = [(hex_sha256 demo_archive, ''ephemerd_v0.2.0_linux_amd64.tar.gz'')]"

definition demo_response :: "string \<Rightarrow> http_response" where
  "demo_response body =
     \<lparr>rs_status = 200, rs_length = int (length body), rs_chunks = [(body, 0)], rs_last = ([], 1), rs_end = REof\<rparr>"

definition demo_binary :: archive_entry where
  "demo_binary = \<lparr>ae_name = ''ephemerd'', ae_plain = True, ae_opens = True, ae_bytes = ''new'', ae_ok = True\<rparr>"

definition demo_upenv :: "'s upenv" where
  "demo_upenv =
     \<lparr>ue_sched = (\<lambda>_ s. s), ue_fs = (\<lambda>_ fs. fs), ue_cancel = (\<lambda>_. False), ue_expire = (\<lambda>_. False),
      ue_emit_panics = (\<lambda>_. False), ue_err = (\<lambda>_. None), ue_written = (\<lambda>_. 0), ue_keep = (\<lambda>_ _. False),
      ue_late = (\<lambda>_. 0), ue_done_first = (\<lambda>_. False),
      ue_get = (\<lambda>_ url. DoResponse (demo_response
         (if has_suffix url checksumsName
          then concat (map (\<lambda>e. checksum_text e @ [newline]) demo_sums) else demo_archive))),
      ue_zip = (\<lambda>_. None),
      ue_targz = (\<lambda>b. if b = demo_archive then Some ([demo_binary], True) else None),
      ue_exec = (\<lambda>_ _. Inr (''ephemerd version '' @ ''v0.2.0'' @ [newline])),
      ue_restart = (\<lambda>_. None), ue_shutdown = (\<lambda>_. False), ue_GOOS = ''linux'', ue_GOARCH = ''amd64'',
      ue_executable = Some ''/opt/ephemerd'', ue_evalSymlinks = (\<lambda>_. None)\<rparr>"

definition demo_options :: "scheduler RunOptions" where
  "demo_options =
     \<lparr>o_TargetVersion = ''v0.2.0'', o_CurrentVersion = ''v0.1.0'', o_BaseURLOverride = ''http://m'', o_NoDrain = False,
      o_Force = False, o_DrainTimeout = 0, o_DrainPoll = 0, o_Drainer = Some sched_drainer, o_hasShutdown = True,
      o_StallTimeout = 0, o_InstallTimeout = 0, o_InstallPath = '''', o_StageDir = '''', o_GOOS = '''',
      o_GOARCH = '''', o_RestartDelay = 0, o_RestartWatchdog = 0\<rparr>"

definition demo_files :: files where "demo_files = [''/opt/ephemerd'' \<mapsto> ''old'']"

lemma demo_digests:
  "ParseChecksums (concat (map (\<lambda>e. checksum_text e @ [newline]) demo_sums)) =
     Inr [''ephemerd_v0.2.0_linux_amd64.tar.gz'' \<mapsto> hex_sha256 demo_archive]"
proof -
  have "list_all checksum_item demo_sums"
    using length_hex_sha256 [of demo_archive] hex_sha256_plain [of _ demo_archive]
    by (auto simp: demo_sums_def checksum_item_def spaceless_def MaxScanTokenSize_def is_space_def)
  from ParseChecksums_sha256sum [OF this] show ?thesis
    by (simp add: demo_sums_def trim_prefix_def to_lower_hex_sha256)
qed

lemma demo_version:
  "versionRe ''v0.2.0''" "NormalizeVersion ''v0.2.0'' = ''v0.2.0''" "ValidVersion ''v0.2.0''"
  "\<not> SameVersion ''v0.1.0'' ''v0.2.0''" "SameVersion ''v0.2.0'' ''v0.2.0''" "trim_space ''v0.2.0'' \<noteq> ''''"
  by code_simp+

lemma demo_paths:
  "target_of demo_options = ''v0.2.0''" "goos_of demo_upenv demo_options = ''linux''"
  "goarch_of demo_upenv demo_options = ''amd64''"
  "asset_of demo_upenv demo_options = ''ephemerd_v0.2.0_linux_amd64.tar.gz''"
  "install_path demo_upenv demo_options = Some ''/opt/ephemerd''"
  "stage_dir demo_options ''/opt/ephemerd'' = ''/opt/.ephemerd-upgrade''"
  "archive_path demo_upenv demo_options ''/opt/ephemerd'' = ''/opt/.ephemerd-upgrade/ephemerd_v0.2.0_linux_amd64.tar.gz''"
  "sums_path demo_options ''/opt/ephemerd'' = ''/opt/.ephemerd-upgrade/checksums.txt''"
  "staged_binary demo_upenv demo_options ''/opt/ephemerd'' = ''/opt/.ephemerd-upgrade/ephemerd''"
  by code_simp+

lemma demo_env_sel:
  "ue_sched demo_upenv n s = s" "ue_fs demo_upenv n fs = fs" "ue_cancel demo_upenv n = False"
  "ue_expire demo_upenv n = False" "ue_emit_panics demo_upenv n = False" "ue_err demo_upenv n = None"
  "ue_keep demo_upenv n p = False" "ue_restart demo_upenv n = None" "ue_shutdown demo_upenv n = False"
  "ue_GOOS demo_upenv = ''linux''" "ue_GOARCH demo_upenv = ''amd64''"
  "ue_targz demo_upenv demo_archive = Some ([demo_binary], True)"
  "ue_exec demo_upenv n b = Inr (''ephemerd version '' @ ''v0.2.0'' @ [newline])"
  by (simp_all add: demo_upenv_def)

lemma demo_move: "up_move demo_upenv w = w\<lparr>uw_tick := Suc (uw_tick w)\<rparr>"
  by (cases w) (simp add: up_move_def Let_def demo_env_sel)

lemma demo_emit: "up_emit demo_upenv p w = (Ret (), w\<lparr>uw_tick := Suc (uw_tick w), uw_emitted := uw_emitted w @ [p]\<rparr>)"
  by (simp add: up_emit_def demo_move demo_env_sel Let_def)

lemma demo_opts:
  "o_TargetVersion demo_options = ''v0.2.0''" "o_CurrentVersion demo_options = ''v0.1.0''"
  "o_BaseURLOverride demo_options = ''http://m''" "\<not> o_NoDrain demo_options" "\<not> o_Force demo_options"
  "o_DrainTimeout demo_options = 0" "o_DrainPoll demo_options = 0" "o_Drainer demo_options = Some sched_drainer"
  "o_hasShutdown demo_options" "o_StallTimeout demo_options = 0" "o_InstallTimeout demo_options = 0"
  "o_RestartDelay demo_options = 0" "o_RestartWatchdog demo_options = 0" "o_StageDir demo_options = ''''"
  by (simp_all add: demo_options_def)

lemma demo_get:
  "ue_get demo_upenv n (u @ slash # checksumsName) = DoResponse (demo_response (concat (map (\<lambda>e. checksum_text e @ [newline]) demo_sums)))"
  "ue_get demo_upenv n (u @ slash # ''ephemerd_v0.2.0_linux_amd64.tar.gz'') = DoResponse (demo_response demo_archive)"
  by (simp_all add: demo_upenv_def has_suffix_def checksumsName_def)

lemma demo_download:
  fixes w :: "'s upworld"
  assumes "\<And>n. ue_get (demo_upenv :: 's upenv) n url = DoResponse (demo_response body)" and "body \<noteq> []"
  shows "downloadFile demo_upenv url p t (Some f) w =
     (Ret (), w\<lparr>uw_tick := uw_tick w + 8, uw_emitted := uw_emitted w @ [f (int (length body)) (int (length body)), f (int (length body)) (int (length body))],
        uw_fs := (uw_fs w)(p := Some body)\<rparr>)"
    "downloadFile demo_upenv url p t None w = (Ret (), w\<lparr>uw_tick := uw_tick w + 6, uw_fs := (uw_fs w)(p := Some body)\<rparr>)"
  using assms(2)
  by (cases w; auto simp add: downloadFile_def andThen_def onError_def attempt_def os_call_def fs_call_def demo_move demo_env_sel
      Let_def http_get_def demo_response_def assms(1) os_Create_def copy_turn_def report_def file_Write_def copy_end_def ret_def demo_emit)+

lemma demo_ctx_check: "\<not> uw_cancelled w \<Longrightarrow> ctx_check demo_upenv w = (Ret (), w\<lparr>uw_tick := Suc (uw_tick w)\<rparr>)"
  by (simp add: ctx_check_def demo_move Let_def)

lemma demo_ReadFile: "uw_fs w p = Some c \<Longrightarrow> os_ReadFile demo_upenv p w = (Ret c, w\<lparr>uw_tick := Suc (uw_tick w)\<rparr>)"
  by (cases w) (simp add: os_ReadFile_def fs_call_def demo_move demo_env_sel Let_def)

lemma demo_preflight:
  "preflight demo_upenv demo_options w = (Ret (Some ''/opt/ephemerd''), w\<lparr>uw_tick := Suc (uw_tick w),
     uw_emitted := uw_emitted w @ [progress demo_options StatePreflight]\<rparr>)"
  by (simp add: preflight_def andThen_def demo_emit demo_paths demo_version ret_def demo_opts)

lemma demo_drain:
  assumes "ActiveJobs (uw_sched w) = 0"
  shows "cordon_step demo_upenv demo_options w = (Ret (), w\<lparr>uw_tick := uw_tick w + 3,
     uw_emitted := uw_emitted w @ [progress demo_options StateDraining],
     uw_sched := snd (Cordon (uw_sched w)), uw_didCordon := True, uw_drained := uw_drained w @ [CallCordon]\<rparr>)"
  using assms
  by (cases w) (simp add: cordon_step_def demo_opts sched_drainer_def andThen_def demo_emit demo_move onError_def
      waitDrain_def Let_def Cordon_def ActiveJobs_def progress_def)

lemma demo_base: "baseURL ''v0.2.0'' ''http://m'' = ''http://m''"
  by (simp add: baseURL_def trim_right_slashes_def)

lemma demo_fetch:
  assumes "\<not> uw_cancelled w"
  shows "\<exists>n ps. fetch_step demo_upenv demo_options ''/opt/ephemerd'' w = (Ret (), w\<lparr>uw_tick := n, uw_emitted := ps,
     uw_fs := (uw_fs w)(''/opt/.ephemerd-upgrade/ephemerd_v0.2.0_linux_amd64.tar.gz'' := Some demo_archive,
       ''/opt/.ephemerd-upgrade/checksums.txt'' := Some (concat (map (\<lambda>e. checksum_text e @ [newline]) demo_sums)))\<rparr>)"
proof -
  have ne: "concat (map (\<lambda>e. checksum_text e @ [newline]) demo_sums) \<noteq> []" "demo_archive \<noteq> []"
    by (simp_all add: demo_sums_def demo_archive_def)
  have d: "downloadFile demo_upenv ''http://m/ephemerd_v0.2.0_linux_amd64.tar.gz'' p t (Some f) w =
     (Ret (), w\<lparr>uw_tick := uw_tick w + 8, uw_emitted := uw_emitted w @ [f 2 2, f 2 2], uw_fs := (uw_fs w)(p := Some demo_archive)\<rparr>)" for p t f w
    using demo_download(1) [OF demo_get(2) [of _ "''http://m''"] ne(2)] by (simp add: demo_archive_def)
  have d': "downloadFile demo_upenv ''http://m/checksums.txt'' p t None w =
     (Ret (), w\<lparr>uw_tick := uw_tick w + 6,
        uw_fs := (uw_fs w)(p := Some (concat (map (\<lambda>e. checksum_text e @ [newline]) demo_sums)))\<rparr>)" for p t w
    using demo_download(2) [OF demo_get(1) [of _ "''http://m''"] ne(1)] by (simp add: checksumsName_def)
  show ?thesis
    using assms
    by (cases w) (simp add: fetch_step_def Let_def andThen_def onError_def demo_emit demo_opts demo_base d d'
       demo_ReadFile demo_digests demo_ctx_check verifyChecksum_def to_lower_hex_sha256 ret_def demo_paths checksumsName_def fun_upd_twist)
qed

lemma demo_parse: "parseVersionOutput (''ephemerd version '' @ ''v0.2.0'' @ [newline]) = ''v0.2.0''"
  by (rule parseVersionOutput_banner [OF demo_version(1)])

lemma demo_stage:
  assumes "uw_fs w ''/opt/.ephemerd-upgrade/ephemerd_v0.2.0_linux_amd64.tar.gz'' = Some demo_archive"
  shows "\<exists>n ps. stage_step demo_upenv demo_options ''/opt/ephemerd'' w =
     (Ret (), w\<lparr>uw_tick := n, uw_emitted := ps, uw_fs := (uw_fs w)(''/opt/.ephemerd-upgrade/ephemerd'' := Some ''new'')\<rparr>)"
proof -
  have b: "path_Base ''ephemerd'' = ''ephemerd''" by code_simp
  have wb: "writeBinary demo_upenv demo_binary p w = (Ret (), w\<lparr>uw_tick := uw_tick w + 4, uw_fs := (uw_fs w)(p := Some ''new'')\<rparr>)"
    for p and w :: "scheduler upworld"
    by (cases w) (simp add: writeBinary_def andThen_def attempt_def os_Create_def file_Write_def os_call_def fs_call_def
        demo_move demo_env_sel demo_binary_def Let_def ret_def)
  have pv: "probeVersion demo_upenv p w = (Ret ''v0.2.0'', w\<lparr>uw_tick := uw_tick w + 2\<rparr>)" if "uw_fs w p = Some c"
    for p c and w :: "scheduler upworld"
    using demo_ReadFile [of w p c, OF that] demo_parse
    by (cases w) (simp add: probeVersion_def andThen_def demo_env_sel demo_move)
  show ?thesis
    using assms
    by (cases w) (simp add: stage_step_def Let_def andThen_def onError_def demo_emit demo_paths demo_env_sel extractBinary_def
        extractTarGzEntry_def demo_ReadFile binaryEntryName_def demo_binary_def [THEN arg_cong [of _ _ ae_name]]
        demo_binary_def [THEN arg_cong [of _ _ ae_plain]] b wb pv demo_version ret_def)
qed

lemma demo_swap:
  assumes "\<not> uw_cancelled w" and "uw_fs w ''/opt/ephemerd'' = Some ''old''" and "uw_fs w ''/opt/ephemerd.old'' = None"
    and "uw_fs w ''/opt/.ephemerd-upgrade/ephemerd'' = Some ''new''"
  shows "\<exists>n ps. swap_step demo_upenv demo_options ''/opt/ephemerd'' w =
     (Ret (), w\<lparr>uw_tick := n, uw_emitted := ps, uw_armed := False, uw_spawned := Some ''/opt/ephemerd.old'',
        uw_fs := (uw_fs w)(''/opt/.ephemerd-upgrade/ephemerd'' := None, ''/opt/ephemerd.old'' := Some ''old'', ''/opt/ephemerd'' := Some ''new'')\<rparr>)"
  using assms
  by (cases w) (simp add: swap_step_def andThen_def onError_def attempt_def demo_emit demo_ctx_check demo_paths swapBinary_def Let_def
      os_Rename_def os_Remove_def fs_call_def demo_move demo_env_sel ret_def fun_upd_twist)

lemma demo_upgrade:
  assumes "ActiveJobs s = 0"
  shows "\<exists>w'. upgrade_session demo_upenv demo_options (upgrade_start demo_files s) = (Supervised GaveUp, w') \<and>
     uw_drained w' = [CallCordon, CallUncordon]"
proof -
  define w0 where "w0 = upgrade_start demo_files s"
  define w1 where "w1 = w0\<lparr>uw_tick := Suc (uw_tick w0), uw_emitted := uw_emitted w0 @ [progress demo_options StatePreflight]\<rparr>"
  have w1: "preflight demo_upenv demo_options w0 = (Ret (Some ''/opt/ephemerd''), w1)" unfolding w1_def by (rule demo_preflight)
  have "ActiveJobs (uw_sched w1) = 0" using assms by (simp add: w1_def w0_def upgrade_start_def)
  note d = demo_drain [OF this]
  define w2 where "w2 = w1\<lparr>uw_tick := uw_tick w1 + 3,
     uw_emitted := uw_emitted w1 @ [progress demo_options StateDraining],
     uw_sched := snd (Cordon (uw_sched w1)), uw_didCordon := True, uw_drained := uw_drained w1 @ [CallCordon]\<rparr>"
  have w2: "cordon_step demo_upenv demo_options w1 = (Ret (), w2)" unfolding w2_def by (rule d)
  define w3 where "w3 = w2\<lparr>uw_armed := True, uw_tick := Suc (uw_tick w2)\<rparr>"
  have w3: "onError (os_call demo_upenv) h (w2\<lparr>uw_armed := True\<rparr>) = (Ret (), w3)" for h
    by (cases w2) (simp add: onError_def os_call_def fs_call_def demo_move demo_env_sel Let_def w3_def)
  have f2: "uw_fs w3 = demo_files" "\<not> uw_cancelled w3" "uw_spawned w3 = None" "uw_drained w3 = [CallCordon]"
    "uw_didCordon w3" "\<not> uw_undrained w3"
    by (simp_all add: w3_def w2_def w1_def w0_def upgrade_start_def)
  obtain n4 p4 where w4: "fetch_step demo_upenv demo_options ''/opt/ephemerd'' w3 = (Ret (), w3\<lparr>uw_tick := n4, uw_emitted := p4,
     uw_fs := (uw_fs w3)(''/opt/.ephemerd-upgrade/ephemerd_v0.2.0_linux_amd64.tar.gz'' := Some demo_archive,
       ''/opt/.ephemerd-upgrade/checksums.txt'' := Some (concat (map (\<lambda>e. checksum_text e @ [newline]) demo_sums)))\<rparr>)"
    (is "_ = (_, ?w4)")
    using demo_fetch [OF f2(2)] by blast
  define v4 where "v4 = ?w4"
  note w4 = w4 [folded v4_def]
  obtain n5 p5 where w5: "stage_step demo_upenv demo_options ''/opt/ephemerd'' v4 =
     (Ret (), v4\<lparr>uw_tick := n5, uw_emitted := p5, uw_fs := (uw_fs v4)(''/opt/.ephemerd-upgrade/ephemerd'' := Some ''new'')\<rparr>)"
    (is "_ = (_, ?w5)")
    using demo_stage [of v4] by (auto simp: v4_def)
  define v5 where "v5 = ?w5"
  note w5 = w5 [folded v5_def]
  obtain n6 p6 where w6: "swap_step demo_upenv demo_options ''/opt/ephemerd'' v5 =
     (Ret (), v5\<lparr>uw_tick := n6, uw_emitted := p6, uw_armed := False, uw_spawned := Some ''/opt/ephemerd.old'',
        uw_fs := (uw_fs v5)(''/opt/.ephemerd-upgrade/ephemerd'' := None, ''/opt/ephemerd.old'' := Some ''old'', ''/opt/ephemerd'' := Some ''new'')\<rparr>)"
    (is "_ = (_, ?w6)")
    using demo_swap [of v5] f2 by (auto simp: demo_files_def v4_def v5_def)
  define v6 where "v6 = ?w6"
  note w6 = w6 [folded v6_def]
  have f6: "uw_spawned v6 \<noteq> None" "uw_drained v6 = [CallCordon]" "uw_didCordon v6" "\<not> uw_undrained v6"
    using f2 by (simp_all add: v6_def v5_def v4_def)
  have run: "\<exists>w7. upgrade_Run demo_upenv demo_options w0 = (Ret (), w7) \<and> uw_spawned w7 \<noteq> None \<and>
      uw_drained w7 = [CallCordon] \<and> uw_didCordon w7 \<and> \<not> uw_undrained w7"
    using f6
    by (simp add: upgrade_Run_def andThen_def w1 deferred_def w2 install_part_def orDuration_def demo_opts defaultInstallTimeout_def
        staged_part_def w3 w4 w5 w6 recover_undrain_def ret_def os_RemoveAll_def demo_move Let_def)
  then obtain w7 where w7: "upgrade_Run demo_upenv demo_options w0 = (Ret (), w7)" "uw_spawned w7 \<noteq> None"
    "uw_drained w7 = [CallCordon]" "uw_didCordon w7" "\<not> uw_undrained w7" by blast
  have "\<exists>w8. superviseRestart demo_upenv demo_options w7 = (GaveUp, w8) \<and> uw_drained w8 = [CallCordon, CallUncordon]"
    using w7(3-5)
    by (cases w7) (simp add: superviseRestart_def waitUnlessShutdown_def demo_env_sel demo_move restartAttempts_def
        eval_nat_numeral Let_def undrain_def demo_opts)
  with w7 show ?thesis by (auto simp: upgrade_session_def w0_def [symmetric])
qed

subsection \<open>The cordon\<close>

lemma idle_New: "ActiveJobs (New cfg) = 0"
  by (simp add: ActiveJobs_def New_def Let_def)

text \<open>
  C6. The upgrade of a node whose drainer is the scheduler never leaves it cordoned when it does
  not go through: if it ends with an error (a bad request, a drain that times out, a download
  that stalls, a wrong digest, a failed swap, a panic on the way) or if the restart supervisor
  gives up, either the scheduler was never cordoned or it was cordoned once and un-cordoned once,
  in this order, and takes jobs again at that moment. An upgrade never makes any other calls on
  the cordon, whatever the network, the files, the clock and the rest of the daemon do meanwhile.
\<close>

theorem failed_upgrade_uncordons:
  assumes "o_Drainer opt = Some sched_drainer"
    and "upgrade_session E opt (upgrade_start fs s) = (e, w')"
  shows "case e of
      Failed err \<Rightarrow> uw_drained w' = [] \<or> uw_drained w' = [CallCordon, CallUncordon] \<and> \<not> s_draining (uw_sched w')
    | Supervised GaveUp \<Rightarrow> uw_drained w' = [] \<or> uw_drained w' = [CallCordon, CallUncordon] \<and> \<not> s_draining (uw_sched w')
    | _ \<Rightarrow> uw_drained w' = [] \<or> uw_drained w' = [CallCordon]"
  by (rule sched_gate.session_discipline [OF assms])

theorem failed_upgrade_uncordons_witness:
  "\<exists>w'. upgrade_session demo_upenv demo_options (upgrade_start demo_files (New demo_cfg)) = (Supervised GaveUp, w') \<and>
     uw_drained w' = [CallCordon, CallUncordon] \<and> \<not> s_draining (uw_sched w')"
proof -
  obtain w' where run: "upgrade_session demo_upenv demo_options (upgrade_start demo_files (New demo_cfg)) = (Supervised GaveUp, w')"
    and calls: "uw_drained w' = [CallCordon, CallUncordon]"
    using demo_upgrade [OF idle_New] by blast
  from failed_upgrade_uncordons [OF demo_opts(8) run] calls have "\<not> s_draining (uw_sched w')" by simp
  with run calls show ?thesis by blast
qed

subsection \<open>The binary\<close>

text \<open>
  C5. However an upgrade ends, the file at the install path holds the binary that was there before,
  or a binary unpacked from an archive that the release served whole, whose SHA-256 digest is the
  one its checksum list gives for that asset and which, when it can run on this host, reported the
  version asked for. Otherwise the path is empty and the old binary is in the backup beside it.
  Nothing else is ever installed: no truncated download, no archive of another digest, no binary of
  another version. An upgrade that had nothing to do leaves the binary alone; when the supervisor
  restarts the service, the vetted binary is installed and the old one is kept as the backup. The
  names are the ones an ordinary host gives: an absolute install path, the default staging
  directory, a release tag; nobody else writes to the files of the upgrade.
\<close>

theorem only_verified_binary_installed:
  assumes "install_path E opt = Some ip" and "ip = rooted (ds @ [b])" and "list_all proper_name (ds @ [b])"
    and "b \<noteq> ''.ephemerd-upgrade''" and "o_StageDir opt = ''''" and "ValidVersion (target_of opt)"
    and "slash \<notin> set (goos_of E opt)" and "slash \<notin> set (goarch_of E opt)"
    and "alone E opt ip" and "fs ip = Some old"
    and "upgrade_session E opt (upgrade_start fs s) = (e, w')"
  shows "(uw_fs w' ip = Some old \<or> set_aside ip old w' \<or> installed E opt ip old w') \<and>
         (e = UpToDate \<longrightarrow> uw_fs w' ip = Some old) \<and>
         ((\<exists>q. e = Supervised q) \<longrightarrow> installed E opt ip old w')"
proof -
  have "layout E opt ip"
    using default_separated [OF assms(2-8)] assms(9) by (simp add: layout_def)
  from session_binary [OF assms(1) this assms(10,11)] show ?thesis by (simp add: binary_safe_def)
qed

lemma demo_alone: "alone demo_upenv demo_options ip"
  by (simp add: alone_def settled_def demo_env_sel)

theorem only_verified_binary_installed_witness:
  "\<exists>w'. upgrade_session demo_upenv demo_options (upgrade_start demo_files (New demo_cfg)) = (Supervised GaveUp, w') \<and>
     installed demo_upenv demo_options ''/opt/ephemerd'' ''old'' w'"
proof -
  obtain w' where run: "upgrade_session demo_upenv demo_options (upgrade_start demo_files (New demo_cfg)) = (Supervised GaveUp, w')"
    using demo_upgrade [OF idle_New] by blast
  have "installed demo_upenv demo_options ''/opt/ephemerd'' ''old'' w'"
    using only_verified_binary_installed [OF demo_paths(5) _ _ _ _ _ _ _ demo_alone _ run, of "[''opt'']" "''ephemerd''" "''old''"]
    by (simp add: demo_paths demo_version proper_name_def demo_files_def demo_opts)
  with run show ?thesis by blast
qed

subsection \<open>The end\<close>

text \<open>
  C13. With an install budget (the default is half an hour; the handler of the control socket
  never turns it off) every upgrade ends, whatever the server does: a connection that goes silent
  or dribbles bytes for ever cannot wedge it. Only a panic in sending the very messages can end
  the process. The drain polls the scheduler at most once per period until its timeout, and the
  restart supervisor sleeps at most for its delay and twice its watchdog.
\<close>

theorem upgrade_always_ends:
  assumes "0 \<le> o_InstallTimeout opt" and "upgrade_session E opt (upgrade_start fs s) = (e, w')"
  shows "e \<noteq> Wedged \<and> (e = Crashed \<longrightarrow> (\<exists>n. ue_emit_panics E n)) \<and> uw_slept w' \<le> restart_budget opt \<and>
         (\<forall>v r v'. cordon_step E opt v = (r, v') \<longrightarrow> int (uw_tick v') \<le> int (uw_tick v) + drain_budget opt)"
  using session_ends [OF assms] cordon_step_ticks by blast

theorem upgrade_always_ends_witness:
  "\<exists>w'. upgrade_session demo_upenv demo_options (upgrade_start demo_files (New demo_cfg)) = (Supervised GaveUp, w') \<and>
     uw_slept w' \<le> 182 * second \<and> drain_budget demo_options = 1086"
proof -
  obtain w' where run: "upgrade_session demo_upenv demo_options (upgrade_start demo_files (New demo_cfg)) = (Supervised GaveUp, w')"
    using demo_upgrade [OF idle_New] by blast
  have "restart_budget demo_options = 182 * second" "drain_budget demo_options = 1086" by code_simp+
  moreover have "uw_slept w' \<le> restart_budget demo_options"
    using upgrade_always_ends [OF _ run] by (simp add: demo_opts)
  ultimately show ?thesis using run by auto
qed

subsection \<open>What modelling showed\<close>

text \<open>
  A node its operator had cordoned takes jobs again after an upgrade that does not go through: the
  upgrade un-cordons what it did not cordon.
\<close>

lemma operator_cordon_lost:
  "s_draining (snd (Cordon (New demo_cfg))) \<and>
   (\<exists>w'. upgrade_session demo_upenv demo_options (upgrade_start demo_files (snd (Cordon (New demo_cfg)))) = (Supervised GaveUp, w') \<and>
     \<not> s_draining (uw_sched w'))"
proof -
  have "ActiveJobs (snd (Cordon (New demo_cfg))) = 0" "s_draining (snd (Cordon (New demo_cfg)))"
    using idle_New [of demo_cfg] by (simp_all add: Cordon_def ActiveJobs_def)
  moreover from this(1) obtain w' where
    run: "upgrade_session demo_upenv demo_options (upgrade_start demo_files (snd (Cordon (New demo_cfg)))) = (Supervised GaveUp, w')"
    and "uw_drained w' = [CallCordon, CallUncordon]"
    using demo_upgrade by blast
  moreover have "\<not> s_draining (uw_sched w')"
    using sched_gate.session_discipline [OF demo_opts(8) run] \<open>uw_drained w' = _\<close> by simp
  ultimately show ?thesis by blast
qed

text \<open>
  A swap that succeeds drops the backup of the swap before it: after a restart that did not take,
  the next upgrade of the same process deletes the only file with the version that is running.
\<close>

lemma second_swap_drops_running_binary:
  assumes "settled E ip" and "settled E (ip @ ''.old'')" and "settled E sp" and "distinct [ip, ip @ ''.old'', sp]"
    and "uw_fs w ip = Some next" and "uw_fs w (ip @ ''.old'') = Some running"
    and "swapBinary E ip sp w = (Ret bk, w')"
  shows "uw_fs w' (ip @ ''.old'') = Some next"
proof -
  let ?bk = "ip @ ''.old''"
  from assms(7) obtain x v1 u v2 y v3 where a: "attempt (os_Remove E ?bk) w = (Ret x, v1)"
    and b: "onError (os_Rename E ip ?bk) (\<lambda>e. throw (Uerr ''moving current binary aside'' [e])) v1 = (Ret u, v2)"
    and c: "attempt (os_Rename E sp ip) v2 = (Ret y, v3)"
    and d: "(case y of
        Inr _ \<Rightarrow> ret ?bk
      | Inl e \<Rightarrow>
          andThen (attempt (os_Rename E ?bk ip)) (\<lambda>rolledBack.
          case rolledBack of
            Inl rb \<Rightarrow> throw (Uerr ''installing new binary: %w (and rollback failed: %w)'' [e, rb])
          | Inr _ \<Rightarrow> throw (Uerr ''installing new binary: %w (rolled back)'' [e]))) v3 = (Ret bk, w')"
    unfolding swapBinary_def Let_def andThen_Ret by blast
  have y: "\<exists>z. y = Inr z"
  proof (cases y)
    case (Inl e)
    with d obtain r :: "up_error + unit" and v where "(case r of
        Inl rb \<Rightarrow> throw (Uerr ''installing new binary: %w (and rollback failed: %w)'' [e, rb])
      | Inr _ \<Rightarrow> throw (Uerr ''installing new binary: %w (rolled back)'' [e])) v = (Ret bk, w')"
      by (auto simp only: sum.case andThen_Ret)
    then show ?thesis by (cases r) (simp_all add: throw_Ret)
  qed simp
  with d have w': "w' = v3" by (auto simp: ret_Ret)
  from b have b: "os_Rename E ip ?bk v1 = (Ret u, v2)" by (simp add: outcome_simps)
  from c y w' have c: "\<exists>z. os_Rename E sp ip v2 = (Ret z, w')" by (auto simp: attempt_Ret)
  have "uw_fs v1 ip = Some next"
    using a assms(1,4,5)
    by (auto simp: attempt_def os_Remove_def fs_call_def Let_def split: outcome.splits prod.splits option.splits)
  then have "uw_fs v2 ?bk = Some next"
    using b assms(1) by (auto simp: os_Rename_def fs_call_def Let_def split: option.splits)
  then show ?thesis
    using c assms(2,4) by (auto simp: os_Rename_def fs_call_def Let_def split: option.splits)
qed

text \<open>
  The drain waits for the jobs it can see. A dispatch that has registered its runner but is still
  creating its environment is not one of them: the wait is over at once and the job starts on the
  node that is about to restart.
\<close>

definition demo_provisioning :: world where
  "demo_provisioning = the (run_moves (start_world demo_cfg)
     (MvInput (InQueued (demo_event 1 [''linux''])) # replicate 8 (MvThread 0 (demo_answer 1)) @ [MvInput InCordon]))"

lemma drain_ignores_provisioning:
  "ws.reachable demo_cfg demo_provisioning \<and> s_draining (w_sched demo_provisioning) \<and>
   HeldSlots (w_sched demo_provisioning) = 1 \<and>
   (\<forall>w. uw_sched w = w_sched demo_provisioning \<longrightarrow> fst (waitDrain demo_upenv sched_drainer t p f w) = Ret ()) \<and>
   map_option (\<lambda>w. ActiveJobs (w_sched w)) (run_moves demo_provisioning (replicate 2 (MvThread 0 (demo_answer 1)))) = Some 1"
proof -
  have "run_moves (start_world demo_cfg)
     (MvInput (InQueued (demo_event 1 [''linux''])) # replicate 8 (MvThread 0 (demo_answer 1)) @ [MvInput InCordon]) \<noteq> None"
    by code_simp
  then have "ws.reachable demo_cfg demo_provisioning"
    unfolding demo_provisioning_def using run_moves_reachable start_reachable by fastforce
  moreover have "ActiveJobs (w_sched demo_provisioning) = 0" by code_simp
  then have "\<forall>w. uw_sched w = w_sched demo_provisioning \<longrightarrow> fst (waitDrain demo_upenv sched_drainer t p f w) = Ret ()"
    by (simp add: waitDrain_def Let_def demo_move sched_drainer_def)
  moreover have "s_draining (w_sched demo_provisioning)" by code_simp
  moreover have "HeldSlots (w_sched demo_provisioning) = 1" by code_simp
  moreover have "map_option (\<lambda>w. ActiveJobs (w_sched w))
      (run_moves demo_provisioning (replicate 2 (MvThread 0 (demo_answer 1)))) = Some 1"
    by code_simp
  ultimately show ?thesis by blast
qed

end
