(* ===== verification/Spec2Isabelle.thy ===== *)
theory Spec2Isabelle
  imports Retry_Properties Image_Collector Actions_Cache_System Bind_System Forge_Run_Laws Upgrade_System
begin

text \<open>
  A verification development of \<^verbatim>\<open>ephemerd\<close>, a daemon that turns queued CI jobs into
  ephemeral runners (containers, Linux VM containers, macOS VMs) and tears them down again.

  \<^bold>\<open>The program.\<close> \<^verbatim>\<open>pkg/scheduler\<close> is its core: providers deliver job events, \<^verbatim>\<open>handleQueued\<close>
  deduplicates them and sends each down one of three provisioning paths, each of which takes a
  concurrency slot, passes an admission gate, claims the job (registers a runner with the
  platform), creates the runner and leaves a goroutine behind that waits for it. Failed claims
  go to the retry queue. \<^verbatim>\<open>in_progress\<close> and \<^verbatim>\<open>completed\<close> events bind and destroy runners; an
  orphan sweep reaps those nobody uses, under the veto of a busy check. An operator can cordon
  the node; shutdown drains it. Around it stand the image garbage collector
  (\<^verbatim>\<open>pkg/imagegc\<close>), the cache server of \<^verbatim>\<open>actions/cache\<close> (\<^verbatim>\<open>pkg/proxies/actionscache\<close>, told by the
  scheduler which job a runner has), the bind mounts of the containers a job starts through its
  Docker socket (\<^verbatim>\<open>pkg/dind\<close>), the runner for Forgejo and Gitea jobs (\<^verbatim>\<open>pkg/forgerunner\<close>) and the
  upgrade of the daemon by itself (\<^verbatim>\<open>pkg/upgrade\<close>, which cordons the scheduler).

  \<^bold>\<open>The theories.\<close> Shared:
  \<^item> \<^verbatim>\<open>Prelude\<close>, \<^verbatim>\<open>Transition_System\<close>: time, Go strings, channels as semaphores, counting; the
    interface of a transition system (reachable states, invariants).
  \<^item> \<^verbatim>\<open>Strconv\<close>, \<^verbatim>\<open>Bufio\<close>, \<^verbatim>\<open>Posix_Path\<close>, \<^verbatim>\<open>Sha256\<close>, \<^verbatim>\<open>Float64\<close>, \<^verbatim>\<open>Go_Heap\<close>: what the packages use of
    Go's library: number parsing, the line scanner, paths, digests, rounded \<^verbatim>\<open>float64\<close> arithmetic,
    \<^verbatim>\<open>container/heap\<close> over an abstract interface.
  \<^item> \<^verbatim>\<open>Effects\<close>: code that talks to the outside, with a trace of the calls that matter.

  The scheduler:
  \<^item> \<^verbatim>\<open>Providers\<close>: events, claims, provider capabilities, errors (\<^verbatim>\<open>pkg/providers/provider.go\<close>).
  \<^item> \<^verbatim>\<open>Retry_Queue\<close>, \<^verbatim>\<open>Retry_Spec\<close>, \<^verbatim>\<open>Retry_Properties\<close>: \<^verbatim>\<open>retry_queue.go\<close> with its shared items
    and back pointers, the abstract map it implements, the refinement, and the delays.
  \<^item> \<^verbatim>\<open>Slots\<close>: \<^verbatim>\<open>slots.go\<close>, slot tokens and the registry of abandoned macOS VMs.
  \<^item> \<^verbatim>\<open>Sched_State\<close>: the \<^verbatim>\<open>Scheduler\<close> struct and the operations its handlers share.
  \<^item> \<^verbatim>\<open>Dispatch\<close>, \<^verbatim>\<open>Dispatch_Laws\<close>: the dispatch pipeline of \<^verbatim>\<open>scheduler.go\<close> as threads whose steps
    are the critical sections, calls and cleanup actions of the handlers, and what one step preserves.
  \<^item> \<^verbatim>\<open>Busy\<close>: \<^verbatim>\<open>pkg/runnerbusy\<close>, \<^verbatim>\<open>busy.go\<close> and \<^verbatim>\<open>busy_macosvm.go\<close>.
  \<^item> \<^verbatim>\<open>Events\<close>: platform events, the orphan sweep, pruning and shutdown.
  \<^item> \<^verbatim>\<open>System\<close>: the scheduler with all its goroutines, as a step relation; the invariants.
  \<^item> \<^verbatim>\<open>Runner_Laws\<close>, \<^verbatim>\<open>Runner_Safety\<close>: which runners may be destroyed.
  \<^item> \<^verbatim>\<open>Demo\<close>: concrete configurations and schedules on which the theorems are applied.

  The packages around it:
  \<^item> \<^verbatim>\<open>Image_GC\<close>, \<^verbatim>\<open>Image_Collector\<close>: \<^verbatim>\<open>plan.go\<close>, \<^verbatim>\<open>refs.go\<close> and \<^verbatim>\<open>pkg/diskspace\<close>; the passes of
    \<^verbatim>\<open>collector.go\<close> and \<^verbatim>\<open>imagegc.go\<close>, with their deletions as a trace.
  \<^item> \<^verbatim>\<open>Actions_Cache\<close>, \<^verbatim>\<open>Actions_Cache_Laws\<close>, \<^verbatim>\<open>Actions_Cache_System\<close>: scopes and registry names
    (\<^verbatim>\<open>scope.go\<close>), the index (\<^verbatim>\<open>index.go\<close>), the request handlers (\<^verbatim>\<open>actionscache.go\<close>); what each
    computes; and the server over any run of bindings and requests.
  \<^item> \<^verbatim>\<open>Bind_Kernel\<close>, \<^verbatim>\<open>Bind_Pin\<close>, \<^verbatim>\<open>Bind_Stage\<close>, \<^verbatim>\<open>Bind_Translate\<close>: the file system and the calls made on
    it; \<^verbatim>\<open>bindpin.go\<close>, \<^verbatim>\<open>bindstage.go\<close> with their Linux halves, \<^verbatim>\<open>bindtranslate.go\<close> and
    \<^verbatim>\<open>buildBindMounts\<close>. \<^verbatim>\<open>Bind_Pin_Laws\<close>, \<^verbatim>\<open>Bind_Translate_Laws\<close>, \<^verbatim>\<open>Bind_Walk_Spec\<close>, \<^verbatim>\<open>Bind_System\<close>: their
    laws against jobs that move between any two calls, the reference for the walk of
    paths, and the binds of all jobs of a node over any interleaving with sweeps and teardowns.
  \<^item> \<^verbatim>\<open>Forge_Commands\<close>, \<^verbatim>\<open>Forge_Run\<close>, \<^verbatim>\<open>Forge_Run_Laws\<close>: workflow commands and masking
    (\<^verbatim>\<open>commands.go\<close>), log reporter, step scripts and executor; the log carries no secret.
  \<^item> \<^verbatim>\<open>Upgrade_Names\<close>, \<^verbatim>\<open>Upgrade_World\<close>, \<^verbatim>\<open>Upgrade_Run\<close>: tags, assets and checksums; the world an
    upgrade runs in; \<^verbatim>\<open>upgrade.go\<close>, \<^verbatim>\<open>extract.go\<close>, \<^verbatim>\<open>swap_unix.go\<close>. \<^verbatim>\<open>Upgrade_Laws\<close> is a Hoare logic for
    it, \<^verbatim>\<open>Upgrade_Cordon\<close>, \<^verbatim>\<open>Upgrade_Verified\<close>, \<^verbatim>\<open>Upgrade_Ends\<close> the cordon protocol, the provenance of
    the installed bytes and the bounds; \<^verbatim>\<open>Upgrade_System\<close> states the properties.

  \<^bold>\<open>What is shown.\<close> Slots are accounted for in every reachable state, never leak and are not
  held by the cleanup code that destroys a runner; every dispatch ends, and nothing but a full pool
  or an unwinding VM delays it; a cordoned node stops registering runners; a job is provisioned
  at most five times between cleanup ticks; a runner at work on a job is neither destroyed by another
  job's completion nor reaped by the sweep; spares are kept while their label class can use
  them; the retry queue implements its contract, with bounds on its delays. The collector never
  deletes an image in use, plans the shortest prefix that helps, and arms its backoff only when an
  automatic pass leaves the disk over a watermark. The cache server writes, deletes and grants
  downloads within the scopes the scheduler granted only; downloads are slices of what was saved. The
  mounts of a job's containers stay inside what the job may see, and no staging directory is
  removed through a live mount. A forge job's log carries none of its (unstarred, at least three byte
  long) secrets. An upgrade installs verified bytes only, gives the cordon back, and ends.

  \<^bold>\<open>Conventions.\<close> What the world answers (clocks, platform APIs, containerd, VMs, registries, random
  draws, map iteration order, the arm a \<^verbatim>\<open>select\<close> takes) is an argument of the step that asks, and the
  parts of the world a package shares with others (files of jobs, the scheduler behind an
  upgrade) move before every call. Logging and metrics are left out. A thread's run is bounded by a
  rank of at most 60, the longest path through the pipeline; the log ticks of a slot wait are the one
  exception. The walk of a bind path follows forty symlinks, as the code does, and ends by the measure
  of links left and components left. Times are unbounded integers of nanoseconds; counters and
  sizes that the code compares against limits are kept at their width where wrap-around can be reached
  (disk usage, plans, the sizes a cache manifest claims, staging names) and are integers elsewhere;
  the sum of a cache namespace is an integer. Case folding and white space are ASCII. Requests of
  the cache server run one at a time, but for the window in \<^verbatim>\<open>storeBlock\<close> that is looked at on its own;
  the stager of a job's binds is one step per create, since it holds its mutex, while sweeps and
  teardowns are single system calls.

  \<^bold>\<open>Not modelled.\<close> The set-up part of \<^verbatim>\<open>Run\<close> (webhook servers, tunnels, reconcile polling), the
  health endpoint and the gRPC control surface; the packages that are I/O around libraries
  (containerd, HCS, Virtualization.framework, CNI, package proxies,
  forge clients, service managers); the text of JSON, XML and YAML, archive formats and the HTTP client
  of the registry (parameters that may fail); the test seams of the upgrade.
\<close>

section \<open>Concurrency slots\<close>

text \<open>
  C1. In every reachable state each pool's semaphore holds exactly as many entries as there
  are dispatch goroutines responsible for an unreleased slot of that pool, never more than
  its capacity, and the capacity is the one the scheduler was built with: no slot is
  leaked and none is drained twice, whatever order the handlers, events, retries, cordons
  and shutdowns interleave in.
\<close>

theorem slots_accounted:
  assumes "ws.reachable cfg w"
  shows "ch_len (semOf (w_sched w) p) = count_if (holds p) (w_threads w) \<and>
         count_if (holds p) (w_threads w) \<le> ch_cap (semOf (w_sched w) p) \<and>
         ch_cap (semOf (w_sched w) p) = ch_cap (semOf (New cfg) p)"
  using reachable_slots_inv [OF assms] reachable_caps [OF assms] by (simp add: slots_inv_def)

theorem slots_accounted_witness:
  "ws.reachable demo_cfg demo_running \<and> count_if (holds PoolLocal) (w_threads demo_running) = 1 \<and>
   ch_len (semOf (w_sched demo_running) PoolLocal) = 1 \<and> ch_cap (semOf (w_sched demo_running) PoolLocal) = 1"
proof -
  have "count_if (holds PoolLocal) (w_threads demo_running) = 1" "ch_cap (semOf (New demo_cfg) PoolLocal) = 1"
    by code_simp+
  then show ?thesis
    using slots_accounted [OF demo_running_reachable, of PoolLocal] demo_running_reachable by simp
qed

text \<open>
  When every dispatch has ended, the scheduler reports no slot held.
\<close>

theorem slots_all_returned:
  assumes "ws.reachable cfg w" and "\<forall>t\<in>set (w_threads w). th_pc t = PDone"
  shows "HeldSlots (w_sched w) = 0"
proof -
  have "\<not> holds p t" if "t \<in> set (w_threads w)" for p t
    using reachable_slots_inv [OF assms(1)] assms(2) that by (auto simp: slots_inv_def thread_ok_def holds_def)
  then have "ch_len (semOf (w_sched w) p) = 0" for p
    using reachable_slots_inv [OF assms(1)] by (simp add: slots_inv_def count_if_zero)
  from this [of PoolLocal] this [of PoolLinux] this [of PoolMacOS] show ?thesis
    by (simp add: HeldSlots_def SlotUsage_def)
qed

theorem slots_all_returned_witness:
  "length (w_threads demo_idle) = 2 \<and> HeldSlots (w_sched demo_idle) = 0"
proof -
  have "\<forall>t\<in>set (w_threads demo_idle). th_pc t = PDone" "length (w_threads demo_idle) = 2"
    by code_simp+
  then show ?thesis using slots_all_returned [OF demo_idle_reachable] by simp
qed

text \<open>
  C11. A dispatch goroutine that is not finished and is not waiting for a slot or for an
  abandoned virtual machine to unwind can always take its next step, whatever the calls it
  makes answer. In particular no release of a slot ever blocks: not the explicit ones on
  the failure paths, not the deferred backstop.
\<close>

theorem dispatch_progress:
  assumes "ws.reachable cfg w" and "t \<in> set (w_threads w)"
    and "\<not> finished (th_pc t)" and "\<not> external_wait (th_pc t)"
  shows "thread_step a (w_sched w) t \<noteq> None"
proof (rule progress_law [OF _ assms(3,4)])
  fix p assume "holds p t"
  then show "0 < ch_len (semOf (w_sched w) p)"
    using reachable_slots_inv [OF assms(1)] count_if_pos [OF assms(2)] by (simp add: slots_inv_def)
qed

theorem dispatch_progress_witness:
  "th_pc (w_threads demo_running ! 1) = PWaitJob \<and>
   thread_step (demo_answer 5) (w_sched demo_running) (w_threads demo_running ! 1) \<noteq> None"
proof -
  have pc: "th_pc (w_threads demo_running ! 1) = PWaitJob" and l: "1 < length (w_threads demo_running)"
    by code_simp+
  have "thread_step (demo_answer 5) (w_sched demo_running) (w_threads demo_running ! 1) \<noteq> None"
    by (rule dispatch_progress [OF demo_running_reachable nth_mem [OF l]], unfold pc) simp_all
  with pc show ?thesis by simp
qed

text \<open>
  C12. Every dispatch goroutine ends: however the rest of the daemon changes the state
  between its steps and whatever its calls answer, it takes at most 60 steps of its own, not
  counting the log ticks of a slot wait (which gives up after six hours).
\<close>

theorem dispatch_terminates:
  assumes "ws.reachable cfg w" and "t \<in> set (w_threads w)" and "own_steps t xs = Some t'"
  shows "length xs + rank (th_pc t') \<le> 60"
proof -
  have "pc_ok (th_pc t)" using reachable_sys_inv [OF assms(1)] assms(2) by (simp add: sys_inv_def)
  then show ?thesis using own_steps_bounded [OF assms(3)] rank_bounded by fastforce
qed

theorem dispatch_terminates_witness:
  "length [(demo_answer 5, w_sched demo_running), (demo_answer 6, w_sched demo_running)] + rank (PSeq
     [MRelease, MDestroyEnv ''r1'', MForgetCache ''r1'', MReleaseJob demo_claim, MReprovision]) \<le> 60"
proof -
  have l: "1 < length (w_threads demo_running)" by code_simp
  have "map_option th_pc (own_steps (w_threads demo_running ! 1)
          [(demo_answer 5, w_sched demo_running), (demo_answer 6, w_sched demo_running)]) =
        Some (PSeq [MRelease, MDestroyEnv ''r1'', MForgetCache ''r1'', MReleaseJob demo_claim, MReprovision])"
    by code_simp
  then obtain t' where "own_steps (w_threads demo_running ! 1)
      [(demo_answer 5, w_sched demo_running), (demo_answer 6, w_sched demo_running)] = Some t'"
    "th_pc t' = PSeq [MRelease, MDestroyEnv ''r1'', MForgetCache ''r1'', MReleaseJob demo_claim, MReprovision]"
    by auto
  then show ?thesis using dispatch_terminates [OF demo_running_reachable nth_mem [OF l]] by metis
qed

text \<open>
  C14. No goroutine tears a runner down (stops a VM, destroys an environment, asks the Linux
  dispatcher to) from its cleanup code while it still holds a concurrency slot: every such
  call comes after the release.
\<close>

theorem teardown_after_release:
  assumes "ws.reachable cfg w" and "t \<in> set (w_threads w)" and "th_pc t = PSeq (m # ms)" and "destroys m"
  shows "\<not> holds p t"
proof
  assume "holds p t"
  then have "safe_tail (m # ms)"
    using reachable_tail_ok [OF assms(1)] assms(2,3) unfolding tail_ok_def by blast
  with assms(4) show False by (auto simp: safe_tail_def)
qed

definition demo_tearing :: world where
  "demo_tearing = the (run_moves demo_running (replicate 3 (MvThread 1 (demo_answer 3))))"

theorem teardown_after_release_witness:
  "th_pc (w_threads demo_tearing ! 1) = PSeq [MDestroyEnv ''r1'', MForgetCache ''r1'', MReleaseJob demo_claim, MReprovision] \<and>
   \<not> holds PoolLocal (w_threads demo_tearing ! 1)"
proof -
  have l: "1 < length (w_threads demo_tearing)" and pc: "th_pc (w_threads demo_tearing ! 1) =
      PSeq [MDestroyEnv ''r1'', MForgetCache ''r1'', MReleaseJob demo_claim, MReprovision]"
    and s: "run_moves demo_running (replicate 3 (MvThread 1 (demo_answer 3))) \<noteq> None" by code_simp+
  have "ws.reachable demo_cfg demo_tearing"
    unfolding demo_tearing_def using run_moves_reachable [OF _ demo_running_reachable] s by fastforce
  from teardown_after_release [OF this nth_mem [OF l] pc] pc show ?thesis by simp
qed

section \<open>The cordon\<close>

text \<open>
  C2. While the scheduler stays cordoned, the only runners it registers with a platform are
  those of dispatches that were already inside \<^verbatim>\<open>claimJob\<close>'s loop when the cordon went up, at
  most one each; events, retries, re-provisioning and shutdown register none. A node with
  no claim in flight registers nothing until it is uncordoned.
\<close>

theorem cordon_bounds_registrations:
  assumes "ws.reachable cfg w" and "cordoned_run w w'"
  shows "registered w' \<le> registered w + claimants w"
  using cordoned_run_registers [OF assms(2,1)] by linarith

definition demo_cordoned :: world where
  "demo_cordoned = accept (accept (start_world demo_cfg) (InQueued (demo_event 1 [''linux'']))) InCordon"

theorem cordon_bounds_registrations_witness:
  "s_draining (w_sched demo_cordoned) \<and>
   registered (accept demo_cordoned (InQueued (demo_event 2 []))) \<le> registered demo_cordoned + claimants demo_cordoned"
proof -
  have r: "ws.reachable demo_cfg demo_cordoned"
    unfolding demo_cordoned_def using start_reachable w_input ws.reachable_step by meson
  have d: "s_draining (w_sched demo_cordoned)"
    "s_draining (w_sched (accept demo_cordoned (InQueued (demo_event 2 []))))" by code_simp+
  have "cordoned_run demo_cordoned (accept demo_cordoned (InQueued (demo_event 2 [])))"
    using cordoned_step [OF cordoned_refl [OF d(1)] w_input d(2)] .
  with d cordon_bounds_registrations [OF r] show ?thesis by simp
qed

section \<open>Admission\<close>

text \<open>
  C15. In any stretch of execution without a cleanup tick, at most five queued events of one
  job get through \<^verbatim>\<open>handleQueued\<close> to a provisioning path, however often the job is polled,
  retried, re-provisioned after a stranded runner or re-delivered.
\<close>

theorem zombie_cap:
  assumes "ws.reachable cfg w" and "tickless_run w w'"
  shows "admitted_jobs k w' \<le> admitted_jobs k w + 5"
proof -
  have "admitted_jobs k w' + (maxProvisionAttempts - s_attempts (w_sched w') k)
       \<le> admitted_jobs k w + (maxProvisionAttempts - s_attempts (w_sched w) k)"
    using tickless_run_admits [OF assms(2,1)] by blast
  then show ?thesis by (simp add: maxProvisionAttempts_def)
qed

theorem zombie_cap_witness:
  "admitted_jobs (keyFor (demo_event 1 [])) (accept demo_running (InQueued (demo_event 1 [])))
     \<le> admitted_jobs (keyFor (demo_event 1 [])) demo_running + 5"
proof (rule zombie_cap [OF demo_running_reachable])
  have "w_events demo_running = []" by code_simp
  then have "accept demo_running (InQueued (demo_event 1 [])) \<noteq> accept demo_running (InTick now)" for now
    by (auto simp: world.defs dest!: arg_cong [where f = w_events])
  then show "tickless_run demo_running (accept demo_running (InQueued (demo_event 1 [])))"
    by (rule tickless_step [OF tickless_refl w_input])
qed

text \<open>
  What one queued event does under the lock. It is let through exactly when the job is
  neither tracked nor pending, was not handled within the last ten minutes, the node is not
  cordoned and the job has been tried fewer than five times; then it is pending, stamped and
  counted. A job refused for the cordon is not counted and does not stay pending, and a
  duplicate leaves the state as it was.
\<close>

theorem handleQueued_spec:
  "handleQueued_locked s ev now =
     (let k = keyFor ev;
          duplicate = (running_of s k \<noteq> None \<or> k \<in> s_pending s \<or> (\<exists>t. s_seen s k = Some t \<and> now - t < seenTTL));
          stamped = s\<lparr>s_seen := (s_seen s)(k \<mapsto> now), s_jobLabels := (s_jobLabels s)(k \<mapsto> labelSetKey (ev_labels ev))\<rparr>;
          counted = stamped\<lparr>s_attempts := (s_attempts s)(k := s_attempts s k + 1)\<rparr>
      in if duplicate then (False, s)
         else if s_draining s then (False, stamped)
         else if s_attempts s k < 5 then (True, counted\<lparr>s_pending := insert k (s_pending s)\<rparr>)
         else (False, counted))"
  by (auto simp: handleQueued_locked_def Let_def maxProvisionAttempts_def split: option.splits)

theorem handleQueued_spec_witness:
  "handleQueued_locked demo_fleet (demo_event 1 []) 5 = (False, demo_fleet)"
proof -
  have "running_of demo_fleet (keyFor (demo_event 1 [])) \<noteq> None"
    using demo_fleet_running(1) by (simp add: demo_key_def demo_event_def demo_provider_def keyFor_def)
  then show ?thesis using handleQueued_spec [of demo_fleet "demo_event 1 []" 5] by (simp add: Let_def)
qed

end
